(* ===== verification/HttpTables.thy ===== *)
theory HttpTables
  imports Prelude
begin

text \<open>
  The constants of the HTTP parser: the enumerations of \<open>mbed-http/http_parser/http_parser.h\<close>
  and \<open>http_parser.c\<close>, the method strings, the flag bits, and the character classes with the
  tables they are computed from. The build is the default one, \<open>HTTP_PARSER_STRICT = 1\<close> and
  \<open>HTTP_MAX_HEADER_SIZE = 80 * 1024\<close>.
\<close>

section \<open>Methods, kinds of message, error numbers\<close>

datatype (plugins only: code size) http_method =
    HTTP_DELETE | HTTP_GET | HTTP_HEAD | HTTP_POST | HTTP_PUT | HTTP_CONNECT | HTTP_OPTIONS
  | HTTP_TRACE | HTTP_COPY | HTTP_LOCK | HTTP_MKCOL | HTTP_MOVE | HTTP_PROPFIND
  | HTTP_PROPPATCH | HTTP_SEARCH | HTTP_UNLOCK | HTTP_BIND | HTTP_REBIND | HTTP_UNBIND
  | HTTP_ACL | HTTP_REPORT | HTTP_MKACTIVITY | HTTP_CHECKOUT | HTTP_MERGE | HTTP_MSEARCH
  | HTTP_NOTIFY | HTTP_SUBSCRIBE | HTTP_UNSUBSCRIBE | HTTP_PATCH | HTTP_PURGE
  | HTTP_MKCALENDAR | HTTP_LINK | HTTP_UNLINK

definition http_methods :: "http_method list" where
  "http_methods =
     [HTTP_DELETE, HTTP_GET, HTTP_HEAD, HTTP_POST, HTTP_PUT, HTTP_CONNECT, HTTP_OPTIONS,
      HTTP_TRACE, HTTP_COPY, HTTP_LOCK, HTTP_MKCOL, HTTP_MOVE, HTTP_PROPFIND,
      HTTP_PROPPATCH, HTTP_SEARCH, HTTP_UNLOCK, HTTP_BIND, HTTP_REBIND, HTTP_UNBIND,
      HTTP_ACL, HTTP_REPORT, HTTP_MKACTIVITY, HTTP_CHECKOUT, HTTP_MERGE, HTTP_MSEARCH,
      HTTP_NOTIFY, HTTP_SUBSCRIBE, HTTP_UNSUBSCRIBE, HTTP_PATCH, HTTP_PURGE,
      HTTP_MKCALENDAR, HTTP_LINK, HTTP_UNLINK]"

text \<open>\<open>HTTP_METHOD_MAP\<close>: the number of each method, and the strings indexed by that number.\<close>

fun method_num :: "http_method \<Rightarrow> nat" where
  "method_num HTTP_DELETE = 0"
| "method_num HTTP_GET = 1"
| "method_num HTTP_HEAD = 2"
| "method_num HTTP_POST = 3"
| "method_num HTTP_PUT = 4"
| "method_num HTTP_CONNECT = 5"
| "method_num HTTP_OPTIONS = 6"
| "method_num HTTP_TRACE = 7"
| "method_num HTTP_COPY = 8"
| "method_num HTTP_LOCK = 9"
| "method_num HTTP_MKCOL = 10"
| "method_num HTTP_MOVE = 11"
| "method_num HTTP_PROPFIND = 12"
| "method_num HTTP_PROPPATCH = 13"
| "method_num HTTP_SEARCH = 14"
| "method_num HTTP_UNLOCK = 15"
| "method_num HTTP_BIND = 16"
| "method_num HTTP_REBIND = 17"
| "method_num HTTP_UNBIND = 18"
| "method_num HTTP_ACL = 19"
| "method_num HTTP_REPORT = 20"
| "method_num HTTP_MKACTIVITY = 21"
| "method_num HTTP_CHECKOUT = 22"
| "method_num HTTP_MERGE = 23"
| "method_num HTTP_MSEARCH = 24"
| "method_num HTTP_NOTIFY = 25"
| "method_num HTTP_SUBSCRIBE = 26"
| "method_num HTTP_UNSUBSCRIBE = 27"
| "method_num HTTP_PATCH = 28"
| "method_num HTTP_PURGE = 29"
| "method_num HTTP_MKCALENDAR = 30"
| "method_num HTTP_LINK = 31"
| "method_num HTTP_UNLINK = 32"

definition method_strings :: "string list" where
  "method_strings =
     [''DELETE'', ''GET'', ''HEAD'', ''POST'', ''PUT'', ''CONNECT'', ''OPTIONS'', ''TRACE'',
      ''COPY'', ''LOCK'', ''MKCOL'', ''MOVE'', ''PROPFIND'', ''PROPPATCH'', ''SEARCH'',
      ''UNLOCK'', ''BIND'', ''REBIND'', ''UNBIND'', ''ACL'', ''REPORT'', ''MKACTIVITY'',
      ''CHECKOUT'', ''MERGE'', ''M-SEARCH'', ''NOTIFY'', ''SUBSCRIBE'', ''UNSUBSCRIBE'',
      ''PATCH'', ''PURGE'', ''MKCALENDAR'', ''LINK'', ''UNLINK'']"

text \<open>\<open>http_method_str\<close> takes any number: \<open>ELEM_AT\<close> answers out of range.\<close>

definition http_method_str :: "nat \<Rightarrow> string" where
  "http_method_str m =
     (if m < length method_strings then method_strings ! m else ''<unknown>'')"

text \<open>The matcher the parser reads for a method.\<close>

abbreviation method_name :: "http_method \<Rightarrow> string" where
  "method_name m \<equiv> method_strings ! method_num m"

datatype http_parser_type = HTTP_REQUEST | HTTP_RESPONSE | HTTP_BOTH

datatype (plugins only: code size) http_errno =
    HPE_OK
  | HPE_CB_message_begin | HPE_CB_url | HPE_CB_header_field | HPE_CB_header_value
  | HPE_CB_headers_complete | HPE_CB_body | HPE_CB_message_complete | HPE_CB_status
  | HPE_CB_chunk_header | HPE_CB_chunk_complete
  | HPE_INVALID_EOF_STATE | HPE_HEADER_OVERFLOW | HPE_CLOSED_CONNECTION | HPE_INVALID_VERSION
  | HPE_INVALID_STATUS | HPE_INVALID_METHOD | HPE_INVALID_URL | HPE_INVALID_HOST
  | HPE_INVALID_PORT | HPE_INVALID_PATH | HPE_INVALID_QUERY_STRING | HPE_INVALID_FRAGMENT
  | HPE_LF_EXPECTED | HPE_INVALID_HEADER_TOKEN | HPE_INVALID_CONTENT_LENGTH
  | HPE_UNEXPECTED_CONTENT_LENGTH | HPE_INVALID_CHUNK_SIZE | HPE_INVALID_CONSTANT
  | HPE_INVALID_INTERNAL_STATE | HPE_STRICT | HPE_PAUSED | HPE_UNKNOWN

section \<open>Flags\<close>

definition F_CHUNKED :: u8 where "F_CHUNKED = 2 ^ 0"
definition F_CONNECTION_KEEP_ALIVE :: u8 where "F_CONNECTION_KEEP_ALIVE = 2 ^ 1"
definition F_CONNECTION_CLOSE :: u8 where "F_CONNECTION_CLOSE = 2 ^ 2"
definition F_CONNECTION_UPGRADE :: u8 where "F_CONNECTION_UPGRADE = 2 ^ 3"
definition F_TRAILING :: u8 where "F_TRAILING = 2 ^ 4"
definition F_UPGRADE :: u8 where "F_UPGRADE = 2 ^ 5"
definition F_SKIPBODY :: u8 where "F_SKIPBODY = 2 ^ 6"
definition F_CONTENTLENGTH :: u8 where "F_CONTENTLENGTH = 2 ^ 7"

lemmas F_defs = F_CHUNKED_def F_CONNECTION_KEEP_ALIVE_def F_CONNECTION_CLOSE_def
  F_CONNECTION_UPGRADE_def F_TRAILING_def F_UPGRADE_def F_SKIPBODY_def F_CONTENTLENGTH_def

text \<open>\<open>fl & f\<close> as a C condition.\<close>

definition has_flag :: "u8 \<Rightarrow> u8 \<Rightarrow> bool" where
  "has_flag fl f \<longleftrightarrow> fl AND f \<noteq> 0"

lemma has_flag_bit [flag_simps]:
  "has_flag fl F_CHUNKED = bit fl 0"
  "has_flag fl F_CONNECTION_KEEP_ALIVE = bit fl 1"
  "has_flag fl F_CONNECTION_CLOSE = bit fl 2"
  "has_flag fl F_CONNECTION_UPGRADE = bit fl 3"
  "has_flag fl F_TRAILING = bit fl 4"
  "has_flag fl F_UPGRADE = bit fl 5"
  "has_flag fl F_SKIPBODY = bit fl 6"
  "has_flag fl F_CONTENTLENGTH = bit fl 7"
  unfolding has_flag_def F_defs by (rule and_exp_test)+

lemma has_flag_or: "has_flag (a OR b) f \<longleftrightarrow> has_flag a f \<or> has_flag b f"
proof -
  have "(a OR b) AND f = (a AND f) OR (b AND f)"
    by (simp add: bit.conj_disj_distrib2)
  then show ?thesis by (simp add: has_flag_def or_eq_0_iff)
qed

lemma has_flag_zero [simp]: "\<not> has_flag 0 f"
  by (simp add: has_flag_def)

lemma has_flag_self [simp]:
  "has_flag F_CHUNKED F_CHUNKED" "has_flag F_SKIPBODY F_SKIPBODY"
  "has_flag F_TRAILING F_TRAILING" "has_flag F_CONTENTLENGTH F_CONTENTLENGTH"
  by (simp_all add: has_flag_def F_defs)

section \<open>Parser states\<close>

datatype (plugins only: code size) state =
    s_dead
  | s_start_req_or_res | s_res_or_resp_H | s_start_res | s_res_H | s_res_HT | s_res_HTT
  | s_res_HTTP | s_res_first_http_major | s_res_http_major | s_res_first_http_minor
  | s_res_http_minor | s_res_first_status_code | s_res_status_code | s_res_status_start
  | s_res_status | s_res_line_almost_done
  | s_start_req
  | s_req_method | s_req_spaces_before_url | s_req_schema | s_req_schema_slash
  | s_req_schema_slash_slash | s_req_server_start | s_req_server | s_req_server_with_at
  | s_req_path | s_req_query_string_start | s_req_query_string | s_req_fragment_start
  | s_req_fragment | s_req_http_start | s_req_http_H | s_req_http_HT | s_req_http_HTT
  | s_req_http_HTTP | s_req_first_http_major | s_req_http_major | s_req_first_http_minor
  | s_req_http_minor | s_req_line_almost_done
  | s_header_field_start | s_header_field | s_header_value_discard_ws
  | s_header_value_discard_ws_almost_done | s_header_value_discard_lws | s_header_value_start
  | s_header_value | s_header_value_lws
  | s_header_almost_done
  | s_chunk_size_start | s_chunk_size | s_chunk_parameters | s_chunk_size_almost_done
  | s_headers_almost_done | s_headers_done
  | s_chunk_data | s_chunk_data_almost_done | s_chunk_data_done
  | s_body_identity | s_body_identity_eof
  | s_message_done

text \<open>
  \<open>PARSING_HEADER(state)\<close> is \<open>state <= s_headers_done\<close> in the order of the enumeration: every
  state but the six listed after \<open>s_headers_done\<close>.
\<close>

fun PARSING_HEADER :: "state \<Rightarrow> bool" where
  "PARSING_HEADER s_chunk_data = False"
| "PARSING_HEADER s_chunk_data_almost_done = False"
| "PARSING_HEADER s_chunk_data_done = False"
| "PARSING_HEADER s_body_identity = False"
| "PARSING_HEADER s_body_identity_eof = False"
| "PARSING_HEADER s_message_done = False"
| "PARSING_HEADER _ = True"

datatype (plugins only: code size) header_states =
    h_general | h_C | h_CO | h_CON
  | h_matching_connection | h_matching_proxy_connection | h_matching_content_length
  | h_matching_transfer_encoding | h_matching_upgrade
  | h_connection | h_content_length | h_transfer_encoding | h_upgrade
  | h_matching_transfer_encoding_chunked | h_matching_connection_token_start
  | h_matching_connection_keep_alive | h_matching_connection_close
  | h_matching_connection_upgrade | h_matching_connection_token
  | h_transfer_encoding_chunked | h_connection_keep_alive | h_connection_close
  | h_connection_upgrade

definition PROXY_CONNECTION :: string where "PROXY_CONNECTION = ''proxy-connection''"
definition CONNECTION :: string where "CONNECTION = ''connection''"
definition CONTENT_LENGTH :: string where "CONTENT_LENGTH = ''content-length''"
definition TRANSFER_ENCODING :: string where "TRANSFER_ENCODING = ''transfer-encoding''"
definition UPGRADE :: string where "UPGRADE = ''upgrade''"
definition CHUNKED :: string where "CHUNKED = ''chunked''"
definition KEEP_ALIVE :: string where "KEEP_ALIVE = ''keep-alive''"
definition CLOSE :: string where "CLOSE = ''close''"

definition HTTP_MAX_HEADER_SIZE :: u32 where "HTTP_MAX_HEADER_SIZE = 80 * 1024"

definition ULLONG_MAX :: u64 where "ULLONG_MAX = - 1"

section \<open>Character classes\<close>

text \<open>\<open>LOWER(c)\<close> is \<open>(unsigned char)(c | 0x20)\<close>: it sets bit 5.\<close>

fun LOWER :: "char \<Rightarrow> char" where
  "LOWER (Char b0 b1 b2 b3 b4 b5 b6 b7) = Char b0 b1 b2 b3 b4 True b6 b7"

definition in_range :: "char \<Rightarrow> char \<Rightarrow> char \<Rightarrow> bool" where
  "in_range lo hi c \<longleftrightarrow> c_ord lo \<le> c_ord c \<and> c_ord c \<le> c_ord hi"

definition IS_ALPHA :: "char \<Rightarrow> bool" where
  "IS_ALPHA c \<longleftrightarrow> in_range (CHR ''a'') (CHR ''z'') (LOWER c)"

definition IS_NUM :: "char \<Rightarrow> bool" where
  "IS_NUM c \<longleftrightarrow> in_range (CHR ''0'') (CHR ''9'') c"

definition IS_ALPHANUM :: "char \<Rightarrow> bool" where
  "IS_ALPHANUM c \<longleftrightarrow> IS_ALPHA c \<or> IS_NUM c"

definition IS_HEX :: "char \<Rightarrow> bool" where
  "IS_HEX c \<longleftrightarrow> IS_NUM c \<or> in_range (CHR ''a'') (CHR ''f'') (LOWER c)"

definition IS_MARK :: "char \<Rightarrow> bool" where
  "IS_MARK c \<longleftrightarrow> c \<in> set [CHR ''-'', CHR ''_'', CHR ''.'', CHR ''!'', CHR ''~'', CHR ''*'',
     CHR 0x27, CHR ''('', CHR '')'']"

definition IS_USERINFO_CHAR :: "char \<Rightarrow> bool" where
  "IS_USERINFO_CHAR c \<longleftrightarrow> IS_ALPHANUM c \<or> IS_MARK c \<or>
     c \<in> set [CHR ''%'', CHR '';'', CHR '':'', CHR ''&'', CHR ''='', CHR ''+'', CHR ''$'', CHR '','']"

definition IS_HOST_CHAR :: "char \<Rightarrow> bool" where
  "IS_HOST_CHAR c \<longleftrightarrow> IS_ALPHANUM c \<or> c = CHR ''.'' \<or> c = CHR ''-''"

definition IS_HEADER_CHAR :: "char \<Rightarrow> bool" where
  "IS_HEADER_CHAR c \<longleftrightarrow>
     c = CR \<or> c = LF \<or> c = TAB \<or> (c_ord c > 31 \<and> c \<noteq> CHR 0x7F)"

text \<open>The digit value \<open>ch - '0'\<close> of a decimal digit.\<close>

definition digit_val :: "char \<Rightarrow> nat" where
  "digit_val c = c_ord c - c_ord (CHR ''0'')"

lemmas char_class_defs = in_range_def IS_ALPHA_def IS_NUM_def IS_ALPHANUM_def IS_HEX_def
  IS_MARK_def IS_USERINFO_CHAR_def IS_HOST_CHAR_def IS_HEADER_CHAR_def c_ord_def digit_val_def

subsection \<open>The tables\<close>

text \<open>\<open>tokens[256]\<close>: 0 for a character that no token may hold, else the character lowercased.\<close>

definition tokens :: string where
  "tokens =
     replicate 32 NUL
     @ [NUL] @ ''!'' @ [NUL] @ ''#$%&'' @ [CHR 0x27]
     @ [NUL, NUL] @ ''*+'' @ [NUL] @ ''-.'' @ [NUL]
     @ ''0123456789'' @ replicate 6 NUL
     @ [NUL] @ ''abcdefghijklmnopqrstuvwxyz'' @ [NUL, NUL, NUL] @ ''^_''
     @ [CHR 0x60] @ ''abcdefghijklmnopqrstuvwxyz'' @ [NUL] @ ''|'' @ [NUL] @ ''~'' @ [NUL]
     @ replicate 128 NUL"

text \<open>\<open>STRICT_TOKEN\<close>, which is also \<open>TOKEN\<close> in the strict build.\<close>

definition STRICT_TOKEN :: "char \<Rightarrow> char" where
  "STRICT_TOKEN c = tokens ! c_ord c"

text \<open>
  \<open>unhex[256]\<close> with \<open>None\<close> for \<open>-1\<close>. The C array gives its first 128 entries and leaves
  the others to be zero-filled.
\<close>

definition unhex_table :: "int list" where
  "unhex_table =
     replicate 48 (-1) @ [0, 1, 2, 3, 4, 5, 6, 7, 8, 9] @ replicate 7 (-1)
     @ [10, 11, 12, 13, 14, 15] @ replicate 26 (-1) @ [10, 11, 12, 13, 14, 15]
     @ replicate 25 (-1) @ replicate 128 0"

definition unhex :: "char \<Rightarrow> int" where
  "unhex c = unhex_table ! c_ord c"

text \<open>\<open>normal_url_char[32]\<close> in the strict build (\<open>T(v)\<close> is 0), one byte per eight characters.\<close>

definition normal_url_char :: "u8 list" where
  "normal_url_char =
     [0, 0, 0, 0,
      0 OR 2 OR 4 OR 0 OR 16 OR 32 OR 64 OR 128, 255, 255, 127,
      255, 255, 255, 255,
      255, 255, 255, 127] @ replicate 16 0"

text \<open>\<open>BIT_AT(a, i)\<close>.\<close>

definition BIT_AT :: "u8 list \<Rightarrow> nat \<Rightarrow> bool" where
  "BIT_AT a i \<longleftrightarrow> bit (a ! (i div 8)) (i mod 8)"

definition IS_URL_CHAR :: "char \<Rightarrow> bool" where
  "IS_URL_CHAR c \<longleftrightarrow> BIT_AT normal_url_char (c_ord c)"

section \<open>What the tables hold\<close>

text \<open>
  A token character of RFC 2616: letters (lowercased), digits and fifteen of the visible
  characters that are not separators.
\<close>

definition token_spec :: "char \<Rightarrow> char" where
  "token_spec c =
     (if IS_ALPHA c then LOWER c
      else if IS_NUM c \<or> c \<in> set ''!#$%&*+-.^_|~'' \<or> c = CHR 0x27 \<or> c = CHR 0x60 then c
      else NUL)"

lemma tokens_eq: "tokens = map token_spec all_chars"
  by (simp add: all_chars_def tokens_def token_spec_def char_class_defs)

lemma STRICT_TOKEN_eq: "STRICT_TOKEN c = token_spec c"
  unfolding STRICT_TOKEN_def by (rule table_char) (rule tokens_eq)

definition unhex_spec :: "char \<Rightarrow> int" where
  "unhex_spec c =
     (if IS_NUM c then int (digit_val c)
      else if in_range (CHR ''a'') (CHR ''f'') (LOWER c)
      then int (c_ord (LOWER c) - c_ord (CHR ''a'')) + 10
      else if c_ord c < 128 then - 1 else 0)"

lemma unhex_table_eq: "unhex_table = map unhex_spec all_chars"
  by (simp add: all_chars_def unhex_table_def unhex_spec_def char_class_defs)

lemma unhex_eq: "unhex c = unhex_spec c"
  unfolding unhex_def by (rule table_char) (rule unhex_table_eq)

lemma unhex_range: "- 1 \<le> unhex c \<and> unhex c \<le> 15"
proof -
  have "list_all (\<lambda>c. - 1 \<le> unhex_spec c \<and> unhex_spec c \<le> 15) all_chars"
    by (simp add: all_chars_def unhex_spec_def char_class_defs)
  then show ?thesis unfolding unhex_eq by (rule all_chars_forall)
qed

definition url_char_spec :: "char \<Rightarrow> bool" where
  "url_char_spec c \<longleftrightarrow>
     32 < c_ord c \<and> c_ord c < 127 \<and> c \<noteq> CHR ''#'' \<and> c \<noteq> CHR ''?''"

lemma IS_URL_CHAR_eq: "IS_URL_CHAR c = url_char_spec c"
proof -
  have "list_all (\<lambda>c. IS_URL_CHAR c = url_char_spec c) all_chars"
    by (simp add: all_chars_def IS_URL_CHAR_def BIT_AT_def normal_url_char_def
        url_char_spec_def c_ord_def)
  then show ?thesis by (rule all_chars_forall)
qed

lemmas class_eval = STRICT_TOKEN_eq token_spec_def unhex_eq unhex_spec_def IS_URL_CHAR_eq
  url_char_spec_def char_class_defs

lemma digit_val_less: "IS_NUM c \<Longrightarrow> digit_val c < 10"
  by (auto simp: char_class_defs)

lemma IS_NUM_not_special: "IS_NUM c \<Longrightarrow> c \<noteq> CR \<and> c \<noteq> LF \<and> c \<noteq> SP \<and> c \<noteq> NUL"
  by (auto simp: char_class_defs)

text \<open>
  C25: The three lookup tables of the parser hold what their character classes say, for all 256
  bytes: \<open>STRICT_TOKEN\<close> gives the lowercased token characters of RFC 2616 and 0 for the others;
  \<open>IS_URL_CHAR\<close> holds of the visible ASCII characters except \<open>#\<close> and \<open>?\<close>; \<open>unhex\<close> gives the
  value of a hexadecimal digit and -1 for the other ASCII characters, but 0 for every byte from 128
  on, which the initialiser leaves out: such a byte counts as a digit of a chunk size.
\<close>

theorem lookup_tables:
  "STRICT_TOKEN c = token_spec c \<and> IS_URL_CHAR c = url_char_spec c \<and> unhex c = unhex_spec c"
  by (intro conjI STRICT_TOKEN_eq IS_URL_CHAR_eq unhex_eq)

end
