(* ===== verification/HttpState.thy ===== *)
theory HttpState
  imports HttpTables
begin

text \<open>
  The state of the HTTP parser and the control macros of \<open>http_parser.c\<close>: the parser structure
  with its bit fields, the settings (callbacks), the local variables of one call of
  \<open>http_parser_execute\<close>, and the ways a block of its \<open>switch\<close> can end. The macros
  \<open>CALLBACK_NOTIFY\<close>, \<open>CALLBACK_DATA\<close>, \<open>MARK\<close>, \<open>COUNT_HEADER_SIZE\<close>, \<open>STRICT_CHECK\<close> and
  \<open>RETURN\<close> take the statements after them as a continuation, because they can leave the function.

  A callback is a function of the parser and of the client's own state \<open>'e\<close> (what the C
  callbacks reach through \<open>parser->data\<close>); it may change both, and the model reads the parser it
  hands back, as the code does.
\<close>

section \<open>The parser and its settings\<close>

record http_parser =
  hp_type :: http_parser_type
  hp_flags :: u8
  hp_state :: state
  hp_header_state :: header_states
  hp_index :: "7 word"
  hp_lenient_http_headers :: bool
  hp_nread :: u32
  hp_content_length :: u64
  hp_http_major :: u16
  hp_http_minor :: u16
  hp_status_code :: u16
  hp_method :: http_method
  hp_errno :: http_errno
  hp_upgrade :: bool

type_synonym 'e http_cb = "http_parser \<Rightarrow> 'e \<Rightarrow> int \<times> http_parser \<times> 'e"
type_synonym 'e http_data_cb = "http_parser \<Rightarrow> string \<Rightarrow> 'e \<Rightarrow> int \<times> http_parser \<times> 'e"

record 'e http_parser_settings =
  on_message_begin :: "'e http_cb option"
  on_url :: "'e http_data_cb option"
  on_status :: "'e http_data_cb option"
  on_header_field :: "'e http_data_cb option"
  on_header_value :: "'e http_data_cb option"
  on_headers_complete :: "'e http_cb option"
  on_body :: "'e http_data_cb option"
  on_message_complete :: "'e http_cb option"
  on_chunk_header :: "'e http_cb option"
  on_chunk_complete :: "'e http_cb option"

definition http_parser_settings_init :: "'e http_parser_settings" where
  "http_parser_settings_init =
     \<lparr>on_message_begin = None, on_url = None, on_status = None, on_header_field = None,
      on_header_value = None, on_headers_complete = None, on_body = None,
      on_message_complete = None, on_chunk_header = None, on_chunk_complete = None\<rparr>"

text \<open>\<open>memset\<close> clears every field; the zero of each enumeration is its first constant.\<close>

definition http_parser_init :: "http_parser_type \<Rightarrow> http_parser" where
  "http_parser_init t =
     \<lparr>hp_type = t, hp_flags = 0,
      hp_state = (if t = HTTP_REQUEST then s_start_req
                  else if t = HTTP_RESPONSE then s_start_res else s_start_req_or_res),
      hp_header_state = h_general, hp_index = 0, hp_lenient_http_headers = False, hp_nread = 0,
      hp_content_length = 0, hp_http_major = 0, hp_http_minor = 0, hp_status_code = 0,
      hp_method = HTTP_DELETE, hp_errno = HPE_OK, hp_upgrade = False\<rparr>"

definition http_parser_pause :: "bool \<Rightarrow> http_parser \<Rightarrow> http_parser option" where
  "http_parser_pause paused pr =
     (if hp_errno pr = HPE_OK \<or> hp_errno pr = HPE_PAUSED
      then Some (pr\<lparr>hp_errno := (if paused then HPE_PAUSED else HPE_OK)\<rparr>)
      else None)"

definition http_body_is_final :: "http_parser \<Rightarrow> bool" where
  "http_body_is_final pr \<longleftrightarrow> hp_state pr = s_message_done"

definition http_message_needs_eof :: "http_parser \<Rightarrow> bool" where
  "http_message_needs_eof pr =
     (if hp_type pr = HTTP_REQUEST then False
      else if hp_status_code pr div 100 = 1 \<or> hp_status_code pr = 204 \<or>
              hp_status_code pr = 304 \<or> has_flag (hp_flags pr) F_SKIPBODY then False
      else if has_flag (hp_flags pr) F_CHUNKED \<or> hp_content_length pr \<noteq> ULLONG_MAX then False
      else True)"

definition http_should_keep_alive :: "http_parser \<Rightarrow> bool" where
  "http_should_keep_alive pr =
     (if hp_http_major pr > 0 \<and> hp_http_minor pr > 0 then
        (if has_flag (hp_flags pr) F_CONNECTION_CLOSE then False
         else \<not> http_message_needs_eof pr)
      else
        (if \<not> has_flag (hp_flags pr) F_CONNECTION_KEEP_ALIVE then False
         else \<not> http_message_needs_eof pr))"

definition start_state :: "http_parser \<Rightarrow> state" where
  "start_state pr = (if hp_type pr = HTTP_REQUEST then s_start_req else s_start_res)"

definition NEW_MESSAGE :: "http_parser \<Rightarrow> state" where
  "NEW_MESSAGE pr = (if http_should_keep_alive pr then start_state pr else s_dead)"

section \<open>One call of \<open>http_parser_execute\<close>\<close>

text \<open>The five marks \<open>header_field_mark\<close>, \<open>header_value_mark\<close>, \<open>url_mark\<close>, \<open>body_mark\<close>, \<open>status_mark\<close>.\<close>

datatype mark = M_header_field | M_header_value | M_url | M_body | M_status

text \<open>
  The local variables: the parser and the client's state (reached by pointer), the position
  \<open>p - data\<close>, the current byte \<open>ch\<close>, \<open>p_state\<close>, \<open>lenient\<close>, and the marks as offsets into the
  buffer (\<open>None\<close> for a null mark).
\<close>

record 'e exec =
  x_parser :: http_parser
  x_env :: 'e
  x_p :: nat
  x_ch :: char
  x_state :: state
  x_lenient :: bool
  x_mark :: "mark \<Rightarrow> nat option"

text \<open>
  How a block of the switch ends: \<open>break\<close>, \<open>goto reexecute\<close>, \<open>return n\<close>, \<open>goto error\<close>.
  \<open>Fault\<close> is what C leaves undefined or aborts on: a failed \<open>assert\<close>, a read past a string.
\<close>

datatype 'x outcome = Break 'x | Reexecute 'x | Return nat 'x | Error 'x | Fault

definition upd :: "(http_parser \<Rightarrow> http_parser) \<Rightarrow> 'e exec \<Rightarrow> 'e exec" where
  "upd f x = x\<lparr>x_parser := f (x_parser x)\<rparr>"

definition UPDATE_STATE :: "state \<Rightarrow> 'e exec \<Rightarrow> 'e exec" where
  "UPDATE_STATE s x = x\<lparr>x_state := s\<rparr>"

definition MARK :: "mark \<Rightarrow> 'e exec \<Rightarrow> 'e exec" where
  "MARK m x = (if x_mark x m = None then x\<lparr>x_mark := (x_mark x)(m := Some (x_p x))\<rparr> else x)"

text \<open>\<open>SET_ERRNO(e); goto error\<close>\<close>

definition fail :: "http_errno \<Rightarrow> 'e exec \<Rightarrow> 'e exec outcome" where
  "fail e x = Error (upd (\<lambda>pr. pr\<lparr>hp_errno := e\<rparr>) x)"

definition RETURN :: "nat \<Rightarrow> 'e exec \<Rightarrow> 'e exec outcome" where
  "RETURN n x = Return n (upd (\<lambda>pr. pr\<lparr>hp_state := x_state x\<rparr>) x)"

definition assert_then :: "bool \<Rightarrow> 'x outcome \<Rightarrow> 'x outcome" where
  "assert_then b k = (if b then k else Fault)"

definition STRICT_CHECK :: "bool \<Rightarrow> 'e exec \<Rightarrow> ('e exec \<Rightarrow> 'e exec outcome) \<Rightarrow> 'e exec outcome" where
  "STRICT_CHECK b x k = (if b then fail HPE_STRICT x else k x)"

definition COUNT_HEADER_SIZE ::
    "nat \<Rightarrow> 'e exec \<Rightarrow> ('e exec \<Rightarrow> 'e exec outcome) \<Rightarrow> 'e exec outcome" where
  "COUNT_HEADER_SIZE v x k =
     (let x' = upd (\<lambda>pr. pr\<lparr>hp_nread := hp_nread pr + of_nat v\<rparr>) x
      in if hp_nread (x_parser x') > HTTP_MAX_HEADER_SIZE then fail HPE_HEADER_OVERFLOW x'
         else k x')"

subsection \<open>Callbacks\<close>

datatype notify = N_message_begin | N_message_complete | N_chunk_header | N_chunk_complete

fun notify_cb :: "'e http_parser_settings \<Rightarrow> notify \<Rightarrow> 'e http_cb option" where
  "notify_cb S N_message_begin = on_message_begin S"
| "notify_cb S N_message_complete = on_message_complete S"
| "notify_cb S N_chunk_header = on_chunk_header S"
| "notify_cb S N_chunk_complete = on_chunk_complete S"

fun notify_errno :: "notify \<Rightarrow> http_errno" where
  "notify_errno N_message_begin = HPE_CB_message_begin"
| "notify_errno N_message_complete = HPE_CB_message_complete"
| "notify_errno N_chunk_header = HPE_CB_chunk_header"
| "notify_errno N_chunk_complete = HPE_CB_chunk_complete"

fun data_cb :: "'e http_parser_settings \<Rightarrow> mark \<Rightarrow> 'e http_data_cb option" where
  "data_cb S M_header_field = on_header_field S"
| "data_cb S M_header_value = on_header_value S"
| "data_cb S M_url = on_url S"
| "data_cb S M_body = on_body S"
| "data_cb S M_status = on_status S"

fun data_errno :: "mark \<Rightarrow> http_errno" where
  "data_errno M_header_field = HPE_CB_header_field"
| "data_errno M_header_value = HPE_CB_header_value"
| "data_errno M_url = HPE_CB_url"
| "data_errno M_body = HPE_CB_body"
| "data_errno M_status = HPE_CB_status"

text \<open>
  The common part of both macros: \<open>f\<close> is the callback applied to its arguments, \<open>e\<close> its error,
  \<open>er\<close> the value to return when it failed or paused the parser.
\<close>

definition run_callback ::
    "'e http_cb \<Rightarrow> http_errno \<Rightarrow> nat \<Rightarrow> 'e exec \<Rightarrow> ('e exec \<Rightarrow> 'e exec outcome) \<Rightarrow> 'e exec outcome" where
  "run_callback f e er x k =
     (case f ((x_parser x)\<lparr>hp_state := x_state x\<rparr>) (x_env x) of (r, pr, env) \<Rightarrow>
        let pr' = (if r \<noteq> 0 then pr\<lparr>hp_errno := e\<rparr> else pr);
            x' = x\<lparr>x_parser := pr', x_env := env, x_state := hp_state pr'\<rparr>
        in if hp_errno pr' \<noteq> HPE_OK then Return er x' else k x')"

definition CALLBACK_NOTIFY_ER ::
    "'e http_parser_settings \<Rightarrow> notify \<Rightarrow> nat \<Rightarrow> 'e exec \<Rightarrow>
     ('e exec \<Rightarrow> 'e exec outcome) \<Rightarrow> 'e exec outcome" where
  "CALLBACK_NOTIFY_ER S n er x k =
     assert_then (hp_errno (x_parser x) = HPE_OK)
       (case notify_cb S n of None \<Rightarrow> k x | Some f \<Rightarrow> run_callback f (notify_errno n) er x k)"

definition CALLBACK_NOTIFY ::
    "'e http_parser_settings \<Rightarrow> notify \<Rightarrow> 'e exec \<Rightarrow>
     ('e exec \<Rightarrow> 'e exec outcome) \<Rightarrow> 'e exec outcome" where
  "CALLBACK_NOTIFY S n x k = CALLBACK_NOTIFY_ER S n (x_p x + 1) x k"

definition CALLBACK_NOTIFY_NOADVANCE ::
    "'e http_parser_settings \<Rightarrow> notify \<Rightarrow> 'e exec \<Rightarrow>
     ('e exec \<Rightarrow> 'e exec outcome) \<Rightarrow> 'e exec outcome" where
  "CALLBACK_NOTIFY_NOADVANCE S n x k = CALLBACK_NOTIFY_ER S n (x_p x) x k"

text \<open>\<open>CALLBACK_DATA_(FOR, LEN, ER)\<close>; \<open>to\<close> is the end of the run, \<open>LEN = to - FOR_mark\<close>.\<close>

definition CALLBACK_DATA_ER ::
    "'e http_parser_settings \<Rightarrow> string \<Rightarrow> mark \<Rightarrow> nat \<Rightarrow> nat \<Rightarrow> 'e exec \<Rightarrow>
     ('e exec \<Rightarrow> 'e exec outcome) \<Rightarrow> 'e exec outcome" where
  "CALLBACK_DATA_ER S data m to er x k =
     assert_then (hp_errno (x_parser x) = HPE_OK)
       (case x_mark x m of
          None \<Rightarrow> k x
        | Some i \<Rightarrow>
            (let clear = (\<lambda>x. x\<lparr>x_mark := (x_mark x)(m := None)\<rparr>)
             in case data_cb S m of
                  None \<Rightarrow> k (clear x)
                | Some f \<Rightarrow>
                    run_callback (\<lambda>pr. f pr (slice data i (to - i))) (data_errno m) er x
                      (\<lambda>x. k (clear x))))"

definition CALLBACK_DATA ::
    "'e http_parser_settings \<Rightarrow> string \<Rightarrow> mark \<Rightarrow> 'e exec \<Rightarrow>
     ('e exec \<Rightarrow> 'e exec outcome) \<Rightarrow> 'e exec outcome" where
  "CALLBACK_DATA S data m x k = CALLBACK_DATA_ER S data m (x_p x) (x_p x + 1) x k"

definition CALLBACK_DATA_NOADVANCE ::
    "'e http_parser_settings \<Rightarrow> string \<Rightarrow> mark \<Rightarrow> 'e exec \<Rightarrow>
     ('e exec \<Rightarrow> 'e exec outcome) \<Rightarrow> 'e exec outcome" where
  "CALLBACK_DATA_NOADVANCE S data m x k = CALLBACK_DATA_ER S data m (x_p x) (x_p x) x k"

end
