(* ===== verification/HttpUrlChar.thy ===== *)
theory HttpUrlChar
  imports HttpTables
begin

text \<open>
  \<open>parse_url_char\<close> of \<open>http_parser.c\<close>: the byte-for-byte automaton of request targets, which
  \<open>http_parser_execute\<close> and \<open>http_parser_parse_url\<close> share. It is modelled in the strict build.
\<close>

definition server_char :: "char \<Rightarrow> state" where
  "server_char ch =
     (if ch = CHR ''/'' then s_req_path
      else if ch = CHR ''?'' then s_req_query_string_start
      else if ch = CHR ''@'' then s_req_server_with_at
      else if IS_USERINFO_CHAR ch \<or> ch = CHR ''['' \<or> ch = CHR '']'' then s_req_server
      else s_dead)"

text \<open>The \<open>switch\<close> of \<open>parse_url_char\<close>; the states without a case fall out of it to \<open>s_dead\<close>.\<close>

fun url_switch :: "state \<Rightarrow> char \<Rightarrow> state" where
  "url_switch s_req_spaces_before_url ch =
     (if ch = CHR ''/'' \<or> ch = CHR ''*'' then s_req_path
      else if IS_ALPHA ch then s_req_schema
      else s_dead)"
| "url_switch s_req_schema ch =
     (if IS_ALPHA ch then s_req_schema
      else if ch = CHR '':'' then s_req_schema_slash
      else s_dead)"
| "url_switch s_req_schema_slash ch =
     (if ch = CHR ''/'' then s_req_schema_slash_slash else s_dead)"
| "url_switch s_req_schema_slash_slash ch =
     (if ch = CHR ''/'' then s_req_server_start else s_dead)"
| "url_switch s_req_server_with_at ch =
     (if ch = CHR ''@'' then s_dead else server_char ch)"
| "url_switch s_req_server_start ch = server_char ch"
| "url_switch s_req_server ch = server_char ch"
| "url_switch s_req_path ch =
     (if IS_URL_CHAR ch then s_req_path
      else if ch = CHR ''?'' then s_req_query_string_start
      else if ch = CHR ''#'' then s_req_fragment_start
      else s_dead)"
| "url_switch s_req_query_string_start ch =
     (if IS_URL_CHAR ch then s_req_query_string
      else if ch = CHR ''?'' then s_req_query_string
      else if ch = CHR ''#'' then s_req_fragment_start
      else s_dead)"
| "url_switch s_req_query_string ch =
     (if IS_URL_CHAR ch then s_req_query_string
      else if ch = CHR ''?'' then s_req_query_string
      else if ch = CHR ''#'' then s_req_fragment_start
      else s_dead)"
| "url_switch s_req_fragment_start ch =
     (if IS_URL_CHAR ch then s_req_fragment
      else if ch = CHR ''?'' then s_req_fragment
      else if ch = CHR ''#'' then s_req_fragment_start
      else s_dead)"
| "url_switch s_req_fragment ch =
     (if IS_URL_CHAR ch then s_req_fragment
      else if ch = CHR ''?'' \<or> ch = CHR ''#'' then s_req_fragment
      else s_dead)"
| "url_switch _ ch = s_dead"

definition parse_url_char :: "state \<Rightarrow> char \<Rightarrow> state" where
  "parse_url_char s ch =
     (if ch = SP \<or> ch = CR \<or> ch = LF then s_dead
      else if ch = TAB \<or> ch = CHR 0x0C then s_dead
      else url_switch s ch)"

text \<open>The states in which \<open>http_parser_execute\<close> is inside a URL, and their closure.\<close>

definition url_states :: "state set" where
  "url_states =
     {s_req_schema, s_req_schema_slash, s_req_schema_slash_slash, s_req_server_start,
      s_req_server, s_req_server_with_at, s_req_path, s_req_query_string_start,
      s_req_query_string, s_req_fragment_start, s_req_fragment}"

lemma parse_url_char_closed:
  "parse_url_char s ch \<noteq> s_dead \<Longrightarrow> parse_url_char s ch \<in> url_states"
  by (cases s) (auto simp: parse_url_char_def server_char_def url_states_def split: if_splits)

lemma parse_url_char_dead [simp]: "parse_url_char s_dead ch = s_dead"
  by (simp add: parse_url_char_def)

end
