(* ===== verification/HttpStartLine.thy ===== *)
theory HttpStartLine
  imports HttpState HttpUrlChar
begin

text \<open>
  The cases of the \<open>switch\<close> of \<open>http_parser_execute\<close> that read the first line of a message: the
  start states, the status line of a response, the method, the target and the version of a
  request. One definition per case (or group of cases) of the source.
\<close>

section \<open>Start of a message\<close>

definition case_s_dead :: "'e exec \<Rightarrow> 'e exec outcome" where
  "case_s_dead x =
     (if x_ch x = CR \<or> x_ch x = LF then Break x else fail HPE_CLOSED_CONNECTION x)"

text \<open>\<open>parser->flags = 0; parser->content_length = ULLONG_MAX;\<close>\<close>

definition clear_message :: "http_parser \<Rightarrow> http_parser" where
  "clear_message pr = pr\<lparr>hp_flags := 0, hp_content_length := ULLONG_MAX\<rparr>"

definition case_s_start_req_or_res :: "'e http_parser_settings \<Rightarrow> 'e exec \<Rightarrow> 'e exec outcome" where
  "case_s_start_req_or_res S x =
     (if x_ch x = CR \<or> x_ch x = LF then Break x
      else let x = upd clear_message x
           in if x_ch x = CHR ''H''
              then CALLBACK_NOTIFY S N_message_begin (UPDATE_STATE s_res_or_resp_H x) Break
              else Reexecute
                     (UPDATE_STATE s_start_req (upd (\<lambda>pr. pr\<lparr>hp_type := HTTP_REQUEST\<rparr>) x)))"

definition case_s_res_or_resp_H :: "'e exec \<Rightarrow> 'e exec outcome" where
  "case_s_res_or_resp_H x =
     (if x_ch x = CHR ''T''
      then Break (UPDATE_STATE s_res_HT (upd (\<lambda>pr. pr\<lparr>hp_type := HTTP_RESPONSE\<rparr>) x))
      else if x_ch x \<noteq> CHR ''E'' then fail HPE_INVALID_CONSTANT x
      else Break (UPDATE_STATE s_req_method
             (upd (\<lambda>pr. pr\<lparr>hp_type := HTTP_REQUEST, hp_method := HTTP_HEAD, hp_index := 2\<rparr>) x)))"

definition case_s_start_res :: "'e http_parser_settings \<Rightarrow> 'e exec \<Rightarrow> 'e exec outcome" where
  "case_s_start_res S x =
     (let x = upd clear_message x
      in if x_ch x = CHR ''H''
         then CALLBACK_NOTIFY S N_message_begin (UPDATE_STATE s_res_H x) Break
         else if x_ch x = CR \<or> x_ch x = LF then CALLBACK_NOTIFY S N_message_begin x Break
         else fail HPE_INVALID_CONSTANT x)"

section \<open>The status line\<close>

text \<open>One character of a fixed string: \<open>STRICT_CHECK(ch != c); UPDATE_STATE(s)\<close>.\<close>

definition expect_char :: "char \<Rightarrow> state \<Rightarrow> 'e exec \<Rightarrow> 'e exec outcome" where
  "expect_char c s x = STRICT_CHECK (x_ch x \<noteq> c) x (\<lambda>x. Break (UPDATE_STATE s x))"

definition case_s_res_H :: "'e exec \<Rightarrow> 'e exec outcome" where
  "case_s_res_H x = expect_char (CHR ''T'') s_res_HT x"

definition case_s_res_HT :: "'e exec \<Rightarrow> 'e exec outcome" where
  "case_s_res_HT x = expect_char (CHR ''T'') s_res_HTT x"

definition case_s_res_HTT :: "'e exec \<Rightarrow> 'e exec outcome" where
  "case_s_res_HTT x = expect_char (CHR ''P'') s_res_HTTP x"

definition case_s_res_HTTP :: "'e exec \<Rightarrow> 'e exec outcome" where
  "case_s_res_HTTP x = expect_char (CHR ''/'') s_res_first_http_major x"

text \<open>The decimal accumulation \<open>field *= 10; field += ch - '0';\<close> in a 16-bit field.\<close>

definition add_digit :: "u16 \<Rightarrow> char \<Rightarrow> u16" where
  "add_digit v c = v * 10 + of_nat (digit_val c)"

definition case_s_res_first_http_major :: "'e exec \<Rightarrow> 'e exec outcome" where
  "case_s_res_first_http_major x =
     (if c_ord (x_ch x) < c_ord (CHR ''0'') \<or> c_ord (x_ch x) > c_ord (CHR ''9'')
      then fail HPE_INVALID_VERSION x
      else Break (UPDATE_STATE s_res_http_major
             (upd (\<lambda>pr. pr\<lparr>hp_http_major := of_nat (digit_val (x_ch x))\<rparr>) x)))"

definition case_s_res_http_major :: "'e exec \<Rightarrow> 'e exec outcome" where
  "case_s_res_http_major x =
     (if x_ch x = CHR ''.'' then Break (UPDATE_STATE s_res_first_http_minor x)
      else if \<not> IS_NUM (x_ch x) then fail HPE_INVALID_VERSION x
      else let x = upd (\<lambda>pr. pr\<lparr>hp_http_major := add_digit (hp_http_major pr) (x_ch x)\<rparr>) x
           in if hp_http_major (x_parser x) > 999 then fail HPE_INVALID_VERSION x else Break x)"

definition case_s_res_first_http_minor :: "'e exec \<Rightarrow> 'e exec outcome" where
  "case_s_res_first_http_minor x =
     (if \<not> IS_NUM (x_ch x) then fail HPE_INVALID_VERSION x
      else Break (UPDATE_STATE s_res_http_minor
             (upd (\<lambda>pr. pr\<lparr>hp_http_minor := of_nat (digit_val (x_ch x))\<rparr>) x)))"

definition case_s_res_http_minor :: "'e exec \<Rightarrow> 'e exec outcome" where
  "case_s_res_http_minor x =
     (if x_ch x = SP then Break (UPDATE_STATE s_res_first_status_code x)
      else if \<not> IS_NUM (x_ch x) then fail HPE_INVALID_VERSION x
      else let x = upd (\<lambda>pr. pr\<lparr>hp_http_minor := add_digit (hp_http_minor pr) (x_ch x)\<rparr>) x
           in if hp_http_minor (x_parser x) > 999 then fail HPE_INVALID_VERSION x else Break x)"

definition case_s_res_first_status_code :: "'e exec \<Rightarrow> 'e exec outcome" where
  "case_s_res_first_status_code x =
     (if \<not> IS_NUM (x_ch x) then (if x_ch x = SP then Break x else fail HPE_INVALID_STATUS x)
      else Break (UPDATE_STATE s_res_status_code
             (upd (\<lambda>pr. pr\<lparr>hp_status_code := of_nat (digit_val (x_ch x))\<rparr>) x)))"

definition case_s_res_status_code :: "'e exec \<Rightarrow> 'e exec outcome" where
  "case_s_res_status_code x =
     (if \<not> IS_NUM (x_ch x) then
        (if x_ch x = SP then Break (UPDATE_STATE s_res_status_start x)
         else if x_ch x = CR then Break (UPDATE_STATE s_res_line_almost_done x)
         else if x_ch x = LF then Break (UPDATE_STATE s_header_field_start x)
         else fail HPE_INVALID_STATUS x)
      else let x = upd (\<lambda>pr. pr\<lparr>hp_status_code := add_digit (hp_status_code pr) (x_ch x)\<rparr>) x
           in if hp_status_code (x_parser x) > 999 then fail HPE_INVALID_STATUS x else Break x)"

definition case_s_res_status_start :: "'e exec \<Rightarrow> 'e exec outcome" where
  "case_s_res_status_start x =
     (if x_ch x = CR then Break (UPDATE_STATE s_res_line_almost_done x)
      else if x_ch x = LF then Break (UPDATE_STATE s_header_field_start x)
      else Break (upd (\<lambda>pr. pr\<lparr>hp_index := 0\<rparr>) (UPDATE_STATE s_res_status (MARK M_status x))))"

definition case_s_res_status ::
    "'e http_parser_settings \<Rightarrow> string \<Rightarrow> 'e exec \<Rightarrow> 'e exec outcome" where
  "case_s_res_status S data x =
     (if x_ch x = CR
      then CALLBACK_DATA S data M_status (UPDATE_STATE s_res_line_almost_done x) Break
      else if x_ch x = LF
      then CALLBACK_DATA S data M_status (UPDATE_STATE s_header_field_start x) Break
      else Break x)"

definition case_s_res_line_almost_done :: "'e exec \<Rightarrow> 'e exec outcome" where
  "case_s_res_line_almost_done x = expect_char LF s_header_field_start x"

section \<open>The request line\<close>

text \<open>The method guessed from its first letter.\<close>

definition first_method :: "char \<Rightarrow> http_method option" where
  "first_method ch =
     (if ch = CHR ''A'' then Some HTTP_ACL
      else if ch = CHR ''B'' then Some HTTP_BIND
      else if ch = CHR ''C'' then Some HTTP_CONNECT
      else if ch = CHR ''D'' then Some HTTP_DELETE
      else if ch = CHR ''G'' then Some HTTP_GET
      else if ch = CHR ''H'' then Some HTTP_HEAD
      else if ch = CHR ''L'' then Some HTTP_LOCK
      else if ch = CHR ''M'' then Some HTTP_MKCOL
      else if ch = CHR ''N'' then Some HTTP_NOTIFY
      else if ch = CHR ''O'' then Some HTTP_OPTIONS
      else if ch = CHR ''P'' then Some HTTP_POST
      else if ch = CHR ''R'' then Some HTTP_REPORT
      else if ch = CHR ''S'' then Some HTTP_SUBSCRIBE
      else if ch = CHR ''T'' then Some HTTP_TRACE
      else if ch = CHR ''U'' then Some HTTP_UNLOCK
      else None)"

definition case_s_start_req :: "'e http_parser_settings \<Rightarrow> 'e exec \<Rightarrow> 'e exec outcome" where
  "case_s_start_req S x =
     (if x_ch x = CR \<or> x_ch x = LF then Break x
      else let x = upd clear_message x
           in if \<not> IS_ALPHA (x_ch x) then fail HPE_INVALID_METHOD x
              else let x = upd (\<lambda>pr. pr\<lparr>hp_method := HTTP_DELETE, hp_index := 1\<rparr>) x
                   in case first_method (x_ch x) of
                        None \<Rightarrow> fail HPE_INVALID_METHOD x
                      | Some m \<Rightarrow>
                          CALLBACK_NOTIFY S N_message_begin
                            (UPDATE_STATE s_req_method (upd (\<lambda>pr. pr\<lparr>hp_method := m\<rparr>) x)) Break)"

text \<open>
  The \<open>switch (parser->method << 16 | parser->index << 8 | ch)\<close>: where the byte does not match
  the guessed method, the other method it may still be.
\<close>

definition method_switch :: "http_method \<Rightarrow> nat \<Rightarrow> char \<Rightarrow> http_method option" where
  "method_switch m i ch =
     (if m = HTTP_POST \<and> i = 1 \<and> ch = CHR ''U'' then Some HTTP_PUT
      else if m = HTTP_POST \<and> i = 1 \<and> ch = CHR ''A'' then Some HTTP_PATCH
      else if m = HTTP_CONNECT \<and> i = 1 \<and> ch = CHR ''H'' then Some HTTP_CHECKOUT
      else if m = HTTP_CONNECT \<and> i = 2 \<and> ch = CHR ''P'' then Some HTTP_COPY
      else if m = HTTP_MKCOL \<and> i = 1 \<and> ch = CHR ''O'' then Some HTTP_MOVE
      else if m = HTTP_MKCOL \<and> i = 1 \<and> ch = CHR ''E'' then Some HTTP_MERGE
      else if m = HTTP_MKCOL \<and> i = 2 \<and> ch = CHR ''A'' then Some HTTP_MKACTIVITY
      else if m = HTTP_MKCOL \<and> i = 3 \<and> ch = CHR ''A'' then Some HTTP_MKCALENDAR
      else if m = HTTP_SUBSCRIBE \<and> i = 1 \<and> ch = CHR ''E'' then Some HTTP_SEARCH
      else if m = HTTP_REPORT \<and> i = 2 \<and> ch = CHR ''B'' then Some HTTP_REBIND
      else if m = HTTP_POST \<and> i = 1 \<and> ch = CHR ''R'' then Some HTTP_PROPFIND
      else if m = HTTP_PROPFIND \<and> i = 4 \<and> ch = CHR ''P'' then Some HTTP_PROPPATCH
      else if m = HTTP_PUT \<and> i = 2 \<and> ch = CHR ''R'' then Some HTTP_PURGE
      else if m = HTTP_LOCK \<and> i = 1 \<and> ch = CHR ''I'' then Some HTTP_LINK
      else if m = HTTP_UNLOCK \<and> i = 2 \<and> ch = CHR ''S'' then Some HTTP_UNSUBSCRIBE
      else if m = HTTP_UNLOCK \<and> i = 2 \<and> ch = CHR ''B'' then Some HTTP_UNBIND
      else if m = HTTP_UNLOCK \<and> i = 3 \<and> ch = CHR ''I'' then Some HTTP_UNLINK
      else None)"

text \<open>\<open>++parser->index\<close>, in a field of seven bits.\<close>

definition inc_index :: "http_parser \<Rightarrow> http_parser" where
  "inc_index pr = pr\<lparr>hp_index := hp_index pr + 1\<rparr>"

definition case_s_req_method :: "'e exec \<Rightarrow> 'e exec outcome" where
  "case_s_req_method x =
     (if x_ch x = NUL then fail HPE_INVALID_METHOD x
      else let pr = x_parser x; m = hp_method pr; i = unat (hp_index pr)
           in case c_str_at (method_name m) i of
                None \<Rightarrow> Fault
              | Some c \<Rightarrow>
                  if x_ch x = SP \<and> c = NUL
                  then Break (upd inc_index (UPDATE_STATE s_req_spaces_before_url x))
                  else if x_ch x = c then Break (upd inc_index x)
                  else if IS_ALPHA (x_ch x) then
                    (case method_switch m i (x_ch x) of
                       None \<Rightarrow> fail HPE_INVALID_METHOD x
                     | Some m' \<Rightarrow> Break (upd inc_index (upd (\<lambda>pr. pr\<lparr>hp_method := m'\<rparr>) x)))
                  else if x_ch x = CHR ''-'' \<and> i = 1 \<and> m = HTTP_MKCOL
                  then Break (upd inc_index (upd (\<lambda>pr. pr\<lparr>hp_method := HTTP_MSEARCH\<rparr>) x))
                  else fail HPE_INVALID_METHOD x)"

text \<open>\<open>UPDATE_STATE(parse_url_char(CURRENT_STATE(), ch))\<close> and its check.\<close>

definition url_char :: "'e exec \<Rightarrow> 'e exec outcome" where
  "url_char x =
     (let x = UPDATE_STATE (parse_url_char (x_state x) (x_ch x)) x
      in if x_state x = s_dead then fail HPE_INVALID_URL x else Break x)"

definition case_s_req_spaces_before_url :: "'e exec \<Rightarrow> 'e exec outcome" where
  "case_s_req_spaces_before_url x =
     (if x_ch x = SP then Break x
      else let x = MARK M_url x
           in url_char (if hp_method (x_parser x) = HTTP_CONNECT
                        then UPDATE_STATE s_req_server_start x else x))"

text \<open>\<open>s_req_schema\<close>, \<open>s_req_schema_slash\<close>, \<open>s_req_schema_slash_slash\<close>, \<open>s_req_server_start\<close>\<close>

definition case_s_req_schema :: "'e exec \<Rightarrow> 'e exec outcome" where
  "case_s_req_schema x =
     (if x_ch x = SP \<or> x_ch x = CR \<or> x_ch x = LF then fail HPE_INVALID_URL x else url_char x)"

text \<open>\<open>s_req_server\<close>, \<open>s_req_server_with_at\<close>, \<open>s_req_path\<close>, the query and fragment states\<close>

definition case_s_req_server ::
    "'e http_parser_settings \<Rightarrow> string \<Rightarrow> 'e exec \<Rightarrow> 'e exec outcome" where
  "case_s_req_server S data x =
     (if x_ch x = SP
      then CALLBACK_DATA S data M_url (UPDATE_STATE s_req_http_start x) Break
      else if x_ch x = CR \<or> x_ch x = LF
      then CALLBACK_DATA S data M_url
             (UPDATE_STATE (if x_ch x = CR then s_req_line_almost_done else s_header_field_start)
               (upd (\<lambda>pr. pr\<lparr>hp_http_major := 0, hp_http_minor := 9\<rparr>) x)) Break
      else url_char x)"

definition case_s_req_http_start :: "'e exec \<Rightarrow> 'e exec outcome" where
  "case_s_req_http_start x =
     (if x_ch x = CHR ''H'' then Break (UPDATE_STATE s_req_http_H x)
      else if x_ch x = SP then Break x
      else fail HPE_INVALID_CONSTANT x)"

definition case_s_req_http_H :: "'e exec \<Rightarrow> 'e exec outcome" where
  "case_s_req_http_H x = expect_char (CHR ''T'') s_req_http_HT x"

definition case_s_req_http_HT :: "'e exec \<Rightarrow> 'e exec outcome" where
  "case_s_req_http_HT x = expect_char (CHR ''T'') s_req_http_HTT x"

definition case_s_req_http_HTT :: "'e exec \<Rightarrow> 'e exec outcome" where
  "case_s_req_http_HTT x = expect_char (CHR ''P'') s_req_http_HTTP x"

definition case_s_req_http_HTTP :: "'e exec \<Rightarrow> 'e exec outcome" where
  "case_s_req_http_HTTP x = expect_char (CHR ''/'') s_req_first_http_major x"

definition case_s_req_first_http_major :: "'e exec \<Rightarrow> 'e exec outcome" where
  "case_s_req_first_http_major x =
     (if c_ord (x_ch x) < c_ord (CHR ''1'') \<or> c_ord (x_ch x) > c_ord (CHR ''9'')
      then fail HPE_INVALID_VERSION x
      else Break (UPDATE_STATE s_req_http_major
             (upd (\<lambda>pr. pr\<lparr>hp_http_major := of_nat (digit_val (x_ch x))\<rparr>) x)))"

definition case_s_req_http_major :: "'e exec \<Rightarrow> 'e exec outcome" where
  "case_s_req_http_major x =
     (if x_ch x = CHR ''.'' then Break (UPDATE_STATE s_req_first_http_minor x)
      else if \<not> IS_NUM (x_ch x) then fail HPE_INVALID_VERSION x
      else let x = upd (\<lambda>pr. pr\<lparr>hp_http_major := add_digit (hp_http_major pr) (x_ch x)\<rparr>) x
           in if hp_http_major (x_parser x) > 999 then fail HPE_INVALID_VERSION x else Break x)"

definition case_s_req_first_http_minor :: "'e exec \<Rightarrow> 'e exec outcome" where
  "case_s_req_first_http_minor x =
     (if \<not> IS_NUM (x_ch x) then fail HPE_INVALID_VERSION x
      else Break (UPDATE_STATE s_req_http_minor
             (upd (\<lambda>pr. pr\<lparr>hp_http_minor := of_nat (digit_val (x_ch x))\<rparr>) x)))"

definition case_s_req_http_minor :: "'e exec \<Rightarrow> 'e exec outcome" where
  "case_s_req_http_minor x =
     (if x_ch x = CR then Break (UPDATE_STATE s_req_line_almost_done x)
      else if x_ch x = LF then Break (UPDATE_STATE s_header_field_start x)
      else if \<not> IS_NUM (x_ch x) then fail HPE_INVALID_VERSION x
      else let x = upd (\<lambda>pr. pr\<lparr>hp_http_minor := add_digit (hp_http_minor pr) (x_ch x)\<rparr>) x
           in if hp_http_minor (x_parser x) > 999 then fail HPE_INVALID_VERSION x else Break x)"

definition case_s_req_line_almost_done :: "'e exec \<Rightarrow> 'e exec outcome" where
  "case_s_req_line_almost_done x =
     (if x_ch x \<noteq> LF then fail HPE_LF_EXPECTED x
      else Break (UPDATE_STATE s_header_field_start x))"

end
