(* ===== verification/HttpHeaders.thy ===== *)
theory HttpHeaders
  imports HttpState
begin

text \<open>
  The cases of \<open>http_parser_execute\<close> that read header lines: field names, values (with folding),
  the end of a header and the end of the headers. The inner loops over the bytes of a field name
  and of a value are recursive functions over the rest of the buffer.
\<close>

section \<open>Field names\<close>

definition case_s_header_field_start :: "'e exec \<Rightarrow> 'e exec outcome" where
  "case_s_header_field_start x =
     (if x_ch x = CR then Break (UPDATE_STATE s_headers_almost_done x)
      else if x_ch x = LF then Reexecute (UPDATE_STATE s_headers_almost_done x)
      else let c = STRICT_TOKEN (x_ch x)
           in if c = NUL then fail HPE_INVALID_HEADER_TOKEN x
              else Break
                (upd (\<lambda>pr. pr\<lparr>hp_header_state :=
                        (if c = CHR ''c'' then h_C
                         else if c = CHR ''p'' then h_matching_proxy_connection
                         else if c = CHR ''t'' then h_matching_transfer_encoding
                         else if c = CHR ''u'' then h_matching_upgrade
                         else h_general)\<rparr>)
                  (UPDATE_STATE s_header_field
                    (upd (\<lambda>pr. pr\<lparr>hp_index := 0\<rparr>) (MARK M_header_field x)))))"

text \<open>
  One byte against a keyword: with the incremented index \<open>i\<close>, \<open>bad\<close> past the keyword or on a
  wrong byte, \<open>done\<close> on its last byte, else the same state. \<open>None\<close> would be a read out of
  bounds.
\<close>

definition match_keyword ::
    "string \<Rightarrow> header_states \<Rightarrow> header_states \<Rightarrow> header_states \<Rightarrow> nat \<Rightarrow> char \<Rightarrow> header_states option" where
  "match_keyword kw cur done bad i c =
     (if i > length kw then Some bad
      else case c_str_at kw i of
             None \<Rightarrow> None
           | Some k \<Rightarrow> if c \<noteq> k then Some bad
                       else if i = length kw - 1 then Some done else Some cur)"

definition index_of :: "http_parser \<Rightarrow> nat" where
  "index_of pr = unat (hp_index pr)"

definition bump_index :: "http_parser \<Rightarrow> http_parser" where
  "bump_index pr = pr\<lparr>hp_index := hp_index pr + 1\<rparr>"

text \<open>Keyword step with \<open>parser->index++\<close> before it.\<close>

definition field_keyword ::
    "string \<Rightarrow> header_states \<Rightarrow> http_parser \<Rightarrow> char \<Rightarrow> http_parser option" where
  "field_keyword kw done pr c =
     map_option (\<lambda>h. (bump_index pr)\<lparr>hp_header_state := h\<rparr>)
       (match_keyword kw (hp_header_state pr) done h_general (index_of (bump_index pr)) c)"

text \<open>The inner \<open>switch (parser->header_state)\<close> of \<open>s_header_field\<close>; \<open>None\<close> is a failed assertion.\<close>

definition header_field_switch :: "char \<Rightarrow> char \<Rightarrow> http_parser \<Rightarrow> http_parser option" where
  "header_field_switch ch c pr =
     (case hp_header_state pr of
        h_general \<Rightarrow> Some pr
      | h_C \<Rightarrow> Some ((bump_index pr)\<lparr>hp_header_state := (if c = CHR ''o'' then h_CO else h_general)\<rparr>)
      | h_CO \<Rightarrow> Some ((bump_index pr)\<lparr>hp_header_state := (if c = CHR ''n'' then h_CON else h_general)\<rparr>)
      | h_CON \<Rightarrow> Some ((bump_index pr)\<lparr>hp_header_state :=
                   (if c = CHR ''n'' then h_matching_connection
                    else if c = CHR ''t'' then h_matching_content_length
                    else h_general)\<rparr>)
      | h_matching_connection \<Rightarrow> field_keyword CONNECTION h_connection pr c
      | h_matching_proxy_connection \<Rightarrow> field_keyword PROXY_CONNECTION h_connection pr c
      | h_matching_content_length \<Rightarrow> field_keyword CONTENT_LENGTH h_content_length pr c
      | h_matching_transfer_encoding \<Rightarrow> field_keyword TRANSFER_ENCODING h_transfer_encoding pr c
      | h_matching_upgrade \<Rightarrow> field_keyword UPGRADE h_upgrade pr c
      | h_connection \<Rightarrow> Some (if ch \<noteq> SP then pr\<lparr>hp_header_state := h_general\<rparr> else pr)
      | h_content_length \<Rightarrow> Some (if ch \<noteq> SP then pr\<lparr>hp_header_state := h_general\<rparr> else pr)
      | h_transfer_encoding \<Rightarrow> Some (if ch \<noteq> SP then pr\<lparr>hp_header_state := h_general\<rparr> else pr)
      | h_upgrade \<Rightarrow> Some (if ch \<noteq> SP then pr\<lparr>hp_header_state := h_general\<rparr> else pr)
      | _ \<Rightarrow> None)"

text \<open>The \<open>for\<close> loop of \<open>s_header_field\<close>, over the bytes from \<open>p\<close>; \<open>None\<close> is a failed assertion.\<close>

fun header_field_loop :: "string \<Rightarrow> 'e exec \<Rightarrow> 'e exec option" where
  "header_field_loop [] x = Some x"
| "header_field_loop (ch # rest) x =
     (let x = x\<lparr>x_ch := ch\<rparr>; c = STRICT_TOKEN ch
      in if c = NUL then Some x
         else case header_field_switch ch c (x_parser x) of
                None \<Rightarrow> None
              | Some pr \<Rightarrow> header_field_loop rest (x\<lparr>x_parser := pr, x_p := x_p x + 1\<rparr>))"

definition case_s_header_field ::
    "'e http_parser_settings \<Rightarrow> string \<Rightarrow> 'e exec \<Rightarrow> 'e exec outcome" where
  "case_s_header_field S data x =
     (let start = x_p x
      in case header_field_loop (drop start data) x of
           None \<Rightarrow> Fault
         | Some x \<Rightarrow>
             COUNT_HEADER_SIZE (x_p x - start) x (\<lambda>x.
               if x_p x = length data then Break (x\<lparr>x_p := x_p x - 1\<rparr>)
               else if x_ch x = CHR '':''
               then CALLBACK_DATA S data M_header_field
                      (UPDATE_STATE s_header_value_discard_ws x) Break
               else fail HPE_INVALID_HEADER_TOKEN x))"

section \<open>Values\<close>

definition case_s_header_value_start :: "'e exec \<Rightarrow> 'e exec outcome" where
  "case_s_header_value_start x =
     (let x = upd (\<lambda>pr. pr\<lparr>hp_index := 0\<rparr>) (UPDATE_STATE s_header_value (MARK M_header_value x));
          c = LOWER (x_ch x);
          set = (\<lambda>h. Break (upd (\<lambda>pr. pr\<lparr>hp_header_state := h\<rparr>) x))
      in case hp_header_state (x_parser x) of
           h_upgrade \<Rightarrow>
             Break (upd (\<lambda>pr. pr\<lparr>hp_flags := hp_flags pr OR F_UPGRADE,
                                 hp_header_state := h_general\<rparr>) x)
         | h_transfer_encoding \<Rightarrow>
             set (if c = CHR ''c'' then h_matching_transfer_encoding_chunked else h_general)
         | h_content_length \<Rightarrow>
             (if \<not> IS_NUM (x_ch x) then fail HPE_INVALID_CONTENT_LENGTH x
              else if has_flag (hp_flags (x_parser x)) F_CONTENTLENGTH
              then fail HPE_UNEXPECTED_CONTENT_LENGTH x
              else Break (upd (\<lambda>pr. pr\<lparr>hp_flags := hp_flags pr OR F_CONTENTLENGTH,
                                hp_content_length := of_nat (digit_val (x_ch x))\<rparr>) x))
         | h_connection \<Rightarrow>
             set (if c = CHR ''k'' then h_matching_connection_keep_alive
                  else if c = CHR ''c'' then h_matching_connection_close
                  else if c = CHR ''u'' then h_matching_connection_upgrade
                  else h_matching_connection_token)
         | h_matching_connection_token_start \<Rightarrow> Break x
         | _ \<Rightarrow> set h_general)"

definition case_s_header_value_discard_ws :: "'e exec \<Rightarrow> 'e exec outcome" where
  "case_s_header_value_discard_ws x =
     (if x_ch x = SP \<or> x_ch x = TAB then Break x
      else if x_ch x = CR then Break (UPDATE_STATE s_header_value_discard_ws_almost_done x)
      else if x_ch x = LF then Break (UPDATE_STATE s_header_value_discard_lws x)
      else case_s_header_value_start x)"

text \<open>
  The step of the value loop: go on with a header state after \<open>n\<close> bytes, or leave the loop.
\<close>

datatype 'x value_step = Value_next header_states nat 'x | Value_exit "'x outcome"

text \<open>
  \<open>h_general\<close>: the jump to the next CR or LF within \<open>HTTP_MAX_HEADER_SIZE\<close> bytes, or to the end
  of the buffer. The result is the offset of that byte from \<open>p\<close>, which is where the loop's
  \<open>--p\<close> and \<open>p++\<close> leave \<open>p\<close>.
\<close>

definition general_skip :: "string \<Rightarrow> nat" where
  "general_skip rest =
     (let limit = min (length rest) (unat HTTP_MAX_HEADER_SIZE);
          p_cr = memchr CR (take limit rest);
          p_lf = memchr LF (take limit rest)
      in case p_cr of
           Some cr \<Rightarrow> (case p_lf of
                         Some lf \<Rightarrow> if cr \<ge> lf then lf else cr
                       | None \<Rightarrow> cr)
         | None \<Rightarrow> (case p_lf of Some lf \<Rightarrow> lf | None \<Rightarrow> length rest))"

definition value_keyword ::
    "string \<Rightarrow> header_states \<Rightarrow> header_states \<Rightarrow> header_states \<Rightarrow> char \<Rightarrow> 'e exec \<Rightarrow> 'e exec value_step" where
  "value_keyword kw cur done bad c x =
     (let x = upd bump_index x
      in case match_keyword kw cur done bad (index_of (x_parser x)) c of
           None \<Rightarrow> Value_exit Fault
         | Some h \<Rightarrow> Value_next h 1 x)"

text \<open>A digit of \<open>Content-Length\<close>, with the check against overflow before the new value is stored.\<close>

definition content_length_step :: "header_states \<Rightarrow> char \<Rightarrow> 'e exec \<Rightarrow> 'e exec value_step" where
  "content_length_step h ch x =
     (if ch = SP then Value_next h 1 x
      else if \<not> IS_NUM ch
      then Value_exit (Error (upd (\<lambda>pr. pr\<lparr>hp_errno := HPE_INVALID_CONTENT_LENGTH,
                                           hp_header_state := h\<rparr>) x))
      else let v = hp_content_length (x_parser x); t = v * 10 + of_nat (digit_val ch)
           in if (ULLONG_MAX - 10) div 10 < v
              then Value_exit (Error (upd (\<lambda>pr. pr\<lparr>hp_errno := HPE_INVALID_CONTENT_LENGTH,
                                                   hp_header_state := h\<rparr>) x))
              else Value_next h 1 (upd (\<lambda>pr. pr\<lparr>hp_content_length := t\<rparr>) x))"

definition token_start_state :: "char \<Rightarrow> header_states \<Rightarrow> header_states" where
  "token_start_state c h =
     (if c = CHR ''k'' then h_matching_connection_keep_alive
      else if c = CHR ''c'' then h_matching_connection_close
      else if c = CHR ''u'' then h_matching_connection_upgrade
      else if STRICT_TOKEN c \<noteq> NUL then h_matching_connection_token
      else if c = SP \<or> c = TAB then h
      else h_general)"

text \<open>\<open>h_connection_keep_alive\<close>, \<open>h_connection_close\<close>, \<open>h_connection_upgrade\<close>: end of the token.\<close>

definition connection_flag :: "header_states \<Rightarrow> u8" where
  "connection_flag h =
     (if h = h_connection_keep_alive then F_CONNECTION_KEEP_ALIVE
      else if h = h_connection_close then F_CONNECTION_CLOSE
      else if h = h_connection_upgrade then F_CONNECTION_UPGRADE
      else 0)"

definition token_end_step :: "header_states \<Rightarrow> char \<Rightarrow> 'e exec \<Rightarrow> 'e exec value_step" where
  "token_end_step h ch x =
     (if ch = CHR '','' then
        Value_next h_matching_connection_token_start 1
          (upd (\<lambda>pr. pr\<lparr>hp_flags := hp_flags pr OR connection_flag h, hp_index := 0\<rparr>) x)
      else Value_next (if ch \<noteq> SP then h_matching_connection_token else h) 1 x)"

text \<open>The inner \<open>switch (h_state)\<close> of \<open>s_header_value\<close>, at the first byte of \<open>rest\<close>.\<close>

definition header_value_switch :: "string \<Rightarrow> char \<Rightarrow> header_states \<Rightarrow> 'e exec \<Rightarrow> 'e exec value_step" where
  "header_value_switch rest ch h x =
     (let c = LOWER ch
      in case h of
           h_general \<Rightarrow> Value_next h (general_skip rest) x
         | h_connection \<Rightarrow> Value_exit Fault
         | h_transfer_encoding \<Rightarrow> Value_exit Fault
         | h_content_length \<Rightarrow> content_length_step h ch x
         | h_matching_transfer_encoding_chunked \<Rightarrow>
             value_keyword CHUNKED h h_transfer_encoding_chunked h_general c x
         | h_matching_connection_token_start \<Rightarrow> Value_next (token_start_state c h) 1 x
         | h_matching_connection_keep_alive \<Rightarrow>
             value_keyword KEEP_ALIVE h h_connection_keep_alive h_matching_connection_token c x
         | h_matching_connection_close \<Rightarrow>
             value_keyword CLOSE h h_connection_close h_matching_connection_token c x
         | h_matching_connection_upgrade \<Rightarrow>
             value_keyword UPGRADE h h_connection_upgrade h_matching_connection_token c x
         | h_matching_connection_token \<Rightarrow>
             (if ch = CHR '','' then
                Value_next h_matching_connection_token_start 1 (upd (\<lambda>pr. pr\<lparr>hp_index := 0\<rparr>) x)
              else Value_next h 1 x)
         | h_transfer_encoding_chunked \<Rightarrow> Value_next (if ch \<noteq> SP then h_general else h) 1 x
         | h_connection_keep_alive \<Rightarrow> token_end_step h ch x
         | h_connection_close \<Rightarrow> token_end_step h ch x
         | h_connection_upgrade \<Rightarrow> token_end_step h ch x
         | _ \<Rightarrow> Value_next h_general 1 (UPDATE_STATE s_header_value x))"

text \<open>What follows the loop.\<close>

definition header_value_done :: "string \<Rightarrow> nat \<Rightarrow> header_states \<Rightarrow> 'e exec \<Rightarrow> 'e exec outcome" where
  "header_value_done data start h x =
     COUNT_HEADER_SIZE (x_p x - start) (upd (\<lambda>pr. pr\<lparr>hp_header_state := h\<rparr>) x) (\<lambda>x.
       if x_p x = length data then Break (x\<lparr>x_p := x_p x - 1\<rparr>) else Break x)"

lemma general_skip_pos:
  assumes "ch \<noteq> CR" "ch \<noteq> LF"
  shows "0 < general_skip (ch # rest)"
proof -
  have "\<exists>n. min (length (ch # rest)) (unat HTTP_MAX_HEADER_SIZE) = Suc n"
    by (simp add: HTTP_MAX_HEADER_SIZE_def min_def)
  then obtain n where n: "min (length (ch # rest)) (unat HTTP_MAX_HEADER_SIZE) = Suc n" ..
  show ?thesis
    using assms unfolding general_skip_def Let_def n
    by (auto split: option.splits if_splits)
qed

lemma header_value_switch_pos:
  assumes "header_value_switch (ch # rest) ch h x = Value_next h' n x'" "ch \<noteq> CR" "ch \<noteq> LF"
  shows "0 < n"
  using assms
  by (cases h) (auto simp: header_value_switch_def general_skip_pos content_length_step_def
      value_keyword_def token_end_step_def Let_def split: if_splits option.splits)

function header_value_loop ::
    "'e http_parser_settings \<Rightarrow> string \<Rightarrow> nat \<Rightarrow> string \<Rightarrow> header_states \<Rightarrow> 'e exec \<Rightarrow> 'e exec outcome" where
  "header_value_loop S data start [] h x = header_value_done data start h x"
| "header_value_loop S data start (ch # rest) h x =
     (if ch = CR then
        CALLBACK_DATA S data M_header_value
          (upd (\<lambda>pr. pr\<lparr>hp_header_state := h\<rparr>) (UPDATE_STATE s_header_almost_done (x\<lparr>x_ch := ch\<rparr>)))
          (\<lambda>x. header_value_done data start h x)
      else if ch = LF then
        COUNT_HEADER_SIZE (x_p x - start) (UPDATE_STATE s_header_almost_done (x\<lparr>x_ch := ch\<rparr>)) (\<lambda>x.
          CALLBACK_DATA_NOADVANCE S data M_header_value
            (upd (\<lambda>pr. pr\<lparr>hp_header_state := h\<rparr>) x) Reexecute)
      else if \<not> x_lenient x \<and> \<not> IS_HEADER_CHAR ch then
        fail HPE_INVALID_HEADER_TOKEN (x\<lparr>x_ch := ch\<rparr>)
      else
        (case header_value_switch (ch # rest) ch h (x\<lparr>x_ch := ch\<rparr>) of
           Value_exit r \<Rightarrow> r
         | Value_next h' n x' \<Rightarrow>
             header_value_loop S data start (drop n (ch # rest)) h' (x'\<lparr>x_p := x_p x' + n\<rparr>)))"
  by pat_completeness auto
termination
proof (relation "measure (\<lambda>(S, data, start, rest, h, x). length rest)", goal_cases)
  case 1
  show ?case by simp
next
  case (2 S data start ch rest h x h' n x')
  have "0 < n"
    using 2(4) 2(1,2) by (rule header_value_switch_pos)
  then show ?case by simp
qed

definition case_s_header_value ::
    "'e http_parser_settings \<Rightarrow> string \<Rightarrow> 'e exec \<Rightarrow> 'e exec outcome" where
  "case_s_header_value S data x =
     header_value_loop S data (x_p x) (drop (x_p x) data) (hp_header_state (x_parser x)) x"

section \<open>The end of a header and of the headers\<close>

definition case_s_header_almost_done :: "'e exec \<Rightarrow> 'e exec outcome" where
  "case_s_header_almost_done x =
     (if x_ch x \<noteq> LF then fail HPE_LF_EXPECTED x
      else Break (UPDATE_STATE s_header_value_lws x))"

text \<open>The flag a finished header sets, by the state its value was left in.\<close>

definition apply_header_state :: "http_parser \<Rightarrow> http_parser" where
  "apply_header_state pr =
     (case hp_header_state pr of
        h_connection_keep_alive \<Rightarrow> pr\<lparr>hp_flags := hp_flags pr OR F_CONNECTION_KEEP_ALIVE\<rparr>
      | h_connection_close \<Rightarrow> pr\<lparr>hp_flags := hp_flags pr OR F_CONNECTION_CLOSE\<rparr>
      | h_transfer_encoding_chunked \<Rightarrow> pr\<lparr>hp_flags := hp_flags pr OR F_CHUNKED\<rparr>
      | h_connection_upgrade \<Rightarrow> pr\<lparr>hp_flags := hp_flags pr OR F_CONNECTION_UPGRADE\<rparr>
      | _ \<Rightarrow> pr)"

definition case_s_header_value_lws :: "'e exec \<Rightarrow> 'e exec outcome" where
  "case_s_header_value_lws x =
     (if x_ch x = SP \<or> x_ch x = TAB then Reexecute (UPDATE_STATE s_header_value_start x)
      else Reexecute (UPDATE_STATE s_header_field_start (upd apply_header_state x)))"

definition case_s_header_value_discard_ws_almost_done :: "'e exec \<Rightarrow> 'e exec outcome" where
  "case_s_header_value_discard_ws_almost_done x =
     STRICT_CHECK (x_ch x \<noteq> LF) x (\<lambda>x. Break (UPDATE_STATE s_header_value_discard_lws x))"

definition case_s_header_value_discard_lws ::
    "'e http_parser_settings \<Rightarrow> string \<Rightarrow> 'e exec \<Rightarrow> 'e exec outcome" where
  "case_s_header_value_discard_lws S data x =
     (if x_ch x = SP \<or> x_ch x = TAB then Break (UPDATE_STATE s_header_value_discard_ws x)
      else CALLBACK_DATA_NOADVANCE S data M_header_value
             (UPDATE_STATE s_header_field_start (MARK M_header_value (upd apply_header_state x)))
             Reexecute)"

text \<open>
  The call of \<open>on_headers_complete\<close>: 1 means the message has no body, 2 also that the connection
  is upgraded, any other value but 0 is an error. \<open>parser->state\<close> is not stored before the call.
\<close>

definition headers_complete ::
    "'e http_parser_settings \<Rightarrow> 'e exec \<Rightarrow> ('e exec \<Rightarrow> 'e exec outcome) \<Rightarrow> 'e exec outcome" where
  "headers_complete S x k =
     (case on_headers_complete S of
        None \<Rightarrow> k x
      | Some f \<Rightarrow>
          (case f (x_parser x) (x_env x) of (r, pr, env) \<Rightarrow>
             let x = x\<lparr>x_parser := pr, x_env := env\<rparr>
             in if r = 0 then k x
                else if r = 2 then
                  k (upd (\<lambda>pr. pr\<lparr>hp_upgrade := True, hp_flags := hp_flags pr OR F_SKIPBODY\<rparr>) x)
                else if r = 1 then k (upd (\<lambda>pr. pr\<lparr>hp_flags := hp_flags pr OR F_SKIPBODY\<rparr>) x)
                else RETURN (x_p x) (upd (\<lambda>pr. pr\<lparr>hp_errno := HPE_CB_headers_complete\<rparr>) x)))"

text \<open>\<open>parser->upgrade\<close>, set before \<open>on_headers_complete\<close> so that it can see it.\<close>

definition set_upgrade :: "http_parser \<Rightarrow> http_parser" where
  "set_upgrade pr =
     pr\<lparr>hp_upgrade :=
          hp_flags pr AND (F_UPGRADE OR F_CONNECTION_UPGRADE) = F_UPGRADE OR F_CONNECTION_UPGRADE
          \<or> hp_method pr = HTTP_CONNECT\<rparr>"

definition case_s_headers_almost_done :: "'e http_parser_settings \<Rightarrow> 'e exec \<Rightarrow> 'e exec outcome" where
  "case_s_headers_almost_done S x =
     STRICT_CHECK (x_ch x \<noteq> LF) x (\<lambda>x.
       if has_flag (hp_flags (x_parser x)) F_TRAILING
       then CALLBACK_NOTIFY_NOADVANCE S N_chunk_complete (UPDATE_STATE s_message_done x) Reexecute
       else if has_flag (hp_flags (x_parser x)) F_CHUNKED \<and>
               has_flag (hp_flags (x_parser x)) F_CONTENTLENGTH
       then fail HPE_UNEXPECTED_CONTENT_LENGTH x
       else headers_complete S (upd set_upgrade (UPDATE_STATE s_headers_done x)) (\<lambda>x.
              if hp_errno (x_parser x) \<noteq> HPE_OK then RETURN (x_p x) x else Reexecute x))"

end
