(* ===== verification/HttpBody.thy ===== *)
theory HttpBody
  imports HttpState
begin

text \<open>
  The cases of \<open>http_parser_execute\<close> after the headers: what kind of body the message has, bodies
  of known length, bodies until the end of the stream, and chunked bodies.
\<close>

definition case_s_headers_done :: "'e http_parser_settings \<Rightarrow> 'e exec \<Rightarrow> 'e exec outcome" where
  "case_s_headers_done S x =
     STRICT_CHECK (x_ch x \<noteq> LF) x (\<lambda>x.
       let x = upd (\<lambda>pr. pr\<lparr>hp_nread := 0\<rparr>) x;
           pr = x_parser x;
           hasBody = (has_flag (hp_flags pr) F_CHUNKED \<or>
                      (hp_content_length pr > 0 \<and> hp_content_length pr \<noteq> ULLONG_MAX))
       in if hp_upgrade pr \<and>
             (hp_method pr = HTTP_CONNECT \<or> has_flag (hp_flags pr) F_SKIPBODY \<or> \<not> hasBody)
          then CALLBACK_NOTIFY S N_message_complete (UPDATE_STATE (NEW_MESSAGE pr) x)
                 (\<lambda>x. RETURN (x_p x + 1) x)
          else if has_flag (hp_flags pr) F_SKIPBODY
          then CALLBACK_NOTIFY S N_message_complete (UPDATE_STATE (NEW_MESSAGE pr) x) Break
          else if has_flag (hp_flags pr) F_CHUNKED
          then Break (UPDATE_STATE s_chunk_size_start x)
          else if hp_content_length pr = 0
          then CALLBACK_NOTIFY S N_message_complete (UPDATE_STATE (NEW_MESSAGE pr) x) Break
          else if hp_content_length pr \<noteq> ULLONG_MAX
          then Break (UPDATE_STATE s_body_identity x)
          else if \<not> http_message_needs_eof pr
          then CALLBACK_NOTIFY S N_message_complete (UPDATE_STATE (NEW_MESSAGE pr) x) Break
          else Break (UPDATE_STATE s_body_identity_eof x))"

text \<open>
  Taking body bytes, shared by \<open>s_body_identity\<close> and \<open>s_chunk_data\<close>:
  \<open>to_read = MIN(content_length, data + len - p)\<close>, \<open>MARK(body)\<close>, then \<open>content_length\<close> goes down
  by \<open>to_read\<close> and \<open>p\<close> up by \<open>to_read - 1\<close>.
\<close>

definition body_to_read :: "string \<Rightarrow> 'e exec \<Rightarrow> u64" where
  "body_to_read data x =
     min (hp_content_length (x_parser x)) (of_nat (length data - x_p x))"

definition take_body :: "string \<Rightarrow> 'e exec \<Rightarrow> 'e exec" where
  "take_body data x =
     (let n = body_to_read data x;
          x = upd (\<lambda>pr. pr\<lparr>hp_content_length := hp_content_length pr - n\<rparr>) (MARK M_body x)
      in x\<lparr>x_p := x_p x + unat n - 1\<rparr>)"

definition case_s_body_identity ::
    "'e http_parser_settings \<Rightarrow> string \<Rightarrow> 'e exec \<Rightarrow> 'e exec outcome" where
  "case_s_body_identity S data x =
     assert_then
       (hp_content_length (x_parser x) \<noteq> 0 \<and> hp_content_length (x_parser x) \<noteq> ULLONG_MAX)
       (let x = take_body data x
        in if hp_content_length (x_parser x) = 0
           then CALLBACK_DATA_ER S data M_body (x_p x + 1) (x_p x)
                  (UPDATE_STATE s_message_done x) Reexecute
           else Break x)"

definition case_s_body_identity_eof :: "string \<Rightarrow> 'e exec \<Rightarrow> 'e exec outcome" where
  "case_s_body_identity_eof data x = Break ((MARK M_body x)\<lparr>x_p := length data - 1\<rparr>)"

definition case_s_message_done :: "'e http_parser_settings \<Rightarrow> 'e exec \<Rightarrow> 'e exec outcome" where
  "case_s_message_done S x =
     CALLBACK_NOTIFY S N_message_complete (UPDATE_STATE (NEW_MESSAGE (x_parser x)) x) (\<lambda>x.
       if hp_upgrade (x_parser x) then RETURN (x_p x + 1) x else Break x)"

section \<open>Chunked bodies\<close>

definition case_s_chunk_size_start :: "'e exec \<Rightarrow> 'e exec outcome" where
  "case_s_chunk_size_start x =
     assert_then (hp_nread (x_parser x) = 1 \<and> has_flag (hp_flags (x_parser x)) F_CHUNKED)
       (let v = unhex (x_ch x)
        in if v = - 1 then fail HPE_INVALID_CHUNK_SIZE x
           else Break (UPDATE_STATE s_chunk_size
                  (upd (\<lambda>pr. pr\<lparr>hp_content_length := of_int v\<rparr>) x)))"

definition case_s_chunk_size :: "'e exec \<Rightarrow> 'e exec outcome" where
  "case_s_chunk_size x =
     assert_then (has_flag (hp_flags (x_parser x)) F_CHUNKED)
       (if x_ch x = CR then Break (UPDATE_STATE s_chunk_size_almost_done x)
        else let v = unhex (x_ch x)
             in if v = - 1 then
                  (if x_ch x = CHR '';'' \<or> x_ch x = SP
                   then Break (UPDATE_STATE s_chunk_parameters x)
                   else fail HPE_INVALID_CHUNK_SIZE x)
                else let t = hp_content_length (x_parser x) * 16 + of_int v
                     in if (ULLONG_MAX - 16) div 16 < hp_content_length (x_parser x)
                        then fail HPE_INVALID_CONTENT_LENGTH x
                        else Break (upd (\<lambda>pr. pr\<lparr>hp_content_length := t\<rparr>) x))"

definition case_s_chunk_parameters :: "'e exec \<Rightarrow> 'e exec outcome" where
  "case_s_chunk_parameters x =
     assert_then (has_flag (hp_flags (x_parser x)) F_CHUNKED)
       (if x_ch x = CR then Break (UPDATE_STATE s_chunk_size_almost_done x) else Break x)"

definition case_s_chunk_size_almost_done ::
    "'e http_parser_settings \<Rightarrow> 'e exec \<Rightarrow> 'e exec outcome" where
  "case_s_chunk_size_almost_done S x =
     assert_then (has_flag (hp_flags (x_parser x)) F_CHUNKED)
       (STRICT_CHECK (x_ch x \<noteq> LF) x (\<lambda>x.
          let x = upd (\<lambda>pr. pr\<lparr>hp_nread := 0\<rparr>) x;
              x = (if hp_content_length (x_parser x) = 0
                   then UPDATE_STATE s_header_field_start
                          (upd (\<lambda>pr. pr\<lparr>hp_flags := hp_flags pr OR F_TRAILING\<rparr>) x)
                   else UPDATE_STATE s_chunk_data x)
          in CALLBACK_NOTIFY S N_chunk_header x Break))"

definition case_s_chunk_data :: "string \<Rightarrow> 'e exec \<Rightarrow> 'e exec outcome" where
  "case_s_chunk_data data x =
     assert_then (has_flag (hp_flags (x_parser x)) F_CHUNKED)
       (assert_then
          (hp_content_length (x_parser x) \<noteq> 0 \<and> hp_content_length (x_parser x) \<noteq> ULLONG_MAX)
          (let x = take_body data x
           in Break (if hp_content_length (x_parser x) = 0
                     then UPDATE_STATE s_chunk_data_almost_done x else x)))"

definition case_s_chunk_data_almost_done ::
    "'e http_parser_settings \<Rightarrow> string \<Rightarrow> 'e exec \<Rightarrow> 'e exec outcome" where
  "case_s_chunk_data_almost_done S data x =
     assert_then (has_flag (hp_flags (x_parser x)) F_CHUNKED \<and> hp_content_length (x_parser x) = 0)
       (STRICT_CHECK (x_ch x \<noteq> CR) x (\<lambda>x.
          CALLBACK_DATA S data M_body (UPDATE_STATE s_chunk_data_done x) Break))"

definition case_s_chunk_data_done :: "'e http_parser_settings \<Rightarrow> 'e exec \<Rightarrow> 'e exec outcome" where
  "case_s_chunk_data_done S x =
     assert_then (has_flag (hp_flags (x_parser x)) F_CHUNKED)
       (STRICT_CHECK (x_ch x \<noteq> LF) x (\<lambda>x.
          CALLBACK_NOTIFY S N_chunk_complete
            (UPDATE_STATE s_chunk_size_start (upd (\<lambda>pr. pr\<lparr>hp_nread := 0\<rparr>) x)) Break))"

end
