(* ===== verification/HttpExecute.thy ===== *)
theory HttpExecute
  imports HttpStartLine HttpHeaders HttpBody
begin

text \<open>
  \<open>http_parser_execute\<close>: its \<open>switch\<close>, its loop over the buffer with \<open>goto reexecute\<close>, its
  prologue and epilogue.
\<close>

fun switch_on :: "state \<Rightarrow> 'e http_parser_settings \<Rightarrow> string \<Rightarrow> 'e exec \<Rightarrow> 'e exec outcome" where
  "switch_on s_dead S data x = case_s_dead x"
| "switch_on s_start_req_or_res S data x = case_s_start_req_or_res S x"
| "switch_on s_res_or_resp_H S data x = case_s_res_or_resp_H x"
| "switch_on s_start_res S data x = case_s_start_res S x"
| "switch_on s_res_H S data x = case_s_res_H x"
| "switch_on s_res_HT S data x = case_s_res_HT x"
| "switch_on s_res_HTT S data x = case_s_res_HTT x"
| "switch_on s_res_HTTP S data x = case_s_res_HTTP x"
| "switch_on s_res_first_http_major S data x = case_s_res_first_http_major x"
| "switch_on s_res_http_major S data x = case_s_res_http_major x"
| "switch_on s_res_first_http_minor S data x = case_s_res_first_http_minor x"
| "switch_on s_res_http_minor S data x = case_s_res_http_minor x"
| "switch_on s_res_first_status_code S data x = case_s_res_first_status_code x"
| "switch_on s_res_status_code S data x = case_s_res_status_code x"
| "switch_on s_res_status_start S data x = case_s_res_status_start x"
| "switch_on s_res_status S data x = case_s_res_status S data x"
| "switch_on s_res_line_almost_done S data x = case_s_res_line_almost_done x"
| "switch_on s_start_req S data x = case_s_start_req S x"
| "switch_on s_req_method S data x = case_s_req_method x"
| "switch_on s_req_spaces_before_url S data x = case_s_req_spaces_before_url x"
| "switch_on s_req_schema S data x = case_s_req_schema x"
| "switch_on s_req_schema_slash S data x = case_s_req_schema x"
| "switch_on s_req_schema_slash_slash S data x = case_s_req_schema x"
| "switch_on s_req_server_start S data x = case_s_req_schema x"
| "switch_on s_req_server S data x = case_s_req_server S data x"
| "switch_on s_req_server_with_at S data x = case_s_req_server S data x"
| "switch_on s_req_path S data x = case_s_req_server S data x"
| "switch_on s_req_query_string_start S data x = case_s_req_server S data x"
| "switch_on s_req_query_string S data x = case_s_req_server S data x"
| "switch_on s_req_fragment_start S data x = case_s_req_server S data x"
| "switch_on s_req_fragment S data x = case_s_req_server S data x"
| "switch_on s_req_http_start S data x = case_s_req_http_start x"
| "switch_on s_req_http_H S data x = case_s_req_http_H x"
| "switch_on s_req_http_HT S data x = case_s_req_http_HT x"
| "switch_on s_req_http_HTT S data x = case_s_req_http_HTT x"
| "switch_on s_req_http_HTTP S data x = case_s_req_http_HTTP x"
| "switch_on s_req_first_http_major S data x = case_s_req_first_http_major x"
| "switch_on s_req_http_major S data x = case_s_req_http_major x"
| "switch_on s_req_first_http_minor S data x = case_s_req_first_http_minor x"
| "switch_on s_req_http_minor S data x = case_s_req_http_minor x"
| "switch_on s_req_line_almost_done S data x = case_s_req_line_almost_done x"
| "switch_on s_header_field_start S data x = case_s_header_field_start x"
| "switch_on s_header_field S data x = case_s_header_field S data x"
| "switch_on s_header_value_discard_ws S data x = case_s_header_value_discard_ws x"
| "switch_on s_header_value_discard_ws_almost_done S data x =
     case_s_header_value_discard_ws_almost_done x"
| "switch_on s_header_value_discard_lws S data x = case_s_header_value_discard_lws S data x"
| "switch_on s_header_value_start S data x = case_s_header_value_start x"
| "switch_on s_header_value S data x = case_s_header_value S data x"
| "switch_on s_header_value_lws S data x = case_s_header_value_lws x"
| "switch_on s_header_almost_done S data x = case_s_header_almost_done x"
| "switch_on s_chunk_size_start S data x = case_s_chunk_size_start x"
| "switch_on s_chunk_size S data x = case_s_chunk_size x"
| "switch_on s_chunk_parameters S data x = case_s_chunk_parameters x"
| "switch_on s_chunk_size_almost_done S data x = case_s_chunk_size_almost_done S x"
| "switch_on s_headers_almost_done S data x = case_s_headers_almost_done S x"
| "switch_on s_headers_done S data x = case_s_headers_done S x"
| "switch_on s_chunk_data S data x = case_s_chunk_data data x"
| "switch_on s_chunk_data_almost_done S data x = case_s_chunk_data_almost_done S data x"
| "switch_on s_chunk_data_done S data x = case_s_chunk_data_done S x"
| "switch_on s_body_identity S data x = case_s_body_identity S data x"
| "switch_on s_body_identity_eof S data x = case_s_body_identity_eof data x"
| "switch_on s_message_done S data x = case_s_message_done S x"

text \<open>
  What a call delivers: \<open>Done n parser env\<close> when it returns \<open>n\<close>; \<open>Faulted\<close> when an assertion
  failed or a read left its string; \<open>No_fuel\<close> when the step bound of the model ran out.
\<close>

datatype 'e result = Done nat http_parser 'e | Faulted | No_fuel

fun finish :: "'e exec outcome \<Rightarrow> 'e result" where
  "finish (Return n x) = Done n (x_parser x) (x_env x)"
| "finish (Error x) =
     Done (x_p x) ((x_parser x)\<lparr>
         hp_errno := (if hp_errno (x_parser x) = HPE_OK then HPE_UNKNOWN else hp_errno (x_parser x)),
         hp_state := x_state x\<rparr>) (x_env x)"
| "finish Fault = Faulted"
| "finish (Break x) = Faulted"
| "finish (Reexecute x) = Faulted"

text \<open>After the loop: at most one mark is left; its run is delivered.\<close>

definition leftover_marks :: "'e exec \<Rightarrow> nat" where
  "leftover_marks x =
     length (filter (\<lambda>m. x_mark x m \<noteq> None)
       [M_header_field, M_header_value, M_url, M_body, M_status])"

definition execute_end :: "'e http_parser_settings \<Rightarrow> string \<Rightarrow> 'e exec \<Rightarrow> 'e exec outcome" where
  "execute_end S data x =
     assert_then (leftover_marks x \<le> 1)
       (CALLBACK_DATA_NOADVANCE S data M_header_field x (\<lambda>x.
        CALLBACK_DATA_NOADVANCE S data M_header_value x (\<lambda>x.
        CALLBACK_DATA_NOADVANCE S data M_url x (\<lambda>x.
        CALLBACK_DATA_NOADVANCE S data M_body x (\<lambda>x.
        CALLBACK_DATA_NOADVANCE S data M_status x (\<lambda>x.
          RETURN (length data) x))))))"

text \<open>
  The loop: \<open>execute_loop\<close> is the head of the \<open>for\<close>, \<open>execute_switch\<close> the label \<open>reexecute\<close>.
  Each iteration and each \<open>goto\<close> spends one unit of fuel.
\<close>

fun execute_loop :: "nat \<Rightarrow> 'e http_parser_settings \<Rightarrow> string \<Rightarrow> 'e exec \<Rightarrow> 'e result"
  and execute_switch :: "nat \<Rightarrow> 'e http_parser_settings \<Rightarrow> string \<Rightarrow> 'e exec \<Rightarrow> 'e result" where
  "execute_loop 0 S data x = No_fuel"
| "execute_loop (Suc n) S data x =
     (if x_p x = length data then finish (execute_end S data x)
      else if x_p x > length data then Faulted
      else let x = x\<lparr>x_ch := data ! x_p x\<rparr>
           in if PARSING_HEADER (x_state x) then
                (case COUNT_HEADER_SIZE 1 x Break of
                   Break x \<Rightarrow> execute_switch n S data x
                 | r \<Rightarrow> finish r)
              else execute_switch n S data x)"
| "execute_switch 0 S data x = No_fuel"
| "execute_switch (Suc n) S data x =
     (case switch_on (x_state x) S data x of
        Break x \<Rightarrow> execute_loop n S data (x\<lparr>x_p := x_p x + 1\<rparr>)
      | Reexecute x \<Rightarrow> execute_switch n S data x
      | r \<Rightarrow> finish r)"

text \<open>The marks set on entry: a run that began in an earlier buffer goes on from its start.\<close>

definition entry_marks :: "state \<Rightarrow> mark \<Rightarrow> nat option" where
  "entry_marks s =
     (\<lambda>m. case m of
        M_header_field \<Rightarrow> if s = s_header_field then Some 0 else None
      | M_header_value \<Rightarrow> if s = s_header_value then Some 0 else None
      | M_url \<Rightarrow> if s \<in> url_states then Some 0 else None
      | M_status \<Rightarrow> if s = s_res_status then Some 0 else None
      | M_body \<Rightarrow> None)"

definition entry :: "http_parser \<Rightarrow> 'e \<Rightarrow> 'e exec" where
  "entry pr env =
     \<lparr>x_parser = pr, x_env = env, x_p = 0, x_ch = NUL, x_state = hp_state pr,
      x_lenient = hp_lenient_http_headers pr, x_mark = entry_marks (hp_state pr)\<rparr>"

text \<open>Enough for every byte and the at most five \<open>goto reexecute\<close> it can cause.\<close>

definition execute_fuel :: "string \<Rightarrow> nat" where
  "execute_fuel data = 8 * length data + 8"

text \<open>The end of the stream, \<open>len == 0\<close>.\<close>

definition execute_eof :: "'e http_parser_settings \<Rightarrow> 'e exec \<Rightarrow> 'e result" where
  "execute_eof S x =
     (if x_state x = s_body_identity_eof
      then finish (CALLBACK_NOTIFY_NOADVANCE S N_message_complete x (\<lambda>x. Return 0 x))
      else if x_state x \<in> {s_dead, s_start_req_or_res, s_start_res, s_start_req}
      then Done 0 (x_parser x) (x_env x)
      else Done 1 ((x_parser x)\<lparr>hp_errno := HPE_INVALID_EOF_STATE\<rparr>) (x_env x))"

definition http_parser_execute ::
    "'e http_parser_settings \<Rightarrow> string \<Rightarrow> http_parser \<Rightarrow> 'e \<Rightarrow> 'e result" where
  "http_parser_execute S data pr env =
     (if hp_errno pr \<noteq> HPE_OK then Done 0 pr env
      else if data = [] then execute_eof S (entry pr env)
      else execute_loop (execute_fuel data) S data (entry pr env))"

end
