(* ===== verification/HttpInvariant.thy ===== *)
theory HttpInvariant
  imports HttpExecute
begin

text \<open>
  The invariant of the HTTP parser, the contract of its callbacks as a locale, and what a good
  outcome of one case of the \<open>switch\<close> is, with a rule for each control macro.
\<close>

section \<open>The invariant\<close>

definition header_field_states :: "header_states set" where
  "header_field_states =
     {h_general, h_C, h_CO, h_CON, h_matching_connection, h_matching_proxy_connection,
      h_matching_content_length, h_matching_transfer_encoding, h_matching_upgrade,
      h_connection, h_content_length, h_transfer_encoding, h_upgrade}"

definition chunk_states :: "state set" where
  "chunk_states =
     {s_chunk_size_start, s_chunk_size, s_chunk_parameters, s_chunk_size_almost_done,
      s_chunk_data, s_chunk_data_almost_done, s_chunk_data_done}"

text \<open>The limits on the numeric fields, in every state.\<close>

definition base_inv :: "http_parser \<Rightarrow> bool" where
  "base_inv pr \<longleftrightarrow>
     hp_nread pr \<le> HTTP_MAX_HEADER_SIZE \<and>
     hp_http_major pr \<le> 999 \<and> hp_http_minor pr \<le> 999 \<and> hp_status_code pr \<le> 999"

text \<open>
  What holds of the parser fields in state \<open>s\<close>. \<open>k\<close> counts the header bytes of the current
  iteration: 0 at the head of the loop, 1 inside the switch.
\<close>

definition state_inv :: "nat \<Rightarrow> state \<Rightarrow> http_parser \<Rightarrow> bool" where
  "state_inv k s pr \<longleftrightarrow>
     base_inv pr \<and>
     (s = s_req_method \<longrightarrow> unat (hp_index pr) \<le> length (method_name (hp_method pr))) \<and>
     (s = s_header_field \<longrightarrow> hp_header_state pr \<in> header_field_states) \<and>
     (s = s_header_value \<longrightarrow> hp_header_state pr \<notin> {h_connection, h_transfer_encoding}) \<and>
     (s \<in> chunk_states \<longrightarrow> has_flag (hp_flags pr) F_CHUNKED) \<and>
     (s \<in> {s_body_identity, s_chunk_data} \<longrightarrow>
        hp_content_length pr \<noteq> 0 \<and> hp_content_length pr \<noteq> ULLONG_MAX) \<and>
     (s \<in> {s_chunk_size, s_chunk_parameters, s_chunk_size_almost_done} \<longrightarrow>
        hp_content_length pr \<noteq> ULLONG_MAX) \<and>
     (s = s_chunk_data_almost_done \<longrightarrow> hp_content_length pr = 0) \<and>
     (s = s_chunk_size_start \<longrightarrow> hp_nread pr = of_nat k)"

text \<open>The invariant of a parser between two calls.\<close>

definition parser_inv :: "http_parser \<Rightarrow> bool" where
  "parser_inv pr \<longleftrightarrow> state_inv 0 (hp_state pr) pr"

fun mark_states :: "mark \<Rightarrow> state set" where
  "mark_states M_header_field = {s_header_field}"
| "mark_states M_header_value = {s_header_value}"
| "mark_states M_url = url_states"
| "mark_states M_body =
     {s_body_identity, s_body_identity_eof, s_chunk_data, s_chunk_data_almost_done}"
| "mark_states M_status = {s_res_status}"

text \<open>A mark is set only in the states of its run, and lies before \<open>p\<close>.\<close>

definition mark_inv :: "'e exec \<Rightarrow> bool" where
  "mark_inv x \<longleftrightarrow>
     (\<forall>m i. x_mark x m = Some i \<longrightarrow> x_state x \<in> mark_states m \<and> i \<le> x_p x)"

definition exec_inv :: "nat \<Rightarrow> nat \<Rightarrow> 'e exec \<Rightarrow> bool" where
  "exec_inv k len x \<longleftrightarrow>
     hp_errno (x_parser x) = HPE_OK \<and> state_inv k (x_state x) (x_parser x) \<and> mark_inv x \<and>
     x_p x < len"

text \<open>How many more \<open>goto reexecute\<close> a state can cause at one byte.\<close>

fun rank :: "state \<Rightarrow> nat" where
  "rank s_start_req_or_res = 1"
| "rank s_header_value = 1"
| "rank s_header_value_lws = 4"
| "rank s_header_value_discard_lws = 4"
| "rank s_header_field_start = 3"
| "rank s_headers_almost_done = 2"
| "rank s_body_identity = 1"
| "rank _ = 0"

lemma rank_bound: "rank s \<le> 4"
  by (cases s) simp_all

text \<open>A good end of a case entered at position \<open>p0\<close> of \<open>len\<close> in a state of rank \<open>r\<close>.\<close>

fun good :: "nat \<Rightarrow> nat \<Rightarrow> nat \<Rightarrow> 'e exec outcome \<Rightarrow> bool" where
  "good len p0 r (Break x) \<longleftrightarrow> exec_inv 0 len x \<and> p0 \<le> x_p x"
| "good len p0 r (Reexecute x) \<longleftrightarrow> exec_inv 1 len x \<and> p0 \<le> x_p x \<and> rank (x_state x) < r"
| "good len p0 r (Return n x) \<longleftrightarrow> n \<le> len \<and> parser_inv (x_parser x)"
| "good len p0 r (Error x) \<longleftrightarrow>
     x_p x \<le> len \<and> hp_errno (x_parser x) \<noteq> HPE_OK \<and> hp_errno (x_parser x) \<noteq> HPE_PAUSED"
| "good len p0 r Fault \<longleftrightarrow> False"

subsection \<open>Fields the invariant does not read\<close>

lemma state_inv_frame [simp]:
  "state_inv k s (pr\<lparr>hp_state := t\<rparr>) = state_inv k s pr"
  "state_inv k s (pr\<lparr>hp_errno := e\<rparr>) = state_inv k s pr"
  "state_inv k s (pr\<lparr>hp_upgrade := u\<rparr>) = state_inv k s pr"
  "state_inv k s (pr\<lparr>hp_type := ty\<rparr>) = state_inv k s pr"
  by (simp_all add: state_inv_def base_inv_def)

lemma base_inv_frame [simp]:
  "base_inv (pr\<lparr>hp_state := t\<rparr>) = base_inv pr"
  "base_inv (pr\<lparr>hp_errno := e\<rparr>) = base_inv pr"
  "base_inv (pr\<lparr>hp_upgrade := u\<rparr>) = base_inv pr"
  "base_inv (pr\<lparr>hp_type := ty\<rparr>) = base_inv pr"
  "base_inv (pr\<lparr>hp_flags := fl\<rparr>) = base_inv pr"
  "base_inv (pr\<lparr>hp_header_state := h\<rparr>) = base_inv pr"
  "base_inv (pr\<lparr>hp_index := i\<rparr>) = base_inv pr"
  "base_inv (pr\<lparr>hp_content_length := cl\<rparr>) = base_inv pr"
  "base_inv (pr\<lparr>hp_method := m\<rparr>) = base_inv pr"
  by (simp_all add: base_inv_def)

text \<open>The invariant at the states that ask for something of their own, and at the others.\<close>

lemma state_inv_at:
  "state_inv k s_req_method pr \<longleftrightarrow>
     base_inv pr \<and> unat (hp_index pr) \<le> length (method_name (hp_method pr))"
  "state_inv k s_header_field pr \<longleftrightarrow> base_inv pr \<and> hp_header_state pr \<in> header_field_states"
  "state_inv k s_header_value pr \<longleftrightarrow>
     base_inv pr \<and> hp_header_state pr \<notin> {h_connection, h_transfer_encoding}"
  "state_inv k s_chunk_size_start pr \<longleftrightarrow>
     base_inv pr \<and> has_flag (hp_flags pr) F_CHUNKED \<and> hp_nread pr = of_nat k"
  "state_inv k s_chunk_size pr \<longleftrightarrow>
     base_inv pr \<and> has_flag (hp_flags pr) F_CHUNKED \<and> hp_content_length pr \<noteq> ULLONG_MAX"
  "state_inv k s_chunk_parameters pr \<longleftrightarrow>
     base_inv pr \<and> has_flag (hp_flags pr) F_CHUNKED \<and> hp_content_length pr \<noteq> ULLONG_MAX"
  "state_inv k s_chunk_size_almost_done pr \<longleftrightarrow>
     base_inv pr \<and> has_flag (hp_flags pr) F_CHUNKED \<and> hp_content_length pr \<noteq> ULLONG_MAX"
  "state_inv k s_chunk_data pr \<longleftrightarrow>
     base_inv pr \<and> has_flag (hp_flags pr) F_CHUNKED \<and> hp_content_length pr \<noteq> 0 \<and>
     hp_content_length pr \<noteq> ULLONG_MAX"
  "state_inv k s_chunk_data_almost_done pr \<longleftrightarrow>
     base_inv pr \<and> has_flag (hp_flags pr) F_CHUNKED \<and> hp_content_length pr = 0"
  "state_inv k s_chunk_data_done pr \<longleftrightarrow> base_inv pr \<and> has_flag (hp_flags pr) F_CHUNKED"
  "state_inv k s_body_identity pr \<longleftrightarrow>
     base_inv pr \<and> hp_content_length pr \<noteq> 0 \<and> hp_content_length pr \<noteq> ULLONG_MAX"
  by (auto simp: state_inv_def chunk_states_def)

definition plain_state :: "state \<Rightarrow> bool" where
  "plain_state s \<longleftrightarrow>
     s \<notin> {s_req_method, s_header_field, s_header_value, s_body_identity} \<union> chunk_states"

lemma state_inv_plain: "plain_state s \<Longrightarrow> state_inv k s pr = base_inv pr"
  by (auto simp: plain_state_def state_inv_def chunk_states_def)

lemma mark_inv_frame [simp]:
  "mark_inv (x\<lparr>x_parser := pr\<rparr>) = mark_inv x"
  "mark_inv (x\<lparr>x_env := env\<rparr>) = mark_inv x"
  "mark_inv (x\<lparr>x_ch := c\<rparr>) = mark_inv x"
  by (simp_all add: mark_inv_def)

text \<open>Which mark can be set in a state.\<close>

fun mark_of :: "state \<Rightarrow> mark option" where
  "mark_of s_header_field = Some M_header_field"
| "mark_of s_header_value = Some M_header_value"
| "mark_of s_res_status = Some M_status"
| "mark_of s_body_identity = Some M_body"
| "mark_of s_body_identity_eof = Some M_body"
| "mark_of s_chunk_data = Some M_body"
| "mark_of s_chunk_data_almost_done = Some M_body"
| "mark_of s_req_schema = Some M_url"
| "mark_of s_req_schema_slash = Some M_url"
| "mark_of s_req_schema_slash_slash = Some M_url"
| "mark_of s_req_server_start = Some M_url"
| "mark_of s_req_server = Some M_url"
| "mark_of s_req_server_with_at = Some M_url"
| "mark_of s_req_path = Some M_url"
| "mark_of s_req_query_string_start = Some M_url"
| "mark_of s_req_query_string = Some M_url"
| "mark_of s_req_fragment_start = Some M_url"
| "mark_of s_req_fragment = Some M_url"
| "mark_of _ = None"

lemma mark_of_iff: "s \<in> mark_states m \<longleftrightarrow> mark_of s = Some m"
  by (cases m; cases s) (simp_all add: url_states_def)

lemma mark_inv_mark_of:
  "mark_inv x \<longleftrightarrow> (\<forall>m i. x_mark x m = Some i \<longrightarrow> mark_of (x_state x) = Some m \<and> i \<le> x_p x)"
  by (simp add: mark_inv_def mark_of_iff)

lemma mark_inv_no_marks:
  assumes "mark_inv x" "mark_of (x_state x) = None"
  shows "x_mark x m = None"
  using assms by (cases "x_mark x m") (auto simp: mark_inv_mark_of)

lemma mark_inv_no_other:
  assumes "mark_inv x" "mark_of (x_state x) = Some m" "m' \<noteq> m"
  shows "x_mark x m' = None"
  using assms by (cases "x_mark x m'") (auto simp: mark_inv_mark_of)

lemma mark_inv_None [simp]: "(\<And>m. x_mark x m = None) \<Longrightarrow> mark_inv x"
  by (simp add: mark_inv_def)

lemma http_parser_init_inv: "parser_inv (http_parser_init t)"
  by (cases t) (simp_all add: parser_inv_def state_inv_def base_inv_def http_parser_init_def chunk_states_def
      HTTP_MAX_HEADER_SIZE_def)

lemma http_parser_pause_inv:
  "http_parser_pause b pr = Some pr' \<Longrightarrow> parser_inv pr \<Longrightarrow> parser_inv pr'"
  by (auto simp: http_parser_pause_def parser_inv_def split: if_splits)

section \<open>The contract of the callbacks\<close>

text \<open>
  A client may keep a state of its own, fail, or pause the parser, which both show in
  \<open>http_errno\<close>; it leaves the rest of the parser alone.
\<close>

definition keeps_parser :: "(http_parser \<Rightarrow> 'e \<Rightarrow> int \<times> http_parser \<times> 'e) \<Rightarrow> bool" where
  "keeps_parser f \<longleftrightarrow> (\<forall>pr env. \<exists>e. fst (snd (f pr env)) = pr\<lparr>hp_errno := e\<rparr>)"

lemma keeps_parserE:
  assumes "keeps_parser f"
  obtains r e env' where "f pr env = (r, pr\<lparr>hp_errno := e\<rparr>, env')"
proof -
  obtain e where "fst (snd (f pr env)) = pr\<lparr>hp_errno := e\<rparr>"
    using assms by (auto simp: keeps_parser_def)
  then have "f pr env = (fst (f pr env), pr\<lparr>hp_errno := e\<rparr>, snd (snd (f pr env)))"
    by (metis prod.collapse)
  then show ?thesis by (rule that)
qed

locale http_client =
  fixes S :: "'e http_parser_settings"
  assumes notify_keeps: "notify_cb S n = Some f \<Longrightarrow> keeps_parser f"
    and data_keeps: "data_cb S m = Some g \<Longrightarrow> keeps_parser (\<lambda>pr. g pr d)"
    and complete_keeps: "on_headers_complete S = Some h \<Longrightarrow> keeps_parser h"
begin

lemma run_callback_good:
  assumes "keeps_parser f" "e \<noteq> HPE_OK" "hp_errno (x_parser x) = HPE_OK"
    and "state_inv 0 (x_state x) (x_parser x)" "er \<le> len"
    and k: "\<And>env. good len p0 r
      (k (x\<lparr>x_parser := (x_parser x)\<lparr>hp_state := x_state x\<rparr>, x_env := env\<rparr>))"
  shows "good len p0 r (run_callback f e er x k)"
proof -
  let ?pr = "(x_parser x)\<lparr>hp_state := x_state x\<rparr>"
  obtain q e' env' where f: "f ?pr (x_env x) = (q, ?pr\<lparr>hp_errno := e'\<rparr>, env')"
    using assms(1) by (rule keeps_parserE)
  have same: "?pr\<lparr>hp_errno := HPE_OK\<rparr> = ?pr"
    using assms(3) by simp
  have ok: "good len p0 r (k (x\<lparr>x_parser := ?pr\<lparr>hp_errno := HPE_OK\<rparr>, x_env := env',
              x_state := x_state x\<rparr>))"
  proof -
    have "x\<lparr>x_parser := ?pr, x_env := env', x_state := x_state x\<rparr> =
          x\<lparr>x_parser := ?pr, x_env := env'\<rparr>"
      by simp
    then show ?thesis unfolding same using k by simp
  qed
  show ?thesis
    using assms(2,4,5) ok unfolding run_callback_def f
    by (auto simp: Let_def parser_inv_def)
qed

lemma notify_good:
  assumes "hp_errno (x_parser x) = HPE_OK" "state_inv 0 (x_state x) (x_parser x)" "er \<le> len"
    and "good len p0 r (k x)"
    and "\<And>env. good len p0 r
      (k (x\<lparr>x_parser := (x_parser x)\<lparr>hp_state := x_state x\<rparr>, x_env := env\<rparr>))"
  shows "good len p0 r (CALLBACK_NOTIFY_ER S n er x k)"
proof (cases "notify_cb S n")
  case None
  then show ?thesis using assms by (simp add: CALLBACK_NOTIFY_ER_def assert_then_def)
next
  case (Some f)
  have "notify_errno n \<noteq> HPE_OK" by (cases n) simp_all
  then show ?thesis
    using assms Some notify_keeps [OF Some]
    by (simp add: CALLBACK_NOTIFY_ER_def assert_then_def run_callback_good)
qed

lemma data_good:
  assumes "hp_errno (x_parser x) = HPE_OK" "state_inv 0 (x_state x) (x_parser x)" "er \<le> len"
    and "\<And>env st. good len p0 r
      (k (x\<lparr>x_parser := (x_parser x)\<lparr>hp_state := st\<rparr>, x_env := env,
            x_mark := (x_mark x)(m := None)\<rparr>))"
  shows "good len p0 r (CALLBACK_DATA_ER S data m to er x k)"
proof -
  have same: "x\<lparr>x_parser := (x_parser x)\<lparr>hp_state := hp_state (x_parser x)\<rparr>, x_env := x_env x,
                x_mark := mk\<rparr> = x\<lparr>x_mark := mk\<rparr>" for mk
    by simp
  show ?thesis
  proof (cases "x_mark x m")
    case None
    have "x\<lparr>x_mark := (x_mark x)(m := None)\<rparr> = x"
      using None by (simp add: fun_upd_idem)
    then have "good len p0 r (k x)"
      using assms(4) [of "x_env x" "hp_state (x_parser x)"] unfolding same by simp
    then show ?thesis using None assms(1) by (simp add: CALLBACK_DATA_ER_def assert_then_def)
  next
    case (Some i)
    show ?thesis
    proof (cases "data_cb S m")
      case None
      then show ?thesis
        using assms(1) Some assms(4) [of "x_env x" "hp_state (x_parser x)"] unfolding same
        by (simp add: CALLBACK_DATA_ER_def assert_then_def)
    next
      case f: (Some f)
      have "data_errno m \<noteq> HPE_OK" by (cases m) simp_all
      then show ?thesis
        using assms Some f data_keeps [OF f, of "slice data i (to - i)"]
        by (simp add: CALLBACK_DATA_ER_def assert_then_def run_callback_good)
    qed
  qed
qed

end

section \<open>Rules for the other macros\<close>

lemma fail_good [step_intros]:
  "x_p x \<le> len \<Longrightarrow> e \<noteq> HPE_OK \<Longrightarrow> e \<noteq> HPE_PAUSED \<Longrightarrow> good len p0 r (fail e x)"
  by (simp add: fail_def upd_def)

lemma RETURN_good [step_intros]:
  "n \<le> len \<Longrightarrow> state_inv 0 (x_state x) (x_parser x) \<Longrightarrow> good len p0 r (RETURN n x)"
  by (simp add: RETURN_def upd_def parser_inv_def)

lemma STRICT_CHECK_good [step_intros]:
  "x_p x \<le> len \<Longrightarrow> (\<not> b \<Longrightarrow> good len p0 r (k x)) \<Longrightarrow> good len p0 r (STRICT_CHECK b x k)"
  by (simp add: STRICT_CHECK_def fail_good)

lemma assert_then_good [step_intros]:
  "b \<Longrightarrow> good len p0 r o' \<Longrightarrow> good len p0 r (assert_then b o')"
  by (simp add: assert_then_def)

lemma COUNT_HEADER_SIZE_good:
  assumes "x_p x \<le> len"
    and "\<And>n. n \<le> HTTP_MAX_HEADER_SIZE \<Longrightarrow> good len p0 r (k (upd (\<lambda>pr. pr\<lparr>hp_nread := n\<rparr>) x))"
  shows "good len p0 r (COUNT_HEADER_SIZE v x k)"
proof -
  let ?n = "hp_nread (x_parser x) + of_nat v"
  have "good len p0 r (k (upd (\<lambda>pr. pr\<lparr>hp_nread := ?n\<rparr>) x))" if "?n \<le> HTTP_MAX_HEADER_SIZE"
    using that by (rule assms(2))
  then show ?thesis
    using assms(1) by (auto simp: COUNT_HEADER_SIZE_def Let_def upd_def fail_def)
qed

end
