(* ===== verification/HttpSafetyLine.thy ===== *)
theory HttpSafetyLine
  imports HttpInvariant
begin

text \<open>
  Every case of the \<open>switch\<close> that reads a start line ends well: from a state of the invariant it
  reaches a state of the invariant, a \<open>return\<close> in bounds or an error, never an undefined step.
\<close>

section \<open>Facts the cases share\<close>

lemma mark_inv_iff:
  "mark_inv x \<longleftrightarrow> (\<forall>m. mark_of (x_state x) \<noteq> Some m \<longrightarrow> x_mark x m = None) \<and>
     (\<forall>m i. x_mark x m = Some i \<longrightarrow> i \<le> x_p x)"
  unfolding mark_inv_mark_of by (metis option.exhaust_sel option.distinct(1) option.sel)

lemma url_states_facts:
  assumes "s \<in> url_states"
  shows "mark_of s = Some M_url" "state_inv k s pr = base_inv pr"
  using assms by (auto simp: url_states_def state_inv_plain plain_state_def chunk_states_def)

text \<open>The unfolding a case needs: the macros, the invariant at fixed states, and the marks.\<close>

lemmas case_simps = Let_def upd_def UPDATE_STATE_def MARK_def exec_inv_def state_inv_at
  state_inv_plain plain_state_def chunk_states_def mark_inv_iff

lemmas macro_simps = CALLBACK_NOTIFY_def CALLBACK_NOTIFY_NOADVANCE_def CALLBACK_DATA_def
  CALLBACK_DATA_NOADVANCE_def

section \<open>The start line\<close>

lemma digit_le_999: "IS_NUM c \<Longrightarrow> (of_nat (digit_val c) :: u16) \<le> 999"
  using digit_val_less [of c] by (simp add: word_le_nat_alt unat_of_nat_small)

lemma IS_NUM_iff: "IS_NUM c \<longleftrightarrow> \<not> (c_ord c < c_ord (CHR ''0'') \<or> c_ord c > c_ord (CHR ''9''))"
  by (auto simp: IS_NUM_def in_range_def)

text \<open>A byte of the URL.\<close>

lemma url_char_good:
  assumes "base_inv (x_parser x)" "hp_errno (x_parser x) = HPE_OK" "x_p x < len" "p0 \<le> x_p x"
    and "\<And>m i. x_mark x m = Some i \<Longrightarrow> m = M_url \<and> i \<le> x_p x"
  shows "good len p0 r (url_char x)"
proof (cases "parse_url_char (x_state x) (x_ch x) = s_dead")
  case True
  then show ?thesis using assms by (simp add: url_char_def UPDATE_STATE_def fail_good)
next
  case False
  then have url: "parse_url_char (x_state x) (x_ch x) \<in> url_states"
    by (rule parse_url_char_closed)
  have "m = M_url \<and> i \<le> x_p x" if "x_mark x m = Some i" for m i
    using that by (rule assms(5))
  then show ?thesis
    using assms(1-4) False url
    by (auto simp: url_char_def UPDATE_STATE_def exec_inv_def url_states_facts mark_inv_mark_of)
qed

text \<open>The index stays inside the method's string, through every change of method.\<close>

lemma method_switch_length:
  "method_switch m i ch = Some m' \<Longrightarrow> i < length (method_name m')"
  by (auto simp: method_switch_def method_strings_def split: if_splits)

lemma method_name_short: "length (method_name m) \<le> 11"
  by (cases m) (simp_all add: method_strings_def)

lemma first_method_length: "first_method ch = Some m \<Longrightarrow> 1 \<le> length (method_name m)"
  by (cases m) (simp_all add: method_strings_def)

lemma c_str_at_not_NUL: "c_str_at s i = Some c \<Longrightarrow> c \<noteq> NUL \<Longrightarrow> i < length s"
  by (auto simp: c_str_at_def split: if_splits)

lemma inc_index_unat:
  assumes "unat i < 127"
  shows "unat (i + 1 :: 7 word) = unat i + 1"
  using assms by (simp add: unat_word_ariths)

context http_client
begin

lemma case_s_dead_good:
  assumes "exec_inv 1 len x" "x_state x = s_dead"
  shows "good len (x_p x) r (case_s_dead x)"
  using assms
  by (auto simp: case_s_dead_def macro_simps case_simps  intro!: step_intros notify_good data_good)

lemma case_s_start_req_or_res_good:
  assumes "exec_inv 1 len x" "x_state x = s_start_req_or_res"
  shows "good len (x_p x) (rank s_start_req_or_res) (case_s_start_req_or_res S x)"
  using assms
  by (auto simp: case_s_start_req_or_res_def macro_simps case_simps clear_message_def intro!: step_intros notify_good data_good)

lemma case_s_res_or_resp_H_good:
  assumes "exec_inv 1 len x" "x_state x = s_res_or_resp_H"
  shows "good len (x_p x) r (case_s_res_or_resp_H x)"
  using assms
  by (auto simp: case_s_res_or_resp_H_def macro_simps case_simps method_strings_def intro!: step_intros notify_good data_good)

lemma case_s_start_res_good:
  assumes "exec_inv 1 len x" "x_state x = s_start_res"
  shows "good len (x_p x) r (case_s_start_res S x)"
  using assms
  by (auto simp: case_s_start_res_def macro_simps case_simps clear_message_def intro!: step_intros notify_good data_good)

lemma case_s_res_H_good:
  assumes "exec_inv 1 len x" "x_state x = s_res_H"
  shows "good len (x_p x) r (case_s_res_H x)"
  using assms
  by (auto simp: case_s_res_H_def macro_simps case_simps expect_char_def intro!: step_intros notify_good data_good)

lemma case_s_res_HT_good:
  assumes "exec_inv 1 len x" "x_state x = s_res_HT"
  shows "good len (x_p x) r (case_s_res_HT x)"
  using assms
  by (auto simp: case_s_res_HT_def macro_simps case_simps expect_char_def intro!: step_intros notify_good data_good)

lemma case_s_res_HTT_good:
  assumes "exec_inv 1 len x" "x_state x = s_res_HTT"
  shows "good len (x_p x) r (case_s_res_HTT x)"
  using assms
  by (auto simp: case_s_res_HTT_def macro_simps case_simps expect_char_def intro!: step_intros notify_good data_good)

lemma case_s_res_HTTP_good:
  assumes "exec_inv 1 len x" "x_state x = s_res_HTTP"
  shows "good len (x_p x) r (case_s_res_HTTP x)"
  using assms
  by (auto simp: case_s_res_HTTP_def macro_simps case_simps expect_char_def intro!: step_intros notify_good data_good)

lemma case_s_res_line_almost_done_good:
  assumes "exec_inv 1 len x" "x_state x = s_res_line_almost_done"
  shows "good len (x_p x) r (case_s_res_line_almost_done x)"
  using assms
  by (auto simp: case_s_res_line_almost_done_def macro_simps case_simps expect_char_def intro!: step_intros notify_good data_good)

lemma case_s_req_http_H_good:
  assumes "exec_inv 1 len x" "x_state x = s_req_http_H"
  shows "good len (x_p x) r (case_s_req_http_H x)"
  using assms
  by (auto simp: case_s_req_http_H_def macro_simps case_simps expect_char_def intro!: step_intros notify_good data_good)

lemma case_s_req_http_HT_good:
  assumes "exec_inv 1 len x" "x_state x = s_req_http_HT"
  shows "good len (x_p x) r (case_s_req_http_HT x)"
  using assms
  by (auto simp: case_s_req_http_HT_def macro_simps case_simps expect_char_def intro!: step_intros notify_good data_good)

lemma case_s_req_http_HTT_good:
  assumes "exec_inv 1 len x" "x_state x = s_req_http_HTT"
  shows "good len (x_p x) r (case_s_req_http_HTT x)"
  using assms
  by (auto simp: case_s_req_http_HTT_def macro_simps case_simps expect_char_def intro!: step_intros notify_good data_good)

lemma case_s_req_http_HTTP_good:
  assumes "exec_inv 1 len x" "x_state x = s_req_http_HTTP"
  shows "good len (x_p x) r (case_s_req_http_HTTP x)"
  using assms
  by (auto simp: case_s_req_http_HTTP_def macro_simps case_simps expect_char_def intro!: step_intros notify_good data_good)

lemma case_s_res_http_major_good:
  assumes "exec_inv 1 len x" "x_state x = s_res_http_major"
  shows "good len (x_p x) r (case_s_res_http_major x)"
  using assms
  by (auto simp: case_s_res_http_major_def macro_simps case_simps base_inv_def intro!: step_intros notify_good data_good)

lemma case_s_res_http_minor_good:
  assumes "exec_inv 1 len x" "x_state x = s_res_http_minor"
  shows "good len (x_p x) r (case_s_res_http_minor x)"
  using assms
  by (auto simp: case_s_res_http_minor_def macro_simps case_simps base_inv_def intro!: step_intros notify_good data_good)

lemma case_s_res_status_code_good:
  assumes "exec_inv 1 len x" "x_state x = s_res_status_code"
  shows "good len (x_p x) r (case_s_res_status_code x)"
  using assms
  by (auto simp: case_s_res_status_code_def macro_simps case_simps base_inv_def intro!: step_intros notify_good data_good)

lemma case_s_res_status_start_good:
  assumes "exec_inv 1 len x" "x_state x = s_res_status_start"
  shows "good len (x_p x) r (case_s_res_status_start x)"
  using assms
  by (auto simp: case_s_res_status_start_def macro_simps case_simps base_inv_def intro!: step_intros notify_good data_good)

lemma case_s_req_http_start_good:
  assumes "exec_inv 1 len x" "x_state x = s_req_http_start"
  shows "good len (x_p x) r (case_s_req_http_start x)"
  using assms
  by (auto simp: case_s_req_http_start_def macro_simps case_simps base_inv_def intro!: step_intros notify_good data_good)

lemma case_s_req_http_major_good:
  assumes "exec_inv 1 len x" "x_state x = s_req_http_major"
  shows "good len (x_p x) r (case_s_req_http_major x)"
  using assms
  by (auto simp: case_s_req_http_major_def macro_simps case_simps base_inv_def intro!: step_intros notify_good data_good)

lemma case_s_req_http_minor_good:
  assumes "exec_inv 1 len x" "x_state x = s_req_http_minor"
  shows "good len (x_p x) r (case_s_req_http_minor x)"
  using assms
  by (auto simp: case_s_req_http_minor_def macro_simps case_simps base_inv_def intro!: step_intros notify_good data_good)

lemma case_s_req_line_almost_done_good:
  assumes "exec_inv 1 len x" "x_state x = s_req_line_almost_done"
  shows "good len (x_p x) r (case_s_req_line_almost_done x)"
  using assms
  by (auto simp: case_s_req_line_almost_done_def macro_simps case_simps base_inv_def intro!: step_intros notify_good data_good)

lemma case_s_res_first_http_major_good:
  assumes "exec_inv 1 len x" "x_state x = s_res_first_http_major"
  shows "good len (x_p x) r (case_s_res_first_http_major x)"
  using assms
  by (auto simp: case_s_res_first_http_major_def macro_simps case_simps digit_le_999 IS_NUM_iff base_inv_def intro!: step_intros notify_good data_good)

lemma case_s_res_first_http_minor_good:
  assumes "exec_inv 1 len x" "x_state x = s_res_first_http_minor"
  shows "good len (x_p x) r (case_s_res_first_http_minor x)"
  using assms
  by (auto simp: case_s_res_first_http_minor_def macro_simps case_simps digit_le_999 IS_NUM_iff base_inv_def intro!: step_intros notify_good data_good)

lemma case_s_res_first_status_code_good:
  assumes "exec_inv 1 len x" "x_state x = s_res_first_status_code"
  shows "good len (x_p x) r (case_s_res_first_status_code x)"
  using assms
  by (auto simp: case_s_res_first_status_code_def macro_simps case_simps digit_le_999 IS_NUM_iff base_inv_def intro!: step_intros notify_good data_good)

lemma case_s_req_first_http_minor_good:
  assumes "exec_inv 1 len x" "x_state x = s_req_first_http_minor"
  shows "good len (x_p x) r (case_s_req_first_http_minor x)"
  using assms
  by (auto simp: case_s_req_first_http_minor_def macro_simps case_simps digit_le_999 IS_NUM_iff base_inv_def intro!: step_intros notify_good data_good)

lemma case_s_res_status_good:
  assumes "exec_inv 1 len x" "x_state x = s_res_status"
  shows "good len (x_p x) r (case_s_res_status S data x)"
  using assms
  by (auto simp: case_s_res_status_def macro_simps case_simps  intro!: step_intros notify_good data_good)

lemma case_s_req_first_http_major_good:
  assumes "exec_inv 1 len x" "x_state x = s_req_first_http_major"
  shows "good len (x_p x) r (case_s_req_first_http_major x)"
proof -
  have "IS_NUM (x_ch x)"
    if "\<not> (c_ord (x_ch x) < c_ord (CHR ''1'') \<or> c_ord (x_ch x) > c_ord (CHR ''9''))"
    using that by (auto simp: IS_NUM_def in_range_def c_ord_def)
  then show ?thesis
    using assms digit_le_999
    by (auto simp: case_s_req_first_http_major_def base_inv_def case_simps intro!: step_intros)
qed

lemma case_s_start_req_good:
  assumes "exec_inv 1 len x" "x_state x = s_start_req"
  shows "good len (x_p x) r (case_s_start_req S x)"
  using assms
  by (auto simp: case_s_start_req_def clear_message_def macro_simps case_simps
      dest!: first_method_length split: option.splits intro!: step_intros notify_good)

lemma case_s_req_method_good:
  assumes inv: "exec_inv 1 len x" and st: "x_state x = s_req_method"
  shows "good len (x_p x) r (case_s_req_method x)"
proof -
  let ?pr = "x_parser x"
  let ?i = "unat (hp_index ?pr)"
  have idx: "?i \<le> length (method_name (hp_method ?pr))"
    using inv st by (simp add: exec_inv_def state_inv_at)
  then have inc: "unat (hp_index ?pr + 1) = ?i + 1"
    using method_name_short [of "hp_method ?pr"] by (intro inc_index_unat) linarith
  obtain c where c: "c_str_at (method_name (hp_method ?pr)) ?i = Some c"
    using c_str_at_in_bounds [OF idx] by blast
  have msearch: "?i = 1 \<Longrightarrow> ?i + 1 \<le> length (method_name HTTP_MSEARCH)"
    by (simp add: method_strings_def)
  show ?thesis
    using inv st c inc msearch
    by (auto simp: case_s_req_method_def inc_index_def case_simps
        dest!: c_str_at_not_NUL method_switch_length split: option.splits intro!: step_intros)
qed

lemma case_s_req_spaces_before_url_good:
  assumes inv: "exec_inv 1 len x" and st: "x_state x = s_req_spaces_before_url"
  shows "good len (x_p x) r (case_s_req_spaces_before_url x)"
proof -
  have "x_mark x m = None" for m
    using inv st by (simp add: exec_inv_def mark_inv_iff)
  then show ?thesis
    using inv st
    by (auto simp: case_s_req_spaces_before_url_def case_simps split: if_splits intro!: url_char_good)
qed

lemma url_only_mark:
  assumes "exec_inv 1 len x" "x_state x \<in> url_states" "x_mark x m = Some i"
  shows "m = M_url \<and> i \<le> x_p x"
  using assms by (auto simp: exec_inv_def mark_inv_mark_of url_states_facts)

lemma case_s_req_schema_good:
  assumes "exec_inv 1 len x" "x_state x \<in> url_states"
  shows "good len (x_p x) r (case_s_req_schema x)"
  using assms url_only_mark [OF assms]
  by (auto simp: case_s_req_schema_def exec_inv_def url_states_facts
      intro!: url_char_good step_intros)

lemma case_s_req_server_good:
  assumes inv: "exec_inv 1 len x" and st: "x_state x \<in> url_states"
  shows "good len (x_p x) r (case_s_req_server S data x)"
proof -
  have m: "x_mark x m = None" if "m \<noteq> M_url" for m
    using url_only_mark [OF inv st, of m] that by (cases "x_mark x m") auto
  have base: "base_inv (x_parser x)" "hp_errno (x_parser x) = HPE_OK" "x_p x < len"
    using inv st by (simp_all add: exec_inv_def url_states_facts)
  have "good len (x_p x) r (url_char x)"
    using base order_refl url_only_mark [OF inv st] by (rule url_char_good)
  then show ?thesis
    using base m
    by (auto simp: case_s_req_server_def macro_simps UPDATE_STATE_def upd_def exec_inv_def
        state_inv_plain plain_state_def chunk_states_def base_inv_def intro!: data_good)
qed

end

end
