(* ===== verification/HttpSafetyHeaders.thy ===== *)
theory HttpSafetyHeaders
  imports HttpSafetyLine
begin

text \<open>
  Every case of the \<open>switch\<close> that reads header lines ends well. The loops over a field name and a
  value are handled by an induction over the rest of the buffer each.
\<close>

section \<open>Header lines\<close>

lemma case_s_header_field_start_good:
  assumes "exec_inv 1 len x" "x_state x = s_header_field_start"
  shows "good len (x_p x) (rank s_header_field_start) (case_s_header_field_start x)"
  using assms
  by (auto simp: case_s_header_field_start_def header_field_states_def case_simps
      intro!: step_intros)

text \<open>The field loop changes the byte, the position, the index and the header state only.\<close>

definition field_ok :: "http_parser \<Rightarrow> http_parser option \<Rightarrow> bool" where
  "field_ok pr r \<longleftrightarrow> (\<exists>i h. r = Some (pr\<lparr>hp_index := i, hp_header_state := h\<rparr>) \<and>
     h \<in> header_field_states)"

lemma field_ok_id: "hp_header_state pr \<in> header_field_states \<Longrightarrow> field_ok pr (Some pr)"
  unfolding field_ok_def by (rule exI [of _ "hp_index pr"], rule exI [of _ "hp_header_state pr"]) simp

lemma field_ok_set: "h \<in> header_field_states \<Longrightarrow> field_ok pr (Some (pr\<lparr>hp_header_state := h\<rparr>))"
  unfolding field_ok_def by (rule exI [of _ "hp_index pr"], rule exI [of _ h]) simp

lemma field_ok_bump:
  "h \<in> header_field_states \<Longrightarrow> field_ok pr (Some ((bump_index pr)\<lparr>hp_header_state := h\<rparr>))"
  unfolding field_ok_def bump_index_def by auto

lemma match_keyword_total:
  "\<exists>h. match_keyword kw cur fin bad i c = Some h \<and> (h = cur \<or> h = fin \<or> h = bad)"
  by (auto simp: match_keyword_def c_str_at_def)

lemma field_ok_keyword:
  assumes "fin \<in> header_field_states" "hp_header_state pr \<in> header_field_states"
  shows "field_ok pr (field_keyword kw fin pr c)"
proof -
  obtain h where h: "match_keyword kw (hp_header_state pr) fin h_general
      (index_of (bump_index pr)) c = Some h" "h = hp_header_state pr \<or> h = fin \<or> h = h_general"
    using match_keyword_total by blast
  then have "h \<in> header_field_states"
    using assms by (auto simp: header_field_states_def)
  then show ?thesis
    by (simp add: field_keyword_def h(1) field_ok_bump)
qed

lemma header_field_switch_ok:
  assumes "hp_header_state pr \<in> header_field_states"
  shows "field_ok pr (header_field_switch ch c pr)"
proof -
  have member: "h_connection \<in> header_field_states" "h_content_length \<in> header_field_states"
    "h_transfer_encoding \<in> header_field_states" "h_upgrade \<in> header_field_states"
    "h_general \<in> header_field_states" "h_CO \<in> header_field_states"
    "h_CON \<in> header_field_states" "h_matching_connection \<in> header_field_states"
    "h_matching_content_length \<in> header_field_states"
    by (simp_all add: header_field_states_def)
  show ?thesis
    using assms
    by (cases "hp_header_state pr")
      (simp_all add: header_field_switch_def member field_ok_id field_ok_set field_ok_bump
        field_ok_keyword, simp_all add: header_field_states_def)
qed

text \<open>The frame of the loop, reflexive and transitive.\<close>

definition field_frame :: "nat \<Rightarrow> 'e exec \<Rightarrow> 'e exec \<Rightarrow> bool" where
  "field_frame n x x' \<longleftrightarrow>
     (\<exists>i h c p. x' = x\<lparr>x_parser := (x_parser x)\<lparr>hp_index := i, hp_header_state := h\<rparr>,
        x_ch := c, x_p := p\<rparr> \<and> h \<in> header_field_states \<and> x_p x \<le> p \<and> p \<le> x_p x + n)"

lemma field_frame_step:
  assumes "field_frame n (x\<lparr>x_ch := c, x_parser := (x_parser x)\<lparr>hp_index := i, hp_header_state := h\<rparr>,
      x_p := x_p x + 1\<rparr>) x'"
  shows "field_frame (Suc n) x x'"
proof -
  obtain i' h' c' p' where "x' = x\<lparr>x_parser := (x_parser x)\<lparr>hp_index := i', hp_header_state := h'\<rparr>,
        x_ch := c', x_p := p'\<rparr>" "h' \<in> header_field_states" "x_p x + 1 \<le> p'" "p' \<le> x_p x + 1 + n"
    using assms unfolding field_frame_def by auto
  then show ?thesis
    unfolding field_frame_def by (intro exI [of _ i'] exI [of _ h'] exI [of _ c'] exI [of _ p']) simp
qed

lemma header_field_loop_ok:
  assumes "hp_header_state (x_parser x) \<in> header_field_states"
  shows "\<exists>x'. header_field_loop rest x = Some x' \<and> field_frame (length rest) x x'"
  using assms
proof (induction rest arbitrary: x)
  case Nil
  have "x = x\<lparr>x_parser := (x_parser x)\<lparr>hp_index := hp_index (x_parser x),
      hp_header_state := hp_header_state (x_parser x)\<rparr>, x_ch := x_ch x, x_p := x_p x\<rparr>"
    by simp
  then have "field_frame (length ([] :: string)) x x"
    unfolding field_frame_def using Nil
    by (metis (no_types) le_refl le_add1)
  then show ?case by simp
next
  case (Cons ch rest)
  show ?case
  proof (cases "STRICT_TOKEN ch = NUL")
    case True
    have "x\<lparr>x_ch := ch\<rparr> = x\<lparr>x_parser := (x_parser x)\<lparr>hp_index := hp_index (x_parser x),
        hp_header_state := hp_header_state (x_parser x)\<rparr>, x_ch := ch, x_p := x_p x\<rparr>"
      by simp
    then have "field_frame (length (ch # rest)) x (x\<lparr>x_ch := ch\<rparr>)"
      unfolding field_frame_def using Cons.prems
      by (metis (no_types) le_refl le_add1)
    then show ?thesis using True by simp
  next
    case False
    obtain i h where sw: "header_field_switch ch (STRICT_TOKEN ch) (x_parser x) =
        Some ((x_parser x)\<lparr>hp_index := i, hp_header_state := h\<rparr>)" "h \<in> header_field_states"
      using header_field_switch_ok [OF Cons.prems, of ch "STRICT_TOKEN ch"]
      by (auto simp: field_ok_def)
    let ?x = "x\<lparr>x_ch := ch, x_parser := (x_parser x)\<lparr>hp_index := i, hp_header_state := h\<rparr>,
        x_p := x_p x + 1\<rparr>"
    have "hp_header_state (x_parser ?x) \<in> header_field_states"
      using sw by simp
    from Cons.IH [OF this] obtain x' where
      x': "header_field_loop rest ?x = Some x'" "field_frame (length rest) ?x x'"
      by blast
    have "field_frame (Suc (length rest)) x x'"
      using x'(2) by (rule field_frame_step)
    then show ?thesis
      using False sw(1) x'(1) by (simp add: Let_def)
  qed
qed



lemma general_skip_le: "general_skip rest \<le> length rest"
proof -
  have "i < length rest" if "memchr c (take n rest) = Some i" for c n i
    using memchr_Some_bounds [OF that] by simp
  then show ?thesis
    by (auto simp: general_skip_def Let_def split: option.splits dest!: less_imp_le)
qed

text \<open>What the value loop keeps, entered at \<open>p0\<close>.\<close>

definition value_inv :: "nat \<Rightarrow> nat \<Rightarrow> 'e exec \<Rightarrow> bool" where
  "value_inv p0 len x \<longleftrightarrow>
     hp_errno (x_parser x) = HPE_OK \<and> base_inv (x_parser x) \<and> x_state x = s_header_value \<and>
     (\<forall>m. m \<noteq> M_header_value \<longrightarrow> x_mark x m = None) \<and>
     (\<forall>m i. x_mark x m = Some i \<longrightarrow> i \<le> p0) \<and> p0 \<le> x_p x \<and> x_p x \<le> len \<and> p0 < len"

definition value_state :: "header_states \<Rightarrow> bool" where
  "value_state h \<longleftrightarrow> h \<notin> {h_connection, h_transfer_encoding}"

text \<open>A good step of the loop: it keeps \<open>value_inv\<close>, stays in the buffer, or leaves well.\<close>

fun good_value_step :: "nat \<Rightarrow> nat \<Rightarrow> nat \<Rightarrow> 'e exec value_step \<Rightarrow> bool" where
  "good_value_step p0 len n (Value_next h k x) \<longleftrightarrow>
     value_state h \<and> value_inv p0 len x \<and> k \<le> n \<and> x_p x + n = len"
| "good_value_step p0 len n (Value_exit r) \<longleftrightarrow> good len p0 1 r"

lemma value_keyword_good:
  assumes "value_inv p0 len x" "x_p x + Suc n = len"
    and "value_state cur" "value_state fin" "value_state bad"
  shows "good_value_step p0 len (Suc n) (value_keyword kw cur fin bad c x)"
proof -
  obtain h where "match_keyword kw cur fin bad (index_of (x_parser (upd bump_index x))) c = Some h"
    "h = cur \<or> h = fin \<or> h = bad"
    using match_keyword_total by blast
  then show ?thesis
    using assms by (auto simp: value_keyword_def Let_def upd_def bump_index_def value_inv_def)
qed

lemma header_value_switch_good:
  assumes "value_inv p0 len x" "x_p x + length (ch # rest) = len" "value_state h"
  shows "good_value_step p0 len (length (ch # rest)) (header_value_switch (ch # rest) ch h x)"
proof -
  have states: "value_state h_general" "value_state h_content_length"
    "value_state h_matching_transfer_encoding_chunked"
    "value_state h_transfer_encoding_chunked" "value_state h_matching_connection_token_start"
    "value_state h_matching_connection_keep_alive" "value_state h_matching_connection_close"
    "value_state h_matching_connection_upgrade" "value_state h_matching_connection_token"
    "value_state h_connection_keep_alive" "value_state h_connection_close"
    "value_state h_connection_upgrade"
    by (simp_all add: value_state_def)
  have upds: "value_inv p0 len (upd (\<lambda>pr. pr\<lparr>hp_content_length := t\<rparr>) x)"
    "value_inv p0 len (upd (\<lambda>pr. pr\<lparr>hp_index := 0\<rparr>) x)"
    "value_inv p0 len (upd (\<lambda>pr. pr\<lparr>hp_flags := fl pr, hp_index := 0\<rparr>) x)"
    "x_p (upd f x) = x_p x" "UPDATE_STATE s_header_value x = x" for t fl f
    using assms(1) by (simp_all add: value_inv_def upd_def UPDATE_STATE_def)
  have skip: "general_skip (ch # rest) \<le> Suc (length rest)"
    using general_skip_le [of "ch # rest"] by simp
  have err: "good len p0 1 (Error (upd (\<lambda>pr. pr\<lparr>hp_errno := HPE_INVALID_CONTENT_LENGTH,
      hp_header_state := h\<rparr>) x))"
    using assms(1) by (simp add: upd_def value_inv_def)
  have cl: "good_value_step p0 len (Suc (length rest)) (content_length_step h ch x)"
    using assms states upds err
    by (auto simp: content_length_step_def Let_def simp del: good.simps)
  have te: "good_value_step p0 len (Suc (length rest)) (token_end_step h ch x)"
    using assms states upds by (auto simp: token_end_step_def)
  have ts: "value_state (token_start_state c h)" for c
    using assms(3) states by (simp add: token_start_state_def)
  show ?thesis
    using assms states upds skip cl te ts
    by (cases h)
      (simp_all add: header_value_switch_def Let_def value_keyword_good value_state_def)
qed



context http_client
begin

lemma case_s_header_field_good:
  assumes inv: "exec_inv 1 (length data) x" and st: "x_state x = s_header_field"
  shows "good (length data) (x_p x) r (case_s_header_field S data x)"
proof -
  have "hp_header_state (x_parser x) \<in> header_field_states"
    using inv st by (simp add: exec_inv_def state_inv_at)
  then obtain x' where loop: "header_field_loop (drop (x_p x) data) x = Some x'"
    and fr: "field_frame (length (drop (x_p x) data)) x x'"
    using header_field_loop_ok by blast
  obtain i h c p where x': "x' = x\<lparr>x_parser := (x_parser x)\<lparr>hp_index := i, hp_header_state := h\<rparr>,
        x_ch := c, x_p := p\<rparr>" and h: "h \<in> header_field_states"
    and p: "x_p x \<le> p" "p \<le> length data"
    using fr inv by (auto simp: field_frame_def exec_inv_def)
  have none: "x_mark x m = None" if "m \<noteq> M_header_field" for m
    using inv st that by (auto simp: exec_inv_def mark_inv_iff)
  have low: "i \<le> x_p x" if "x_mark x m = Some i" for m i
    using inv that by (auto simp: exec_inv_def mark_inv_iff)
  have base: "base_inv (x_parser x)" "hp_errno (x_parser x) = HPE_OK" "x_p x < length data"
    using inv st by (simp_all add: exec_inv_def state_inv_at)
  have low': "i \<le> length data - Suc 0" if "x_mark x m = Some i" for m i
    using low [OF that] base(3) by simp
  have lowp: "i \<le> p" if "x_mark x m = Some i" for m i
    using low [OF that] p(1) by simp
  show ?thesis
    using st h p none low base unfolding case_s_header_field_def Let_def loop option.case x'
    by (intro COUNT_HEADER_SIZE_good)
      (auto simp: macro_simps base_inv_def case_simps
        intro!: step_intros data_good dest: low' lowp)
qed

lemma case_s_header_value_start_good:
  assumes inv: "exec_inv 1 len x" and none: "\<And>m. x_mark x m = None"
    and base: "base_inv (x_parser x)"
  shows "good len (x_p x) r (case_s_header_value_start x)"
  using assms
  by (cases "hp_header_state (x_parser x)")
    (auto simp: case_s_header_value_start_def Let_def upd_def UPDATE_STATE_def MARK_def
      exec_inv_def state_inv_at mark_inv_iff intro!: step_intros)

lemma case_s_header_value_discard_ws_good:
  assumes "exec_inv 1 len x" "x_state x = s_header_value_discard_ws"
  shows "good len (x_p x) r (case_s_header_value_discard_ws x)"
proof -
  have "x_mark x m = None" "base_inv (x_parser x)" for m
    using assms by (simp_all add: exec_inv_def mark_inv_iff state_inv_plain plain_state_def
        chunk_states_def)
  then show ?thesis
    using assms case_s_header_value_start_good [of len x]
    by (auto simp: case_s_header_value_discard_ws_def case_simps)
qed



text \<open>After the loop: the value goes on in the next buffer, or ended with a CR.\<close>

lemma header_value_done_good:
  assumes "hp_errno (x_parser x) = HPE_OK" "base_inv (x_parser x)"
    and "x_state x = s_header_value \<or>
         x_state x = s_header_almost_done \<and> (\<forall>m. x_mark x m = None) \<and> x_p x < len"
    and "\<forall>m. m \<noteq> M_header_value \<longrightarrow> x_mark x m = None"
    and "\<forall>m i. x_mark x m = Some i \<longrightarrow> i \<le> p0" "p0 \<le> x_p x" "x_p x \<le> len" "p0 < len"
    and "value_state h" "len = length data"
  shows "good len p0 r (header_value_done data start h x)"
proof -
  have "i \<le> len - Suc 0" if "x_mark x m = Some i" for m i
    using assms(5,8) that by fastforce
  moreover have "i \<le> x_p x" if "x_mark x m = Some i" for m i
    using assms(5,6) that by fastforce
  ultimately show ?thesis
    using assms unfolding header_value_done_def
    by (intro COUNT_HEADER_SIZE_good)
      (auto simp: upd_def exec_inv_def state_inv_at state_inv_plain plain_state_def
        chunk_states_def mark_inv_iff base_inv_def value_state_def)
qed

lemma header_value_loop_step:
  assumes "value_inv p0 len x" "value_state h" "x_p x + length (ch # rest) = len" "len = length data"
    and IH: "\<And>rest' h x. length rest' < length (ch # rest) \<Longrightarrow> value_inv p0 len x \<Longrightarrow>
      value_state h \<Longrightarrow> x_p x + length rest' = len \<Longrightarrow>
      good len p0 1 (header_value_loop S data start rest' h x)"
  shows "good len p0 1 (header_value_loop S data start (ch # rest) h x)"
proof -
  let ?x = "x\<lparr>x_ch := ch\<rparr>"
  have inv: "value_inv p0 len ?x"
    using assms(1) by (simp add: value_inv_def)
  consider (cr) "ch = CR" | (lf) "ch = LF"
    | (bad) "ch \<noteq> CR" "ch \<noteq> LF" "\<not> x_lenient x \<and> \<not> IS_HEADER_CHAR ch"
    | (step) "ch \<noteq> CR" "ch \<noteq> LF" "\<not> (\<not> x_lenient x \<and> \<not> IS_HEADER_CHAR ch)"
    by blast
  then show ?thesis
  proof cases
    case cr
    have "good len p0 1 (CALLBACK_DATA S data M_header_value
        (upd (\<lambda>pr. pr\<lparr>hp_header_state := h\<rparr>) (UPDATE_STATE s_header_almost_done ?x))
        (\<lambda>x. header_value_done data start h x))"
      unfolding CALLBACK_DATA_def
      using inv assms(1-4)
      by (intro data_good header_value_done_good [where len = len])
        (auto simp: upd_def UPDATE_STATE_def value_inv_def state_inv_plain
          plain_state_def chunk_states_def)
    then show ?thesis using cr by simp
  next
    case lf
    then show ?thesis
      using inv assms(1-4)
      by (auto simp: macro_simps upd_def UPDATE_STATE_def value_inv_def state_inv_plain
          plain_state_def chunk_states_def base_inv_def exec_inv_def mark_inv_iff
          intro!: COUNT_HEADER_SIZE_good data_good)
  next
    case bad
    then show ?thesis
      using inv by (auto simp: value_inv_def intro!: step_intros)
  next
    case step
    show ?thesis
    proof (cases "header_value_switch (ch # rest) ch h ?x")
      case (Value_exit r)
      then show ?thesis
        using step header_value_switch_good [OF inv _ assms(2), of ch rest] assms(3)
        by auto
    next
      case (Value_next h' n x')
      then have pos: "0 < n"
        using step(1,2) by (rule header_value_switch_pos)
      from Value_next have "value_state h'" "value_inv p0 len x'" "n \<le> length (ch # rest)"
        "x_p x' + length (ch # rest) = len"
        using header_value_switch_good [OF inv _ assms(2), of ch rest] assms(3)
        by simp_all
      then have "good len p0 1 (header_value_loop S data start (drop n (ch # rest)) h'
          (x'\<lparr>x_p := x_p x' + n\<rparr>))"
        using assms(4) pos
        by (intro IH) (auto simp: value_inv_def)
      then show ?thesis using step Value_next by auto
    qed
  qed
qed

lemma header_value_loop_good:
  assumes "value_inv p0 len x" "value_state h" "x_p x + length rest = len" "len = length data"
  shows "good len p0 1 (header_value_loop S data start rest h x)"
  using assms(1-3)
proof (induction "length rest" arbitrary: rest h x rule: less_induct)
  case less
  show ?case
  proof (cases rest)
    case Nil
    then show ?thesis
      using less.prems assms(4) by (auto simp: value_inv_def intro!: header_value_done_good)
  next
    case (Cons ch rest')
    show ?thesis
      unfolding Cons using less.prems less.hyps assms(4) unfolding Cons
      by (intro header_value_loop_step) auto
  qed
qed

lemma case_s_header_value_good:
  assumes inv: "exec_inv 1 (length data) x" and st: "x_state x = s_header_value"
  shows "good (length data) (x_p x) 1 (case_s_header_value S data x)"
  unfolding case_s_header_value_def
  using inv st
  by (intro header_value_loop_good)
    (auto simp: value_inv_def value_state_def exec_inv_def state_inv_at mark_inv_iff)

section \<open>The end of the headers\<close>

lemma apply_header_state_base: "base_inv (apply_header_state pr) = base_inv pr"
  "hp_errno (apply_header_state pr) = hp_errno pr"
  by (simp_all add: apply_header_state_def split: header_states.split)

lemma case_s_header_almost_done_good:
  assumes "exec_inv 1 len x" "x_state x = s_header_almost_done"
  shows "good len (x_p x) r (case_s_header_almost_done x)"
  using assms by (auto simp: case_s_header_almost_done_def case_simps intro!: step_intros)

lemma case_s_header_value_lws_good:
  assumes "exec_inv 1 len x" "x_state x = s_header_value_lws"
  shows "good len (x_p x) (rank s_header_value_lws) (case_s_header_value_lws x)"
  using assms
  by (auto simp: case_s_header_value_lws_def case_simps apply_header_state_base)

lemma case_s_header_value_discard_ws_almost_done_good:
  assumes "exec_inv 1 len x" "x_state x = s_header_value_discard_ws_almost_done"
  shows "good len (x_p x) r (case_s_header_value_discard_ws_almost_done x)"
  using assms
  by (auto simp: case_s_header_value_discard_ws_almost_done_def case_simps intro!: step_intros)

lemma case_s_header_value_discard_lws_good:
  assumes "exec_inv 1 len x" "x_state x = s_header_value_discard_lws"
  shows "good len (x_p x) (rank s_header_value_discard_lws) (case_s_header_value_discard_lws S data x)"
  using assms
  by (auto simp: case_s_header_value_discard_lws_def macro_simps case_simps apply_header_state_base
      intro!: data_good)

lemma set_upgrade_frame: "hp_errno (set_upgrade pr) = hp_errno pr"
  "base_inv (set_upgrade pr) = base_inv pr"
  by (simp_all add: set_upgrade_def)

lemma headers_complete_good:
  assumes "base_inv (x_parser x)" "x_state x = s_headers_done" "x_p x \<le> len"
    and k: "\<And>pr env. base_inv pr \<Longrightarrow> good len p0 r (k (x\<lparr>x_parser := pr, x_env := env\<rparr>))"
  shows "good len p0 r (headers_complete S x k)"
proof (cases "on_headers_complete S")
  case None
  then show ?thesis
    using k [of "x_parser x" "x_env x"] assms(1) by (simp add: headers_complete_def)
next
  case (Some f)
  obtain q e env where f: "f (x_parser x) (x_env x) = (q, (x_parser x)\<lparr>hp_errno := e\<rparr>, env)"
    using complete_keeps [OF Some] by (rule keeps_parserE)
  have swap: "x\<lparr>x_env := env, x_parser := pr\<rparr> = x\<lparr>x_parser := pr, x_env := env\<rparr>" for pr
    by simp
  show ?thesis
    using assms(1-3) k
    by (auto simp: headers_complete_def Some f Let_def upd_def swap state_inv_plain plain_state_def
        chunk_states_def intro!: RETURN_good)
qed

lemma case_s_headers_almost_done_good:
  assumes "exec_inv 1 len x" "x_state x = s_headers_almost_done"
  shows "good len (x_p x) (rank s_headers_almost_done) (case_s_headers_almost_done S x)"
  unfolding case_s_headers_almost_done_def
  using assms
  by (intro STRICT_CHECK_good)
    (auto simp: macro_simps case_simps set_upgrade_frame
      intro!: step_intros notify_good headers_complete_good)

end

end
