(* ===== verification/HttpSafetyBody.thy ===== *)
theory HttpSafetyBody
  imports HttpSafetyHeaders
begin

text \<open>
  Every case of the \<open>switch\<close> after the headers ends well: the body of known length, the body until
  the end of the stream, and chunks.
\<close>

section \<open>Bodies\<close>

lemma body_to_read_unat:
  assumes "length data < 2 ^ 64"
  shows "unat (body_to_read data x) = min (unat (hp_content_length (x_parser x))) (length data - x_p x)"
proof -
  have "unat (of_nat (length data - x_p x) :: u64) = length data - x_p x"
    using assms by (intro unat_of_nat_small) simp
  then show ?thesis
    by (auto simp: body_to_read_def min_def word_le_nat_alt)
qed

lemma ULLONG_MAX_nat: "unat (- 1 :: u64) = 2 ^ 64 - 1"
  by (simp add: unsigned_minus_1_eq_mask mask_eq_exp_minus_1)

lemma take_body_frame:
  "x_state (take_body data x) = x_state x" "x_env (take_body data x) = x_env x"
  "hp_errno (x_parser (take_body data x)) = hp_errno (x_parser x)"
  "base_inv (x_parser (take_body data x)) = base_inv (x_parser x)"
  "hp_flags (x_parser (take_body data x)) = hp_flags (x_parser x)"
  by (simp_all add: take_body_def Let_def MARK_def upd_def)

text \<open>Where \<open>take_body\<close> leaves the position, the mark and the length still to read.\<close>

lemma take_body_step:
  assumes "x_p x < length data" "length data < 2 ^ 64" "hp_content_length (x_parser x) \<noteq> 0"
  defines "n \<equiv> min (unat (hp_content_length (x_parser x))) (length data - x_p x)"
  shows "x_p (take_body data x) = x_p x + n - 1" "1 \<le> n" "n \<le> length data - x_p x"
    and "unat (hp_content_length (x_parser (take_body data x))) =
         unat (hp_content_length (x_parser x)) - n"
proof -
  let ?c = "hp_content_length (x_parser x)"
  have c: "0 < unat ?c" using assms(3) by (simp add: unat_gt_0)
  show "1 \<le> n" "n \<le> length data - x_p x" using c assms(1) by (simp_all add: n_def)
  have r: "unat (body_to_read data x) = n"
    using body_to_read_unat [OF assms(2)] by (simp add: n_def)
  show "x_p (take_body data x) = x_p x + n - 1"
    by (simp add: take_body_def Let_def MARK_def upd_def r)
  have "body_to_read data x \<le> ?c" by (simp add: body_to_read_def)
  then have "unat (?c - body_to_read data x) = unat ?c - n"
    by (simp add: unat_sub r)
  moreover have "body_to_read data (MARK M_body x) = body_to_read data x"
    by (simp add: body_to_read_def MARK_def)
  ultimately show "unat (hp_content_length (x_parser (take_body data x))) = unat ?c - n"
    by (simp add: take_body_def Let_def MARK_def upd_def)
qed

lemma take_body_marks:
  "x_mark (take_body data x) = x_mark (MARK M_body x)"
  by (simp add: take_body_def Let_def upd_def)

lemma take_body_mark_inv:
  assumes "exec_inv 1 len x" "mark_of (x_state x) = Some M_body" "x_p x \<le> x_p (take_body data x)"
  shows "\<forall>m. m \<noteq> M_body \<longrightarrow> x_mark (take_body data x) m = None"
    and "\<forall>m i. x_mark (take_body data x) m = Some i \<longrightarrow> i \<le> x_p (take_body data x)"
proof -
  have "i \<le> x_p x" if "x_mark x m = Some i" for m i
    using assms(1) that by (simp add: exec_inv_def mark_inv_iff)
  then have "i \<le> x_p (take_body data x)" if "x_mark x m = Some i" for m i
    using assms(3) that by (metis le_trans)
  then show "\<forall>m i. x_mark (take_body data x) m = Some i \<longrightarrow> i \<le> x_p (take_body data x)"
    using assms(3) by (auto simp: take_body_marks MARK_def)
  show "\<forall>m. m \<noteq> M_body \<longrightarrow> x_mark (take_body data x) m = None"
    using assms(1,2) by (auto simp: take_body_marks MARK_def exec_inv_def mark_inv_iff)
qed

lemma take_body_less:
  assumes "hp_content_length (x_parser x) \<noteq> 0" "hp_content_length (x_parser x) \<noteq> ULLONG_MAX"
    "x_p x < length data" "length data < 2 ^ 64"
  shows "hp_content_length (x_parser (take_body data x)) \<noteq> ULLONG_MAX"
proof -
  have "unat (hp_content_length (x_parser (take_body data x))) < unat (hp_content_length (x_parser x))"
    using take_body_step(2,4) [OF assms(3,4,1)] by linarith
  also have "\<dots> \<le> unat ULLONG_MAX"
    by (simp add: ULLONG_MAX_def word_le_nat_alt [symmetric])
  finally show ?thesis by auto
qed

context http_client
begin

lemma case_s_headers_done_good:
  assumes "exec_inv 1 len x" "x_state x = s_headers_done"
  shows "good len (x_p x) r (case_s_headers_done S x)"
proof -
  have new: "plain_state (NEW_MESSAGE pr)" "mark_of (NEW_MESSAGE pr) = None" for pr
    by (simp_all add: NEW_MESSAGE_def start_state_def plain_state_def chunk_states_def)
  show ?thesis
    unfolding case_s_headers_done_def
    using assms new
    by (intro STRICT_CHECK_good)
      (auto simp: macro_simps Let_def upd_def UPDATE_STATE_def exec_inv_def state_inv_at
        state_inv_plain mark_inv_iff base_inv_def plain_state_def [of s_headers_done] plain_state_def [of s_body_identity_eof]
        chunk_states_def
        intro!: step_intros notify_good)
qed

lemma case_s_body_identity_good:
  assumes "exec_inv 1 (length data) x" "x_state x = s_body_identity" "length data < 2 ^ 64"
  shows "good (length data) (x_p x) (rank s_body_identity) (case_s_body_identity S data x)"
proof -
  have pre: "hp_content_length (x_parser x) \<noteq> 0" "hp_content_length (x_parser x) \<noteq> ULLONG_MAX"
    "x_p x < length data" "base_inv (x_parser x)" "hp_errno (x_parser x) = HPE_OK"
    using assms(1,2) by (simp_all add: exec_inv_def state_inv_at)
  note step = take_body_step [OF pre(3) assms(3) pre(1)]
  have p: "x_p x \<le> x_p (take_body data x)" "x_p (take_body data x) < length data"
    using step(1-3) pre(3) by linarith+
  note marks = take_body_mark_inv [OF assms(1) _ p(1)]
  show ?thesis
    unfolding case_s_body_identity_def
    using pre p marks take_body_less [OF pre(1-3) assms(3)] assms(2)
    by (auto simp: Let_def UPDATE_STATE_def exec_inv_def state_inv_at take_body_frame mark_inv_iff
        state_inv_plain plain_state_def chunk_states_def intro!: assert_then_good data_good)
qed

lemma case_s_body_identity_eof_good:
  assumes "exec_inv 1 (length data) x" "x_state x = s_body_identity_eof"
  shows "good (length data) (x_p x) r (case_s_body_identity_eof data x)"
proof -
  have "i \<le> length data - Suc 0" if "x_mark x m = Some i" for m i
    using assms that by (fastforce simp: exec_inv_def mark_inv_iff)
  then show ?thesis
    using assms by (auto simp: case_s_body_identity_eof_def case_simps)
qed

lemma case_s_message_done_good:
  assumes "exec_inv 1 len x" "x_state x = s_message_done"
  shows "good len (x_p x) r (case_s_message_done S x)"
proof -
  have new: "plain_state (NEW_MESSAGE pr)" "mark_of (NEW_MESSAGE pr) = None" for pr
    by (simp_all add: NEW_MESSAGE_def start_state_def plain_state_def chunk_states_def)
  show ?thesis
    using assms new
    by (auto simp: case_s_message_done_def macro_simps UPDATE_STATE_def exec_inv_def
        state_inv_plain mark_inv_iff plain_state_def [of s_message_done] chunk_states_def
        intro!: step_intros notify_good)
qed

subsection \<open>Chunked bodies\<close>

lemma chunk_shift_less:
  assumes "c \<le> (ULLONG_MAX - 16) div 16" "0 \<le> v" "v < 16"
  shows "unat (c * 16 + of_int v :: u64) = unat c * 16 + nat v" "unat c * 16 + nat v < 2 ^ 64 - 1"
proof -
  have c: "unat c \<le> 1152921504606846974"
    using assms(1) by (simp add: ULLONG_MAX_def word_le_nat_alt unat_div)
  then show "unat c * 16 + nat v < 2 ^ 64 - 1"
    using assms(2,3) by simp
  have v: "(of_int v :: u64) = of_nat (nat v)" using assms(2) by simp
  have nv: "unat (of_nat (nat v) :: u64) = nat v"
    using assms(3) by (intro unat_of_nat_small) simp
  show "unat (c * 16 + of_int v :: u64) = unat c * 16 + nat v"
    using c assms(2,3) nv unfolding v by (subst unat_word_ariths)+ simp
qed

lemma case_s_chunk_size_start_good:
  assumes "exec_inv 1 len x" "x_state x = s_chunk_size_start"
  shows "good len (x_p x) r (case_s_chunk_size_start x)"
proof -
  have v: "(of_int (unhex (x_ch x)) :: u64) \<noteq> ULLONG_MAX" if "unhex (x_ch x) \<noteq> - 1"
  proof -
    have "0 \<le> unhex (x_ch x)" "unhex (x_ch x) < 16"
      using that unhex_range [of "x_ch x"] by auto
    from chunk_shift_less(1) [of 0, OF _ this] have "unat (of_int (unhex (x_ch x)) :: u64) < 16"
      using that unhex_range [of "x_ch x"] by (simp add: ULLONG_MAX_def nat_less_iff)
    then show ?thesis by (auto simp: ULLONG_MAX_def ULLONG_MAX_nat)
  qed
  then show ?thesis
    using assms by (auto simp: case_s_chunk_size_start_def case_simps intro!: step_intros)
qed

lemma case_s_chunk_size_good:
  assumes "exec_inv 1 len x" "x_state x = s_chunk_size"
  shows "good len (x_p x) r (case_s_chunk_size x)"
proof -
  let ?c = "hp_content_length (x_parser x)"
  have v: "(?c * 16 + of_int (unhex (x_ch x)) :: u64) \<noteq> ULLONG_MAX"
    if "unhex (x_ch x) \<noteq> - 1" "\<not> (ULLONG_MAX - 16) div 16 < ?c"
  proof -
    have "0 \<le> unhex (x_ch x)" "unhex (x_ch x) < 16"
      using that unhex_range [of "x_ch x"] by auto
    from chunk_shift_less [OF _ this] have
      "unat (?c * 16 + of_int (unhex (x_ch x)) :: u64) < 2 ^ 64 - 1"
      using that(2) by simp
    then show ?thesis by (auto simp: ULLONG_MAX_def ULLONG_MAX_nat)
  qed
  then show ?thesis
    using assms by (auto simp: case_s_chunk_size_def case_simps intro!: step_intros)
qed

lemma case_s_chunk_parameters_good:
  assumes "exec_inv 1 len x" "x_state x = s_chunk_parameters"
  shows "good len (x_p x) r (case_s_chunk_parameters x)"
  using assms by (auto simp: case_s_chunk_parameters_def case_simps intro!: step_intros)

lemma case_s_chunk_size_almost_done_good:
  assumes "exec_inv 1 len x" "x_state x = s_chunk_size_almost_done"
  shows "good len (x_p x) r (case_s_chunk_size_almost_done S x)"
  using assms
  by (auto simp: case_s_chunk_size_almost_done_def macro_simps case_simps base_inv_def
      intro!: assert_then_good STRICT_CHECK_good notify_good)

lemma case_s_chunk_data_good:
  assumes "exec_inv 1 (length data) x" "x_state x = s_chunk_data" "length data < 2 ^ 64"
  shows "good (length data) (x_p x) r (case_s_chunk_data data x)"
proof -
  have pre: "hp_content_length (x_parser x) \<noteq> 0" "hp_content_length (x_parser x) \<noteq> ULLONG_MAX"
    "x_p x < length data" "base_inv (x_parser x)" "hp_errno (x_parser x) = HPE_OK"
    "has_flag (hp_flags (x_parser x)) F_CHUNKED"
    using assms(1,2) by (simp_all add: exec_inv_def state_inv_at)
  note step = take_body_step [OF pre(3) assms(3) pre(1)]
  have p: "x_p x \<le> x_p (take_body data x)" "x_p (take_body data x) < length data"
    using step(1-3) pre(3) by linarith+
  note marks = take_body_mark_inv [OF assms(1) _ p(1)]
  show ?thesis
    unfolding case_s_chunk_data_def
    using pre p marks take_body_less [OF pre(1-3) assms(3)] assms(2)
    by (auto simp: Let_def UPDATE_STATE_def exec_inv_def state_inv_at take_body_frame mark_inv_iff
        intro!: assert_then_good)
qed

lemma case_s_chunk_data_almost_done_good:
  assumes "exec_inv 1 len x" "x_state x = s_chunk_data_almost_done"
  shows "good len (x_p x) r (case_s_chunk_data_almost_done S data x)"
  using assms
  by (auto simp: case_s_chunk_data_almost_done_def macro_simps case_simps
      intro!: assert_then_good STRICT_CHECK_good data_good)

lemma case_s_chunk_data_done_good:
  assumes "exec_inv 1 len x" "x_state x = s_chunk_data_done"
  shows "good len (x_p x) r (case_s_chunk_data_done S x)"
  using assms
  by (auto simp: case_s_chunk_data_done_def macro_simps case_simps base_inv_def
      intro!: assert_then_good STRICT_CHECK_good notify_good)

end

end
