(* ===== verification/HttpSafety.thy ===== *)
theory HttpSafety
  imports HttpSafetyBody
begin

text \<open>
  \<open>http_parser_execute\<close> as a whole: from the invariant, with callbacks that keep the contract of
  \<open>http_client\<close>, a call returns (the fuel of the model is enough), no assertion fails, no read
  leaves the buffer, and the parser it leaves satisfies the invariant or carries an error.
\<close>

context http_client
begin

section \<open>The whole switch\<close>

lemma switch_on_good:
  assumes inv: "exec_inv 1 (length data) x" and len: "length data < 2 ^ 64"
  shows "good (length data) (x_p x) (rank (x_state x)) (switch_on (x_state x) S data x)"
proof -
  have none: "x_mark x m = None" if "x_state x = s_header_value_start" for m
    using inv that by (simp add: exec_inv_def mark_inv_iff)
  have base: "base_inv (x_parser x)"
    using inv by (simp add: exec_inv_def state_inv_def)
  show ?thesis
    using inv len none base
    by (cases "x_state x")
      (simp_all add: case_s_dead_good case_s_start_req_or_res_good [simplified] case_s_res_or_resp_H_good
        case_s_start_res_good case_s_res_H_good case_s_res_HT_good case_s_res_HTT_good
        case_s_res_HTTP_good case_s_res_first_http_major_good case_s_res_http_major_good
        case_s_res_first_http_minor_good case_s_res_http_minor_good
        case_s_res_first_status_code_good case_s_res_status_code_good case_s_res_status_start_good
        case_s_res_status_good case_s_res_line_almost_done_good case_s_start_req_good
        case_s_req_method_good case_s_req_spaces_before_url_good case_s_req_schema_good
        case_s_req_server_good url_states_def case_s_req_http_start_good case_s_req_http_H_good
        case_s_req_http_HT_good case_s_req_http_HTT_good case_s_req_http_HTTP_good
        case_s_req_first_http_major_good case_s_req_http_major_good
        case_s_req_first_http_minor_good case_s_req_http_minor_good
        case_s_req_line_almost_done_good case_s_header_field_start_good [simplified]
        case_s_header_field_good case_s_header_value_discard_ws_good
        case_s_header_value_discard_ws_almost_done_good
        case_s_header_value_discard_lws_good [simplified] case_s_header_value_start_good
        case_s_header_value_good [simplified] case_s_header_value_lws_good [simplified]
        case_s_header_almost_done_good case_s_chunk_size_start_good case_s_chunk_size_good
        case_s_chunk_parameters_good case_s_chunk_size_almost_done_good
        case_s_headers_almost_done_good [simplified] case_s_headers_done_good
        case_s_chunk_data_good case_s_chunk_data_almost_done_good case_s_chunk_data_done_good
        case_s_body_identity_good [simplified] case_s_body_identity_eof_good
        case_s_message_done_good)
qed

section \<open>The loop\<close>

text \<open>The invariant at the head of the loop, and a good result of the call.\<close>

definition loop_inv :: "nat \<Rightarrow> 'e exec \<Rightarrow> bool" where
  "loop_inv len x \<longleftrightarrow>
     hp_errno (x_parser x) = HPE_OK \<and> state_inv 0 (x_state x) (x_parser x) \<and> mark_inv x \<and>
     x_p x \<le> len"

fun ok_result :: "nat \<Rightarrow> 'e result \<Rightarrow> bool" where
  "ok_result len (Done n pr env) \<longleftrightarrow>
     n \<le> len \<and> (parser_inv pr \<or> hp_errno pr \<notin> {HPE_OK, HPE_PAUSED})"
| "ok_result len Faulted \<longleftrightarrow> False"
| "ok_result len No_fuel \<longleftrightarrow> False"

text \<open>At the end of the buffer a good outcome leaves the function.\<close>

lemma finish_ok: "good len len 0 o' \<Longrightarrow> ok_result len (finish o')"
  by (cases o') (auto simp: exec_inv_def)

lemma finish_good: "good len p0 r o' \<Longrightarrow>
    (\<forall>x. o' \<noteq> Break x \<and> o' \<noteq> Reexecute x) \<Longrightarrow> ok_result len (finish o')"
  by (cases o') auto

lemma one_mark:
  assumes "mark_inv x"
  shows "leftover_marks x \<le> 1"
proof (cases "mark_of (x_state x)")
  case None
  then have "x_mark x m = None" for m
    using assms by (simp add: mark_inv_no_marks)
  then show ?thesis by (simp add: leftover_marks_def)
next
  case (Some m)
  then have "x_mark x m' = None" if "m' \<noteq> m" for m'
    using assms that by (simp add: mark_inv_no_other)
  then show ?thesis by (cases m) (simp_all add: leftover_marks_def)
qed

lemma execute_end_good:
  assumes inv: "loop_inv len x" and "x_p x = len" "len = length data"
  shows "good len len 0 (execute_end S data x)"
proof -
  have "leftover_marks x \<le> 1"
    using inv unfolding loop_inv_def by (blast intro: one_mark)
  then show ?thesis
    unfolding execute_end_def CALLBACK_DATA_NOADVANCE_def
    using assms unfolding loop_inv_def
    by (intro assert_then_good data_good RETURN_good) simp_all
qed

text \<open>Counting the byte of this iteration turns the invariant of the loop into that of the switch.\<close>

lemma state_inv_count:
  assumes "state_inv 0 s pr" "PARSING_HEADER s" "hp_nread pr + 1 \<le> HTTP_MAX_HEADER_SIZE"
  shows "state_inv 1 s (pr\<lparr>hp_nread := hp_nread pr + 1\<rparr>)"
  using assms by (auto simp: state_inv_def base_inv_def)

lemma state_inv_no_count:
  assumes "state_inv 0 s pr" "\<not> PARSING_HEADER s"
  shows "state_inv 1 s pr"
  using assms by (auto simp: state_inv_def)

lemma exec_inv_step: "exec_inv 0 len x \<Longrightarrow> loop_inv len (x\<lparr>x_p := x_p x + 1\<rparr>)"
  by (auto simp: exec_inv_def loop_inv_def mark_inv_def le_SucI)

text \<open>
  Enough fuel: at the head of the loop seven units for every byte left and one more; at the
  switch, as many less as the rank leaves.
\<close>

lemma execute_good:
  assumes "length data < 2 ^ 64"
  shows "loop_inv (length data) x \<Longrightarrow> 7 * (length data - x_p x) < n \<Longrightarrow>
      ok_result (length data) (execute_loop n S data x)"
    and "exec_inv 1 (length data) x \<Longrightarrow> 7 * (length data - x_p x) + rank (x_state x) < n + 5 \<Longrightarrow>
      ok_result (length data) (execute_switch n S data x)"
proof (induction n arbitrary: x)
  case 0
  {
    case 1
    then show ?case by simp
  next
    case 2
    then have "x_p x < length data" by (simp add: exec_inv_def)
    then show ?case using 2 by simp
  }
next
  case (Suc n)
  {
    case 1
    show ?case
    proof (cases "x_p x = length data")
      case True
      then show ?thesis
        using finish_ok [OF execute_end_good [OF 1(1)]] by simp
    next
      case False
      let ?x = "x\<lparr>x_ch := data ! x_p x\<rparr>"
      have p: "x_p x < length data" and ok: "hp_errno (x_parser x) = HPE_OK" "mark_inv x"
        "state_inv 0 (x_state x) (x_parser x)"
        using 1 False by (auto simp: loop_inv_def)
      have fuel: "7 * (length data - x_p x) + rank (x_state x) < n + 5"
        using 1(2) rank_bound [of "x_state x"] by linarith
      show ?thesis
      proof (cases "PARSING_HEADER (x_state x)")
        case True
        let ?pr = "(x_parser x)\<lparr>hp_nread := hp_nread (x_parser x) + 1\<rparr>"
        show ?thesis
        proof (cases "hp_nread (x_parser x) + 1 > HTTP_MAX_HEADER_SIZE")
          case over: True
          then show ?thesis
            using True p by (simp add: COUNT_HEADER_SIZE_def Let_def upd_def fail_def)
        next
          case in_limit: False
          have "exec_inv 1 (length data) (?x\<lparr>x_parser := ?pr\<rparr>)"
            using p ok in_limit state_inv_count [OF ok(3) True] by (simp add: exec_inv_def)
          then have "ok_result (length data) (execute_switch n S data (?x\<lparr>x_parser := ?pr\<rparr>))"
            using fuel by (intro Suc.IH(2)) simp_all
          then show ?thesis
            using True p in_limit by (simp add: COUNT_HEADER_SIZE_def Let_def upd_def)
        qed
      next
        case False
        have "exec_inv 1 (length data) ?x"
          using p ok state_inv_no_count [OF ok(3) False] by (simp add: exec_inv_def)
        then have "ok_result (length data) (execute_switch n S data ?x)"
          using fuel by (intro Suc.IH(2)) simp_all
        then show ?thesis using False p by simp
      qed
    qed
  next
    case 2
    have p: "x_p x < length data" using 2 by (simp add: exec_inv_def)
    have good: "good (length data) (x_p x) (rank (x_state x)) (switch_on (x_state x) S data x)"
      using 2(1) assms by (rule switch_on_good)
    show ?case
    proof (cases "switch_on (x_state x) S data x")
      case (Break y)
      then have y: "exec_inv 0 (length data) y" "x_p x \<le> x_p y"
        using good by simp_all
      have "ok_result (length data) (execute_loop n S data (y\<lparr>x_p := x_p y + 1\<rparr>))"
        using exec_inv_step [OF y(1)]
      proof (rule Suc.IH(1))
        show "7 * (length data - x_p (y\<lparr>x_p := x_p y + 1\<rparr>)) < n"
          using 2(2) y(2) p by simp
      qed
      then show ?thesis using Break by simp
    next
      case (Reexecute y)
      then have y: "exec_inv 1 (length data) y" "x_p x \<le> x_p y" "rank (x_state y) < rank (x_state x)"
        using good by simp_all
      have "ok_result (length data) (execute_switch n S data y)"
        using y(1)
      proof (rule Suc.IH(2))
        show "7 * (length data - x_p y) + rank (x_state y) < n + 5"
          using 2(2) y(2,3) by linarith
      qed
      then show ?thesis using Reexecute by simp
    qed (use good in auto)
  }
qed

lemma entry_inv:
  assumes "parser_inv pr" "hp_errno pr = HPE_OK"
  shows "loop_inv len (entry pr env)"
  using assms
  by (auto simp: loop_inv_def entry_def parser_inv_def mark_inv_def entry_marks_def
      split: mark.splits if_splits)

lemma execute_eof_ok:
  assumes "parser_inv pr" "hp_errno pr = HPE_OK"
  shows "ok_result 1 (execute_eof S (entry pr env))"
proof -
  have "good 1 1 0 (CALLBACK_NOTIFY_NOADVANCE S N_message_complete (entry pr env) (\<lambda>x. Return 0 x))"
    unfolding CALLBACK_NOTIFY_NOADVANCE_def
    using assms by (intro notify_good) (simp_all add: entry_def parser_inv_def)
  then show ?thesis
    using assms finish_ok [of 1] by (auto simp: execute_eof_def entry_def parser_inv_def)
qed

lemma http_parser_execute_ok:
  assumes "parser_inv pr" "length data < 2 ^ 64"
  shows "ok_result (max 1 (length data)) (http_parser_execute S data pr env)"
proof -
  have "ok_result (length data) (execute_loop (execute_fuel data) S data (entry pr env))"
    if "hp_errno pr = HPE_OK"
    using assms entry_inv [OF assms(1) that]
    by (intro execute_good) (simp_all add: execute_fuel_def)
  moreover have "ok_result (max 1 (length data)) res" if "ok_result (length data) res"
    for res :: "'e result"
    using that by (cases res) auto
  ultimately show ?thesis
    using assms execute_eof_ok [OF assms(1)] by (auto simp: http_parser_execute_def)
qed

end

section \<open>The parser on any input\<close>

text \<open>Without callbacks the contract holds trivially; this is what \<open>http_parser_settings_init\<close> sets up.\<close>

interpretation silent: http_client "http_parser_settings_init :: 'e http_parser_settings"
proof
  show "keeps_parser f" if "notify_cb http_parser_settings_init n = Some f" for n and f :: "'e http_cb"
    using that by (cases n) (simp_all add: http_parser_settings_init_def)
  show "keeps_parser (\<lambda>pr. g pr d)" if "data_cb http_parser_settings_init m = Some g"
    for m and g :: "'e http_data_cb" and d
    using that by (cases m) (simp_all add: http_parser_settings_init_def)
  show "keeps_parser h" if "on_headers_complete http_parser_settings_init = Some h" for h :: "'e http_cb"
    using that by (simp add: http_parser_settings_init_def)
qed

text \<open>
  C1: For every parser that satisfies its invariant, every buffer and every set of callbacks that
  leave the parser alone except for \<open>http_errno\<close>, \<open>http_parser_execute\<close> returns: no assertion
  fails, no byte outside the buffer is read, the loop ends within the fuel, it consumes at most the
  buffer (at most 1 at the end of the stream), and the parser it leaves satisfies the invariant
  again or carries an error.
\<close>

theorem http_parser_execute_safe:
  assumes "http_client S" "parser_inv pr" "length data < 2 ^ 64"
  shows "\<exists>n pr' env'. http_parser_execute S data pr env = Done n pr' env' \<and>
     n \<le> max 1 (length data) \<and> (parser_inv pr' \<or> hp_errno pr' \<notin> {HPE_OK, HPE_PAUSED})"
  using http_client.http_parser_execute_ok [OF assms, of env]
  by (cases "http_parser_execute S data pr env") auto

lemma http_parser_execute_safe_witness:
  "\<exists>n pr' env'. http_parser_execute http_parser_settings_init ''GET /a HTTP/1.1''
     (http_parser_init HTTP_REQUEST) () = Done n pr' env' \<and>
     n \<le> max 1 (length ''GET /a HTTP/1.1'') \<and>
     (parser_inv pr' \<or> hp_errno pr' \<notin> {HPE_OK, HPE_PAUSED})"
  by (rule http_parser_execute_safe [OF silent.http_client_axioms http_parser_init_inv]) simp

end
