(* ===== verification/HttpClient.thy ===== *)
theory HttpClient
  imports HttpSafety
begin

text \<open>
  The client side of \<open>mbed-http/source\<close>: the response object (\<open>http_response.h\<close>), the callbacks that
  fill it (\<open>http_request_parser.h\<close>) and the loop that receives a response
  (\<open>create_http_response\<close> in \<open>http_request_base.h\<close>).

  The heap is the parameter \<open>heap_ok n\<close>: whether an allocation of \<open>n\<close> bytes succeeds. A write
  outside an allocated block sets \<open>r_fault\<close>. The body is a block of a capacity with the bytes
  written to it.
\<close>

section \<open>The response object\<close>

record response =
  r_status_code :: int
  r_status_message :: string
  r_url :: string
  r_method :: "http_method option"
  r_header_fields :: "string list"
  r_header_values :: "string list"
  r_concat_field :: bool
  r_concat_value :: bool
  r_expected_length :: u32
  r_is_chunked :: bool
  r_completed :: bool
  r_body :: "(nat \<times> string) option"
  r_body_length :: u32
  r_body_offset :: u32
  r_fault :: bool

definition HttpResponse :: response where
  "HttpResponse =
     \<lparr>r_status_code = 0, r_status_message = [], r_url = [], r_method = None,
      r_header_fields = [], r_header_values = [], r_concat_field = False, r_concat_value = False,
      r_expected_length = 0, r_is_chunked = False, r_completed = False, r_body = None,
      r_body_length = 0, r_body_offset = 0, r_fault = False\<rparr>"

definition set_status :: "int \<Rightarrow> string \<Rightarrow> response \<Rightarrow> response" where
  "set_status c m r = r\<lparr>r_status_code := c, r_status_message := m\<rparr>"

text \<open>\<open>xs[xs.size() - 1] += s\<close>; the last element of an empty vector does not exist.\<close>

fun append_last :: "string \<Rightarrow> string list \<Rightarrow> string list option" where
  "append_last s [] = None"
| "append_last s [x] = Some [x @ s]"
| "append_last s (x # y # xs) = map_option ((#) x) (append_last s (y # xs))"

definition set_header_field :: "string \<Rightarrow> response \<Rightarrow> response" where
  "set_header_field s r =
     (let r = r\<lparr>r_concat_value := False\<rparr>;
          r = (if r_concat_field r
               then (case append_last s (r_header_fields r) of
                       None \<Rightarrow> r\<lparr>r_fault := True\<rparr>
                     | Some xs \<Rightarrow> r\<lparr>r_header_fields := xs\<rparr>)
               else r\<lparr>r_header_fields := r_header_fields r @ [s]\<rparr>)
      in r\<lparr>r_concat_field := True\<rparr>)"

definition set_header_value :: "string \<Rightarrow> response \<Rightarrow> response" where
  "set_header_value s r =
     (let r = r\<lparr>r_concat_field := False\<rparr>;
          r = (if r_concat_value r
               then (case append_last s (r_header_values r) of
                       None \<Rightarrow> r\<lparr>r_fault := True\<rparr>
                     | Some xs \<Rightarrow> r\<lparr>r_header_values := xs\<rparr>)
               else r\<lparr>r_header_values := r_header_values r @ [s]\<rparr>)
      in r\<lparr>r_concat_value := True\<rparr>)"

text \<open>\<open>tolower\<close> and \<open>strcicmp(a, b) == 0\<close>, on strings without the terminating zero.\<close>

definition tolower :: "char \<Rightarrow> char" where
  "tolower c = (if in_range (CHR ''A'') (CHR ''Z'') c then LOWER c else c)"

definition strcicmp_eq :: "string \<Rightarrow> string \<Rightarrow> bool" where
  "strcicmp_eq a b \<longleftrightarrow> map tolower a = map tolower b"

text \<open>
  \<open>atoi\<close>, for a value that starts with a digit; \<open>None\<close> when the number leaves \<open>int\<close>, which C
  leaves undefined.
\<close>

definition atoi :: "string \<Rightarrow> int option" where
  "atoi s =
     (let v = foldl (\<lambda>v c. v * 10 + digit_val c) 0 (takeWhile IS_NUM s)
      in if int v < 2 ^ 31 then Some (int v) else None)"

fun find_content_length :: "string list \<Rightarrow> string list \<Rightarrow> string option" where
  "find_content_length (f # fs) (v # vs) =
     (if strcicmp_eq f ''content-length'' then Some v else find_content_length fs vs)"
| "find_content_length _ _ = None"

definition set_headers_complete :: "response \<Rightarrow> response" where
  "set_headers_complete r =
     (case find_content_length (r_header_fields r) (r_header_values r) of
        None \<Rightarrow> r
      | Some v \<Rightarrow>
          (case atoi v of
             None \<Rightarrow> r\<lparr>r_fault := True\<rparr>
           | Some n \<Rightarrow> r\<lparr>r_expected_length := of_int n\<rparr>))"

subsection \<open>The body\<close>

text \<open>\<open>memcpy(body + body_offset, at, length)\<close> and the new offset.\<close>

definition copy_body :: "string \<Rightarrow> response \<Rightarrow> response" where
  "copy_body at r =
     (let off = unat (r_body_offset r);
          r' = r\<lparr>r_body_offset := r_body_offset r + of_nat (length at)\<rparr>
      in if at = [] then r'
         else case r_body r of
           None \<Rightarrow> r'\<lparr>r_fault := True\<rparr>
         | Some (cap, s) \<Rightarrow>
             if off + length at > cap then r'\<lparr>r_fault := True\<rparr>
             else r'\<lparr>r_body := Some (cap, take off s @ at)\<rparr>)"

definition malloc :: "(nat \<Rightarrow> bool) \<Rightarrow> nat \<Rightarrow> (nat \<times> string) option" where
  "malloc heap_ok n = (if heap_ok n then Some (n, []) else None)"

definition set_body :: "(nat \<Rightarrow> bool) \<Rightarrow> string \<Rightarrow> response \<Rightarrow> response" where
  "set_body heap_ok at r =
     (let n = length at;
          r = (if r_expected_length r = 0 \<and> n > 0 then r\<lparr>r_is_chunked := True\<rparr> else r);
          r = (if r_body r = None \<and> \<not> r_is_chunked r
               then r\<lparr>r_body := malloc heap_ok (unat (r_expected_length r))\<rparr> else r)
      in if r_is_chunked r then
           (case r_body r of
              None \<Rightarrow> copy_body at (r\<lparr>r_body := malloc heap_ok n\<rparr>)
            | Some (cap, s) \<Rightarrow>
                (let m = unat (r_body_offset r + of_nat n)
                 in if heap_ok m then copy_body at (r\<lparr>r_body := Some (m, take m s)\<rparr>)
                    else r\<lparr>r_body := None\<rparr>))
         else copy_body at r)"

definition get_body_as_string :: "response \<Rightarrow> string" where
  "get_body_as_string r =
     (case r_body r of None \<Rightarrow> [] | Some (cap, s) \<Rightarrow> take (unat (r_body_offset r)) s)"

section \<open>The callbacks\<close>

text \<open>
  What the callbacks reach: the response, and the calls made to the user's body callback when one
  was given.
\<close>

record client =
  c_response :: response
  c_delivered :: "string list"

definition on_response :: "(http_parser \<Rightarrow> response \<Rightarrow> response) \<Rightarrow> client http_cb" where
  "on_response f = (\<lambda>pr c. (0, pr, c\<lparr>c_response := f pr (c_response c)\<rparr>))"

definition on_response_data :: "(http_parser \<Rightarrow> string \<Rightarrow> response \<Rightarrow> response) \<Rightarrow> client http_data_cb" where
  "on_response_data f = (\<lambda>pr at c. (0, pr, c\<lparr>c_response := f pr at (c_response c)\<rparr>))"

definition on_body_callback :: "(nat \<Rightarrow> bool) \<Rightarrow> bool \<Rightarrow> client http_data_cb" where
  "on_body_callback heap_ok has_body_callback = (\<lambda>pr at c.
     let r = c_response c;
         r = r\<lparr>r_body_length := r_body_length r + of_nat (length at)\<rparr>
     in if has_body_callback
        then (0, pr, c\<lparr>c_response := r, c_delivered := c_delivered c @ [at]\<rparr>)
        else (0, pr, c\<lparr>c_response := set_body heap_ok at r\<rparr>))"

definition HttpParser :: "(nat \<Rightarrow> bool) \<Rightarrow> bool \<Rightarrow> client http_parser_settings" where
  "HttpParser heap_ok has_body_callback =
     \<lparr>on_message_begin = Some (on_response (\<lambda>pr r. r)),
      on_url = Some (on_response_data (\<lambda>pr at r. r\<lparr>r_url := at\<rparr>)),
      on_status = Some (on_response_data (\<lambda>pr. set_status (uint (hp_status_code pr)))),
      on_header_field = Some (on_response_data (\<lambda>pr. set_header_field)),
      on_header_value = Some (on_response_data (\<lambda>pr. set_header_value)),
      on_headers_complete = Some (on_response (\<lambda>pr r.
        (set_headers_complete r)\<lparr>r_method := Some (hp_method pr)\<rparr>)),
      on_body = Some (on_body_callback heap_ok has_body_callback),
      on_message_complete = Some (on_response (\<lambda>pr r. r\<lparr>r_completed := True\<rparr>)),
      on_chunk_header = Some (on_response (\<lambda>pr r. r\<lparr>r_is_chunked := True\<rparr>)),
      on_chunk_complete = Some (on_response (\<lambda>pr r. r))\<rparr>"

lemma keeps_parser_same: "(\<And>pr env. fst (snd (f pr env)) = pr) \<Longrightarrow> keeps_parser f"
  unfolding keeps_parser_def by (metis http_parser.surjective http_parser.update_convs(13))

interpretation http: http_client "HttpParser heap_ok has_body_callback"
proof
  show "keeps_parser f" if "notify_cb (HttpParser heap_ok has_body_callback) n = Some f" for n f
    using that
    by (cases n) (auto simp: HttpParser_def on_response_def intro!: keeps_parser_same)
  show "keeps_parser (\<lambda>pr. g pr d)" if "data_cb (HttpParser heap_ok has_body_callback) m = Some g"
    for m g d
    using that
    by (cases m) (auto simp: HttpParser_def on_response_data_def on_body_callback_def Let_def
        intro!: keeps_parser_same)
  show "keeps_parser h" if "on_headers_complete (HttpParser heap_ok has_body_callback) = Some h" for h
    using that by (auto simp: HttpParser_def on_response_def intro!: keeps_parser_same)
qed

section \<open>Receiving a response\<close>

text \<open>
  What \<open>Socket::recv\<close> answers, one answer for each call: some bytes (at most the size of the
  buffer), the end of the stream, or a negative error.
\<close>

datatype recv = Received string | Closed | Recv_error int

text \<open>
  How \<open>create_http_response\<close> ends: with the response, with \<open>_error\<close> set, or not yet, when the
  answers are used up. \<open>Ex_fault\<close> is undefined behaviour of the parser.
\<close>

datatype exchange = Ex_response client | Ex_error int client | Ex_waiting client | Ex_fault

definition finish_response :: "client http_parser_settings \<Rightarrow> http_parser \<Rightarrow> client \<Rightarrow> exchange" where
  "finish_response S pr c =
     (case http_parser_execute S [] pr c of
        Done n pr c \<Rightarrow> Ex_response c
      | _ \<Rightarrow> Ex_fault)"

fun receive :: "client http_parser_settings \<Rightarrow> recv list \<Rightarrow> http_parser \<Rightarrow> client \<Rightarrow> exchange" where
  "receive S [] pr c = Ex_waiting c"
| "receive S (Closed # rs) pr c = finish_response S pr c"
| "receive S (Recv_error e # rs) pr c = Ex_error e c"
| "receive S (Received data # rs) pr c =
     (if data = [] then finish_response S pr c
      else case http_parser_execute S data pr c of
        Done n pr c \<Rightarrow>
          (if n \<noteq> length data then Ex_error (- 2101) c
           else if r_completed (c_response c) then finish_response S pr c
           else receive S rs pr c)
      | _ \<Rightarrow> Ex_fault)"

definition create_http_response :: "(nat \<Rightarrow> bool) \<Rightarrow> bool \<Rightarrow> recv list \<Rightarrow> exchange" where
  "create_http_response heap_ok has_body_callback rs =
     receive (HttpParser heap_ok has_body_callback) rs (http_parser_init HTTP_RESPONSE)
       \<lparr>c_response = HttpResponse, c_delivered = []\<rparr>"

end
