(* ===== verification/HttpTheorems.thy ===== *)
theory HttpTheorems
  imports HttpClient
begin

text \<open>
  What the parser and the client compute: the method names, decimal lengths, the bodies of known
  length, the response's body and the loop that receives a response.
\<close>

section \<open>Method names\<close>

text \<open>
  A request that starts with any of the 33 method names and a space is recognised: a fresh
  parser consumes it all without an error, has that method and waits for the target.
\<close>

theorem method_roundtrip:
  "case http_parser_execute http_parser_settings_init (method_name m @ '' '')
      (http_parser_init HTTP_REQUEST) () of
     Done n pr env \<Rightarrow> n = length (method_name m) + 1 \<and> hp_errno pr = HPE_OK \<and>
       hp_method pr = m \<and> hp_state pr = s_req_spaces_before_url
   | _ \<Rightarrow> False"
  by (cases m; simp only:; code_simp)

section \<open>Numbers\<close>

lemma content_length_step_exact:
  fixes x :: "'e exec"
  assumes "IS_NUM ch"
  defines "v \<equiv> unat (hp_content_length (x_parser x))"
  shows "content_length_step h ch x =
     (if v \<le> (2 ^ 64 - 11) div 10
      then Value_next h 1 (upd (\<lambda>pr. pr\<lparr>hp_content_length := of_nat (v * 10 + digit_val ch)\<rparr>) x)
      else Value_exit (Error (upd (\<lambda>pr. pr\<lparr>hp_errno := HPE_INVALID_CONTENT_LENGTH,
                                           hp_header_state := h\<rparr>) x)))"
proof -
  let ?c = "hp_content_length (x_parser x)"
  have "(ULLONG_MAX - 10) div 10 < ?c \<longleftrightarrow> \<not> v \<le> (2 ^ 64 - 11) div 10"
    by (simp add: v_def ULLONG_MAX_def word_less_nat_alt unat_div not_le)
  moreover have "?c * 10 + of_nat (digit_val ch) = of_nat (v * 10 + digit_val ch)"
    by (simp add: v_def)
  moreover have "ch \<noteq> SP" using IS_NUM_not_special [OF assms(1)] by simp
  ultimately show ?thesis
    using assms(1) by (simp add: content_length_step_def Let_def)
qed

definition decimal_from :: "nat \<Rightarrow> string \<Rightarrow> nat" where
  "decimal_from v s = foldl (\<lambda>v c. v * 10 + digit_val c) v s"

lemma decimal_from_simps [simp]:
  "decimal_from v [] = v" "decimal_from v (c # s) = decimal_from (v * 10 + digit_val c) s"
  by (simp_all add: decimal_from_def)

lemma decimal_from_mono: "v \<le> decimal_from v s"
proof (induction s arbitrary: v)
  case (Cons c s)
  have "v \<le> v * 10 + digit_val c" by simp
  also have "\<dots> \<le> decimal_from (v * 10 + digit_val c) s" by (rule Cons.IH)
  finally show ?case by simp
qed simp

lemma IS_NUM_header: "IS_NUM c \<Longrightarrow> IS_HEADER_CHAR c"
  by (auto simp: char_class_defs)

text \<open>
  C7: The value of a Content-Length header is read digit by digit, exactly and without wrap-around:
  as long as no digit is added to a number above \<open>(2^64 - 11) / 10\<close> the loop ends with the decimal
  value of the digits in \<open>content_length\<close>; otherwise it ends in \<open>HPE_INVALID_CONTENT_LENGTH\<close>.
\<close>

theorem content_length_loop:
  fixes x :: "'e exec"
  assumes "list_all IS_NUM ds" "x_state x = s_header_value"
  defines "v \<equiv> unat (hp_content_length (x_parser x))"
  shows "if decimal_from v (butlast ds) \<le> (2 ^ 64 - 11) div 10 \<or> ds = [] then
      \<exists>x'. header_value_loop S data start ds h_content_length x =
           header_value_done data start h_content_length x' \<and>
         x_p x' = x_p x + length ds \<and> unat (hp_content_length (x_parser x')) = decimal_from v ds
    else
      \<exists>x'. header_value_loop S data start ds h_content_length x = Error x' \<and>
         hp_errno (x_parser x') = HPE_INVALID_CONTENT_LENGTH"
  using assms(1,2) unfolding v_def
proof (induction ds arbitrary: x)
  case Nil
  then show ?case by auto
next
  case (Cons d ds)
  let ?v = "unat (hp_content_length (x_parser x))" and ?w = "unat (hp_content_length (x_parser x)) * 10 + digit_val d"
  have d: "IS_NUM d" "d \<noteq> CR" "d \<noteq> LF" "IS_HEADER_CHAR d" "list_all IS_NUM ds"
    using Cons.prems(1) IS_NUM_not_special [of d] IS_NUM_header [of d] by simp_all
  have less: "decimal_from ?w (butlast ds) \<ge> ?v"
    by (rule order_trans [OF _ decimal_from_mono]) simp
  have tail: "decimal_from ?v (butlast (d # ds)) = (if ds = [] then ?v else decimal_from ?w (butlast ds))"
    by simp
  show ?case
  proof (cases "?v \<le> (2 ^ 64 - 11) div 10")
    case True
    let ?x = "x\<lparr>x_ch := d, x_parser := (x_parser x)\<lparr>hp_content_length := of_nat ?w\<rparr>, x_p := x_p x + 1\<rparr>"
    have w: "unat (of_nat ?w :: u64) = ?w"
      using True digit_val_less [OF d(1)] by (intro unat_of_nat_small) simp
    have "header_value_loop S data start (d # ds) h_content_length x =
        header_value_loop S data start ds h_content_length ?x"
      using d True by (simp add: header_value_switch_def content_length_step_exact upd_def)
    then show ?thesis
      using Cons.IH [OF d(5), of ?x] Cons.prems(2) True w unfolding tail
      by (cases "ds = []") (simp_all split: if_splits)
  next
    case False
    then have "header_value_loop S data start (d # ds) h_content_length x =
        Error (upd (\<lambda>pr. pr\<lparr>hp_errno := HPE_INVALID_CONTENT_LENGTH, hp_header_state := h_content_length\<rparr>) (x\<lparr>x_ch := d\<rparr>))"
      using d by (simp add: header_value_switch_def content_length_step_exact)
    moreover have "\<not> decimal_from ?v (butlast (d # ds)) \<le> (2 ^ 64 - 11) div 10"
      using False less unfolding tail by (simp split: if_splits)
    ultimately show ?thesis by (simp add: upd_def)
  qed
qed

lemma content_length_loop_witness:
  "\<exists>x'. header_value_loop http_parser_settings_init ''12'' 0 ''12'' h_content_length
      (entry ((http_parser_init HTTP_RESPONSE)\<lparr>hp_state := s_header_value\<rparr>) ()) =
      header_value_done ''12'' 0 h_content_length x' \<and>
    x_p x' = 2 \<and> unat (hp_content_length (x_parser x')) = 12"
proof -
  let ?x = "entry ((http_parser_init HTTP_RESPONSE)\<lparr>hp_state := s_header_value\<rparr>) ()"
  have "list_all IS_NUM ''12''" "x_state ?x = s_header_value" "hp_content_length (x_parser ?x) = 0" "x_p ?x = 0"
    "decimal_from 0 ''1'' = 1" "decimal_from 0 ''12'' = 12"
    by (simp_all add: char_class_defs entry_def http_parser_init_def)
  then show ?thesis
    using content_length_loop [of "''12''" ?x http_parser_settings_init "''12''" 0]
    by (simp del: header_value_loop.simps) (simp del: header_value_loop.simps add: numeral_2_eq_2)
qed

section \<open>Bodies of known length\<close>

definition complete :: "client \<Rightarrow> client" where
  "complete c = c\<lparr>c_response := (c_response c)\<lparr>r_completed := True\<rparr>\<rparr>"

text \<open>
  A sink for the body: what \<open>on_body\<close> does to the client, which neither fails nor completes the
  response, and \<open>on_message_complete\<close>, which completes it. Both uses of \<open>HttpParser\<close> are one: with a
  body callback the pieces are handed on, without one they are copied into the response.
\<close>

locale body_sink =
  fixes S :: "client http_parser_settings"
    and deliver :: "string \<Rightarrow> client \<Rightarrow> client"
  assumes on_body: "on_body S = Some (\<lambda>pr at c. (0, pr, deliver at c))"
    and on_complete: "on_message_complete S = Some (\<lambda>pr c. (0, pr, complete c))"
    and still_open: "r_completed (c_response (deliver at c)) = r_completed (c_response c)"

lemma execute_fuel_unfold: "\<exists>k. execute_fuel data = Suc (Suc (Suc (Suc k)))"
  by (rule exI [of _ "8 * length data + 4"]) (simp add: execute_fuel_def)

lemma no_marks_body: "entry_marks s_body_identity = (\<lambda>m. None)"
  by (auto simp: entry_marks_def url_states_def split: mark.splits)

lemma execute_end_plain:
  assumes "\<And>m. x_mark x m = None" "hp_errno (x_parser x) = HPE_OK"
  shows "execute_end S data x = RETURN (length data) x"
  using assms
  by (simp add: execute_end_def leftover_marks_def assert_then_def CALLBACK_DATA_NOADVANCE_def
      CALLBACK_DATA_ER_def)

lemma NEW_MESSAGE_cases: "NEW_MESSAGE pr \<in> {s_dead, s_start_req, s_start_res}"
  by (simp add: NEW_MESSAGE_def start_state_def)

lemma finish_response_idle:
  assumes "hp_errno pr = HPE_OK" "hp_state pr \<in> {s_dead, s_start_req, s_start_res}"
  shows "finish_response S pr c = Ex_response c"
  using assms by (auto simp: finish_response_def http_parser_execute_def execute_eof_def entry_def)

text \<open>Where the loop stands: position, byte, state and marks.\<close>

abbreviation no_marks :: "mark \<Rightarrow> nat option" where "no_marks \<equiv> \<lambda>m. None"

abbreviation marked :: "mark \<Rightarrow> nat \<Rightarrow> mark \<Rightarrow> nat option" where
  "marked k i \<equiv> (\<lambda>m. None)(k := Some i)"

abbreviation place :: "bool \<Rightarrow> http_parser \<Rightarrow> 'e \<Rightarrow> nat \<Rightarrow> char \<Rightarrow> state \<Rightarrow> (mark \<Rightarrow> nat option) \<Rightarrow> 'e exec" where
  "place l pr c p ch s m \<equiv>
     \<lparr>x_parser = pr, x_env = c, x_p = p, x_ch = ch, x_state = s, x_lenient = l, x_mark = m\<rparr>"

lemma no_marks_again: "(marked k i)(k := None) = no_marks"
  by auto

lemma entry_body: "hp_state pr = s_body_identity \<Longrightarrow>
    entry pr c = place (hp_lenient_http_headers pr) pr c 0 NUL s_body_identity no_marks"
  by (simp add: entry_def no_marks_body)

text \<open>The rest of the buffer from position \<open>p\<close> on is a piece of the body.\<close>

context body_sink
begin

lemma body_part_at:
  assumes "hp_errno pr = HPE_OK" "drop p data = piece" "p + length piece = length data" "piece \<noteq> []" "length data < 2 ^ 64"
    and "length piece < unat (hp_content_length pr)" "hp_content_length pr \<noteq> ULLONG_MAX"
  shows "execute_loop (Suc (Suc (Suc k))) S data (place l pr c p ch s_body_identity no_marks) =
     Done (length data) (pr\<lparr>hp_content_length := hp_content_length pr - of_nat (length piece), hp_state := s_body_identity\<rparr>)
       (deliver piece c)"
proof -
  let ?x = "place l pr c p (data ! p) s_body_identity no_marks"
  have p: "p < length data" "length data - p = length piece" using assms(3,4) by (cases piece; simp)+
  have nz: "hp_content_length pr \<noteq> 0" using assms(6) by auto
  have len: "unat (of_nat (length piece) :: u64) = length piece"
    using assms(3,5) by (intro unat_of_nat_small) simp
  have read: "body_to_read data ?x = of_nat (length piece)"
    using assms(6) len p(2) by (simp add: body_to_read_def min_def word_le_nat_alt)
  have left: "hp_content_length pr - of_nat (length piece) \<noteq> 0"
    using assms(6) len by (metis diff_numeral_special(9) eq_iff_diff_eq_0 less_irrefl)
  let ?pr = "pr\<lparr>hp_content_length := hp_content_length pr - of_nat (length piece)\<rparr>"
  let ?y = "\<lambda>q. place l ?pr c q (data ! p) s_body_identity (marked M_body p)"
  have take: "take_body data ?x = ?y (length data - 1)"
    using read len assms(3) by (simp add: take_body_def Let_def MARK_def upd_def body_to_read_def)
  then have switch: "switch_on s_body_identity S data ?x = Break (?y (length data - 1))"
    using assms(7) nz left by (simp add: case_s_body_identity_def assert_then_def Let_def)
  have "slice data p (length data - p) = piece" using assms(2) p(2) by (simp add: slice_def)
  then have "execute_end S data (?y (length data)) =
      Return (length data) (place l (?pr\<lparr>hp_state := s_body_identity\<rparr>) (deliver piece c) (length data) (data ! p) s_body_identity no_marks)"
    using assms(1)
    by (simp add: execute_end_def leftover_marks_def assert_then_def CALLBACK_DATA_NOADVANCE_def CALLBACK_DATA_ER_def
      on_body on_complete run_callback_def Let_def RETURN_def upd_def no_marks_again)
  then show ?thesis using p switch by (cases data) simp_all
qed

lemma body_last_at:
  assumes "hp_errno pr = HPE_OK" "drop p data = piece" "p + length piece = length data" "piece \<noteq> []" "length data < 2 ^ 64"
    and "length piece = unat (hp_content_length pr)" "hp_content_length pr \<noteq> ULLONG_MAX"
  defines "pr' \<equiv> pr\<lparr>hp_content_length := 0, hp_state := s_message_done\<rparr>"
  shows "execute_loop (Suc (Suc (Suc (Suc k)))) S data (place l pr c p ch s_body_identity no_marks) =
     Done (length data) (pr'\<lparr>hp_state := NEW_MESSAGE pr'\<rparr>) (complete (deliver piece c))"
proof -
  let ?x = "place l pr c p (data ! p) s_body_identity no_marks"
  have p: "p < length data" "length data - p = length piece" using assms(3,4) by (cases piece; simp)+
  have last: "Suc (length data - Suc 0) = length data" using p(1) by simp
  have nz: "hp_content_length pr \<noteq> 0" using assms(4,6) by auto
  have len: "of_nat (length piece) = hp_content_length pr" using assms(6) by simp
  have read: "body_to_read data ?x = hp_content_length pr" using len p(2) by (simp add: body_to_read_def)
  let ?pr = "pr\<lparr>hp_content_length := 0\<rparr>"
  have take: "take_body data ?x = place l ?pr c (length data - 1) (data ! p) s_body_identity (marked M_body p)"
    using read assms(3,6) by (simp add: take_body_def Let_def MARK_def upd_def body_to_read_def)
  let ?z = "place l pr' (deliver piece c) (length data - 1) (data ! p) s_message_done no_marks"
  have "slice data p (Suc (length data - 1) - p) = piece" using assms(2) p by (simp add: slice_def)
  then have switch: "switch_on s_body_identity S data ?x = Reexecute ?z"
    using assms(1,7) nz take p
    by (simp add: case_s_body_identity_def assert_then_def Let_def CALLBACK_DATA_ER_def
        on_body on_complete run_callback_def UPDATE_STATE_def pr'_def no_marks_again)
  let ?w = "\<lambda>q. place l (pr'\<lparr>hp_state := NEW_MESSAGE pr'\<rparr>) (complete (deliver piece c)) q (data ! p) (NEW_MESSAGE pr') no_marks"
  have msg: "switch_on s_message_done S data ?z =
      (if hp_upgrade pr then Return (length data) (?w (length data - 1)) else Break (?w (length data - 1)))"
    using assms(1) last
    by (simp add: case_s_message_done_def CALLBACK_NOTIFY_def CALLBACK_NOTIFY_ER_def assert_then_def
        on_body on_complete run_callback_def UPDATE_STATE_def pr'_def Let_def RETURN_def upd_def)
  have e: "execute_end S data (?w (length data)) = Return (length data) (?w (length data))"
    using assms(1) by (subst execute_end_plain) (simp_all add: RETURN_def upd_def pr'_def)
  show ?thesis using p last switch msg e by simp
qed

lemma body_identity_part:
  assumes "hp_errno pr = HPE_OK" "hp_state pr = s_body_identity" "data \<noteq> []" "length data < 2 ^ 64"
    and "length data < unat (hp_content_length pr)" "hp_content_length pr \<noteq> ULLONG_MAX"
  shows "http_parser_execute S data pr c =
     Done (length data) (pr\<lparr>hp_content_length := hp_content_length pr - of_nat (length data)\<rparr>)
       (deliver data c)"
proof -
  obtain k where "execute_fuel data = Suc (Suc (Suc (Suc k)))" using execute_fuel_unfold by blast
  then have "http_parser_execute S data pr c = execute_loop (Suc (Suc (Suc (Suc k)))) S data (entry pr c)"
    using assms(1,3) by (simp add: http_parser_execute_def del: execute_loop.simps)
  also have "\<dots> = Done (length data) (pr\<lparr>hp_content_length := hp_content_length pr - of_nat (length data), hp_state := s_body_identity\<rparr>)
      (deliver data c)"
    unfolding entry_body [OF assms(2)] by (rule body_part_at) (use assms in simp_all)
  finally show ?thesis using assms(2) by simp
qed

lemma body_identity_last:
  assumes "hp_errno pr = HPE_OK" "hp_state pr = s_body_identity" "data \<noteq> []" "length data < 2 ^ 64"
    and "length data = unat (hp_content_length pr)" "hp_content_length pr \<noteq> ULLONG_MAX"
  defines "pr' \<equiv> pr\<lparr>hp_content_length := 0, hp_state := s_message_done\<rparr>"
  shows "http_parser_execute S data pr c =
     Done (length data) (pr'\<lparr>hp_state := NEW_MESSAGE pr'\<rparr>) (complete (deliver data c))"
proof -
  obtain k where "execute_fuel data = Suc (Suc (Suc (Suc k)))" using execute_fuel_unfold by blast
  then have "http_parser_execute S data pr c = execute_loop (Suc (Suc (Suc (Suc k)))) S data (entry pr c)"
    using assms(1,3) by (simp add: http_parser_execute_def del: execute_loop.simps)
  also have "\<dots> = Done (length data) (pr'\<lparr>hp_state := NEW_MESSAGE pr'\<rparr>) (complete (deliver data c))"
    unfolding entry_body [OF assms(2)] pr'_def by (rule body_last_at) (use assms in simp_all)
  finally show ?thesis .
qed

text \<open>However the body is cut, the sink gets the pieces in order and the response completes.\<close>

lemma receive_body:
  assumes "hp_errno pr = HPE_OK" "hp_state pr = s_body_identity"
    and "ps \<noteq> []" "[] \<notin> set ps" "length (concat ps) = unat (hp_content_length pr)"
    and "hp_content_length pr \<noteq> ULLONG_MAX" "\<not> r_completed (c_response c)"
  shows "receive S (map Received ps) pr c = Ex_response (complete (fold deliver ps c))"
  using assms
proof (induction ps arbitrary: pr c)
  case Nil
  then show ?case by simp
next
  case (Cons p ps)
  let ?n = "hp_content_length pr"
  have p: "p \<noteq> []" "length p \<le> unat ?n" using Cons.prems(4,5) by auto
  have "unat ?n < 2 ^ 64"
    using unsigned_less [of ?n] by simp
  then have small: "length p < 2 ^ 64"
    using p(2) by simp
  show ?case
  proof (cases "ps = []")
    case True
    then have "length p = unat ?n" using Cons.prems(5) by simp
    then show ?thesis
      using body_identity_last [OF Cons.prems(1,2) p(1) small _ Cons.prems(6), of c] True p(1)
        Cons.prems(1) NEW_MESSAGE_cases
      by (auto simp: complete_def finish_response_idle)
  next
    case False
    then have "0 < length (concat ps)" using Cons.prems(4) by (cases ps) auto
    moreover have "length p + length (concat ps) = unat ?n" using Cons.prems(5) by simp
    ultimately have less: "length p < unat ?n" and cat: "length (concat ps) = unat ?n - length p"
      by linarith+
    let ?pr = "pr\<lparr>hp_content_length := ?n - of_nat (length p)\<rparr>"
    have n: "unat (?n - of_nat (length p)) = unat ?n - length p"
      using less small by (subst unat_sub) (simp_all add: word_le_nat_alt unat_of_nat_small)
    have "?n - of_nat (length p) \<noteq> ULLONG_MAX"
    proof
      assume "?n - of_nat (length p) = ULLONG_MAX"
      then have "unat ULLONG_MAX < unat ?n" using n less p(1) by (metis diff_less length_greater_0_conv order_le_less_trans zero_le)
      then show False by (simp add: ULLONG_MAX_def word_less_nat_alt [symmetric])
    qed
    then have "receive S (map Received ps) ?pr (deliver p c) = Ex_response (complete (fold deliver (p # ps) c))"
      using Cons.IH [of ?pr "deliver p c"] Cons.prems(1-4,6,7) False n cat by (simp add: still_open)
    then show ?thesis
      using body_identity_part [OF Cons.prems(1,2) p(1) small less Cons.prems(6), of c] p(1) Cons.prems(7)
      by (simp add: still_open)
  qed
qed

end

text \<open>The two sinks of \<open>HttpParser\<close>.\<close>

definition counted :: "string \<Rightarrow> response \<Rightarrow> response" where
  "counted at r = r\<lparr>r_body_length := r_body_length r + of_nat (length at)\<rparr>"

definition hand_on :: "string \<Rightarrow> client \<Rightarrow> client" where
  "hand_on at c =
     c\<lparr>c_response := counted at (c_response c), c_delivered := c_delivered c @ [at]\<rparr>"

definition store :: "(nat \<Rightarrow> bool) \<Rightarrow> string \<Rightarrow> client \<Rightarrow> client" where
  "store heap_ok at c = c\<lparr>c_response := set_body heap_ok at (counted at (c_response c))\<rparr>"

lemma copy_body_completed [simp]: "r_completed (copy_body at r) = r_completed r"
  by (simp add: copy_body_def Let_def split: option.splits)

lemma set_body_completed [simp]: "r_completed (set_body heap_ok at r) = r_completed r"
  by (simp add: set_body_def Let_def split: option.splits)

interpretation handing: body_sink "HttpParser heap_ok True" hand_on
  by unfold_locales
    (simp_all add: HttpParser_def on_body_callback_def on_response_def hand_on_def counted_def complete_def Let_def)

interpretation storing: body_sink "HttpParser heap_ok False" "store heap_ok"
  by unfold_locales
    (simp_all add: HttpParser_def on_body_callback_def on_response_def store_def counted_def complete_def Let_def)

lemma fold_hand_on: "c_delivered (fold hand_on ps c) = c_delivered c @ ps"
  by (induction ps arbitrary: c) (simp_all add: hand_on_def)

lemma complete_fields [simp]:
  "c_delivered (complete c) = c_delivered c"
  "c_response (complete c) = (c_response c)\<lparr>r_completed := True\<rparr>"
  by (simp_all add: complete_def)

text \<open>
  With a body callback, however the network cuts a body of announced length into pieces, the
  callback gets exactly these pieces in order, and the exchange ends with a completed response after
  the last one.
\<close>

theorem receive_body_callback:
  assumes "hp_errno pr = HPE_OK" "hp_state pr = s_body_identity"
    and "ps \<noteq> []" "[] \<notin> set ps" "length (concat ps) = unat (hp_content_length pr)"
    and "hp_content_length pr \<noteq> ULLONG_MAX" "\<not> r_completed (c_response c)"
  shows "\<exists>c'. receive (HttpParser heap_ok True) (map Received ps) pr c = Ex_response c' \<and>
     c_delivered c' = c_delivered c @ ps \<and> r_completed (c_response c')"
  using handing.receive_body [OF assms] by (simp add: fold_hand_on)

lemma receive_body_callback_witness:
  "\<exists>c'. receive (HttpParser (\<lambda>_. True) True) (map Received [''ab'', ''c''])
      ((http_parser_init HTTP_RESPONSE)\<lparr>hp_state := s_body_identity, hp_content_length := 3\<rparr>)
      \<lparr>c_response = HttpResponse, c_delivered = []\<rparr> = Ex_response c' \<and>
     c_delivered c' = c_delivered \<lparr>c_response = HttpResponse, c_delivered = []\<rparr> @ [''ab'', ''c''] \<and>
     r_completed (c_response c')"
  by (rule receive_body_callback) (simp_all add: http_parser_init_def ULLONG_MAX_def HttpResponse_def)

section \<open>The body of a response\<close>

text \<open>The response holds the bytes \<open>s\<close>; a block in identity mode has the announced capacity.\<close>

definition holds :: "string \<Rightarrow> response \<Rightarrow> bool" where
  "holds s r \<longleftrightarrow>
     length s < 2 ^ 32 \<and> r_body_offset r = of_nat (length s) \<and>
     (case r_body r of
        None \<Rightarrow> s = []
      | Some (cap, t) \<Rightarrow> t = s \<and> length s \<le> cap \<and>
          (r_is_chunked r \<or> cap = unat (r_expected_length r)))"

text \<open>There is room for \<open>n\<close> more bytes after \<open>s\<close>.\<close>

definition room :: "nat \<Rightarrow> string \<Rightarrow> response \<Rightarrow> bool" where
  "room n s r \<longleftrightarrow>
     length s + n < 2 ^ 32 \<and>
     (r_is_chunked r \<or> r_expected_length r = 0 \<and> s = [] \<or> length s + n \<le> unat (r_expected_length r))"

lemma set_body_step:
  assumes "\<And>n. heap_ok n" "holds s r" "room (length at) s r"
  shows "holds (s @ at) (set_body heap_ok at r)"
    and "r_fault (set_body heap_ok at r) = r_fault r"
    and "r_expected_length (set_body heap_ok at r) = r_expected_length r"
    and "r_is_chunked r \<Longrightarrow> r_is_chunked (set_body heap_ok at r)"
    and "r_expected_length r = 0 \<Longrightarrow> at \<noteq> [] \<Longrightarrow> r_is_chunked (set_body heap_ok at r)"
proof -
  have off: "unat (r_body_offset r) = length s"
    using assms(2) by (simp add: holds_def unat_of_nat_small)
  have sum: "unat (r_body_offset r + of_nat (length at)) = length s + length at"
    "r_body_offset r + of_nat (length at) = of_nat (length (s @ at))"
    using assms(2,3) by (simp_all add: holds_def room_def unat_of_nat_small flip: of_nat_add)
  show "holds (s @ at) (set_body heap_ok at r)" "r_fault (set_body heap_ok at r) = r_fault r"
    "r_expected_length (set_body heap_ok at r) = r_expected_length r"
    using assms off sum
    by (auto simp: set_body_def copy_body_def holds_def room_def malloc_def Let_def
        split: option.splits prod.splits)
  show "r_is_chunked (set_body heap_ok at r)" if "r_is_chunked r"
    using that by (auto simp: set_body_def copy_body_def Let_def split: option.splits prod.splits)
  show "r_is_chunked (set_body heap_ok at r)" if "r_expected_length r = 0" "at \<noteq> []"
    using that by (auto simp: set_body_def copy_body_def Let_def split: option.splits prod.splits)
qed

lemma holds_get: "holds s r \<Longrightarrow> get_body_as_string r = s"
  by (auto simp: holds_def get_body_as_string_def unat_of_nat_small split: option.splits)

lemma counted_holds [simp]:
  "holds s (counted at r) = holds s r" "room n s (counted at r) = room n s r"
  "r_fault (counted at r) = r_fault r" "r_expected_length (counted at r) = r_expected_length r"
  "r_is_chunked (counted at r) = r_is_chunked r"
  by (simp_all add: counted_def holds_def room_def cong: option.case_cong prod.case_cong)

lemma fold_store:
  assumes "\<And>n. heap_ok n" "holds s (c_response c)" "room (length (concat ps)) s (c_response c)"
  shows "holds (s @ concat ps) (c_response (fold (store heap_ok) ps c)) \<and>
     r_fault (c_response (fold (store heap_ok) ps c)) = r_fault (c_response c)"
  using assms(2,3)
proof (induction ps arbitrary: s c)
  case (Cons p ps)
  let ?r = "set_body heap_ok p (counted p (c_response c))"
  have now: "holds s (counted p (c_response c))" "room (length p) s (counted p (c_response c))"
    using Cons.prems by (auto simp: room_def)
  note step = set_body_step [OF assms(1) now]
  have "room (length (concat ps)) (s @ p) ?r"
    using Cons.prems(2) step(3-5) by (cases "p = []") (auto simp: room_def)
  then show ?case
    using Cons.IH [of "s @ p" "store heap_ok p c"] step(1,2) by (simp add: store_def)
qed simp

lemma completed_holds [simp]: "holds s (r\<lparr>r_completed := b\<rparr>) = holds s r"
  by (simp add: holds_def cong: option.case_cong prod.case_cong)

text \<open>
  Without a body callback, and with memory to allocate, the same pieces end up concatenated in
  the response: after a body of announced length that fits what \<open>set_headers_complete\<close> expects, the
  completed response gives the whole body as a string and no byte was written outside its block.
\<close>

theorem receive_body_stored:
  assumes "hp_errno pr = HPE_OK" "hp_state pr = s_body_identity"
    and "ps \<noteq> []" "[] \<notin> set ps" "length (concat ps) = unat (hp_content_length pr)"
    and "hp_content_length pr \<noteq> ULLONG_MAX" "\<not> r_completed (c_response c)"
    and "\<And>n. heap_ok n" "holds [] (c_response c)" "room (length (concat ps)) [] (c_response c)"
  shows "\<exists>c'. receive (HttpParser heap_ok False) (map Received ps) pr c = Ex_response c' \<and>
     get_body_as_string (c_response c') = concat ps \<and> r_completed (c_response c') \<and>
     r_fault (c_response c') = r_fault (c_response c)"
  using storing.receive_body [OF assms(1-7)] fold_store [OF assms(8-10)]
  by (auto intro!: holds_get)

lemma receive_body_stored_witness:
  "\<exists>c'. receive (HttpParser (\<lambda>_. True) False) (map Received [''ab'', ''c''])
      ((http_parser_init HTTP_RESPONSE)\<lparr>hp_state := s_body_identity, hp_content_length := 3\<rparr>)
      \<lparr>c_response = HttpResponse\<lparr>r_expected_length := 3\<rparr>, c_delivered = []\<rparr> = Ex_response c' \<and>
     get_body_as_string (c_response c') = concat [''ab'', ''c''] \<and> r_completed (c_response c') \<and>
     r_fault (c_response c') =
       r_fault (c_response \<lparr>c_response = HttpResponse\<lparr>r_expected_length := 3\<rparr>, c_delivered = []\<rparr>)"
  by (rule receive_body_stored)
    (simp_all add: http_parser_init_def ULLONG_MAX_def HttpResponse_def holds_def room_def)

section \<open>Receiving\<close>

lemma receive_ok:
  assumes "parser_inv pr" "\<forall>data. Received data \<in> set rs \<longrightarrow> length data < 2 ^ 64"
  shows "receive (HttpParser heap_ok b) rs pr c \<noteq> Ex_fault"
  using assms
proof (induction rs arbitrary: pr c)
  case Nil
  then show ?case by simp
next
  case (Cons r rs)
  have fin: "finish_response (HttpParser heap_ok b) pr' c' \<noteq> Ex_fault" if "parser_inv pr'" for pr' c'
    using http.http_parser_execute_ok [OF that, of "[]" heap_ok b c']
    by (auto simp: finish_response_def split: result.splits)
  show ?case
  proof (cases r)
    case (Received data)
    show ?thesis
    proof (cases "http_parser_execute (HttpParser heap_ok b) data pr c")
      case (Done n pr' c')
      have "length data < 2 ^ 64" using Cons.prems(2) Received by simp
      then have ok: "parser_inv pr' \<or> hp_errno pr' \<notin> {HPE_OK, HPE_PAUSED}"
        using http.http_parser_execute_ok [OF Cons.prems(1), of data heap_ok b c] Done by simp
      have stuck: "finish_response S pr' c' \<noteq> Ex_fault" "receive S rs' pr' c' \<noteq> Ex_fault"
        if "hp_errno pr' \<noteq> HPE_OK" for S rs'
      proof -
        show *: "finish_response S pr' c' \<noteq> Ex_fault" for c'
          using that by (simp add: finish_response_def http_parser_execute_def)
        show "receive S rs' pr' c' \<noteq> Ex_fault" for c'
        proof (induction rs' arbitrary: c')
          case (Cons r rs)
          then show ?case using * that by (cases r) (auto simp: http_parser_execute_def)
        qed simp
      qed
      show ?thesis
        using ok Received Done fin [of pr' c'] fin [OF Cons.prems(1)] stuck Cons.IH [of pr' c'] Cons.prems(2)
        by (auto split: if_splits)
    next
      case Faulted
      then show ?thesis
        using http.http_parser_execute_ok [OF Cons.prems(1), of data heap_ok b c] Cons.prems(2) Received
        by simp
    next
      case No_fuel
      then show ?thesis
        using http.http_parser_execute_ok [OF Cons.prems(1), of data heap_ok b c] Cons.prems(2) Received
        by simp
    qed
  qed (use fin [OF Cons.prems(1)] in auto)
qed

text \<open>
  C2: Whatever the server sends, in whatever pieces, and whatever the allocations do, the client's
  exchange never runs into undefined behaviour of the parser: it ends with a response, with an error
  code, or still waits for data.
\<close>

theorem create_http_response_no_fault:
  assumes "\<forall>data. Received data \<in> set rs \<longrightarrow> length data < 2 ^ 64"
  shows "create_http_response heap_ok has_body_callback rs \<noteq> Ex_fault"
  unfolding create_http_response_def by (rule receive_ok [OF http_parser_init_inv assms])

lemma create_http_response_no_fault_witness:
  "create_http_response (\<lambda>n. n < 1000) False [Received ''HTTP/1.1 2'', Received ''04 No'', Closed] \<noteq> Ex_fault"
  by (rule create_http_response_no_fault) auto

text \<open>
  A defect of the two readers of Content-Length together: the parser skips a space between the
  digits of \<open>1 2\<close> and waits for 12 bytes of body, while \<open>atoi\<close> in the response object stops at the
  space and allocates 1 byte. The body is copied past the block, and the response reports success.
\<close>

theorem content_length_space_overflow:
  "case create_http_response (\<lambda>n. True) False
     [Received (''HTTP/1.1 200 OK'' @ [CR, LF] @ ''Content-Length: 1 2'' @ [CR, LF, CR, LF]),
      Received ''0123456789ab'']
   of Ex_response c \<Rightarrow> r_expected_length (c_response c) = 1 \<and> r_completed (c_response c) \<and>
          r_fault (c_response c)
    | _ \<Rightarrow> False"
  by code_simp

end
