(* ===== verification/HttpNames.thy ===== *)
theory HttpNames
  imports HttpTheorems "HOL-Library.Sublist"
begin

text \<open>
  What \<open>s_header_field\<close> makes of a field name. The parser compares the name on the fly, with a state
  and an index; \<open>name_state\<close> says what this comes to for a whole name, in lower case.
\<close>

definition name_state :: "string \<Rightarrow> header_states" where
  "name_state w =
     (if w = CONNECTION \<or> w = PROXY_CONNECTION then h_connection
      else if w = CONTENT_LENGTH then h_content_length
      else if w = TRANSFER_ENCODING then h_transfer_encoding
      else if w = UPGRADE then h_upgrade
      else if w = ''c'' then h_C else if w = ''co'' then h_CO else if w = ''con'' then h_CON
      else if prefix w CONNECTION then h_matching_connection
      else if prefix w PROXY_CONNECTION then h_matching_proxy_connection
      else if prefix w CONTENT_LENGTH then h_matching_content_length
      else if prefix w TRANSFER_ENCODING then h_matching_transfer_encoding
      else if prefix w UPGRADE then h_matching_upgrade
      else h_general)"

lemmas keyword_defs = CONNECTION_def PROXY_CONNECTION_def CONTENT_LENGTH_def TRANSFER_ENCODING_def UPGRADE_def

lemma name_state_prefix:
  "name_state w = h_matching_connection \<Longrightarrow> w \<in> set (prefixes CONNECTION)"
  "name_state w = h_matching_proxy_connection \<Longrightarrow> w \<in> set (prefixes PROXY_CONNECTION)"
  "name_state w = h_matching_content_length \<Longrightarrow> w \<in> set (prefixes CONTENT_LENGTH)"
  "name_state w = h_matching_transfer_encoding \<Longrightarrow> w \<in> set (prefixes TRANSFER_ENCODING)"
  "name_state w = h_matching_upgrade \<Longrightarrow> w \<in> set (prefixes UPGRADE)"
  by (auto simp: name_state_def in_set_prefixes split: if_splits)

lemmas match_simps = keyword_defs name_state_def match_keyword_def c_str_at_def

lemma match_CONNECTION:
  assumes "name_state w = h_matching_connection" "c \<noteq> NUL" "w \<noteq> []"
  shows "match_keyword CONNECTION h_matching_connection h_connection h_general (length w) c = Some (name_state (w @ [c]))"
  using name_state_prefix(1) [OF assms(1)] assms
  by (simp add: CONNECTION_def, elim disjE; hypsubst; simp add: match_simps)

lemma match_PROXY_CONNECTION:
  assumes "name_state w = h_matching_proxy_connection" "c \<noteq> NUL" "w \<noteq> []"
  shows "match_keyword PROXY_CONNECTION h_matching_proxy_connection h_connection h_general (length w) c = Some (name_state (w @ [c]))"
  using name_state_prefix(2) [OF assms(1)] assms
  by (simp add: PROXY_CONNECTION_def, elim disjE; hypsubst; simp add: match_simps)

lemma match_CONTENT_LENGTH:
  assumes "name_state w = h_matching_content_length" "c \<noteq> NUL" "w \<noteq> []"
  shows "match_keyword CONTENT_LENGTH h_matching_content_length h_content_length h_general (length w) c = Some (name_state (w @ [c]))"
  using name_state_prefix(3) [OF assms(1)] assms
  by (simp add: CONTENT_LENGTH_def, elim disjE; hypsubst; simp add: match_simps)

lemma match_TRANSFER_ENCODING:
  assumes "name_state w = h_matching_transfer_encoding" "c \<noteq> NUL" "w \<noteq> []"
  shows "match_keyword TRANSFER_ENCODING h_matching_transfer_encoding h_transfer_encoding h_general (length w) c = Some (name_state (w @ [c]))"
  using name_state_prefix(4) [OF assms(1)] assms
  by (simp add: TRANSFER_ENCODING_def, elim disjE; hypsubst; simp add: match_simps)

lemma match_UPGRADE:
  assumes "name_state w = h_matching_upgrade" "c \<noteq> NUL" "w \<noteq> []"
  shows "match_keyword UPGRADE h_matching_upgrade h_upgrade h_general (length w) c = Some (name_state (w @ [c]))"
  using name_state_prefix(5) [OF assms(1)] assms
  by (simp add: UPGRADE_def, elim disjE; hypsubst; simp add: match_simps)

lemma name_state_C: "name_state w = h_C \<Longrightarrow> name_state (w @ [c]) = (if c = CHR ''o'' then h_CO else h_general)"
  by (simp add: name_state_def keyword_defs split: if_splits)

lemma name_state_CO: "name_state w = h_CO \<Longrightarrow> name_state (w @ [c]) = (if c = CHR ''n'' then h_CON else h_general)"
  by (simp add: name_state_def keyword_defs split: if_splits)

lemma name_state_CON:
  "name_state w = h_CON \<Longrightarrow> name_state (w @ [c]) =
     (if c = CHR ''n'' then h_matching_connection else if c = CHR ''t'' then h_matching_content_length else h_general)"
  by (simp add: name_state_def keyword_defs split: if_splits)

definition name_finals :: "header_states set" where
  "name_finals = {h_general, h_connection, h_content_length, h_transfer_encoding, h_upgrade}"

definition special_names :: "string set" where
  "special_names = {CONNECTION, PROXY_CONNECTION, CONTENT_LENGTH, TRANSFER_ENCODING, UPGRADE}"

lemma name_state_special: "name_state w \<noteq> h_general \<Longrightarrow> \<exists>kw \<in> special_names. prefix w kw"
proof -
  have "prefix ''c'' CONNECTION" "prefix ''co'' CONNECTION" "prefix ''con'' CONNECTION" by (simp_all add: CONNECTION_def)
  then show "name_state w \<noteq> h_general \<Longrightarrow> \<exists>kw \<in> special_names. prefix w kw"
    unfolding name_state_def special_names_def
    by (simp split: if_splits) blast+
qed

lemma name_state_prefix_special: "kw \<in> special_names \<Longrightarrow> prefix w kw \<Longrightarrow> name_state w \<noteq> h_general"
  by (auto simp: name_state_def special_names_def)

lemma name_state_general: "name_state w = h_general \<Longrightarrow> name_state (w @ [c]) = h_general"
  using name_state_special [of "w @ [c]"] name_state_prefix_special [of _ w] append_prefixD by metis

lemma name_state_range:
  "name_state w \<in> name_finals \<union> {h_C, h_CO, h_CON, h_matching_connection, h_matching_proxy_connection,
     h_matching_content_length, h_matching_transfer_encoding, h_matching_upgrade}"
  unfolding name_state_def name_finals_def by simp

lemma name_state_final:
  assumes "name_state w \<in> name_finals" "w \<noteq> []"
  shows "name_state (w @ [c]) = h_general"
proof (cases "name_state w = h_general")
  case True
  then show ?thesis by (rule name_state_general)
next
  case False
  then have "w = CONNECTION \<or> w = PROXY_CONNECTION \<or> w = CONTENT_LENGTH \<or> w = TRANSFER_ENCODING \<or> w = UPGRADE"
    using assms(1) by (auto simp: name_state_def name_finals_def split: if_splits)
  then show ?thesis by (elim disjE; hypsubst; simp add: name_state_def keyword_defs)
qed

text \<open>The parser has read the beginning \<open>w\<close> of a name.\<close>

definition reads :: "string \<Rightarrow> http_parser \<Rightarrow> bool" where
  "reads w pr \<longleftrightarrow> w \<noteq> [] \<and> hp_header_state pr = name_state w \<and>
     (name_state w \<in> name_finals \<or> index_of pr = length w - 1)"

lemma name_state_length:
  assumes "name_state w \<notin> name_finals"
  shows "length w < 20"
proof -
  have "name_state w \<noteq> h_general" using assms by (auto simp: name_finals_def)
  then obtain kw where "kw \<in> special_names" "prefix w kw" using name_state_special by blast
  then have "length w \<le> length kw" "length kw < 20" using prefix_length_le by (auto simp: keyword_defs special_names_def)
  then show ?thesis by simp
qed

lemma bump_index_of: "index_of pr < 100 \<Longrightarrow> index_of (bump_index pr) = index_of pr + 1"
proof -
  assume "index_of pr < 100"
  then have "unat (hp_index pr) + unat (1 :: 7 word) < 2 ^ 7" by (simp add: index_of_def)
  then have "unat (hp_index pr + 1) = unat (hp_index pr) + unat (1 :: 7 word)"
    by (intro unat_add_lem [THEN iffD1]) simp
  then show ?thesis by (simp add: index_of_def bump_index_def)
qed

lemma header_field_switch_reads:
  assumes reads: "reads w pr" and c: "c = STRICT_TOKEN ch" "c \<noteq> NUL"
  shows "\<exists>i. header_field_switch ch c pr = Some (pr\<lparr>hp_index := i, hp_header_state := name_state (w @ [c])\<rparr>) \<and>
     reads (w @ [c]) (pr\<lparr>hp_index := i, hp_header_state := name_state (w @ [c])\<rparr>)"
proof (cases "name_state w \<in> name_finals")
  case True
  have w: "w \<noteq> []" "hp_header_state pr = name_state w" using reads by (simp_all add: reads_def)
  have "ch \<noteq> SP" using c by (auto simp: STRICT_TOKEN_def tokens_def c_ord_def)
  moreover note step = name_state_final [OF True w(1), of c]
  ultimately have "header_field_switch ch c pr = Some (pr\<lparr>hp_header_state := name_state (w @ [c])\<rparr>)"
    using True w(2) by (auto simp: header_field_switch_def name_finals_def)
  then show ?thesis
    using step by (intro exI [of _ "hp_index pr"]) (simp add: reads_def name_finals_def)
next
  case False
  have w: "w \<noteq> []" "hp_header_state pr = name_state w" "index_of pr = length w - 1"
    using reads False by (simp_all add: reads_def)
  have "length w < 20" by (rule name_state_length [OF False])
  then have index: "index_of (bump_index pr) = length w" using bump_index_of [of pr] w(1,3) by simp
  have "header_field_switch ch c pr = Some ((bump_index pr)\<lparr>hp_header_state := name_state (w @ [c])\<rparr>)"
  proof (cases "name_state w")
    case h_C
    then show ?thesis using w(2) name_state_C [OF h_C, of c] by (simp add: header_field_switch_def)
  next
    case h_CO
    then show ?thesis using w(2) name_state_CO [OF h_CO, of c] by (simp add: header_field_switch_def)
  next
    case h_CON
    then show ?thesis using w(2) name_state_CON [OF h_CON, of c] by (simp add: header_field_switch_def)
  next
    case h_matching_connection
    then show ?thesis using w(2) match_CONNECTION [OF _ c(2) w(1)]
      by (simp add: header_field_switch_def field_keyword_def index)
  next
    case h_matching_proxy_connection
    then show ?thesis using w(2) match_PROXY_CONNECTION [OF _ c(2) w(1)]
      by (simp add: header_field_switch_def field_keyword_def index)
  next
    case h_matching_content_length
    then show ?thesis using w(2) match_CONTENT_LENGTH [OF _ c(2) w(1)]
      by (simp add: header_field_switch_def field_keyword_def index)
  next
    case h_matching_transfer_encoding
    then show ?thesis using w(2) match_TRANSFER_ENCODING [OF _ c(2) w(1)]
      by (simp add: header_field_switch_def field_keyword_def index)
  next
    case h_matching_upgrade
    then show ?thesis using w(2) match_UPGRADE [OF _ c(2) w(1)]
      by (simp add: header_field_switch_def field_keyword_def index)
  qed (use False name_state_range [of w] in \<open>simp_all add: name_finals_def\<close>)
  then show ?thesis
    using index by (intro exI [of _ "hp_index pr + 1"]) (simp add: reads_def bump_index_def index_of_def)
qed

lemma header_field_loop_reads:
  assumes "reads w (x_parser x)" "list_all (\<lambda>c. STRICT_TOKEN c \<noteq> NUL) name"
  shows "\<exists>i. header_field_loop (name @ CHR '':'' # post) x =
     Some (x\<lparr>x_ch := CHR '':'', x_p := x_p x + length name,
       x_parser := (x_parser x)\<lparr>hp_index := i, hp_header_state := name_state (w @ map STRICT_TOKEN name)\<rparr>\<rparr>)"
  using assms
proof (induction name arbitrary: w x)
  case Nil
  have "STRICT_TOKEN (CHR '':'') = NUL" by (simp add: STRICT_TOKEN_def tokens_def c_ord_def)
  then show ?case
    using Nil by (intro exI [of _ "hp_index (x_parser x)"]) (simp add: reads_def)
next
  case (Cons ch name)
  let ?c = "STRICT_TOKEN ch"
  obtain i where i: "header_field_switch ch ?c (x_parser x) =
      Some ((x_parser x)\<lparr>hp_index := i, hp_header_state := name_state (w @ [?c])\<rparr>)"
      "reads (w @ [?c]) ((x_parser x)\<lparr>hp_index := i, hp_header_state := name_state (w @ [?c])\<rparr>)"
    using header_field_switch_reads [OF Cons.prems(1) refl] Cons.prems(2) by auto
  let ?x = "x\<lparr>x_ch := ch, x_parser := (x_parser x)\<lparr>hp_index := i, hp_header_state := name_state (w @ [?c])\<rparr>, x_p := x_p x + 1\<rparr>"
  obtain j where "header_field_loop (name @ CHR '':'' # post) ?x =
     Some (?x\<lparr>x_ch := CHR '':'', x_p := x_p ?x + length name,
       x_parser := (x_parser ?x)\<lparr>hp_index := j, hp_header_state := name_state ((w @ [?c]) @ map STRICT_TOKEN name)\<rparr>\<rparr>)"
    using Cons.IH [of "w @ [?c]" ?x] i(2) Cons.prems(2) by auto
  then show ?case using i(1) Cons.prems(2) by (intro exI [of _ j]) simp
qed

lemma header_field_start_reads:
  assumes "STRICT_TOKEN (x_ch x) \<noteq> NUL" "x_mark x M_header_field = None"
  shows "\<exists>h. case_s_header_field_start x = Break (x\<lparr>x_state := s_header_field,
      x_mark := (x_mark x)(M_header_field := Some (x_p x)),
      x_parser := (x_parser x)\<lparr>hp_index := 0, hp_header_state := h\<rparr>\<rparr>) \<and> h = name_state [STRICT_TOKEN (x_ch x)]"
proof -
  have "x_ch x \<noteq> CR" "x_ch x \<noteq> LF" using assms(1) by (auto simp: STRICT_TOKEN_def tokens_def c_ord_def)
  then show ?thesis
    using assms by (simp add: case_s_header_field_start_def Let_def MARK_def upd_def UPDATE_STATE_def name_state_def keyword_defs)
qed

text \<open>Only these names make the parser act on the value of a header.\<close>

lemma name_state_acts:
  "name_state w = h_content_length \<longleftrightarrow> w = CONTENT_LENGTH"
  "name_state w = h_transfer_encoding \<longleftrightarrow> w = TRANSFER_ENCODING"
  "name_state w = h_upgrade \<longleftrightarrow> w = UPGRADE"
  "name_state w = h_connection \<longleftrightarrow> w = CONNECTION \<or> w = PROXY_CONNECTION"
proof -
  have only: "name_state w = h_content_length \<Longrightarrow> w = CONTENT_LENGTH" "name_state w = h_transfer_encoding \<Longrightarrow> w = TRANSFER_ENCODING"
    "name_state w = h_upgrade \<Longrightarrow> w = UPGRADE" "name_state w = h_connection \<Longrightarrow> w = CONNECTION \<or> w = PROXY_CONNECTION"
    unfolding name_state_def by (simp_all split: if_splits)
  have state: "name_state CONTENT_LENGTH = h_content_length" "name_state TRANSFER_ENCODING = h_transfer_encoding"
    "name_state UPGRADE = h_upgrade" "name_state CONNECTION = h_connection" "name_state PROXY_CONNECTION = h_connection"
    by (simp_all add: name_state_def keyword_defs)
  show "name_state w = h_content_length \<longleftrightarrow> w = CONTENT_LENGTH" "name_state w = h_transfer_encoding \<longleftrightarrow> w = TRANSFER_ENCODING"
    "name_state w = h_upgrade \<longleftrightarrow> w = UPGRADE" "name_state w = h_connection \<longleftrightarrow> w = CONNECTION \<or> w = PROXY_CONNECTION"
    using only state by metis+
qed

text \<open>
  C5: The comparison of field names on the fly, byte by byte with a state and an index that starts
  from several keywords with the same beginning, is exact. After a name of token characters and the
  colon, the parser is in the state for Content-Length, Transfer-Encoding, Upgrade or Connection if
  and only if the whole name, in lower case, is that keyword (or \<open>proxy-connection\<close> for the last): no
  prefix, no extension and no other name is taken for one, and no spelling of it is missed.
\<close>

theorem header_names_exact:
  fixes x :: "'e exec"
  assumes "name \<noteq> []" "list_all (\<lambda>c. STRICT_TOKEN c \<noteq> NUL) name" "x_mark x M_header_field = None" "x_ch x = hd name"
  shows "\<exists>y z. case_s_header_field_start x = Break y \<and> header_field_loop (tl name @ CHR '':'' # rest) y = Some z \<and>
     x_ch z = CHR '':'' \<and>
     (hp_header_state (x_parser z) = h_content_length \<longleftrightarrow> map STRICT_TOKEN name = ''content-length'') \<and>
     (hp_header_state (x_parser z) = h_transfer_encoding \<longleftrightarrow> map STRICT_TOKEN name = ''transfer-encoding'') \<and>
     (hp_header_state (x_parser z) = h_upgrade \<longleftrightarrow> map STRICT_TOKEN name = ''upgrade'') \<and>
     (hp_header_state (x_parser z) = h_connection \<longleftrightarrow>
        map STRICT_TOKEN name = ''connection'' \<or> map STRICT_TOKEN name = ''proxy-connection'')"
proof -
  obtain ch tl where name: "name = ch # tl" using assms(1) by (cases name) simp_all
  have tok: "STRICT_TOKEN ch \<noteq> NUL" "list_all (\<lambda>c. STRICT_TOKEN c \<noteq> NUL) tl" using assms(2) name by simp_all
  let ?w = "[STRICT_TOKEN ch]"
  obtain y where y: "case_s_header_field_start x = Break y"
      "x_parser y = (x_parser x)\<lparr>hp_index := 0, hp_header_state := name_state ?w\<rparr>"
    using header_field_start_reads [of x] assms(3,4) tok(1) name by auto
  then have "reads ?w (x_parser y)" by (simp add: reads_def index_of_def)
  from header_field_loop_reads [OF this tok(2), of rest] obtain i where
    "header_field_loop (tl @ CHR '':'' # rest) y = Some (y\<lparr>x_ch := CHR '':'', x_p := x_p y + length tl,
       x_parser := (x_parser y)\<lparr>hp_index := i, hp_header_state := name_state (map STRICT_TOKEN name)\<rparr>\<rparr>)"
    using name by auto
  then show ?thesis
    using y(1) name by (simp add: name_state_acts del: list.map) (simp add: keyword_defs)
qed

lemma header_names_exact_witness:
  "\<exists>y z. case_s_header_field_start (entry (http_parser_init HTTP_RESPONSE) ()\<lparr>x_ch := CHR ''P''\<rparr>) = Break y \<and>
     header_field_loop (''roxy-Connectio'' @ CHR '':'' # '' x'') y = Some z \<and> x_ch z = CHR '':'' \<and>
     hp_header_state (x_parser z) \<noteq> h_connection"
proof -
  let ?x = "entry (http_parser_init HTTP_RESPONSE) ()\<lparr>x_ch := CHR ''P''\<rparr>"
  have "list_all (\<lambda>c. STRICT_TOKEN c \<noteq> NUL) ''Proxy-Connectio''" "x_mark ?x M_header_field = None"
    "map STRICT_TOKEN ''Proxy-Connectio'' = ''proxy-connectio''"
    by code_simp+
  then show ?thesis
    using header_names_exact [of "''Proxy-Connectio''" ?x "'' x''"] by auto
qed

end
