(* ===== verification/HttpSteps.thy ===== *)
theory HttpSteps
  imports HttpNames
begin

text \<open>
  Runs of the loop of \<open>http_parser_execute\<close> without counting its fuel, for the proofs that follow the
  parser through a whole message, and where the loop stands while it reads the head.
\<close>

section \<open>Steps of the loop\<close>

text \<open>
  \<open>steps S data x y\<close>: the loop comes from \<open>x\<close> to \<open>y\<close>; \<open>switches\<close> is the same from the label
  \<open>reexecute\<close>.
\<close>

definition steps :: "'e http_parser_settings \<Rightarrow> string \<Rightarrow> 'e exec \<Rightarrow> 'e exec \<Rightarrow> bool" where
  "steps S data x y \<longleftrightarrow> (\<exists>k. \<forall>n. execute_loop (n + k) S data x = execute_loop n S data y)"

definition switches :: "'e http_parser_settings \<Rightarrow> string \<Rightarrow> 'e exec \<Rightarrow> 'e exec \<Rightarrow> bool" where
  "switches S data x y \<longleftrightarrow> (\<exists>k. \<forall>n. execute_switch (n + k) S data x = execute_loop n S data y)"

lemma steps_refl: "steps S data x x"
  unfolding steps_def by (rule exI [of _ 0]) simp

lemma steps_trans: "steps S data x y \<Longrightarrow> steps S data y z \<Longrightarrow> steps S data x z"
proof -
  assume "steps S data x y" "steps S data y z"
  then obtain k l where "\<forall>n. execute_loop (n + k) S data x = execute_loop n S data y"
      "\<forall>n. execute_loop (n + l) S data y = execute_loop n S data z"
    unfolding steps_def by blast
  then have "\<forall>n. execute_loop (n + (l + k)) S data x = execute_loop n S data z"
    by (metis add.assoc)
  then show ?thesis unfolding steps_def by blast
qed

lemma switches_break: "switch_on (x_state x) S data x = Break y \<Longrightarrow> switches S data x (y\<lparr>x_p := x_p y + 1\<rparr>)"
  unfolding switches_def by (rule exI [of _ 1]) simp

lemma switches_reexecute:
  assumes "switch_on (x_state x) S data x = Reexecute z" "switches S data z y"
  shows "switches S data x y"
proof -
  obtain k where "\<forall>n. execute_switch (n + k) S data z = execute_loop n S data y"
    using assms(2) unfolding switches_def by blast
  then have "\<forall>n. execute_switch (n + Suc k) S data x = execute_loop n S data y"
    using assms(1) by simp
  then show ?thesis unfolding switches_def by blast
qed

lemma switches_steps: "switches S data x y \<Longrightarrow> steps S data y z \<Longrightarrow> switches S data x z"
proof -
  assume "switches S data x y" "steps S data y z"
  then obtain k l where "\<forall>n. execute_switch (n + k) S data x = execute_loop n S data y"
      "\<forall>n. execute_loop (n + l) S data y = execute_loop n S data z"
    unfolding steps_def switches_def by blast
  then have "\<forall>n. execute_switch (n + (l + k)) S data x = execute_loop n S data z"
    by (metis add.assoc)
  then show ?thesis unfolding switches_def by blast
qed

text \<open>A byte of the head: the position and the count of bytes are the same, up to the limit.\<close>

definition count_byte :: "'e exec \<Rightarrow> 'e exec" where
  "count_byte x = upd (\<lambda>pr. pr\<lparr>hp_nread := hp_nread pr + 1\<rparr>) x"

lemma steps_byte:
  assumes "x_p x < length data" "PARSING_HEADER (x_state x)" "unat (hp_nread (x_parser x)) < 80 * 1024"
    and "switches S data (count_byte (x\<lparr>x_ch := data ! x_p x\<rparr>)) y"
  shows "steps S data x y"
proof -
  let ?x = "x\<lparr>x_ch := data ! x_p x\<rparr>"
  have "unat (hp_nread (x_parser x)) + unat (1 :: u32) < 2 ^ 32" using assms(3) by simp
  then have "unat (hp_nread (x_parser x) + 1) = unat (hp_nread (x_parser x)) + 1"
    using unat_add_lem [of "hp_nread (x_parser x)" 1] by simp
  then have "\<not> hp_nread (x_parser x) + 1 > HTTP_MAX_HEADER_SIZE"
    using assms(3) by (simp add: HTTP_MAX_HEADER_SIZE_def word_less_nat_alt)
  then have count: "COUNT_HEADER_SIZE 1 ?x Break = Break (count_byte ?x)"
    by (simp add: COUNT_HEADER_SIZE_def count_byte_def upd_def Let_def)
  obtain k where k: "\<forall>n. execute_switch (n + k) S data (count_byte ?x) = execute_loop n S data y"
    using assms(4) unfolding switches_def by blast
  have "execute_loop (n + Suc k) S data x = execute_loop n S data y" for n
  proof -
    have "execute_loop (n + Suc k) S data x = execute_switch (n + k) S data (count_byte ?x)"
      using assms(1,2) count by (simp add: Let_def)
    then show ?thesis using k by simp
  qed
  then show ?thesis unfolding steps_def by blast
qed

text \<open>More fuel changes nothing once there was enough.\<close>

lemma more_fuel:
  fixes x :: "'e exec"
  shows "execute_loop n S data x \<noteq> No_fuel \<longrightarrow> execute_loop (n + k) S data x = execute_loop n S data x"
    and "execute_switch n S data x \<noteq> No_fuel \<longrightarrow> execute_switch (n + k) S data x = execute_switch n S data x"
proof (induction n S data x and n S data x rule: execute_loop_execute_switch.induct)
  case (2 n S data x)
  then show ?case by (auto simp: Let_def split: outcome.splits)
next
  case (4 n S data x)
  then show ?case by (auto split: outcome.splits)
qed simp_all

lemma steps_result:
  assumes "steps S data x y" "execute_loop m S data y = r" "r \<noteq> No_fuel"
    and "execute_loop n S data x \<noteq> No_fuel"
  shows "execute_loop n S data x = r"
proof -
  obtain k where "\<forall>n. execute_loop (n + k) S data x = execute_loop n S data y"
    using assms(1) unfolding steps_def by blast
  then have "execute_loop (m + k) S data x = r" using assms(2) by metis
  then have "execute_loop (m + k + n) S data x = r" using more_fuel(1) [of "m + k"] assms(3) by metis
  moreover have "execute_loop (n + (m + k)) S data x = execute_loop n S data x"
    using more_fuel(1) assms(4) by metis
  ultimately show ?thesis by (metis add.commute)
qed

section \<open>Where the parser stands\<close>

abbreviation here :: "http_parser \<Rightarrow> 'e \<Rightarrow> nat \<Rightarrow> char \<Rightarrow> state \<Rightarrow> (mark \<Rightarrow> nat option) \<Rightarrow> 'e exec" where
  "here \<equiv> place False"

text \<open>
  The loop gets from \<open>x\<close> to position \<open>p\<close> and state \<open>s\<close>, with a parser of which \<open>P\<close> holds, which has
  counted no byte twice.
\<close>

definition gets_to :: "'e http_parser_settings \<Rightarrow> string \<Rightarrow> 'e exec \<Rightarrow>
    (http_parser \<Rightarrow> bool) \<Rightarrow> nat \<Rightarrow> state \<Rightarrow> (mark \<Rightarrow> nat option) \<Rightarrow> 'e \<Rightarrow> bool" where
  "gets_to S data x P p s m c \<longleftrightarrow>
     (\<exists>pr ch. steps S data x (here pr c p ch s m) \<and> unat (hp_nread pr) \<le> p \<and> P pr)"

lemma gets_to_byte:
  assumes to: "gets_to S data x P p s m c" and at: "drop p data = ch # rest"
    and head: "PARSING_HEADER s" "p < 80 * 1024"
    and P: "\<And>pr n. P pr \<Longrightarrow> P (pr\<lparr>hp_nread := n\<rparr>)"
    and step: "\<And>pr. P pr \<Longrightarrow> unat (hp_nread pr) \<le> Suc p \<Longrightarrow>
      \<exists>pr' ch'. switches S data (here pr c p ch s m) (here pr' c' p' ch' s' m') \<and> unat (hp_nread pr') \<le> p' \<and> P' pr'"
  shows "gets_to S data x P' p' s' m' c'"
proof -
  obtain pr ch0 where pr: "steps S data x (here pr c p ch0 s m)" "unat (hp_nread pr) \<le> p" "P pr"
    using to by (auto simp: gets_to_def)
  have p: "p < length data" "data ! p = ch"
    using at by (metis drop_eq_Nil2 list.distinct(1) not_le, metis nth_via_drop)
  let ?pr = "pr\<lparr>hp_nread := hp_nread pr + 1\<rparr>"
  have "unat (hp_nread pr) + unat (1 :: u32) < 2 ^ 32" using pr(2) head(2) by simp
  then have "unat (hp_nread ?pr) \<le> Suc p"
    using pr(2) unat_add_lem [of "hp_nread pr" 1] by simp
  then obtain pr' ch' where pr': "switches S data (here ?pr c p ch s m) (here pr' c' p' ch' s' m')"
      "unat (hp_nread pr') \<le> p'" "P' pr'"
    using step [of ?pr] P [OF pr(3)] by blast
  have "steps S data (here pr c p ch0 s m) (here pr' c' p' ch' s' m')"
    using p head pr(2) pr'(1) by (intro steps_byte) (simp_all add: count_byte_def upd_def)
  then show ?thesis using steps_trans [OF pr(1)] pr'(2,3) by (auto simp: gets_to_def)
qed

lemma gets_to_break:
  assumes "gets_to S data x P p s m c" "drop p data = ch # rest" "PARSING_HEADER s" "p < 80 * 1024"
    and "\<And>pr n. P pr \<Longrightarrow> P (pr\<lparr>hp_nread := n\<rparr>)"
    and "\<And>pr. P pr \<Longrightarrow> \<exists>pr'. switch_on s S data (here pr c p ch s m) = Break (here pr' c' p ch s' m') \<and>
      hp_nread pr' = hp_nread pr \<and> P' pr'"
  shows "gets_to S data x P' (Suc p) s' m' c'"
proof (rule gets_to_byte [OF assms(1-5)])
  fix pr assume "P pr" "unat (hp_nread pr) \<le> Suc p"
  then obtain pr' where "switch_on s S data (here pr c p ch s m) = Break (here pr' c' p ch s' m')"
      "hp_nread pr' = hp_nread pr" "P' pr'" using assms(6) by blast
  moreover from this(1) have "switches S data (here pr c p ch s m) (here pr' c' (Suc p) ch s' m')"
    using switches_break [of "here pr c p ch s m"] by fastforce
  ultimately show "\<exists>pr' ch'. switches S data (here pr c p ch s m) (here pr' c' (Suc p) ch' s' m') \<and>
      unat (hp_nread pr') \<le> Suc p \<and> P' pr'"
    using \<open>unat (hp_nread pr) \<le> Suc p\<close> by (intro exI [of _ pr'] exI [of _ ch]) simp
qed

text \<open>
  The same, said by what is left of the buffer: \<open>rest\<close> is to be read.
\<close>

definition at_rest :: "'e http_parser_settings \<Rightarrow> string \<Rightarrow> 'e exec \<Rightarrow>
    (http_parser \<Rightarrow> bool) \<Rightarrow> string \<Rightarrow> state \<Rightarrow> (mark \<Rightarrow> nat option) \<Rightarrow> 'e \<Rightarrow> bool" where
  "at_rest S data x P rest s m c \<longleftrightarrow>
     gets_to S data x P (length data - length rest) s m c \<and> drop (length data - length rest) data = rest \<and>
     length data \<le> 80 * 1024"

lemma drop_rest:
  assumes "drop (length data - length (ch # rest)) data = ch # rest"
  shows "drop (length data - length rest) data = rest" "length data - length rest = Suc (length data - length (ch # rest))"
    "length data - length (ch # rest) < length data"
proof -
  let ?p = "length data - length (ch # rest)"
  have "length (drop ?p data) = Suc (length rest)" using assms by simp
  then have len: "Suc (length rest) \<le> length data" by simp
  then show p: "length data - length rest = Suc ?p" "?p < length data" by simp_all
  have "drop (Suc ?p) data = tl (drop ?p data)" by (simp add: drop_Suc tl_drop)
  then show "drop (length data - length rest) data = rest" unfolding p(1) assms by simp
qed

lemma at_break:
  assumes "at_rest S data x P (ch # rest) s m c" "PARSING_HEADER s"
    and "\<And>pr n. P pr \<Longrightarrow> P (pr\<lparr>hp_nread := n\<rparr>)"
    and "\<And>pr p. p = length data - length (ch # rest) \<Longrightarrow> P pr \<Longrightarrow>
      \<exists>pr'. switch_on s S data (here pr c p ch s m) = Break (here pr' c' p ch s' m') \<and>
        hp_nread pr' = hp_nread pr \<and> P' pr'"
  shows "at_rest S data x P' rest s' m' c'"
proof -
  let ?p = "length data - length (ch # rest)"
  have at: "gets_to S data x P ?p s m c" "drop ?p data = ch # rest" "length data \<le> 80 * 1024"
    using assms(1) unfolding at_rest_def by blast+
  note drop = drop_rest [OF at(2)]
  have "gets_to S data x P' (Suc ?p) s' m' c'"
    using at(1,2) assms(2) _ assms(3) by (rule gets_to_break) (use at(3) drop(3) assms(4) in auto)
  then show ?thesis using drop(1,2) at(3) unfolding at_rest_def by simp
qed

lemma at_mono: "at_rest S data x P rest s m c \<Longrightarrow> (\<And>pr. P pr \<Longrightarrow> Q pr) \<Longrightarrow> at_rest S data x Q rest s m c"
  unfolding at_rest_def gets_to_def by blast

text \<open>A step that reads several bytes.\<close>

lemma at_jump:
  assumes at: "at_rest S data x P (ch # rest) s m c" and "PARSING_HEADER s"
    and "\<And>pr n. P pr \<Longrightarrow> P (pr\<lparr>hp_nread := n\<rparr>)"
    and rest: "ch # rest = u @ rest'"
    and step: "\<And>pr p. p = length data - length (ch # rest) \<Longrightarrow> drop p data = ch # rest \<Longrightarrow> p + length u + length rest' = length data \<Longrightarrow>
      P pr \<Longrightarrow> unat (hp_nread pr) \<le> Suc p \<Longrightarrow>
      \<exists>pr' ch'. switches S data (here pr c p ch s m) (here pr' c' (p + length u) ch' s' m') \<and>
        unat (hp_nread pr') \<le> p + length u \<and> P' pr'"
  shows "at_rest S data x P' rest' s' m' c'"
proof -
  let ?p = "length data - length (ch # rest)"
  have at': "gets_to S data x P ?p s m c" "drop ?p data = ch # rest" "length data \<le> 80 * 1024"
    using at unfolding at_rest_def by blast+
  note drop = drop_rest [OF at'(2)]
  have len: "?p + length u + length rest' = length data"
  proof -
    have "length (ch # rest) = length u + length rest'" using rest by simp
    moreover have "length (drop ?p data) = length (ch # rest)" using at'(2) by simp
    ultimately show ?thesis using drop(3) unfolding length_drop by linarith
  qed
  have "gets_to S data x P' (?p + length u) s' m' c'"
    using at'(1,2) assms(2) _ assms(3)
    by (rule gets_to_byte) (use at'(3) drop(3) step [OF refl at'(2) len] in auto)
  moreover have p': "length data - length rest' = ?p + length u" using len by simp
  moreover have "drop (?p + length u) data = rest'"
    using at'(2) rest by (metis append_eq_conv_conj drop_drop add.commute)
  ultimately show ?thesis using at'(3) unfolding at_rest_def by simp
qed

lemma slice_rest:
  assumes "drop i data = u @ r" "p = i + length u"
  shows "slice data i (p - i) = u"
  using assms by (simp add: slice_def)

end
