(* ===== verification/HttpResponseLine.thy ===== *)
theory HttpResponseLine
  imports HttpSteps
begin

text \<open>
  The loop of \<open>http_parser_execute\<close> through the status line of a response: the version, the three
  digits of the code and the reason phrase.
\<close>

section \<open>The status line\<close>

text \<open>What holds of the parser of a response while it reads the head.\<close>

definition head_ok :: "nat \<Rightarrow> u64 \<Rightarrow> bool \<Rightarrow> http_parser \<Rightarrow> bool" where
  "head_ok code len has_len pr \<longleftrightarrow>
     hp_type pr = HTTP_RESPONSE \<and> hp_errno pr = HPE_OK \<and> hp_method pr = HTTP_DELETE \<and>
     hp_status_code pr = of_nat code \<and> hp_content_length pr = len \<and>
     \<not> bit (hp_flags pr) 0 \<and> \<not> bit (hp_flags pr) 4 \<and> \<not> bit (hp_flags pr) 5 \<and> \<not> bit (hp_flags pr) 6 \<and>
     bit (hp_flags pr) 7 = has_len"

lemma head_ok_update [simp]:
  "head_ok code len b (pr\<lparr>hp_nread := n\<rparr>) = head_ok code len b pr"
  "head_ok code len b (pr\<lparr>hp_state := s\<rparr>) = head_ok code len b pr"
  "head_ok code len b (pr\<lparr>hp_index := i\<rparr>) = head_ok code len b pr"
  "head_ok code len b (pr\<lparr>hp_header_state := h\<rparr>) = head_ok code len b pr"
  "head_ok code len b (pr\<lparr>hp_http_major := v\<rparr>) = head_ok code len b pr"
  "head_ok code len b (pr\<lparr>hp_http_minor := v\<rparr>) = head_ok code len b pr"
  by (simp_all add: head_ok_def)

lemma on_message_begin_same:
  "CALLBACK_NOTIFY (HttpParser h b) N_message_begin x k =
     (if hp_errno (x_parser x) = HPE_OK then k (x\<lparr>x_parser := (x_parser x)\<lparr>hp_state := x_state x\<rparr>\<rparr>) else Fault)"
  by (simp add: CALLBACK_NOTIFY_def CALLBACK_NOTIFY_ER_def assert_then_def HttpParser_def run_callback_def
      on_response_def Let_def)

definition before_code :: "http_parser \<Rightarrow> bool" where
  "before_code pr \<longleftrightarrow> (\<exists>code. head_ok code ULLONG_MAX False pr)"

lemma before_code_update [simp]:
  "before_code (pr\<lparr>hp_nread := n\<rparr>) = before_code pr"
  "before_code (pr\<lparr>hp_http_major := v\<rparr>) = before_code pr"
  "before_code (pr\<lparr>hp_http_minor := v\<rparr>) = before_code pr"
  by (simp_all add: before_code_def)

definition fresh_response :: "http_parser \<Rightarrow> bool" where
  "fresh_response pr \<longleftrightarrow> hp_type pr = HTTP_RESPONSE \<and> hp_errno pr = HPE_OK \<and> hp_method pr = HTTP_DELETE"

lemma at_start:
  assumes "length data \<le> 80 * 1024"
  shows "at_rest S data (entry (http_parser_init HTTP_RESPONSE) c) fresh_response data s_start_res no_marks c"
proof -
  let ?pr = "http_parser_init HTTP_RESPONSE"
  have "entry_marks s_start_res = no_marks" by (auto simp: entry_marks_def url_states_def fun_eq_iff split: mark.split)
  then have "entry ?pr c = here ?pr c 0 NUL s_start_res no_marks"
    by (simp add: entry_def http_parser_init_def)
  moreover have "fresh_response ?pr" "hp_nread ?pr = 0" by (simp_all add: fresh_response_def http_parser_init_def)
  ultimately show ?thesis
    using assms steps_refl unfolding at_rest_def gets_to_def by fastforce
qed

lemma at_H:
  assumes "at_rest (HttpParser h b) data x fresh_response (CHR ''H'' # rest) s_start_res no_marks c"
  shows "at_rest (HttpParser h b) data x before_code rest s_res_H no_marks c"
  using assms
proof (rule at_break)
  fix pr p assume "fresh_response pr"
  moreover have "\<exists>code. hp_status_code pr = of_nat code" by (metis word_nat_cases)
  ultimately show "\<exists>pr'. switch_on s_start_res (HttpParser h b) data (here pr c p (CHR ''H'') s_start_res no_marks) =
      Break (here pr' c p (CHR ''H'') s_res_H no_marks) \<and> hp_nread pr' = hp_nread pr \<and> before_code pr'"
    by (simp add: case_s_start_res_def on_message_begin_same UPDATE_STATE_def upd_def clear_message_def fresh_response_def
        head_ok_def before_code_def)
qed (simp_all add: fresh_response_def)

lemmas version_cases = case_s_res_H_def case_s_res_HT_def case_s_res_HTT_def case_s_res_HTTP_def
  case_s_res_first_http_major_def case_s_res_first_http_minor_def
  case_s_res_http_major_def case_s_res_http_minor_def expect_char_def STRICT_CHECK_def UPDATE_STATE_def upd_def

lemma at_version:
  assumes "at_rest S data x before_code (ch # rest) s no_marks c"
    and "(s, ch, s') \<in> {(s_res_H, CHR ''T'', s_res_HT), (s_res_HT, CHR ''T'', s_res_HTT), (s_res_HTT, CHR ''P'', s_res_HTTP),
      (s_res_HTTP, CHR ''/'', s_res_first_http_major), (s_res_first_http_major, CHR ''1'', s_res_http_major),
      (s_res_http_major, CHR ''.'', s_res_first_http_minor), (s_res_first_http_minor, CHR ''0'', s_res_http_minor),
      (s_res_first_http_minor, CHR ''1'', s_res_http_minor), (s_res_http_minor, SP, s_res_first_status_code)}"
  shows "at_rest S data x before_code rest s' no_marks c"
  using assms(1)
  by (rule at_break) (use assms(2) in \<open>auto simp: version_cases char_class_defs\<close>)

text \<open>The version, 1.0 or 1.1.\<close>

lemma at_version_text:
  assumes "at_rest (HttpParser h b) data x fresh_response (''HTTP/1.'' @ v # SP # rest) s_start_res no_marks c"
    and "v = CHR ''0'' \<or> v = CHR ''1''"
  shows "at_rest (HttpParser h b) data x before_code rest s_res_first_status_code no_marks c"
proof -
  have "at_rest (HttpParser h b) data x before_code (CHR ''T'' # CHR ''T'' # CHR ''P'' # CHR ''/'' # CHR ''1'' # CHR ''.'' # v # SP # rest) s_res_H no_marks c"
    using assms(1) by (intro at_H) simp
  then have "at_rest (HttpParser h b) data x before_code (CHR ''T'' # CHR ''P'' # CHR ''/'' # CHR ''1'' # CHR ''.'' # v # SP # rest) s_res_HT no_marks c"
    by (rule at_version) simp
  then have "at_rest (HttpParser h b) data x before_code (CHR ''P'' # CHR ''/'' # CHR ''1'' # CHR ''.'' # v # SP # rest) s_res_HTT no_marks c"
    by (rule at_version) simp
  then have "at_rest (HttpParser h b) data x before_code (CHR ''/'' # CHR ''1'' # CHR ''.'' # v # SP # rest) s_res_HTTP no_marks c"
    by (rule at_version) simp
  then have "at_rest (HttpParser h b) data x before_code (CHR ''1'' # CHR ''.'' # v # SP # rest) s_res_first_http_major no_marks c"
    by (rule at_version) simp
  then have "at_rest (HttpParser h b) data x before_code (CHR ''.'' # v # SP # rest) s_res_http_major no_marks c"
    by (rule at_version) simp
  then have "at_rest (HttpParser h b) data x before_code (v # SP # rest) s_res_first_http_minor no_marks c"
    by (rule at_version) simp
  then have "at_rest (HttpParser h b) data x before_code (SP # rest) s_res_http_minor no_marks c"
    by (rule at_version) (use assms(2) in auto)
  then show ?thesis by (rule at_version) simp
qed

lemma at_first_digit:
  assumes "at_rest S data x before_code (d # rest) s_res_first_status_code no_marks c" "IS_NUM d"
  shows "at_rest S data x (head_ok (digit_val d) ULLONG_MAX False) rest s_res_status_code no_marks c"
  using assms(1)
  by (rule at_break) (use assms(2) in \<open>auto simp: case_s_res_first_status_code_def UPDATE_STATE_def upd_def before_code_def head_ok_def\<close>)

lemma at_digit:
  assumes "at_rest S data x (head_ok v ULLONG_MAX False) (d # rest) s_res_status_code no_marks c" "IS_NUM d"
    and "v * 10 + digit_val d \<le> 999"
  shows "at_rest S data x (head_ok (v * 10 + digit_val d) ULLONG_MAX False) rest s_res_status_code no_marks c"
  using assms(1)
proof (rule at_break)
  fix pr p assume pr: "head_ok v ULLONG_MAX False pr"
  have "add_digit (hp_status_code pr) d = of_nat (v * 10 + digit_val d)"
    using pr by (simp add: add_digit_def head_ok_def)
  moreover have "\<not> (of_nat (v * 10 + digit_val d) :: u16) > 999"
  proof -
    have "unat (of_nat (v * 10 + digit_val d) :: u16) = v * 10 + digit_val d"
      using assms(3) by (intro unat_of_nat_small) simp
    then show ?thesis using assms(3) by (simp add: word_less_nat_alt del: of_nat_add of_nat_mult)
  qed
  ultimately show "\<exists>pr'. switch_on s_res_status_code S data (here pr c p d s_res_status_code no_marks) =
      Break (here pr' c p d s_res_status_code no_marks) \<and> hp_nread pr' = hp_nread pr \<and>
      head_ok (v * 10 + digit_val d) ULLONG_MAX False pr'"
    using pr assms(2) by (simp add: case_s_res_status_code_def upd_def Let_def del: of_nat_add of_nat_mult) (simp add: head_ok_def)
qed simp_all

section \<open>The reason phrase\<close>

definition add_status :: "int \<Rightarrow> string \<Rightarrow> client \<Rightarrow> client" where
  "add_status code reason c = c\<lparr>c_response := set_status code reason (c_response c)\<rparr>"

lemma callback_status:
  assumes "hp_errno (x_parser x) = HPE_OK" "x_mark x = marked M_status i"
  shows "CALLBACK_DATA (HttpParser h b) data M_status x k =
     k (x\<lparr>x_parser := (x_parser x)\<lparr>hp_state := x_state x\<rparr>,
          x_env := add_status (uint (hp_status_code (x_parser x))) (slice data i (x_p x - i)) (x_env x),
          x_mark := no_marks\<rparr>)"
  using assms
  by (simp add: CALLBACK_DATA_def CALLBACK_DATA_ER_def assert_then_def HttpParser_def run_callback_def
      on_response_data_def Let_def add_status_def no_marks_again)

lemma at_code_end:
  assumes "at_rest S data x (head_ok code len b) (SP # rest) s_res_status_code no_marks c"
  shows "at_rest S data x (head_ok code len b) rest s_res_status_start no_marks c"
  using assms by (rule at_break) (auto simp: case_s_res_status_code_def UPDATE_STATE_def IS_NUM_def in_range_def c_ord_def)

lemma at_no_reason:
  assumes "at_rest S data x (head_ok code len b) (CR # rest) s_res_status_start no_marks c"
  shows "at_rest S data x (head_ok code len b) rest s_res_line_almost_done no_marks c"
  using assms by (rule at_break) (auto simp: case_s_res_status_start_def UPDATE_STATE_def)

lemma at_reason_first:
  assumes "at_rest S data x (head_ok code len b) (ch # rest) s_res_status_start no_marks c" "ch \<noteq> CR" "ch \<noteq> LF"
  shows "at_rest S data x (head_ok code len b) rest s_res_status (marked M_status (length data - length (ch # rest))) c"
  using assms(1) by (rule at_break)
    (use assms(2,3) in \<open>auto simp: case_s_res_status_start_def UPDATE_STATE_def MARK_def upd_def\<close>)

lemma at_reason_rest:
  assumes "at_rest S data x (head_ok code len b) (reason @ rest) s_res_status m c" "CR \<notin> set reason" "LF \<notin> set reason"
  shows "at_rest S data x (head_ok code len b) rest s_res_status m c"
  using assms
proof (induction reason)
  case (Cons ch reason)
  have "at_rest S data x (head_ok code len b) (ch # (reason @ rest)) s_res_status m c" using Cons.prems(1) by simp
  then have "at_rest S data x (head_ok code len b) (reason @ rest) s_res_status m c"
    by (rule at_break) (use Cons.prems(2,3) in \<open>auto simp: case_s_res_status_def\<close>)
  then show ?case using Cons.IH Cons.prems(2,3) by simp
qed simp

lemma at_rest_drop: "at_rest S data x P rest s m c \<Longrightarrow> drop (length data - length rest) data = rest"
  by (simp add: at_rest_def)

lemma at_reason:
  assumes at: "at_rest (HttpParser h b) data x (head_ok code len f) (reason @ CR # rest) s_res_status_start no_marks c"
    and reason: "reason \<noteq> []" "CR \<notin> set reason" "LF \<notin> set reason" and "code \<le> 999"
  shows "at_rest (HttpParser h b) data x (head_ok code len f) rest s_res_line_almost_done no_marks (add_status (int code) reason c)"
proof -
  obtain ch tl where r: "reason = ch # tl" using reason(1) by (cases reason) auto
  let ?i = "length data - length (reason @ CR # rest)"
  have drop: "drop ?i data = reason @ CR # rest" using at by (rule at_rest_drop)
  have "at_rest (HttpParser h b) data x (head_ok code len f) (tl @ CR # rest) s_res_status (marked M_status ?i) c"
  proof -
    have "at_rest (HttpParser h b) data x (head_ok code len f) (ch # (tl @ CR # rest)) s_res_status_start no_marks c"
      using at r by simp
    moreover have "ch \<noteq> CR" "ch \<noteq> LF" using reason r by auto
    ultimately show ?thesis using at_reason_first r by fastforce
  qed
  then have at_end: "at_rest (HttpParser h b) data x (head_ok code len f) (CR # rest) s_res_status (marked M_status ?i) c"
    by (rule at_reason_rest) (use reason r in simp_all)
  from at_end show ?thesis
  proof (rule at_break)
    fix pr p assume p: "p = length data - length (CR # rest)" and pr: "head_ok code len f pr"
    have "length (drop ?i data) = length (reason @ CR # rest)" using drop by simp
    then have "?i + length reason = p" using reason(1) p by simp
    then have "slice data ?i (p - ?i) = reason" using drop by (intro slice_rest) simp_all
    moreover have "uint (hp_status_code pr) = int code"
      using pr assms(5) by (simp add: head_ok_def uint_nat unat_of_nat_small)
    ultimately show "\<exists>pr'. switch_on s_res_status (HttpParser h b) data (here pr c p CR s_res_status (marked M_status ?i)) =
        Break (here pr' (add_status (int code) reason c) p CR s_res_line_almost_done no_marks) \<and>
        hp_nread pr' = hp_nread pr \<and> head_ok code len f pr'"
      using pr by (intro exI [of _ "pr\<lparr>hp_state := s_res_line_almost_done\<rparr>"])
        (simp add: case_s_res_status_def UPDATE_STATE_def callback_status head_ok_def)
  qed simp_all
qed

lemma at_line_end:
  assumes "at_rest S data x (head_ok code len b) (LF # rest) s_res_line_almost_done no_marks c"
  shows "at_rest S data x (head_ok code len b) rest s_header_field_start no_marks c"
  using assms by (rule at_break) (auto simp: case_s_res_line_almost_done_def expect_char_def STRICT_CHECK_def UPDATE_STATE_def)

end
