(* ===== verification/HttpResponseHeaders.thy ===== *)
theory HttpResponseHeaders
  imports HttpResponseLine
begin

text \<open>
  The loop of \<open>http_parser_execute\<close> through the header lines of a response: a line with a field the
  parser has no use for, the line of Content-Length, and the empty line that ends the head.
\<close>

section \<open>Header lines\<close>

definition add_field :: "string \<Rightarrow> client \<Rightarrow> client" where
  "add_field f c = c\<lparr>c_response := set_header_field f (c_response c)\<rparr>"

definition add_value :: "string \<Rightarrow> client \<Rightarrow> client" where
  "add_value v c = c\<lparr>c_response := set_header_value v (c_response c)\<rparr>"

lemma callback_field:
  assumes "hp_errno (x_parser x) = HPE_OK" "x_mark x = marked M_header_field i"
  shows "CALLBACK_DATA (HttpParser h b) data M_header_field x k =
     k (x\<lparr>x_parser := (x_parser x)\<lparr>hp_state := x_state x\<rparr>,
          x_env := add_field (slice data i (x_p x - i)) (x_env x), x_mark := no_marks\<rparr>)"
  using assms
  by (simp add: CALLBACK_DATA_def CALLBACK_DATA_ER_def assert_then_def HttpParser_def run_callback_def
      on_response_data_def Let_def add_field_def no_marks_again)

lemma callback_value:
  assumes "hp_errno (x_parser x) = HPE_OK" "x_mark x = marked M_header_value i"
  shows "CALLBACK_DATA (HttpParser h b) data M_header_value x k =
     k (x\<lparr>x_parser := (x_parser x)\<lparr>hp_state := x_state x\<rparr>,
          x_env := add_value (slice data i (x_p x - i)) (x_env x), x_mark := no_marks\<rparr>)"
  using assms
  by (simp add: CALLBACK_DATA_def CALLBACK_DATA_ER_def assert_then_def HttpParser_def run_callback_def
      on_response_data_def Let_def add_value_def no_marks_again)

text \<open>
  A header line begins: after the status line, or in \<open>s_header_value_lws\<close>, when the header before it
  has not been applied yet.
\<close>

definition at_line where
  "at_line S data x code len b rest c \<longleftrightarrow>
     at_rest S data x (head_ok code len b) rest s_header_field_start no_marks c \<or>
     at_rest S data x (\<lambda>pr. head_ok code len b pr \<and> hp_header_state pr \<noteq> h_transfer_encoding_chunked)
       rest s_header_value_lws no_marks c"

lemma head_ok_apply:
  assumes "head_ok code len b pr" "hp_header_state pr \<noteq> h_transfer_encoding_chunked"
  shows "head_ok code len b (apply_header_state pr)"
  using assms by (auto simp: apply_header_state_def head_ok_def F_defs bit_simps split: header_states.split)

lemma apply_nread [simp]: "hp_nread (apply_header_state pr) = hp_nread pr"
  by (simp add: apply_header_state_def split: header_states.split)

lemma line_start:
  assumes at: "at_line S data x code len b (ch # rest) c" and ch: "ch \<noteq> SP" "ch \<noteq> TAB"
    and step: "\<And>pr p. p = length data - length (ch # rest) \<Longrightarrow> head_ok code len b pr \<Longrightarrow>
      \<exists>pr'. switch_on s_header_field_start S data (here pr c p ch s_header_field_start no_marks) =
          Break (here pr' c' p ch s' m') \<and> hp_nread pr' = hp_nread pr \<and> P' pr'"
  shows "at_rest S data x P' rest s' m' c'"
  using at unfolding at_line_def
proof
  assume "at_rest S data x (head_ok code len b) (ch # rest) s_header_field_start no_marks c"
  then show ?thesis by (rule at_break) (use step in auto)
next
  assume "at_rest S data x (\<lambda>pr. head_ok code len b pr \<and> hp_header_state pr \<noteq> h_transfer_encoding_chunked)
      (ch # rest) s_header_value_lws no_marks c"
  then show ?thesis
  proof (rule at_jump [where u = "[ch]"])
    fix pr p assume p: "p = length data - length (ch # rest)"
      and pr: "head_ok code len b pr \<and> hp_header_state pr \<noteq> h_transfer_encoding_chunked" "unat (hp_nread pr) \<le> Suc p"
    let ?pr = "apply_header_state pr"
    obtain pr' where pr': "switch_on s_header_field_start S data (here ?pr c p ch s_header_field_start no_marks) =
        Break (here pr' c' p ch s' m')" "hp_nread pr' = hp_nread ?pr" "P' pr'"
      using step [OF p, of ?pr] head_ok_apply pr(1) by blast
    have "switches S data (here ?pr c p ch s_header_field_start no_marks) (here pr' c' (p + 1) ch s' m')"
      using switches_break [of "here ?pr c p ch s_header_field_start no_marks"] pr'(1) by fastforce
    then have sw: "switches S data (here ?pr c p ch s_header_field_start no_marks) (here pr' c' (p + length [ch]) ch s' m')"
      by simp
    have "switches S data (here pr c p ch s_header_value_lws no_marks) (here pr' c' (p + length [ch]) ch s' m')"
      by (rule switches_reexecute [OF _ sw]) (use ch in \<open>simp add: case_s_header_value_lws_def UPDATE_STATE_def upd_def\<close>)
    moreover have "hp_nread pr' = hp_nread pr" using pr'(2) by simp
    then have "unat (hp_nread pr') \<le> p + length [ch]" using pr(2) by simp
    ultimately show "\<exists>pr' ch'. switches S data (here pr c p ch s_header_value_lws no_marks)
          (here pr' c' (p + length [ch]) ch' s' m') \<and> unat (hp_nread pr') \<le> p + length [ch] \<and> P' pr'"
      using pr'(3) by blast
  qed simp_all
qed

lemma token_not_special: "STRICT_TOKEN ch \<noteq> NUL \<Longrightarrow> ch \<noteq> SP \<and> ch \<noteq> TAB \<and> ch \<noteq> CR \<and> ch \<noteq> LF \<and> ch \<noteq> CHR '':''"
  by (auto simp: STRICT_TOKEN_def tokens_def c_ord_def)

lemma at_name_first:
  assumes "at_line S data x code len b (ch # rest) c" "STRICT_TOKEN ch \<noteq> NUL"
  shows "at_rest S data x (\<lambda>pr. head_ok code len b pr \<and> reads [STRICT_TOKEN ch] pr) rest s_header_field
     (marked M_header_field (length data - length (ch # rest))) c"
  using assms(1)
proof (rule line_start)
  show "ch \<noteq> SP" "ch \<noteq> TAB" using token_not_special [OF assms(2)] by simp_all
  fix pr p assume "p = length data - length (ch # rest)" "head_ok code len b pr"
  then show "\<exists>pr'. switch_on s_header_field_start S data (here pr c p ch s_header_field_start no_marks) =
      Break (here pr' c p ch s_header_field (marked M_header_field (length data - length (ch # rest)))) \<and>
      hp_nread pr' = hp_nread pr \<and> head_ok code len b pr' \<and> reads [STRICT_TOKEN ch] pr'"
    using header_field_start_reads [of "here pr c p ch s_header_field_start no_marks"] assms(2)
    by (intro exI [of _ "pr\<lparr>hp_index := 0, hp_header_state := name_state [STRICT_TOKEN ch]\<rparr>"])
      (simp add: reads_def index_of_def)
qed

lemma COUNT_small:
  assumes "unat (hp_nread (x_parser x)) + v \<le> 80 * 1024"
  shows "COUNT_HEADER_SIZE v x k = k (x\<lparr>x_parser := (x_parser x)\<lparr>hp_nread := hp_nread (x_parser x) + of_nat v\<rparr>\<rparr>)"
    and "unat (hp_nread (x_parser x) + of_nat v) = unat (hp_nread (x_parser x)) + v"
proof -
  have v: "unat (of_nat v :: u32) = v" using assms by (intro unat_of_nat_small) simp
  then have "unat (hp_nread (x_parser x)) + unat (of_nat v :: u32) < 2 ^ 32" using assms by simp
  then show sum: "unat (hp_nread (x_parser x) + of_nat v) = unat (hp_nread (x_parser x)) + v"
    using unat_add_lem [of "hp_nread (x_parser x)" "of_nat v"] v by simp
  then have "\<not> hp_nread (x_parser x) + of_nat v > HTTP_MAX_HEADER_SIZE"
    using assms by (simp add: HTTP_MAX_HEADER_SIZE_def word_less_nat_alt)
  then show "COUNT_HEADER_SIZE v x k = k (x\<lparr>x_parser := (x_parser x)\<lparr>hp_nread := hp_nread (x_parser x) + of_nat v\<rparr>\<rparr>)"
    by (simp add: COUNT_HEADER_SIZE_def upd_def Let_def)
qed

lemma at_rest_short: "at_rest S data x P rest s m c \<Longrightarrow> length data \<le> 80 * 1024"
  by (simp add: at_rest_def)

lemma at_name_rest:
  assumes at: "at_rest (HttpParser h b) data x (\<lambda>pr. head_ok code len f pr \<and> reads [t] pr)
      (name @ CHR '':'' # rest) s_header_field (marked M_header_field i) c"
    and name: "list_all (\<lambda>ch. STRICT_TOKEN ch \<noteq> NUL) name" and i: "drop i data = full @ CHR '':'' # rest"
  shows "at_rest (HttpParser h b) data x (\<lambda>pr. head_ok code len f pr \<and> hp_header_state pr = name_state (t # map STRICT_TOKEN name))
     rest s_header_value_discard_ws no_marks (add_field full c)"
proof -
  obtain ch tl where r: "name @ CHR '':'' # rest = ch # tl" by (cases name) auto
  have at': "at_rest (HttpParser h b) data x (\<lambda>pr. head_ok code len f pr \<and> reads [t] pr)
      (ch # tl) s_header_field (marked M_header_field i) c"
    using at r by simp
  show ?thesis
    using at'
  proof (rule at_jump [where u = "name @ [CHR '':'']"])
    fix pr p assume p: "drop p data = ch # tl" "p + length (name @ [CHR '':'']) + length rest = length data"
      and pr: "head_ok code len f pr \<and> reads [t] pr" "unat (hp_nread pr) \<le> Suc p"
    let ?m = "marked M_header_field i"
    let ?x = "here pr c p ch s_header_field ?m"
    have "length data - i = length (full @ CHR '':'' # rest)" using i by (metis length_drop)
    then have "p + length name = i + length full" using p(2) by simp
    then have slice: "slice data i (p + length name - i) = full" using i by (intro slice_rest) simp_all
    obtain j where j: "header_field_loop (drop p data) ?x = Some (?x\<lparr>x_ch := CHR '':'', x_p := p + length name,
        x_parser := pr\<lparr>hp_index := j, hp_header_state := name_state (t # map STRICT_TOKEN name)\<rparr>\<rparr>)"
      using header_field_loop_reads [of "[t]" ?x name rest] pr(1) name p(1) r by auto
    let ?pr = "pr\<lparr>hp_index := j, hp_header_state := name_state (t # map STRICT_TOKEN name)\<rparr>"
    have short: "unat (hp_nread pr) + length name \<le> 80 * 1024"
      using pr(2) p(2) at_rest_short [OF at] by simp
    let ?pr' = "?pr\<lparr>hp_nread := hp_nread pr + of_nat (length name), hp_state := s_header_value_discard_ws\<rparr>"
    have "switch_on s_header_field (HttpParser h b) data ?x =
        Break (here ?pr' (add_field full c) (p + length name) (CHR '':'') s_header_value_discard_ws no_marks)"
      using j short pr(1) p(2) slice
      by (simp add: case_s_header_field_def COUNT_small callback_field UPDATE_STATE_def head_ok_def)
    then have "switches (HttpParser h b) data ?x
        (here ?pr' (add_field full c) (p + length name + 1) (CHR '':'') s_header_value_discard_ws no_marks)"
      using switches_break [of ?x] by fastforce
    moreover have "unat (hp_nread ?pr') \<le> p + length name + 1"
      using COUNT_small(2) [of ?x "length name"] short pr(2) by simp
    ultimately show "\<exists>pr' ch'. switches (HttpParser h b) data ?x
        (here pr' (add_field full c) (p + length (name @ [CHR '':''])) ch' s_header_value_discard_ws no_marks) \<and>
        unat (hp_nread pr') \<le> p + length (name @ [CHR '':'']) \<and>
        head_ok code len f pr' \<and> hp_header_state pr' = name_state (t # map STRICT_TOKEN name)"
      using pr(1) by (intro exI [of _ ?pr'] exI [of _ "CHR '':''"]) (simp add: add.assoc)
  next
    show "ch # tl = (name @ [CHR '':'']) @ rest" using r by simp
    show "head_ok code len f (pr\<lparr>hp_nread := n\<rparr>) \<and> reads [t] (pr\<lparr>hp_nread := n\<rparr>)"
      if "head_ok code len f pr \<and> reads [t] pr" for pr n
      using that by (simp add: reads_def index_of_def)
  qed simp
qed

section \<open>Header values\<close>

lemma at_colon_space:
  assumes "at_rest S data x P (SP # rest) s_header_value_discard_ws m c" "\<And>pr n. P pr \<Longrightarrow> P (pr\<lparr>hp_nread := n\<rparr>)"
  shows "at_rest S data x P rest s_header_value_discard_ws m c"
  using assms(1) by (rule at_break) (use assms(2) in \<open>auto simp: case_s_header_value_discard_ws_def\<close>)

text \<open>The states of a value that is neither a length nor a transfer coding.\<close>

definition value_states :: "header_states set" where
  "value_states = {h_general, h_matching_connection_token_start, h_matching_connection_keep_alive,
     h_matching_connection_close, h_matching_connection_upgrade, h_matching_connection_token,
     h_connection_keep_alive, h_connection_close, h_connection_upgrade}"

lemma at_value_first:
  assumes "at_rest S data x (\<lambda>pr. head_ok code len f pr \<and> hp_header_state pr = name_state w)
      (ch # rest) s_header_value_discard_ws no_marks c"
    and "ch \<noteq> SP" "ch \<noteq> TAB" "ch \<noteq> CR" "ch \<noteq> LF"
    and name: "w \<notin> {CONTENT_LENGTH, TRANSFER_ENCODING, UPGRADE}"
  shows "at_rest S data x (\<lambda>pr. head_ok code len f pr \<and> hp_header_state pr \<in> value_states)
     rest s_header_value (marked M_header_value (length data - length (ch # rest))) c"
  using assms(1)
proof (rule at_break)
  fix pr p assume p: "p = length data - length (ch # rest)" and pr: "head_ok code len f pr \<and> hp_header_state pr = name_state w"
  have "name_state w \<notin> {h_content_length, h_transfer_encoding, h_upgrade, h_matching_connection_token_start}"
    using name by (auto simp: name_state_def split: if_splits)
  then show "\<exists>pr'. switch_on s_header_value_discard_ws S data (here pr c p ch s_header_value_discard_ws no_marks) =
      Break (here pr' c p ch s_header_value (marked M_header_value (length data - length (ch # rest)))) \<and>
      hp_nread pr' = hp_nread pr \<and> head_ok code len f pr' \<and> hp_header_state pr' \<in> value_states"
    using assms(2-5) pr unfolding p [symmetric]
    by (simp add: case_s_header_value_discard_ws_def case_s_header_value_start_def MARK_def UPDATE_STATE_def upd_def Let_def
        value_states_def split: header_states.split)
qed simp_all

lemma at_length_first:
  assumes "at_rest S data x (\<lambda>pr. head_ok code len False pr \<and> hp_header_state pr = name_state CONTENT_LENGTH)
      (d # rest) s_header_value_discard_ws no_marks c"
    and "IS_NUM d"
  shows "at_rest S data x (\<lambda>pr. head_ok code (of_nat (digit_val d)) True pr \<and> hp_header_state pr = h_content_length)
     rest s_header_value (marked M_header_value (length data - length (d # rest))) c"
  using assms(1)
proof (rule at_break)
  fix pr p assume p: "p = length data - length (d # rest)"
    and pr: "head_ok code len False pr \<and> hp_header_state pr = name_state CONTENT_LENGTH"
  have "d \<noteq> SP" "d \<noteq> TAB" "d \<noteq> CR" "d \<noteq> LF" using IS_NUM_not_special [OF assms(2)] assms(2) by (auto simp: char_class_defs)
  moreover have "name_state CONTENT_LENGTH = h_content_length" by (simp add: name_state_def keyword_defs)
  ultimately show "\<exists>pr'. switch_on s_header_value_discard_ws S data (here pr c p d s_header_value_discard_ws no_marks) =
      Break (here pr' c p d s_header_value (marked M_header_value (length data - length (d # rest)))) \<and>
      hp_nread pr' = hp_nread pr \<and> head_ok code (of_nat (digit_val d)) True pr' \<and> hp_header_state pr' = h_content_length"
    using assms(2) pr unfolding p [symmetric]
    by (simp add: case_s_header_value_discard_ws_def case_s_header_value_start_def MARK_def UPDATE_STATE_def upd_def Let_def
        head_ok_def flag_simps) (simp add: F_CONTENTLENGTH_def bit_simps)
qed simp_all

text \<open>One byte of a value, and all of them, up to the end of the line.\<close>

lemma general_skip_line:
  assumes "CR \<notin> set v" "LF \<notin> set v" "length (v @ CR # rest) \<le> 80 * 1024"
  shows "general_skip (v @ CR # rest) = length v"
proof -
  have cr: "memchr CR (v @ CR # rest) = Some (length v)" using assms(1) by (induction v) auto
  have "length v \<le> lf" if "memchr LF (v @ CR # rest) = Some lf" for lf
  proof (rule ccontr)
    assume "\<not> length v \<le> lf"
    moreover have "(v @ CR # rest) ! lf = LF" using memchr_Some_bounds [OF that] by simp
    ultimately have "v ! lf = LF" "lf < length v" by (simp_all add: nth_append)
    then show False using assms(2) nth_mem by metis
  qed
  then show ?thesis
    using assms(3) cr by (auto simp: general_skip_def HTTP_MAX_HEADER_SIZE_def Let_def min_def split: option.split)
qed

lemma match_keyword_some:
  "\<exists>h \<in> {cur, fin, bad}. match_keyword kw cur fin bad i c = Some h"
  using c_str_at_in_bounds [of i kw] by (cases "length kw < i") (auto simp: match_keyword_def)

lemma head_ok_or_connection:
  "head_ok code len f (pr\<lparr>hp_flags := hp_flags pr OR connection_flag h\<rparr>) = head_ok code len f pr"
  by (simp add: head_ok_def connection_flag_def F_defs bit_simps)

lemma value_byte:
  assumes "h \<in> value_states" "h \<noteq> h_general" "head_ok code len f (x_parser x)"
  shows "\<exists>h' i fl. header_value_switch (ch # rest) ch h x =
      Value_next h' 1 (x\<lparr>x_parser := (x_parser x)\<lparr>hp_flags := fl, hp_index := i\<rparr>\<rparr>) \<and>
    h' \<in> value_states \<and> head_ok code len f ((x_parser x)\<lparr>hp_flags := fl, hp_index := i\<rparr>)"
proof -
  have same: "x\<lparr>x_parser := (x_parser x)\<lparr>hp_flags := hp_flags (x_parser x), hp_index := hp_index (x_parser x)\<rparr>\<rparr> = x" by simp
  have plain: ?thesis if "header_value_switch (ch # rest) ch h x = Value_next h' 1 x" "h' \<in> value_states" for h'
    using that assms(3) same by (intro exI [of _ h'] exI [of _ "hp_index (x_parser x)"] exI [of _ "hp_flags (x_parser x)"]) simp
  have keyword: ?thesis if "header_value_switch (ch # rest) ch h x = value_keyword kw cur fin bad (LOWER ch) x"
      "cur \<in> value_states" "fin \<in> value_states" "bad \<in> value_states" for kw cur fin bad
  proof -
    obtain h' where h': "h' \<in> {cur, fin, bad}"
        "match_keyword kw cur fin bad (index_of (bump_index (x_parser x))) (LOWER ch) = Some h'"
      using match_keyword_some [of cur fin bad kw "index_of (bump_index (x_parser x))" "LOWER ch"] by blast
    then show ?thesis
      using that assms(3)
      by (intro exI [of _ h'] exI [of _ "hp_index (x_parser x) + 1"] exI [of _ "hp_flags (x_parser x)"])
        (auto simp: value_keyword_def upd_def bump_index_def Let_def)
  qed
  have update: ?thesis if "header_value_switch (ch # rest) ch h x =
      Value_next h' 1 (upd (\<lambda>pr. pr\<lparr>hp_flags := hp_flags pr OR connection_flag g, hp_index := 0\<rparr>) x)" "h' \<in> value_states" for h' g
    using that assms(3) head_ok_or_connection [of code len f "x_parser x" g]
    by (intro exI [of _ h'] exI [of _ 0] exI [of _ "hp_flags (x_parser x) OR connection_flag g"])
      (simp add: upd_def)
  have zero: "connection_flag h_general = 0" by (simp add: connection_flag_def)
  have "h = h_matching_connection_token_start \<or> h = h_matching_connection_token \<or> h = h_connection_keep_alive \<or>
      h = h_connection_close \<or> h = h_connection_upgrade \<or> h = h_matching_connection_keep_alive \<or>
      h = h_matching_connection_close \<or> h = h_matching_connection_upgrade"
    using assms(1,2) by (simp add: value_states_def) blast
  then show ?thesis
  proof (elim disjE)
    assume h: "h = h_matching_connection_token_start"
    show ?thesis by (rule plain [of "token_start_state (LOWER ch) h"])
      (simp_all add: h header_value_switch_def Let_def token_start_state_def value_states_def)
  next
    assume h: "h = h_matching_connection_token"
    show ?thesis
    proof (cases "ch = CHR '',''")
      case True
      then show ?thesis by (intro update [of h_matching_connection_token_start h_general])
        (simp_all add: h header_value_switch_def value_states_def zero)
    next
      case False
      then show ?thesis by (intro plain [of h_matching_connection_token]) (simp_all add: h header_value_switch_def value_states_def)
    qed
  next
    assume h: "h = h_connection_keep_alive"
    show ?thesis
      by (cases "ch = CHR '',''"; intro update [of h_matching_connection_token_start h] plain [of "if ch \<noteq> SP then h_matching_connection_token else h"])
        (simp_all add: h header_value_switch_def token_end_step_def value_states_def)
  next
    assume h: "h = h_connection_close"
    show ?thesis
      by (cases "ch = CHR '',''"; intro update [of h_matching_connection_token_start h] plain [of "if ch \<noteq> SP then h_matching_connection_token else h"])
        (simp_all add: h header_value_switch_def token_end_step_def value_states_def)
  next
    assume h: "h = h_connection_upgrade"
    show ?thesis
      by (cases "ch = CHR '',''"; intro update [of h_matching_connection_token_start h] plain [of "if ch \<noteq> SP then h_matching_connection_token else h"])
        (simp_all add: h header_value_switch_def token_end_step_def value_states_def)
  next
    assume h: "h = h_matching_connection_keep_alive"
    show ?thesis by (rule keyword [of KEEP_ALIVE h h_connection_keep_alive h_matching_connection_token])
      (simp_all add: h header_value_switch_def value_states_def)
  next
    assume h: "h = h_matching_connection_close"
    show ?thesis by (rule keyword [of CLOSE h h_connection_close h_matching_connection_token])
      (simp_all add: h header_value_switch_def value_states_def)
  next
    assume h: "h = h_matching_connection_upgrade"
    show ?thesis by (rule keyword [of UPGRADE h h_connection_upgrade h_matching_connection_token])
      (simp_all add: h header_value_switch_def value_states_def)
  qed
qed

text \<open>The value loop on the rest of a line.\<close>

lemma value_loop_line:
  assumes "list_all (\<lambda>ch. ch \<noteq> CR \<and> ch \<noteq> LF \<and> IS_HEADER_CHAR ch) v" "h \<in> value_states"
    and "head_ok code len f pr" "length (v @ CR # rest) \<le> 80 * 1024"
  shows "\<exists>h' fl i ch'. header_value_loop S data start (v @ CR # rest) h (here pr c p ch s m) =
      header_value_loop S data start (CR # rest) h' (here (pr\<lparr>hp_flags := fl, hp_index := i\<rparr>) c (p + length v) ch' s m) \<and>
    h' \<in> value_states \<and> head_ok code len f (pr\<lparr>hp_flags := fl, hp_index := i\<rparr>)"
  using assms
proof (induction v arbitrary: h pr p ch)
  case Nil
  then show ?case
    by (intro exI [of _ h] exI [of _ "hp_flags pr"] exI [of _ "hp_index pr"] exI [of _ ch]) simp
next
  case (Cons d v)
  let ?x = "here pr c p d s m"
  have d: "d \<noteq> CR" "d \<noteq> LF" "IS_HEADER_CHAR d" using Cons.prems(1) by simp_all
  show ?case
  proof (cases "h = h_general")
    case True
    have "CR \<notin> set (d # v)" "LF \<notin> set (d # v)" using Cons.prems(1) by (auto simp: list_all_iff)
    then have "general_skip (d # v @ CR # rest) = length (d # v)"
      using general_skip_line [of "d # v" rest] Cons.prems(4) by simp
    then have "header_value_loop S data start ((d # v) @ CR # rest) h (here pr c p ch s m) =
        header_value_loop S data start (CR # rest) h (here pr c (p + length (d # v)) d s m)"
      using d True by (simp add: header_value_switch_def Let_def)
    then show ?thesis
      using Cons.prems(2,3) by (intro exI [of _ h] exI [of _ "hp_flags pr"] exI [of _ "hp_index pr"] exI [of _ d]) simp
  next
    case False
    obtain h' i fl where step: "header_value_switch (d # v @ CR # rest) d h ?x =
        Value_next h' 1 (?x\<lparr>x_parser := pr\<lparr>hp_flags := fl, hp_index := i\<rparr>\<rparr>)" "h' \<in> value_states"
        "head_ok code len f (pr\<lparr>hp_flags := fl, hp_index := i\<rparr>)"
      using value_byte [OF Cons.prems(2) False, of code len f ?x d "v @ CR # rest"] Cons.prems(3) by auto
    let ?pr = "pr\<lparr>hp_flags := fl, hp_index := i\<rparr>"
    have "header_value_loop S data start ((d # v) @ CR # rest) h (here pr c p ch s m) =
        header_value_loop S data start (v @ CR # rest) h' (here ?pr c (p + 1) d s m)"
      using d step(1) by simp
    moreover obtain h'' fl' i' ch' where "header_value_loop S data start (v @ CR # rest) h' (here ?pr c (p + 1) d s m) =
        header_value_loop S data start (CR # rest) h'' (here (?pr\<lparr>hp_flags := fl', hp_index := i'\<rparr>) c (p + 1 + length v) ch' s m)"
        "h'' \<in> value_states" "head_ok code len f (?pr\<lparr>hp_flags := fl', hp_index := i'\<rparr>)"
      using Cons.IH [OF _ step(2,3), of "p + 1" d] Cons.prems(1,4) by auto
    ultimately show ?thesis
      by (intro exI [of _ h''] exI [of _ fl'] exI [of _ i'] exI [of _ ch']) simp
  qed
qed

lemma value_loop_digits:
  assumes "list_all IS_NUM v" "head_ok code (of_nat n) f pr" "decimal_from n v < 2 ^ 60"
  shows "\<exists>ch'. header_value_loop S data start (v @ CR # rest) h_content_length (here pr c p ch s m) =
      header_value_loop S data start (CR # rest) h_content_length
        (here (pr\<lparr>hp_content_length := of_nat (decimal_from n v)\<rparr>) c (p + length v) ch' s m)"
  using assms
proof (induction v arbitrary: n pr p ch)
  case Nil
  then have "pr\<lparr>hp_content_length := of_nat n\<rparr> = pr" by (cases pr) (simp add: head_ok_def)
  then show ?case by (intro exI [of _ ch]) (simp del: header_value_loop.simps)
next
  case (Cons d v)
  let ?x = "here pr c p d s m" and ?n = "n * 10 + digit_val d"
  have d: "IS_NUM d" "d \<noteq> CR" "d \<noteq> LF" "IS_HEADER_CHAR d"
    using Cons.prems(1) IS_NUM_not_special [of d] IS_NUM_header [of d] by simp_all
  have "?n < 2 ^ 60" using Cons.prems(3) decimal_from_mono [of ?n v] by simp
  then have n: "n \<le> (2 ^ 64 - 11) div 10" by simp
  then have "unat (of_nat n :: u64) = n" by (intro unat_of_nat_small) simp
  then have len: "unat (hp_content_length pr) = n" using Cons.prems(2) by (simp add: head_ok_def)
  have "header_value_loop S data start ((d # v) @ CR # rest) h_content_length (here pr c p ch s m) =
      header_value_loop S data start (v @ CR # rest) h_content_length
        (here (pr\<lparr>hp_content_length := of_nat ?n\<rparr>) c (p + 1) d s m)"
    using d n content_length_step_exact [OF d(1), of h_content_length ?x] len
    by (simp add: header_value_switch_def upd_def Let_def)
  moreover have "head_ok code (of_nat ?n) f (pr\<lparr>hp_content_length := of_nat ?n\<rparr>)"
    using Cons.prems(2) by (simp add: head_ok_def)
  then obtain ch' where "header_value_loop S data start (v @ CR # rest) h_content_length
        (here (pr\<lparr>hp_content_length := of_nat ?n\<rparr>) c (p + 1) d s m) =
      header_value_loop S data start (CR # rest) h_content_length
        (here (pr\<lparr>hp_content_length := of_nat ?n, hp_content_length := of_nat (decimal_from ?n v)\<rparr>) c (p + 1 + length v) ch' s m)"
    using Cons.IH [of ?n "pr\<lparr>hp_content_length := of_nat ?n\<rparr>" "p + 1" d] Cons.prems(1,3) by auto
  ultimately show ?case by (intro exI [of _ ch']) simp
qed

text \<open>From inside a value to its end: the loop, the callback, the count.\<close>

lemma at_value_rest:
  assumes at: "at_rest (HttpParser h b) data x P (v @ CR # rest) s_header_value (marked M_header_value i) c"
    and P: "\<And>pr n. P pr \<Longrightarrow> P (pr\<lparr>hp_nread := n\<rparr>)" and i: "drop i data = full @ CR # rest"
    and loop: "\<And>pr p ch. P pr \<Longrightarrow> \<exists>g pr' ch'.
      header_value_loop (HttpParser h b) data p (v @ CR # rest) (hp_header_state pr) (here pr c p ch s_header_value (marked M_header_value i)) =
      header_value_loop (HttpParser h b) data p (CR # rest) g (here pr' c (p + length v) ch' s_header_value (marked M_header_value i)) \<and>
      hp_nread pr' = hp_nread pr \<and> hp_errno pr' = HPE_OK \<and>
      (\<forall>s n. Q (pr'\<lparr>hp_header_state := g, hp_state := s, hp_nread := n\<rparr>))"
  shows "at_rest (HttpParser h b) data x Q rest s_header_almost_done no_marks (add_value full c)"
proof -
  obtain ch tl where r: "v @ CR # rest = ch # tl" by (cases v) auto
  have at': "at_rest (HttpParser h b) data x P (ch # tl) s_header_value (marked M_header_value i) c"
    using at r by simp
  let ?m = "marked M_header_value i"
  show ?thesis
    using at'
  proof (rule at_jump [where u = "v @ [CR]"])
    fix pr p assume p: "drop p data = ch # tl" "p + length (v @ [CR]) + length rest = length data"
      and pr: "P pr" "unat (hp_nread pr) \<le> Suc p"
    let ?x = "here pr c p ch s_header_value ?m"
    have "length data - i = length (full @ CR # rest)" using i by (metis length_drop)
    then have "p + length v = i + length full" using p(2) by simp
    then have slice: "slice data i (p + length v - i) = full" using i by (intro slice_rest) simp_all
    obtain g pr' ch' where loop': "header_value_loop (HttpParser h b) data p (v @ CR # rest) (hp_header_state pr) ?x =
        header_value_loop (HttpParser h b) data p (CR # rest) g (here pr' c (p + length v) ch' s_header_value ?m)"
      and pr': "hp_nread pr' = hp_nread pr" "hp_errno pr' = HPE_OK"
        "\<And>s n. Q (pr'\<lparr>hp_header_state := g, hp_state := s, hp_nread := n\<rparr>)"
      using loop [OF pr(1), of p ch] by blast
    have short: "unat (hp_nread pr') + length v \<le> 80 * 1024"
      using pr(2) pr'(1) p(2) at_rest_short [OF at] by simp
    let ?pr' = "pr'\<lparr>hp_header_state := g, hp_state := s_header_almost_done, hp_nread := hp_nread pr' + of_nat (length v)\<rparr>"
    have "switch_on s_header_value (HttpParser h b) data ?x =
        Break (here ?pr' (add_value full c) (p + length v) CR s_header_almost_done no_marks)"
      using loop' short pr'(1,2) p slice r
      by (simp add: case_s_header_value_def callback_value UPDATE_STATE_def upd_def header_value_done_def COUNT_small)
    then have "switches (HttpParser h b) data ?x
        (here ?pr' (add_value full c) (p + length v + 1) CR s_header_almost_done no_marks)"
      using switches_break [of ?x] by fastforce
    moreover have "unat (hp_nread ?pr') \<le> p + length v + 1"
      using COUNT_small(2) [of "here pr' c p ch s_header_value ?m" "length v"] short pr(2) pr'(1) by simp
    ultimately show "\<exists>pr' ch'. switches (HttpParser h b) data ?x
        (here pr' (add_value full c) (p + length (v @ [CR])) ch' s_header_almost_done no_marks) \<and>
        unat (hp_nread pr') \<le> p + length (v @ [CR]) \<and> Q pr'"
      using pr'(3) by (intro exI [of _ ?pr'] exI [of _ CR]) (simp add: add.assoc)
  next
    show "ch # tl = (v @ [CR]) @ rest" using r by simp
  qed (use P in simp_all)
qed

lemma at_header_end:
  assumes "at_rest S data x P (LF # rest) s_header_almost_done no_marks c" "\<And>pr n. P pr \<Longrightarrow> P (pr\<lparr>hp_nread := n\<rparr>)"
  shows "at_rest S data x P rest s_header_value_lws no_marks c"
  using assms(1) by (rule at_break) (use assms(2) in \<open>auto simp: case_s_header_almost_done_def UPDATE_STATE_def\<close>)

section \<open>Whole header lines\<close>

definition name_ok :: "string \<Rightarrow> bool" where
  "name_ok f \<longleftrightarrow> f \<noteq> [] \<and> list_all (\<lambda>ch. STRICT_TOKEN ch \<noteq> NUL) f"

definition value_ok :: "string \<Rightarrow> bool" where
  "value_ok v \<longleftrightarrow> v \<noteq> [] \<and> hd v \<noteq> SP \<and> hd v \<noteq> TAB \<and> list_all (\<lambda>ch. ch \<noteq> CR \<and> ch \<noteq> LF \<and> IS_HEADER_CHAR ch) v"

definition plain_header :: "string \<times> string \<Rightarrow> bool" where
  "plain_header h \<longleftrightarrow> name_ok (fst h) \<and> value_ok (snd h) \<and>
     map STRICT_TOKEN (fst h) \<notin> {CONTENT_LENGTH, TRANSFER_ENCODING, UPGRADE}"

definition length_header :: "nat \<Rightarrow> string \<times> string \<Rightarrow> bool" where
  "length_header n h \<longleftrightarrow> name_ok (fst h) \<and> map STRICT_TOKEN (fst h) = CONTENT_LENGTH \<and>
     snd h \<noteq> [] \<and> list_all IS_NUM (snd h) \<and> decimal_from 0 (snd h) = n"

definition header_text :: "string \<times> string \<Rightarrow> string" where
  "header_text h = fst h @ '': '' @ snd h @ [CR, LF]"

definition add_header :: "string \<times> string \<Rightarrow> client \<Rightarrow> client" where
  "add_header h c = add_value (snd h) (add_field (fst h) c)"

lemma at_line_drop: "at_line S data x code len b rest c \<Longrightarrow> drop (length data - length rest) data = rest"
  by (auto simp: at_line_def at_rest_def)

lemma at_field:
  assumes at: "at_line (HttpParser h b) data x code len g (f @ '': '' @ rest) c" and f: "name_ok f"
  shows "at_rest (HttpParser h b) data x (\<lambda>pr. head_ok code len g pr \<and> hp_header_state pr = name_state (map STRICT_TOKEN f))
     rest s_header_value_discard_ws no_marks (add_field f c)"
proof -
  obtain ch tl where ch: "f = ch # tl" using f by (cases f) (simp_all add: name_ok_def)
  have tok: "STRICT_TOKEN ch \<noteq> NUL" "list_all (\<lambda>ch. STRICT_TOKEN ch \<noteq> NUL) tl"
    using f ch by (simp_all add: name_ok_def)
  let ?i = "length data - length (f @ CHR '':'' # SP # rest)"
  have i: "drop ?i data = f @ CHR '':'' # SP # rest" using at_line_drop [OF at] by simp
  have "at_line (HttpParser h b) data x code len g (ch # (tl @ CHR '':'' # SP # rest)) c"
    using at ch by simp
  from at_name_first [OF this tok(1)]
  have "at_rest (HttpParser h b) data x (\<lambda>pr. head_ok code len g pr \<and> reads [STRICT_TOKEN ch] pr)
      (tl @ CHR '':'' # SP # rest) s_header_field (marked M_header_field ?i) c"
    using ch by simp
  from at_name_rest [OF this tok(2) i]
  have "at_rest (HttpParser h b) data x (\<lambda>pr. head_ok code len g pr \<and> hp_header_state pr = name_state (map STRICT_TOKEN f))
      (SP # rest) s_header_value_discard_ws no_marks (add_field f c)"
    using ch by simp
  then show ?thesis by (rule at_colon_space) simp
qed

lemma at_plain_header:
  assumes at: "at_line (HttpParser h b) data x code len g (header_text hdr @ rest) c" and ok: "plain_header hdr"
  shows "at_line (HttpParser h b) data x code len g rest (add_header hdr c)"
proof -
  obtain f v where hdr: "hdr = (f, v)" by (cases hdr)
  have f: "name_ok f" "map STRICT_TOKEN f \<notin> {CONTENT_LENGTH, TRANSFER_ENCODING, UPGRADE}" and v: "value_ok v"
    using ok hdr by (simp_all add: plain_header_def)
  obtain ch tl where ch: "v = ch # tl" using v by (cases v) (simp_all add: value_ok_def)
  let ?c = "add_field f c"
  have at_v: "at_rest (HttpParser h b) data x (\<lambda>pr. head_ok code len g pr \<and> hp_header_state pr = name_state (map STRICT_TOKEN f))
      (ch # (tl @ CR # LF # rest)) s_header_value_discard_ws no_marks ?c"
    using at_field [of h b data x code len g f "v @ [CR, LF] @ rest" c] at f(1) hdr ch by (simp add: header_text_def)
  note first = at_value_first [OF at_v _ _ _ _ f(2)]
  let ?i = "length data - length (v @ CR # LF # rest)"
  have i: "drop ?i data = v @ CR # LF # rest" using at_rest_drop [OF at_v] ch by simp
  then have "length (v @ CR # LF # rest) \<le> length data" by (metis length_drop diff_le_self)
  then have short: "length (tl @ CR # LF # rest) \<le> 80 * 1024" using at_rest_short [OF at_v] ch by simp
  have "at_rest (HttpParser h b) data x (\<lambda>pr. head_ok code len g pr \<and> hp_header_state pr \<in> value_states)
      (tl @ CR # LF # rest) s_header_value (marked M_header_value ?i) ?c"
    using first v ch by (auto simp: value_ok_def)
  then have "at_rest (HttpParser h b) data x (\<lambda>pr. head_ok code len g pr \<and> hp_header_state pr \<in> value_states)
      (LF # rest) s_header_almost_done no_marks (add_value v ?c)"
  proof (rule at_value_rest [OF _ _ i])
    fix pr p cch assume pr: "head_ok code len g pr \<and> hp_header_state pr \<in> value_states"
    have tl: "list_all (\<lambda>ch. ch \<noteq> CR \<and> ch \<noteq> LF \<and> IS_HEADER_CHAR ch) tl" using v ch by (simp add: value_ok_def)
    obtain g' fl j ch' where loop: "header_value_loop (HttpParser h b) data p (tl @ CR # LF # rest) (hp_header_state pr)
          (here pr ?c p cch s_header_value (marked M_header_value ?i)) =
        header_value_loop (HttpParser h b) data p (CR # LF # rest) g'
          (here (pr\<lparr>hp_flags := fl, hp_index := j\<rparr>) ?c (p + length tl) ch' s_header_value (marked M_header_value ?i))"
        "g' \<in> value_states" "head_ok code len g (pr\<lparr>hp_flags := fl, hp_index := j\<rparr>)"
      using value_loop_line [OF tl _ _ short, of "hp_header_state pr" code len g pr "HttpParser h b" data p ?c p cch
          s_header_value "marked M_header_value ?i"] pr by blast
    show "\<exists>g' pr' ch'. header_value_loop (HttpParser h b) data p (tl @ CR # LF # rest) (hp_header_state pr)
        (here pr ?c p cch s_header_value (marked M_header_value ?i)) =
      header_value_loop (HttpParser h b) data p (CR # LF # rest) g' (here pr' ?c (p + length tl) ch' s_header_value (marked M_header_value ?i)) \<and>
      hp_nread pr' = hp_nread pr \<and> hp_errno pr' = HPE_OK \<and>
      (\<forall>s n. head_ok code len g (pr'\<lparr>hp_header_state := g', hp_state := s, hp_nread := n\<rparr>) \<and>
        hp_header_state (pr'\<lparr>hp_header_state := g', hp_state := s, hp_nread := n\<rparr>) \<in> value_states)"
      using loop(2,3) by (intro exI [of _ g'] exI [of _ "pr\<lparr>hp_flags := fl, hp_index := j\<rparr>"] exI [of _ ch'] conjI loop(1))
        (simp_all add: head_ok_def)
  qed simp
  then have "at_rest (HttpParser h b) data x (\<lambda>pr. head_ok code len g pr \<and> hp_header_state pr \<in> value_states)
      rest s_header_value_lws no_marks (add_value v ?c)"
    by (rule at_header_end) simp
  then show ?thesis
    unfolding at_line_def add_header_def hdr
    by (intro disjI2) (auto elim!: at_mono simp: value_states_def)
qed

lemma at_length_header:
  assumes at: "at_line (HttpParser h b) data x code len False (header_text hdr @ rest) c" and ok: "length_header n hdr" and "n < 2 ^ 60"
  shows "at_line (HttpParser h b) data x code (of_nat n) True rest (add_header hdr c)"
proof -
  obtain f v where hdr: "hdr = (f, v)" by (cases hdr)
  have f: "name_ok f" "map STRICT_TOKEN f = CONTENT_LENGTH" and v: "v \<noteq> []" "list_all IS_NUM v" "decimal_from 0 v = n"
    using ok hdr by (simp_all add: length_header_def)
  obtain d tl where d: "v = d # tl" using v(1) by (cases v) simp_all
  let ?c = "add_field f c"
  have at_v: "at_rest (HttpParser h b) data x (\<lambda>pr. head_ok code len False pr \<and> hp_header_state pr = name_state CONTENT_LENGTH)
      (d # (tl @ CR # LF # rest)) s_header_value_discard_ws no_marks ?c"
    using at_field [of h b data x code len False f "v @ [CR, LF] @ rest" c] at f hdr d by (simp add: header_text_def)
  let ?i = "length data - length (v @ CR # LF # rest)"
  have i: "drop ?i data = v @ CR # LF # rest" using at_rest_drop [OF at_v] d by simp
  let ?P = "\<lambda>pr. head_ok code (of_nat (digit_val d)) True pr \<and> hp_header_state pr = h_content_length"
  let ?Q = "\<lambda>pr. head_ok code (of_nat n) True pr \<and> hp_header_state pr = h_content_length"
  have "at_rest (HttpParser h b) data x ?P (tl @ CR # LF # rest) s_header_value (marked M_header_value ?i) ?c"
    using at_length_first [OF at_v] v(2) d by simp
  then have "at_rest (HttpParser h b) data x ?Q (LF # rest) s_header_almost_done no_marks (add_value v ?c)"
  proof (rule at_value_rest [OF _ _ i])
    fix pr p ch assume pr: "?P pr"
    have "decimal_from (digit_val d) tl = n" using v(3) d by simp
    then obtain ch' where loop: "header_value_loop (HttpParser h b) data p (tl @ CR # LF # rest) h_content_length
          (here pr ?c p ch s_header_value (marked M_header_value ?i)) =
        header_value_loop (HttpParser h b) data p (CR # LF # rest) h_content_length
          (here (pr\<lparr>hp_content_length := of_nat n\<rparr>) ?c (p + length tl) ch' s_header_value (marked M_header_value ?i))"
      using value_loop_digits [of tl code "digit_val d" True pr "HttpParser h b" data p "LF # rest" ?c p ch] v(2) d pr assms(3)
      by auto
    then show "\<exists>g' pr' ch'. header_value_loop (HttpParser h b) data p (tl @ CR # LF # rest) (hp_header_state pr)
        (here pr ?c p ch s_header_value (marked M_header_value ?i)) =
      header_value_loop (HttpParser h b) data p (CR # LF # rest) g' (here pr' ?c (p + length tl) ch' s_header_value (marked M_header_value ?i)) \<and>
      hp_nread pr' = hp_nread pr \<and> hp_errno pr' = HPE_OK \<and>
      (\<forall>s n. ?Q (pr'\<lparr>hp_header_state := g', hp_state := s, hp_nread := n\<rparr>))"
      using pr by (intro exI [of _ h_content_length] exI [of _ "pr\<lparr>hp_content_length := of_nat n\<rparr>"] exI [of _ ch'])
        (simp add: head_ok_def del: header_value_loop.simps)
  qed simp
  then have "at_rest (HttpParser h b) data x ?Q rest s_header_value_lws no_marks (add_value v ?c)"
    by (rule at_header_end) simp
  then show ?thesis
    unfolding at_line_def add_header_def hdr
    by (intro disjI2) (auto elim!: at_mono)
qed

lemma at_plain_headers:
  assumes "at_line (HttpParser h b) data x code len g (concat (map header_text hs) @ rest) c" "list_all plain_header hs"
  shows "at_line (HttpParser h b) data x code len g rest (fold add_header hs c)"
  using assms
proof (induction hs arbitrary: c)
  case (Cons hdr hs)
  have "at_line (HttpParser h b) data x code len g (concat (map header_text hs) @ rest) (add_header hdr c)"
    using Cons.prems by (intro at_plain_header) simp_all
  then show ?case using Cons.IH Cons.prems(2) by simp
qed simp

section \<open>The end of the headers\<close>

definition headers_done :: "client \<Rightarrow> client" where
  "headers_done c = c\<lparr>c_response := (set_headers_complete (c_response c))\<lparr>r_method := Some HTTP_DELETE\<rparr>\<rparr>"

lemma at_head_end:
  assumes at: "at_line (HttpParser h b) data x code (of_nat n) True (CR # LF # rest) c" and n: "0 < n" "n < 2 ^ 60"
  shows "at_rest (HttpParser h b) data x (head_ok code (of_nat n) True) rest s_body_identity no_marks (headers_done c)"
proof -
  have "at_rest (HttpParser h b) data x (head_ok code (of_nat n) True) (LF # rest) s_headers_almost_done no_marks c"
    using at by (rule line_start) (auto simp: case_s_header_field_start_def UPDATE_STATE_def)
  then show ?thesis
  proof (rule at_jump [where u = "[LF]"])
    fix pr p assume pr: "head_ok code (of_nat n) True pr" "unat (hp_nread pr) \<le> Suc p"
    let ?pr = "pr\<lparr>hp_upgrade := False\<rparr>"
    let ?c = "headers_done c"
    have len: "hp_content_length pr \<noteq> 0" "hp_content_length pr \<noteq> ULLONG_MAX"
    proof -
      have "hp_content_length pr = of_nat n" using pr(1) by (simp add: head_ok_def)
      moreover have "unat (of_nat n :: u64) = n" "unat (of_nat (Suc n) :: u64) = Suc n"
        using n by (intro unat_of_nat_small; simp)+
      moreover have "of_nat (Suc n) = (0 :: u64)" if "of_nat n = ULLONG_MAX"
        using that by (simp add: ULLONG_MAX_def)
      ultimately show "hp_content_length pr \<noteq> 0" "hp_content_length pr \<noteq> ULLONG_MAX" using n(1) by (auto simp del: of_nat_Suc)
    qed
    have "\<not> bit (hp_flags pr AND (F_UPGRADE OR F_CONNECTION_UPGRADE)) 5" "bit (F_UPGRADE OR F_CONNECTION_UPGRADE) 5"
      using pr(1) by (simp_all add: head_ok_def F_defs bit_simps)
    then have "hp_flags pr AND (F_UPGRADE OR F_CONNECTION_UPGRADE) \<noteq> F_UPGRADE OR F_CONNECTION_UPGRADE" by metis
    then have up: "set_upgrade pr = ?pr" using pr(1) by (simp add: set_upgrade_def head_ok_def)
    have re: "switch_on s_headers_almost_done (HttpParser h b) data (here pr c p LF s_headers_almost_done no_marks) =
        Reexecute (here ?pr ?c p LF s_headers_done no_marks)"
      using pr(1) up
      by (simp add: case_s_headers_almost_done_def STRICT_CHECK_def flag_simps headers_complete_def HttpParser_def on_response_def
          head_ok_def UPDATE_STATE_def upd_def headers_done_def)
    let ?pr' = "?pr\<lparr>hp_nread := 0\<rparr>"
    have "switch_on s_headers_done (HttpParser h b) data (here ?pr ?c p LF s_headers_done no_marks) =
        Break (here ?pr' ?c p LF s_body_identity no_marks)"
      using pr(1) len
      by (simp add: case_s_headers_done_def STRICT_CHECK_def flag_simps head_ok_def UPDATE_STATE_def upd_def Let_def)
    then have "switches (HttpParser h b) data (here ?pr ?c p LF s_headers_done no_marks) (here ?pr' ?c (p + length [LF]) LF s_body_identity no_marks)"
      using switches_break [of "here ?pr ?c p LF s_headers_done no_marks"] by fastforce
    then have "switches (HttpParser h b) data (here pr c p LF s_headers_almost_done no_marks)
        (here ?pr' ?c (p + length [LF]) LF s_body_identity no_marks)"
      by (rule switches_reexecute [rotated]) (use re in simp)
    moreover have "head_ok code (of_nat n) True ?pr'" using pr(1) by (simp add: head_ok_def)
    ultimately show "\<exists>pr' ch'. switches (HttpParser h b) data (here pr c p LF s_headers_almost_done no_marks)
        (here pr' ?c (p + length [LF]) ch' s_body_identity no_marks) \<and> unat (hp_nread pr') \<le> p + length [LF] \<and>
        head_ok code (of_nat n) True pr'"
      by (intro exI [of _ ?pr'] exI [of _ LF]) simp
  qed simp_all
qed

end
