(* ===== verification/HttpResponseTheorems.thy ===== *)
theory HttpResponseTheorems
  imports HttpResponseHeaders
begin

text \<open>
  Receiving a well-formed response from its first byte to its last: what \<open>create_http_response\<close> makes
  of a status line, headers with one Content-Length, and a body in any pieces.
\<close>

section \<open>The status line and the head\<close>

definition status_line :: "char \<Rightarrow> string \<Rightarrow> string \<Rightarrow> string" where
  "status_line v code reason = ''HTTP/1.'' @ v # SP # code @ SP # reason @ [CR, LF]"

definition status_ok :: "char \<Rightarrow> string \<Rightarrow> string \<Rightarrow> bool" where
  "status_ok v code reason \<longleftrightarrow> (v = CHR ''0'' \<or> v = CHR ''1'') \<and> length code = 3 \<and> list_all IS_NUM code \<and>
     CR \<notin> set reason \<and> LF \<notin> set reason"

text \<open>The client has the status when there was a reason phrase: without one \<open>on_status\<close> is not called.\<close>

definition status_of :: "string \<Rightarrow> string \<Rightarrow> int" where
  "status_of code reason = (if reason = [] then 0 else int (decimal_from 0 code))"

definition status_read :: "string \<Rightarrow> string \<Rightarrow> client \<Rightarrow> client" where
  "status_read code reason c = (if reason = [] then c else add_status (int (decimal_from 0 code)) reason c)"

fun content_headers :: "nat \<Rightarrow> (string \<times> string) list \<Rightarrow> bool" where
  "content_headers n [] = False"
| "content_headers n (h # hs) =
     (length_header n h \<and> list_all plain_header hs \<or> plain_header h \<and> content_headers n hs)"

definition response_head :: "char \<Rightarrow> string \<Rightarrow> string \<Rightarrow> (string \<times> string) list \<Rightarrow> string" where
  "response_head v code reason hs = status_line v code reason @ concat (map header_text hs) @ [CR, LF]"

lemma decimal_le:
  assumes "list_all IS_NUM s" "v < 10 ^ k"
  shows "decimal_from v s < 10 ^ (k + length s)"
  using assms
proof (induction s arbitrary: v k)
  case (Cons ch s)
  have "digit_val ch < 10" using Cons.prems(1) digit_val_less by simp
  then have "v * 10 + digit_val ch < 10 ^ Suc k" using Cons.prems(2) by simp
  then show ?case using Cons.IH [of _ "Suc k"] Cons.prems(1) by simp
qed simp

lemma at_digits:
  assumes "at_rest S data x (head_ok v ULLONG_MAX False) (ds @ rest) s_res_status_code no_marks c" "list_all IS_NUM ds"
    and "decimal_from v ds \<le> 999"
  shows "at_rest S data x (head_ok (decimal_from v ds) ULLONG_MAX False) rest s_res_status_code no_marks c"
  using assms
proof (induction ds arbitrary: v)
  case (Cons d ds)
  have "v * 10 + digit_val d \<le> 999" using Cons.prems(3) decimal_from_mono [of "v * 10 + digit_val d" ds] by simp
  then have "at_rest S data x (head_ok (v * 10 + digit_val d) ULLONG_MAX False) (ds @ rest) s_res_status_code no_marks c"
    using Cons.prems(1,2) by (intro at_digit) simp_all
  then show ?case using Cons.IH Cons.prems(2,3) by simp
qed simp

lemma at_status_line:
  assumes at: "at_rest (HttpParser h b) data x fresh_response (status_line v code reason @ rest) s_start_res no_marks c"
    and ok: "status_ok v code reason"
  shows "at_rest (HttpParser h b) data x (head_ok (decimal_from 0 code) ULLONG_MAX False) rest s_header_field_start no_marks
     (status_read code reason c)"
proof -
  obtain d ds where code: "code = d # ds" using ok by (cases code) (simp_all add: status_ok_def)
  have dig: "list_all IS_NUM code" "IS_NUM d" "list_all IS_NUM ds" using ok code by (simp_all add: status_ok_def)
  have small: "decimal_from 0 code \<le> 999"
    using decimal_le [OF dig(1), of 0 0] ok by (simp add: status_ok_def)
  have "at_rest (HttpParser h b) data x fresh_response (''HTTP/1.'' @ v # SP # (d # ds @ SP # reason @ CR # LF # rest)) s_start_res no_marks c"
    using at code by (simp add: status_line_def)
  then have "at_rest (HttpParser h b) data x before_code (d # (ds @ SP # reason @ CR # LF # rest)) s_res_first_status_code no_marks c"
    by (rule at_version_text) (use ok in \<open>simp add: status_ok_def\<close>)
  then have "at_rest (HttpParser h b) data x (head_ok (digit_val d) ULLONG_MAX False) (ds @ SP # reason @ CR # LF # rest) s_res_status_code no_marks c"
    by (rule at_first_digit) (rule dig(2))
  then have "at_rest (HttpParser h b) data x (head_ok (decimal_from (digit_val d) ds) ULLONG_MAX False) (SP # reason @ CR # LF # rest) s_res_status_code no_marks c"
    by (rule at_digits) (use dig(3) small code in simp_all)
  then have at_reason_start: "at_rest (HttpParser h b) data x (head_ok (decimal_from 0 code) ULLONG_MAX False) (reason @ CR # (LF # rest)) s_res_status_start no_marks c"
    unfolding code by (intro at_code_end) simp
  have "at_rest (HttpParser h b) data x (head_ok (decimal_from 0 code) ULLONG_MAX False) (LF # rest) s_res_line_almost_done no_marks
      (status_read code reason c)"
  proof (cases "reason = []")
    case True
    then show ?thesis using at_no_reason at_reason_start by (simp add: status_read_def)
  next
    case False
    then show ?thesis using at_reason [OF at_reason_start] ok small by (simp add: status_ok_def status_read_def)
  qed
  then show ?thesis by (rule at_line_end)
qed

lemma at_content_headers:
  assumes "at_line (HttpParser h b) data x code len False (concat (map header_text hs) @ rest) c" "content_headers n hs" "n < 2 ^ 60"
  shows "at_line (HttpParser h b) data x code (of_nat n) True rest (fold add_header hs c)"
  using assms
proof (induction hs arbitrary: c)
  case (Cons hdr hs)
  have at: "at_line (HttpParser h b) data x code len False (header_text hdr @ concat (map header_text hs) @ rest) c"
    using Cons.prems(1) by simp
  show ?case
  proof (cases "plain_header hdr \<and> content_headers n hs")
    case True
    then show ?thesis using Cons.IH [OF at_plain_header [OF at]] Cons.prems(3) by simp
  next
    case False
    then have "length_header n hdr" "list_all plain_header hs" using Cons.prems(2) by auto
    then show ?thesis
      using at_plain_headers [OF at_length_header [OF at _ Cons.prems(3)]] by simp
  qed
qed simp

definition head_read :: "string \<Rightarrow> string \<Rightarrow> (string \<times> string) list \<Rightarrow> client \<Rightarrow> client" where
  "head_read code reason hs c = headers_done (fold add_header hs (status_read code reason c))"

lemma at_response_head:
  assumes "data = response_head v code reason hs @ body" "length data \<le> 80 * 1024"
    and ok: "status_ok v code reason" "content_headers n hs" "0 < n" "n < 2 ^ 60"
  shows "at_rest (HttpParser h b) data (entry (http_parser_init HTTP_RESPONSE) c) (head_ok (decimal_from 0 code) (of_nat n) True)
     body s_body_identity no_marks (head_read code reason hs c)"
proof -
  let ?x = "entry (http_parser_init HTTP_RESPONSE) c"
  have "at_rest (HttpParser h b) data ?x fresh_response (status_line v code reason @ (concat (map header_text hs) @ CR # LF # body)) s_start_res no_marks c"
    using at_start [OF assms(2), of "HttpParser h b" c] assms(1) by (simp add: response_head_def)
  then have "at_rest (HttpParser h b) data ?x (head_ok (decimal_from 0 code) ULLONG_MAX False) (concat (map header_text hs) @ CR # LF # body)
      s_header_field_start no_marks (status_read code reason c)"
    by (rule at_status_line) (rule ok(1))
  then have "at_line (HttpParser h b) data ?x (decimal_from 0 code) ULLONG_MAX False (concat (map header_text hs) @ CR # LF # body)
      (status_read code reason c)"
    by (simp add: at_line_def)
  then show ?thesis
    unfolding head_read_def by (intro at_head_end at_content_headers ok)
qed

section \<open>What the response has of the head\<close>

lemma fold_add_header:
  assumes "\<not> r_concat_field (c_response c)"
  shows "\<exists>g. fold add_header hs c = c\<lparr>c_response := (c_response c)\<lparr>
     r_header_fields := r_header_fields (c_response c) @ map fst hs,
     r_header_values := r_header_values (c_response c) @ map snd hs, r_concat_field := False, r_concat_value := g\<rparr>\<rparr>"
  using assms
proof (induction hs arbitrary: c)
  case Nil
  then show ?case by (intro exI [of _ "r_concat_value (c_response c)"]) simp
next
  case (Cons hdr hs)
  have one: "add_header hdr c = c\<lparr>c_response := (c_response c)\<lparr>
     r_header_fields := r_header_fields (c_response c) @ [fst hdr],
     r_header_values := r_header_values (c_response c) @ [snd hdr], r_concat_field := False, r_concat_value := True\<rparr>\<rparr>"
    using Cons.prems by (simp add: add_header_def add_field_def add_value_def set_header_field_def set_header_value_def Let_def)
  then have "\<not> r_concat_field (c_response (add_header hdr c))" by simp
  from Cons.IH [OF this] show ?case using Cons.prems by (auto simp: one)
qed

lemma token_tolower: "STRICT_TOKEN c \<noteq> NUL \<Longrightarrow> STRICT_TOKEN c = tolower c"
proof -
  have "list_all (\<lambda>c. token_spec c = NUL \<or> token_spec c = tolower c) all_chars"
    by (simp add: all_chars_def token_spec_def tolower_def char_class_defs)
  then have "token_spec c = NUL \<or> token_spec c = tolower c" by (rule all_chars_forall)
  then show "STRICT_TOKEN c \<noteq> NUL \<Longrightarrow> STRICT_TOKEN c = tolower c" by (simp add: STRICT_TOKEN_eq)
qed

lemma content_length_name:
  assumes "name_ok f"
  shows "strcicmp_eq f ''content-length'' \<longleftrightarrow> map STRICT_TOKEN f = CONTENT_LENGTH"
proof -
  have "map STRICT_TOKEN f = map tolower f"
    using assms token_tolower by (auto simp: name_ok_def list_all_iff)
  moreover have "map tolower ''content-length'' = CONTENT_LENGTH" by code_simp
  ultimately show ?thesis unfolding strcicmp_eq_def by metis
qed

lemma find_content_headers:
  "content_headers n hs \<Longrightarrow> \<exists>v. find_content_length (map fst hs) (map snd hs) = Some v \<and>
     list_all IS_NUM v \<and> decimal_from 0 v = n"
proof (induction hs)
  case (Cons h hs)
  then show ?case
    using content_length_name [of "fst h"] by (auto simp: plain_header_def length_header_def)
qed simp

lemma takeWhile_all: "list_all P xs \<Longrightarrow> takeWhile P xs = xs"
  by (induction xs) simp_all

lemma headers_complete_length:
  assumes "content_headers n hs" "n < 2 ^ 31" "r_header_fields r = map fst hs" "r_header_values r = map snd hs"
  shows "set_headers_complete r = r\<lparr>r_expected_length := of_nat n\<rparr>"
proof -
  obtain v where v: "find_content_length (map fst hs) (map snd hs) = Some v" "list_all IS_NUM v" "decimal_from 0 v = n"
    using find_content_headers [OF assms(1)] by blast
  have "atoi v = Some (int n)"
    using v(2,3) assms(2) by (simp add: atoi_def takeWhile_all decimal_from_def)
  then show ?thesis using v(1) assms(3,4) by (simp add: set_headers_complete_def)
qed

text \<open>The response object when the head has been read.\<close>

definition head_response :: "int \<Rightarrow> string \<Rightarrow> (string \<times> string) list \<Rightarrow> nat \<Rightarrow> bool \<Rightarrow> response" where
  "head_response code reason hs n g = HttpResponse\<lparr>r_status_code := code, r_status_message := reason,
     r_method := Some HTTP_DELETE, r_header_fields := map fst hs, r_header_values := map snd hs,
     r_concat_value := g, r_expected_length := of_nat n\<rparr>"

lemma head_read_response:
  assumes "content_headers n hs" "n < 2 ^ 31"
  shows "\<exists>g. head_read code reason hs \<lparr>c_response = HttpResponse, c_delivered = []\<rparr> =
     \<lparr>c_response = head_response (status_of code reason) reason hs n g, c_delivered = []\<rparr>"
proof -
  let ?c = "status_read code reason \<lparr>c_response = HttpResponse, c_delivered = []\<rparr>"
  let ?r = "\<lambda>g. HttpResponse\<lparr>r_status_code := status_of code reason, r_status_message := reason,
     r_header_fields := map fst hs, r_header_values := map snd hs, r_concat_value := g\<rparr>"
  have c: "?c = \<lparr>c_response = HttpResponse\<lparr>r_status_code := status_of code reason, r_status_message := reason\<rparr>, c_delivered = []\<rparr>"
    by (simp add: status_read_def status_of_def add_status_def set_status_def HttpResponse_def)
  then have "\<not> r_concat_field (c_response ?c)" by (simp add: HttpResponse_def)
  from fold_add_header [OF this, of hs] obtain g where "fold add_header hs ?c = \<lparr>c_response = ?r g, c_delivered = []\<rparr>"
    unfolding c by (auto simp: HttpResponse_def)
  moreover have "set_headers_complete (?r g) = (?r g)\<lparr>r_expected_length := of_nat n\<rparr>"
    by (rule headers_complete_length [OF assms]) simp_all
  ultimately show ?thesis
    by (intro exI [of _ g]) (simp add: head_read_def headers_done_def head_response_def HttpResponse_def)
qed

section \<open>The body in the same buffer\<close>

lemma of_nat_not_max: "n < 2 ^ 60 \<Longrightarrow> (of_nat n :: u64) \<noteq> ULLONG_MAX"
proof
  assume n: "n < 2 ^ 60" "(of_nat n :: u64) = ULLONG_MAX"
  have "unat (of_nat (Suc n) :: u64) = Suc n" using n(1) by (intro unat_of_nat_small) simp
  moreover have "of_nat (Suc n) = (0 :: u64)" using n(2) by (simp add: ULLONG_MAX_def)
  ultimately show False by simp
qed

lemma body_none:
  assumes "hp_errno pr = HPE_OK"
  shows "execute_loop 1 S data (here pr c (length data) ch s_body_identity no_marks) =
     Done (length data) (pr\<lparr>hp_state := s_body_identity\<rparr>) c"
  using assms by (simp add: execute_end_plain RETURN_def upd_def)

section \<open>Receiving a response\<close>

lemma execute_from:
  assumes "steps (HttpParser h b) data (entry (http_parser_init HTTP_RESPONSE) c) y" "execute_loop m (HttpParser h b) data y = r"
    and "r \<noteq> No_fuel" "data \<noteq> []" "length data \<le> 80 * 1024"
  shows "http_parser_execute (HttpParser h b) data (http_parser_init HTTP_RESPONSE) c = r"
proof -
  let ?S = "HttpParser h b" and ?pr = "http_parser_init HTTP_RESPONSE"
  have run: "http_parser_execute ?S data ?pr c = execute_loop (execute_fuel data) ?S data (entry ?pr c)"
    using assms(4) by (simp add: http_parser_execute_def http_parser_init_def)
  have "http_parser_execute ?S data ?pr c \<noteq> No_fuel"
    using http.http_parser_execute_ok [OF http_parser_init_inv [of HTTP_RESPONSE], of data h b c] assms(5) by auto
  then show ?thesis unfolding run by (rule steps_result [OF assms(1-3)])
qed

lemma receive_response:
  assumes sink: "body_sink (HttpParser h b) deliver"
    and ok: "status_ok v code reason" "content_headers n hs" "n < 2 ^ 60"
    and small: "length (response_head v code reason hs @ piece) \<le> 80 * 1024"
    and ps: "[] \<notin> set ps" "length (piece @ concat ps) = n" "0 < n"
    and still: "\<not> r_completed (c_response (head_read code reason hs c))"
  shows "receive (HttpParser h b) (map Received ((response_head v code reason hs @ piece) # ps)) (http_parser_init HTTP_RESPONSE) c =
     Ex_response (complete (fold deliver (filter (\<lambda>s. s \<noteq> []) (piece # ps)) (head_read code reason hs c)))"
proof -
  let ?S = "HttpParser h b" and ?c = "head_read code reason hs c"
  let ?head = "response_head v code reason hs"
  define data where "data = ?head @ piece"
  have "?head \<noteq> []" by (simp add: response_head_def status_line_def)
  then have data: "data \<noteq> []" "length data \<le> 80 * 1024" "drop (length ?head) data = piece"
    "length ?head + length piece = length data"
    using small by (simp_all add: data_def)
  obtain pr ch where to: "steps ?S data (entry (http_parser_init HTTP_RESPONSE) c) (here pr ?c (length ?head) ch s_body_identity no_marks)"
      and pr: "head_ok (decimal_from 0 code) (of_nat n) True pr"
    using at_response_head [OF data_def data(2) ok(1,2) ps(3) ok(3), of h b c]
    unfolding at_rest_def gets_to_def by (auto simp: data_def)
  have n: "unat (hp_content_length pr) = n" and e: "hp_errno pr = HPE_OK"
    using pr ok(3) by (simp_all add: head_ok_def unat_of_nat_small)
  have max: "hp_content_length pr - of_nat (length s) \<noteq> ULLONG_MAX" if "length s \<le> n" for s :: string
    using of_nat_not_max [of "n - length s"] that ok(3) pr by (simp add: head_ok_def)
  have ps': "filter (\<lambda>s. s \<noteq> []) ps = ps" using ps(1) by (induction ps) auto
  note run = execute_from [OF to _ _ data(1,2)]
  have "receive ?S (Received data # map Received ps) (http_parser_init HTTP_RESPONSE) c =
     Ex_response (complete (fold deliver (filter (\<lambda>s. s \<noteq> []) (piece # ps)) ?c))"
  proof (cases "piece = []")
    case True
    have "http_parser_execute ?S data (http_parser_init HTTP_RESPONSE) c = Done (length data) (pr\<lparr>hp_state := s_body_identity\<rparr>) ?c"
      by (rule run [of 1]) (use body_none [OF e] data(4) True in auto)
    moreover have "receive ?S (map Received ps) (pr\<lparr>hp_state := s_body_identity\<rparr>) ?c = Ex_response (complete (fold deliver ps ?c))"
      by (rule body_sink.receive_body [OF sink]) (use e n ps max [of "[]"] still True in auto)
    ultimately show ?thesis using data(1) still True ps' by simp
  next
    case False
    show ?thesis
    proof (cases "ps = []")
      case True
      let ?pr = "pr\<lparr>hp_content_length := 0, hp_state := s_message_done\<rparr>"
      let ?pr' = "?pr\<lparr>hp_state := NEW_MESSAGE ?pr\<rparr>"
      have "http_parser_execute ?S data (http_parser_init HTTP_RESPONSE) c = Done (length data) ?pr' (complete (deliver piece ?c))"
        by (rule run [OF body_sink.body_last_at [OF sink e data(3,4) False]]) (use n data(2) ps(2) True max [of "[]"] in auto)
      moreover have "finish_response ?S ?pr' (complete (deliver piece ?c)) = Ex_response (complete (deliver piece ?c))"
        by (rule finish_response_idle) (use e NEW_MESSAGE_cases in auto)
      ultimately show ?thesis using data(1) False True by simp
    next
      case more: False
      have "0 < length (concat ps)" using ps(1) more by (cases ps) auto
      moreover have "length piece + length (concat ps) = n" using ps(2) by simp
      ultimately have less: "length piece < n" by linarith
      let ?pr = "pr\<lparr>hp_content_length := hp_content_length pr - of_nat (length piece), hp_state := s_body_identity\<rparr>"
      have "http_parser_execute ?S data (http_parser_init HTTP_RESPONSE) c = Done (length data) ?pr (deliver piece ?c)"
        by (rule run [OF body_sink.body_part_at [OF sink e data(3,4) False]]) (use n data(2) less max [of "[]"] in auto)
      moreover have "unat (of_nat (length piece) :: u64) = length piece"
        using less ok(3) by (intro unat_of_nat_small) simp
      then have "unat (hp_content_length pr - of_nat (length piece)) = n - length piece"
        using less n by (subst unat_sub) (simp_all add: word_le_nat_alt)
      then have "receive ?S (map Received ps) ?pr (deliver piece ?c) = Ex_response (complete (fold deliver ps (deliver piece ?c)))"
        by (intro body_sink.receive_body [OF sink]) (use e ps more less max [of piece] still body_sink.still_open [OF sink] in auto)
      ultimately show ?thesis
        using data(1) False ps' still body_sink.still_open [OF sink] by simp
    qed
  qed
  then show ?thesis by (simp only: data_def list.map)
qed

lemma copy_body_head [simp]:
  "r_status_code (copy_body at r) = r_status_code r" "r_status_message (copy_body at r) = r_status_message r"
  "r_header_fields (copy_body at r) = r_header_fields r" "r_header_values (copy_body at r) = r_header_values r"
  by (simp_all add: copy_body_def Let_def split: option.splits)

lemma set_body_head [simp]:
  "r_status_code (set_body heap_ok at r) = r_status_code r" "r_status_message (set_body heap_ok at r) = r_status_message r"
  "r_header_fields (set_body heap_ok at r) = r_header_fields r" "r_header_values (set_body heap_ok at r) = r_header_values r"
  by (simp_all add: set_body_def Let_def split: option.splits)

text \<open>What a response says before its body.\<close>

definition head_of :: "client \<Rightarrow> int \<times> string \<times> string list \<times> string list" where
  "head_of c = (r_status_code (c_response c), r_status_message (c_response c),
     r_header_fields (c_response c), r_header_values (c_response c))"

lemma fold_head:
  "head_of (fold (store heap_ok) ps c) = head_of c" "head_of (fold hand_on ps c) = head_of c"
  by (induction ps arbitrary: c) (simp_all add: head_of_def store_def hand_on_def counted_def)

lemma head_response_head:
  "head_of \<lparr>c_response = head_response code reason hs n g, c_delivered = d\<rparr> = (code, reason, map fst hs, map snd hs)"
  by (simp add: head_of_def head_response_def)

lemma complete_head: "head_of (complete c) = head_of c"
  by (simp add: head_of_def)

lemma head_read_open:
  assumes "content_headers n hs" "n < 2 ^ 31"
  shows "\<not> r_completed (c_response (head_read code reason hs \<lparr>c_response = HttpResponse, c_delivered = []\<rparr>))"
  using head_read_response [OF assms, of code reason] by (auto simp: head_response_def HttpResponse_def)

text \<open>
  C4: With a body callback a well-formed response is received as it was sent. For a status line with
  a reason phrase, headers of which one is Content-Length, an empty line and as many bytes of body as
  it says, the first \<open>recv\<close> giving the whole head and perhaps the beginning of the body, and the rest
  of the body coming in any pieces: the exchange ends with a completed response that has the code,
  the phrase, and the fields and values of all headers in their order, and the callback got the
  pieces of the body, in order and nothing else. Without a reason phrase the code is 0
  (\<open>status_of\<close>).
\<close>

theorem response_delivered:
  assumes "status_ok v code reason" "content_headers n hs" "n < 2 ^ 31"
    and "length (response_head v code reason hs @ piece) \<le> 80 * 1024"
    and "[] \<notin> set ps" "length (piece @ concat ps) = n" "0 < n"
  shows "\<exists>c. create_http_response heap_ok True (map Received ((response_head v code reason hs @ piece) # ps)) = Ex_response c \<and>
     head_of c = (status_of code reason, reason, map fst hs, map snd hs) \<and> r_completed (c_response c) \<and>
     c_delivered c = filter (\<lambda>s. s \<noteq> []) (piece # ps)"
proof -
  let ?c = "\<lparr>c_response = HttpResponse, c_delivered = []\<rparr>"
  have n: "n < 2 ^ 60" using assms(3) by simp
  note recv = receive_response [OF handing.body_sink_axioms assms(1,2) n assms(4-7) head_read_open [OF assms(2,3)]]
  obtain g where "head_read code reason hs ?c = \<lparr>c_response = head_response (status_of code reason) reason hs n g, c_delivered = []\<rparr>"
    using head_read_response [OF assms(2,3)] by blast
  then show ?thesis
    unfolding create_http_response_def recv
    by (auto simp: complete_head fold_head head_response_head fold_hand_on simp del: fold.simps filter.simps)
qed

lemma response_delivered_witness:
  "\<exists>c. create_http_response (\<lambda>n. True) True (map Received ((response_head (CHR ''1'') ''404'' ''Not Found''
       [(''Server'', ''nginx''), (''Content-Length'', ''5''), (''Connection'', ''close'')] @ ''he'') # [''l'', ''lo''])) = Ex_response c \<and>
     head_of c = (404, ''Not Found'', [''Server'', ''Content-Length'', ''Connection''], [''nginx'', ''5'', ''close'']) \<and>
     r_completed (c_response c) \<and> c_delivered c = [''he'', ''l'', ''lo'']"
proof -
  have ok: "status_ok (CHR ''1'') ''404'' ''Not Found''" by code_simp
  have hs: "content_headers 5 [(''Server'', ''nginx''), (''Content-Length'', ''5''), (''Connection'', ''close'')]" by code_simp
  have small: "length (response_head (CHR ''1'') ''404'' ''Not Found''
      [(''Server'', ''nginx''), (''Content-Length'', ''5''), (''Connection'', ''close'')] @ ''he'') \<le> 80 * 1024"
    by (simp add: response_head_def status_line_def header_text_def)
  have code: "status_of ''404'' ''Not Found'' = 404" by code_simp
  show ?thesis
    using response_delivered [OF ok hs _ small, of "[''l'', ''lo'']" "\<lambda>n. True"] code by simp
qed

text \<open>
  C3: Without a body callback, and with memory to allocate, the same response is kept whole: its
  object has the code, the phrase and the headers, the body as one string, and no byte was written
  outside the block that was allocated for the body.
\<close>

theorem response_received:
  assumes "status_ok v code reason" "content_headers n hs" "n < 2 ^ 31"
    and "length (response_head v code reason hs @ piece) \<le> 80 * 1024"
    and "[] \<notin> set ps" "length (piece @ concat ps) = n" "0 < n" and "\<And>n. heap_ok n"
  shows "\<exists>c. create_http_response heap_ok False (map Received ((response_head v code reason hs @ piece) # ps)) = Ex_response c \<and>
     head_of c = (status_of code reason, reason, map fst hs, map snd hs) \<and> r_completed (c_response c) \<and>
     get_body_as_string (c_response c) = piece @ concat ps \<and> \<not> r_fault (c_response c)"
proof -
  let ?c = "\<lparr>c_response = HttpResponse, c_delivered = []\<rparr>" and ?ps = "filter (\<lambda>s. s \<noteq> []) (piece # ps)"
  have n: "n < 2 ^ 60" using assms(3) by simp
  note recv = receive_response [OF storing.body_sink_axioms assms(1,2) n assms(4-7) head_read_open [OF assms(2,3)]]
  obtain g where c: "head_read code reason hs ?c = \<lparr>c_response = head_response (status_of code reason) reason hs n g, c_delivered = []\<rparr>"
    using head_read_response [OF assms(2,3)] by blast
  let ?r = "head_response (status_of code reason) reason hs n g"
  have ps: "concat ?ps = piece @ concat ps" by (induction ps) auto
  have "unat (of_nat n :: u32) = n" using assms(3) by (intro unat_of_nat_small) simp
  then have room: "holds [] ?r" "room (length (concat ?ps)) [] ?r" "\<not> r_fault ?r"
    unfolding ps using assms(3,6) by (simp_all add: holds_def room_def head_response_def HttpResponse_def)
  have "holds (piece @ concat ps) (c_response (fold (store heap_ok) ?ps \<lparr>c_response = ?r, c_delivered = []\<rparr>))"
    "\<not> r_fault (c_response (fold (store heap_ok) ?ps \<lparr>c_response = ?r, c_delivered = []\<rparr>))"
    using fold_store [of heap_ok "[]" "\<lparr>c_response = ?r, c_delivered = []\<rparr>" ?ps] assms(8) room ps by simp_all
  then show ?thesis
    unfolding create_http_response_def recv c
    by (auto simp: complete_head fold_head head_response_head holds_get simp del: fold.simps filter.simps)
qed

lemma response_received_witness:
  "\<exists>c. create_http_response (\<lambda>n. True) False (map Received ((response_head (CHR ''1'') ''200'' ''OK''
       [(''Content-length'', ''04''), (''X'', ''a: b'')] @ []) # [''da'', ''ta''])) = Ex_response c \<and>
     head_of c = (200, ''OK'', [''Content-length'', ''X''], [''04'', ''a: b'']) \<and>
     r_completed (c_response c) \<and> get_body_as_string (c_response c) = ''data'' \<and> \<not> r_fault (c_response c)"
proof -
  have ok: "status_ok (CHR ''1'') ''200'' ''OK''" by code_simp
  have hs: "content_headers 4 [(''Content-length'', ''04''), (''X'', ''a: b'')]" by code_simp
  have small: "length (response_head (CHR ''1'') ''200'' ''OK'' [(''Content-length'', ''04''), (''X'', ''a: b'')] @ []) \<le> 80 * 1024"
    by (simp add: response_head_def status_line_def header_text_def)
  have code: "status_of ''200'' ''OK'' = 200" by code_simp
  show ?thesis
    using response_received [OF ok hs _ small, of "[''da'', ''ta'']" "\<lambda>n. True"] code by simp
qed

text \<open>
  A defect: the reason phrase may be empty (RFC 7230, 3.1.2), but the parser calls \<open>on_status\<close>
  only for a phrase, and the client takes the code only in this callback. After a well-formed
  response without a phrase, received and completed with all of its headers and body, the status code
  is 0, whatever the server sent.
\<close>

theorem empty_reason_loses_code:
  assumes "status_ok v code []" "content_headers n hs" "n < 2 ^ 31"
    and "length (response_head v code [] hs @ body) \<le> 80 * 1024" "length body = n" "0 < n"
  shows "\<exists>c. create_http_response heap_ok True [Received (response_head v code [] hs @ body)] = Ex_response c \<and>
     r_completed (c_response c) \<and> c_delivered c = [body] \<and> r_header_fields (c_response c) = map fst hs \<and>
     r_status_code (c_response c) = 0"
proof -
  let ?S = "HttpParser heap_ok True" and ?c = "\<lparr>c_response = HttpResponse, c_delivered = []\<rparr>"
  obtain g where c: "head_read code [] hs ?c = \<lparr>c_response = head_response 0 [] hs n g, c_delivered = []\<rparr>"
    using head_read_response [OF assms(2,3), of code "[]"] by (auto simp: status_of_def)
  have "receive ?S (map Received ((response_head v code [] hs @ body) # [])) (http_parser_init HTTP_RESPONSE) ?c =
      Ex_response (complete (fold hand_on (filter (\<lambda>s. s \<noteq> []) [body]) (head_read code [] hs ?c)))"
    by (rule receive_response [OF handing.body_sink_axioms assms(1,2)])
      (use assms(3-6) head_read_open [OF assms(2,3)] in simp_all)
  moreover have "body \<noteq> []" using assms(5,6) by auto
  ultimately show ?thesis
    by (simp add: create_http_response_def c hand_on_def counted_def head_response_def)
qed

lemma empty_reason_loses_code_witness:
  "\<exists>c. create_http_response (\<lambda>n. True) True [Received (response_head (CHR ''1'') ''404'' [] [(''Content-Length'', ''1'')] @ ''x'')] = Ex_response c \<and>
     r_completed (c_response c) \<and> c_delivered c = [''x''] \<and> r_header_fields (c_response c) = [''Content-Length''] \<and>
     r_status_code (c_response c) = 0"
proof -
  have ok: "status_ok (CHR ''1'') ''404'' []" by code_simp
  have hs: "content_headers 1 [(''Content-Length'', ''1'')]" by code_simp
  have small: "length (response_head (CHR ''1'') ''404'' [] [(''Content-Length'', ''1'')] @ ''x'') \<le> 80 * 1024"
    by (simp add: response_head_def status_line_def header_text_def)
  show ?thesis
    using empty_reason_loses_code [OF ok hs _ small, of "\<lambda>n. True"] by simp
qed

end
