(* ===== verification/HttpUrl.thy ===== *)
theory HttpUrl
  imports HttpUrlChar
begin

text \<open>
  \<open>http_parser_parse_url\<close> and \<open>http_parse_host\<close> of \<open>http_parser.c\<close>: a request target is cut into
  fields, each a pair of 16-bit offset and length into the buffer. The buffer is the memory from
  \<open>buf\<close> on, which may go on after \<open>buflen\<close>: \<open>strtoul\<close> is not told where the URL ends. A failed
  assertion and a read past the memory are \<open>None\<close>.
\<close>

section \<open>The result structure\<close>

datatype http_parser_url_fields =
  UF_SCHEMA | UF_HOST | UF_PORT | UF_PATH | UF_QUERY | UF_FRAGMENT | UF_USERINFO | UF_MAX

fun uf_num :: "http_parser_url_fields \<Rightarrow> nat" where
  "uf_num UF_SCHEMA = 0"
| "uf_num UF_HOST = 1"
| "uf_num UF_PORT = 2"
| "uf_num UF_PATH = 3"
| "uf_num UF_QUERY = 4"
| "uf_num UF_FRAGMENT = 5"
| "uf_num UF_USERINFO = 6"
| "uf_num UF_MAX = 7"

record url_field =
  f_off :: u16
  f_len :: u16

record http_parser_url =
  field_set :: u16
  port :: u16
  field_data :: "http_parser_url_fields \<Rightarrow> url_field"

definition http_parser_url_init :: http_parser_url where
  "http_parser_url_init = \<lparr>field_set = 0, port = 0, field_data = (\<lambda>_. \<lparr>f_off = 0, f_len = 0\<rparr>)\<rparr>"

text \<open>\<open>u->field_set & (1 << uf)\<close> and the three updates the code makes to a field.\<close>

definition is_set :: "http_parser_url_fields \<Rightarrow> http_parser_url \<Rightarrow> bool" where
  "is_set uf u \<longleftrightarrow> bit (field_set u) (uf_num uf)"

definition uf_mask :: "http_parser_url_fields \<Rightarrow> u16" where
  "uf_mask uf = 2 ^ uf_num uf"

definition mark_field :: "http_parser_url_fields \<Rightarrow> http_parser_url \<Rightarrow> http_parser_url" where
  "mark_field uf u = u\<lparr>field_set := or (field_set u) (uf_mask uf)\<rparr>"

definition put_field :: "http_parser_url_fields \<Rightarrow> nat \<Rightarrow> u16 \<Rightarrow> http_parser_url \<Rightarrow> http_parser_url" where
  "put_field uf off n u =
     u\<lparr>field_data := (field_data u)(uf := \<lparr>f_off = of_nat off, f_len = n\<rparr>)\<rparr>"

definition grow_field :: "http_parser_url_fields \<Rightarrow> http_parser_url \<Rightarrow> http_parser_url" where
  "grow_field uf u =
     u\<lparr>field_data := (field_data u)(uf := (field_data u uf)\<lparr>f_len := f_len (field_data u uf) + 1\<rparr>)\<rparr>"

definition field_start :: "http_parser_url_fields \<Rightarrow> http_parser_url \<Rightarrow> nat" where
  "field_start uf u = unat (f_off (field_data u uf))"

definition field_size :: "http_parser_url_fields \<Rightarrow> http_parser_url \<Rightarrow> nat" where
  "field_size uf u = unat (f_len (field_data u uf))"

definition field_text :: "string \<Rightarrow> http_parser_url_fields \<Rightarrow> http_parser_url \<Rightarrow> string" where
  "field_text buf uf u = slice buf (field_start uf u) (field_size uf u)"

section \<open>The host\<close>

datatype (plugins only: code size) http_host_state =
    s_http_host_dead | s_http_userinfo_start | s_http_userinfo | s_http_host_start
  | s_http_host_v6_start | s_http_host | s_http_host_v6 | s_http_host_v6_end
  | s_http_host_v6_zone_start | s_http_host_v6_zone | s_http_host_port_start
  | s_http_host_port

definition zone_char :: "char \<Rightarrow> bool" where
  "zone_char ch \<longleftrightarrow> IS_ALPHANUM ch \<or> ch \<in> {CHR ''%'', CHR ''.'', CHR ''-'', CHR ''_'', CHR ''~''}"

fun http_parse_host_char :: "http_host_state \<Rightarrow> char \<Rightarrow> http_host_state" where
  "http_parse_host_char s_http_userinfo ch =
     (if ch = CHR ''@'' then s_http_host_start
      else if IS_USERINFO_CHAR ch then s_http_userinfo else s_http_host_dead)"
| "http_parse_host_char s_http_userinfo_start ch =
     (if ch = CHR ''@'' then s_http_host_start
      else if IS_USERINFO_CHAR ch then s_http_userinfo else s_http_host_dead)"
| "http_parse_host_char s_http_host_start ch =
     (if ch = CHR ''['' then s_http_host_v6_start
      else if IS_HOST_CHAR ch then s_http_host else s_http_host_dead)"
| "http_parse_host_char s_http_host ch =
     (if IS_HOST_CHAR ch then s_http_host
      else if ch = CHR '':'' then s_http_host_port_start else s_http_host_dead)"
| "http_parse_host_char s_http_host_v6_end ch =
     (if ch = CHR '':'' then s_http_host_port_start else s_http_host_dead)"
| "http_parse_host_char s_http_host_v6 ch =
     (if ch = CHR '']'' then s_http_host_v6_end
      else if IS_HEX ch \<or> ch = CHR '':'' \<or> ch = CHR ''.'' then s_http_host_v6
      else if ch = CHR ''%'' then s_http_host_v6_zone_start else s_http_host_dead)"
| "http_parse_host_char s_http_host_v6_start ch =
     (if IS_HEX ch \<or> ch = CHR '':'' \<or> ch = CHR ''.'' then s_http_host_v6 else s_http_host_dead)"
| "http_parse_host_char s_http_host_v6_zone ch =
     (if ch = CHR '']'' then s_http_host_v6_end
      else if zone_char ch then s_http_host_v6_zone else s_http_host_dead)"
| "http_parse_host_char s_http_host_v6_zone_start ch =
     (if zone_char ch then s_http_host_v6_zone else s_http_host_dead)"
| "http_parse_host_char s_http_host_port ch =
     (if IS_NUM ch then s_http_host_port else s_http_host_dead)"
| "http_parse_host_char s_http_host_port_start ch =
     (if IS_NUM ch then s_http_host_port else s_http_host_dead)"
| "http_parse_host_char s_http_host_dead ch = s_http_host_dead"

text \<open>The \<open>switch (new_s)\<close> of \<open>http_parse_host\<close>, at offset \<open>p\<close>.\<close>

fun host_step :: "http_host_state \<Rightarrow> http_host_state \<Rightarrow> nat \<Rightarrow> http_parser_url \<Rightarrow> http_parser_url" where
  "host_step s s_http_host p u =
     grow_field UF_HOST
       (if s \<noteq> s_http_host then put_field UF_HOST p (f_len (field_data u UF_HOST)) u else u)"
| "host_step s s_http_host_v6 p u =
     grow_field UF_HOST
       (if s \<noteq> s_http_host_v6 then put_field UF_HOST p (f_len (field_data u UF_HOST)) u else u)"
| "host_step s s_http_host_v6_zone_start p u = grow_field UF_HOST u"
| "host_step s s_http_host_v6_zone p u = grow_field UF_HOST u"
| "host_step s s_http_host_port p u =
     grow_field UF_PORT
       (if s \<noteq> s_http_host_port then mark_field UF_PORT (put_field UF_PORT p 0 u) else u)"
| "host_step s s_http_userinfo p u =
     grow_field UF_USERINFO
       (if s \<noteq> s_http_userinfo then mark_field UF_USERINFO (put_field UF_USERINFO p 0 u) else u)"
| "host_step s _ p u = u"

text \<open>The loop over the host's bytes: the last state and the fields, or \<open>None\<close> for \<open>return 1\<close>.\<close>

fun host_loop ::
    "http_host_state \<Rightarrow> nat \<Rightarrow> string \<Rightarrow> http_parser_url \<Rightarrow> http_host_state option \<times> http_parser_url" where
  "host_loop s p [] u = (Some s, u)"
| "host_loop s p (ch # rest) u =
     (let new_s = http_parse_host_char s ch
      in if new_s = s_http_host_dead then (None, u)
         else host_loop new_s (p + 1) rest (host_step s new_s p u))"

definition host_complete :: "http_host_state \<Rightarrow> bool" where
  "host_complete s \<longleftrightarrow>
     s \<notin> {s_http_host_start, s_http_host_v6_start, s_http_host_v6, s_http_host_v6_zone_start,
          s_http_host_v6_zone, s_http_host_port_start, s_http_userinfo, s_http_userinfo_start}"

definition http_parse_host :: "string \<Rightarrow> http_parser_url \<Rightarrow> bool \<Rightarrow> (nat \<times> http_parser_url) option" where
  "http_parse_host buf u found_at =
     (let start = field_start UF_HOST u; size = field_size UF_HOST u;
          u1 = put_field UF_HOST start 0 u
      in if \<not> is_set UF_HOST u \<or> start + size > length buf then None
         else case host_loop (if found_at then s_http_userinfo_start else s_http_host_start)
                     start (slice buf start size) u1 of
                (None, u') \<Rightarrow> Some (1, u')
              | (Some s, u') \<Rightarrow> Some (if host_complete s then 0 else 1, u'))"

section \<open>The URL\<close>

text \<open>What the \<open>switch (s)\<close> of the loop finds: the end, a delimiter, or a field.\<close>

datatype url_piece = Piece_dead | Piece_delimiter | Piece http_parser_url_fields | Piece_unexpected

fun piece_of :: "state \<Rightarrow> url_piece" where
  "piece_of s_dead = Piece_dead"
| "piece_of s_req_schema_slash = Piece_delimiter"
| "piece_of s_req_schema_slash_slash = Piece_delimiter"
| "piece_of s_req_server_start = Piece_delimiter"
| "piece_of s_req_query_string_start = Piece_delimiter"
| "piece_of s_req_fragment_start = Piece_delimiter"
| "piece_of s_req_schema = Piece UF_SCHEMA"
| "piece_of s_req_server_with_at = Piece UF_HOST"
| "piece_of s_req_server = Piece UF_HOST"
| "piece_of s_req_path = Piece UF_PATH"
| "piece_of s_req_query_string = Piece UF_QUERY"
| "piece_of s_req_fragment = Piece UF_FRAGMENT"
| "piece_of _ = Piece_unexpected"

text \<open>
  The loop, with \<open>old_uf\<close> and \<open>found_at\<close>: \<open>Some (Some found_at, u)\<close> at the end of the buffer,
  \<open>Some (None, u)\<close> for \<open>return 1\<close>, \<open>None\<close> for the assertion.
\<close>

fun url_loop ::
    "state \<Rightarrow> http_parser_url_fields \<Rightarrow> bool \<Rightarrow> nat \<Rightarrow> string \<Rightarrow> http_parser_url \<Rightarrow>
     (bool option \<times> http_parser_url) option" where
  "url_loop s old_uf found_at p [] u = Some (Some found_at, u)"
| "url_loop s old_uf found_at p (ch # rest) u =
     (let s = parse_url_char s ch;
          found_at = (found_at \<or> s = s_req_server_with_at)
      in case piece_of s of
           Piece_dead \<Rightarrow> Some (None, u)
         | Piece_delimiter \<Rightarrow> url_loop s old_uf found_at (p + 1) rest u
         | Piece_unexpected \<Rightarrow> None
         | Piece uf \<Rightarrow>
             url_loop s uf found_at (p + 1) rest
               (if uf = old_uf then grow_field uf u else mark_field uf (put_field uf p 1 u)))"

text \<open>
  \<open>strtoul(s, NULL, 10)\<close> on a string that starts with a digit: the digits up to the first other
  byte, \<open>ULONG_MAX\<close> if they are too many; \<open>None\<close> when the memory ends first.
\<close>

fun digits_value :: "nat \<Rightarrow> string \<Rightarrow> nat option" where
  "digits_value v [] = None"
| "digits_value v (ch # rest) =
     (if IS_NUM ch then digits_value (v * 10 + digit_val ch) rest else Some v)"

definition strtoul :: "string \<Rightarrow> nat option" where
  "strtoul s = map_option (\<lambda>v. min v (2 ^ 32 - 1)) (digits_value 0 s)"

definition http_parser_parse_url ::
    "string \<Rightarrow> nat \<Rightarrow> bool \<Rightarrow> http_parser_url \<Rightarrow> (nat \<times> http_parser_url) option" where
  "http_parser_parse_url buf buflen is_connect u =
     (if buflen > length buf then None
      else case url_loop (if is_connect then s_req_server_start else s_req_spaces_before_url)
                  UF_MAX False 0 (take buflen buf) (u\<lparr>port := 0, field_set := 0\<rparr>) of
        None \<Rightarrow> None
      | Some (None, u) \<Rightarrow> Some (1, u)
      | Some (Some found_at, u) \<Rightarrow>
          (if is_set UF_SCHEMA u \<and> \<not> is_set UF_HOST u then Some (1, u)
           else case (if is_set UF_HOST u then http_parse_host buf u found_at else Some (0, u)) of
             None \<Rightarrow> None
           | Some (r, u) \<Rightarrow>
               (if r \<noteq> 0 then Some (1, u)
                else if is_connect \<and> field_set u \<noteq> or (uf_mask UF_HOST) (uf_mask UF_PORT)
                then Some (1, u)
                else if is_set UF_PORT u then
                  (case strtoul (drop (field_start UF_PORT u) buf) of
                     None \<Rightarrow> None
                   | Some v \<Rightarrow> if v > 65535 then Some (1, u)
                               else Some (0, u\<lparr>port := of_nat v\<rparr>))
                else Some (0, u))))"

end
