(* ===== verification/HttpUrlSafety.thy ===== *)
theory HttpUrlSafety
  imports HttpUrl
begin

text \<open>
  What \<open>http_parser_parse_url\<close> promises: for a URL shorter than 64K it never reads outside the
  buffer, and the fields it reports lie inside the URL; the port is the value of its digits when
  the byte after the URL is no digit.
\<close>

section \<open>Where the fields lie\<close>

text \<open>The end of a field, as the caller computes it.\<close>

definition field_end :: "http_parser_url_fields \<Rightarrow> http_parser_url \<Rightarrow> nat" where
  "field_end uf u = field_start uf u + field_size uf u"

lemmas field_simps = field_end_def field_start_def field_size_def

lemma is_set_mark [simp]:
  assumes "uf \<noteq> UF_MAX" "uf' \<noteq> UF_MAX"
  shows "is_set uf (mark_field uf' u) \<longleftrightarrow> uf = uf' \<or> is_set uf u"
  using assms by (cases uf; cases uf')
    (simp_all add: is_set_def mark_field_def uf_mask_def bit_or_iff bit_2_iff bit_exp_iff bit_1_iff)

lemma is_set_frame [simp]:
  "is_set uf (put_field f p n u) = is_set uf u"
  "is_set uf (grow_field f u) = is_set uf u"
  "is_set uf (u\<lparr>port := q\<rparr>) = is_set uf u"
  by (simp_all add: is_set_def put_field_def grow_field_def)

lemma field_data_frame [simp]:
  "field_data (mark_field f u) = field_data u"
  by (simp add: mark_field_def)

lemma field_put [simp]:
  assumes "p < 2 ^ 16"
  shows "field_start uf (put_field f p n u) = (if uf = f then p else field_start uf u)"
    and "field_size uf (put_field f p n u) = (if uf = f then unat n else field_size uf u)"
  using assms by (simp_all add: field_start_def field_size_def put_field_def unat_of_nat_small)

lemma field_mark [simp]:
  "field_start uf (mark_field f u) = field_start uf u"
  "field_size uf (mark_field f u) = field_size uf u"
  by (simp_all add: field_start_def field_size_def)

lemma field_grow:
  assumes "field_size f u < 2 ^ 16 - 1"
  shows "field_start uf (grow_field f u) = field_start uf u"
    and "field_size uf (grow_field f u) = (if uf = f then field_size f u + 1 else field_size uf u)"
proof -
  show "field_start uf (grow_field f u) = field_start uf u"
    by (simp add: field_start_def grow_field_def)
  have "unat (f_len (field_data u f) + 1) = unat (f_len (field_data u f)) + 1"
    using assms by (simp add: field_size_def unat_word_ariths)
  then show "field_size uf (grow_field f u) = (if uf = f then field_size f u + 1 else field_size uf u)"
    by (simp add: field_size_def grow_field_def)
qed

lemma field_port_frame [simp]:
  "field_start uf (u\<lparr>port := q\<rparr>) = field_start uf u"
  "field_size uf (u\<lparr>port := q\<rparr>) = field_size uf u"
  by (simp_all add: field_simps)

subsection \<open>The loop over the URL\<close>

definition main_fields :: "http_parser_url_fields set" where
  "main_fields = {UF_SCHEMA, UF_HOST, UF_PATH, UF_QUERY, UF_FRAGMENT}"

definition before_host :: "state set" where
  "before_host = {s_req_spaces_before_url, s_req_schema, s_req_schema_slash,
     s_req_schema_slash_slash, s_req_server_start}"

text \<open>
  The invariant at offset \<open>p\<close>: the fields set are not empty and end at or before \<open>p\<close>, the port
  and the user are not set yet, and a host ends at \<open>p\<close> or before a byte that is no digit.
\<close>

definition url_inv ::
    "string \<Rightarrow> state \<Rightarrow> http_parser_url_fields \<Rightarrow> nat \<Rightarrow> http_parser_url \<Rightarrow> bool" where
  "url_inv buf s old p u \<longleftrightarrow>
     s \<in> insert s_req_spaces_before_url url_states \<and>
     (\<forall>f \<in> main_fields. is_set f u \<longrightarrow> 1 \<le> field_size f u \<and> field_end f u \<le> p) \<and>
     \<not> is_set UF_PORT u \<and> \<not> is_set UF_USERINFO u \<and>
     (old \<noteq> UF_MAX \<longrightarrow> old \<in> main_fields \<and> is_set old u) \<and>
     (s \<in> before_host \<longrightarrow> old \<noteq> UF_HOST) \<and>
     (is_set UF_HOST u \<longrightarrow>
        (if s \<in> {s_req_server, s_req_server_with_at} then field_end UF_HOST u = p \<and> old = UF_HOST
         else field_end UF_HOST u < p \<and> \<not> IS_NUM (buf ! field_end UF_HOST u)))"
lemma url_char_facts:
  assumes "parse_url_char s ch \<noteq> s_dead"
  defines "s' \<equiv> parse_url_char s ch"
  shows "s' \<in> url_states"
    and "s' \<in> {s_req_server, s_req_server_with_at} \<Longrightarrow>
           s \<in> {s_req_server_start, s_req_server, s_req_server_with_at}"
    and "s \<in> {s_req_server, s_req_server_with_at} \<Longrightarrow>
           s' \<notin> {s_req_server, s_req_server_with_at} \<Longrightarrow> \<not> IS_NUM ch \<and> s' \<notin> before_host"
    and "s' \<in> before_host \<Longrightarrow> s \<in> before_host"
proof -
  show "s' \<in> url_states"
    using assms(1) unfolding s'_def by (rule parse_url_char_closed)
  show "s \<in> {s_req_server_start, s_req_server, s_req_server_with_at}"
    if "s' \<in> {s_req_server, s_req_server_with_at}"
    using that unfolding s'_def
    by (cases s) (auto simp: parse_url_char_def split: if_splits)
  show "\<not> IS_NUM ch \<and> s' \<notin> before_host"
    if "s \<in> {s_req_server, s_req_server_with_at}" "s' \<notin> {s_req_server, s_req_server_with_at}"
    using that assms(1) unfolding s'_def
    by (auto simp: parse_url_char_def server_char_def before_host_def IS_NUM_def in_range_def c_ord_def split: if_splits)
  show "s \<in> before_host" if "s' \<in> before_host"
    using that unfolding s'_def
    by (cases s) (auto simp: parse_url_char_def server_char_def before_host_def split: if_splits)
qed

lemma piece_cases:
  assumes "s \<in> url_states"
  obtains "piece_of s = Piece_delimiter" "s \<notin> {s_req_server, s_req_server_with_at}"
  | f where "piece_of s = Piece f" "f \<in> main_fields" "f \<noteq> UF_HOST"
      "s \<notin> {s_req_server, s_req_server_with_at}"
  | "piece_of s = Piece UF_HOST" "s \<in> {s_req_server, s_req_server_with_at}"
  using assms by (auto simp: url_states_def main_fields_def)

lemma url_inv_step_delimiter:
  assumes inv: "url_inv buf s old p u" and live: "parse_url_char s (buf ! p) \<noteq> s_dead"
    and piece: "parse_url_char s (buf ! p) \<notin> {s_req_server, s_req_server_with_at}"
  shows "url_inv buf (parse_url_char s (buf ! p)) old (p + 1) u"
  using inv piece url_char_facts [OF live]
  by (auto simp: url_inv_def split: if_splits)

lemma url_inv_step_grow:
  assumes inv: "url_inv buf s f p u" and live: "parse_url_char s (buf ! p) \<noteq> s_dead"
    and f: "piece_of (parse_url_char s (buf ! p)) = Piece f" and p: "p < 2 ^ 16 - 1"
  shows "url_inv buf (parse_url_char s (buf ! p)) f (p + 1) (grow_field f u)"
proof -
  let ?s = "parse_url_char s (buf ! p)"
  have f': "f \<in> main_fields" "f \<noteq> UF_MAX" "f = UF_HOST \<longleftrightarrow> ?s \<in> {s_req_server, s_req_server_with_at}"
    by (rule piece_cases [OF url_char_facts(1) [OF live]], use f in \<open>auto simp: main_fields_def\<close>)+
  have set: "is_set f u" "1 \<le> field_size f u" "field_end f u \<le> p"
    using inv f' by (auto simp: url_inv_def)
  then have size: "field_size f u < 2 ^ 16 - 1"
    using p by (simp add: field_end_def)
  have old: "s \<in> {s_req_server, s_req_server_with_at}" if "f = UF_HOST"
    using url_char_facts(2) [OF live] that f' inv by (auto simp: url_inv_def before_host_def)
  show ?thesis
    unfolding url_inv_def
  proof (intro conjI)
    show "\<forall>f' \<in> main_fields. is_set f' (grow_field f u) \<longrightarrow>
        1 \<le> field_size f' (grow_field f u) \<and> field_end f' (grow_field f u) \<le> p + 1"
      using inv set by (auto simp: url_inv_def field_end_def field_grow [OF size] le_Suc_eq)
    show "is_set UF_HOST (grow_field f u) \<longrightarrow>
        (if ?s \<in> {s_req_server, s_req_server_with_at}
         then field_end UF_HOST (grow_field f u) = p + 1 \<and> f = UF_HOST
         else field_end UF_HOST (grow_field f u) < p + 1 \<and>
              \<not> IS_NUM (buf ! field_end UF_HOST (grow_field f u)))"
    proof (cases "f = UF_HOST")
      case True
      then show ?thesis
        using inv old f' field_grow [OF size [unfolded True]]
        by (auto simp: url_inv_def field_end_def)
    next
      case False
      then have "s \<notin> {s_req_server, s_req_server_with_at}" if "is_set UF_HOST u"
        using inv that by (auto simp: url_inv_def)
      then show ?thesis
        using inv False f' by (auto simp: url_inv_def field_end_def field_grow [OF size])
    qed
  qed (use inv url_char_facts [OF live] f' in \<open>auto simp: url_inv_def\<close>)
qed

lemma url_inv_step_new:
  assumes inv: "url_inv buf s old p u" and live: "parse_url_char s (buf ! p) \<noteq> s_dead"
    and f: "piece_of (parse_url_char s (buf ! p)) = Piece f" and p: "p < 2 ^ 16"
  shows "url_inv buf (parse_url_char s (buf ! p)) f (p + 1) (mark_field f (put_field f p 1 u))"
proof -
  let ?s = "parse_url_char s (buf ! p)"
  have f': "f \<in> main_fields" "f \<noteq> UF_MAX" "f = UF_HOST \<longleftrightarrow> ?s \<in> {s_req_server, s_req_server_with_at}"
    by (rule piece_cases [OF url_char_facts(1) [OF live]], use f in \<open>auto simp: main_fields_def\<close>)+
  have main: "f' \<in> main_fields \<Longrightarrow> f' \<noteq> UF_MAX" for f' by (auto simp: main_fields_def)
  show ?thesis
    unfolding url_inv_def
  proof (intro conjI)
    let ?u = "mark_field f (put_field f p 1 u)"
    show "\<forall>f' \<in> main_fields. is_set f' ?u \<longrightarrow> 1 \<le> field_size f' ?u \<and> field_end f' ?u \<le> p + 1"
    proof
      fix f' assume "f' \<in> main_fields"
      then show "is_set f' ?u \<longrightarrow> 1 \<le> field_size f' ?u \<and> field_end f' ?u \<le> p + 1"
        using inv f' p main [of f'] by (auto simp: url_inv_def field_end_def le_Suc_eq)
    qed
    show "is_set UF_HOST ?u \<longrightarrow>
        (if ?s \<in> {s_req_server, s_req_server_with_at}
         then field_end UF_HOST ?u = p + 1 \<and> f = UF_HOST
         else field_end UF_HOST ?u < p + 1 \<and> \<not> IS_NUM (buf ! field_end UF_HOST ?u))"
    proof (cases "f = UF_HOST")
      case True
      then show ?thesis using f' p by (simp add: field_end_def)
    next
      case other: False
      show ?thesis
      proof (cases "s \<in> {s_req_server, s_req_server_with_at}")
        case True
        then show ?thesis
          using inv other f' p url_char_facts(3) [OF live]
          by (auto simp: url_inv_def field_end_def)
      next
        case False
        then show ?thesis
          using inv other f' p by (auto simp: url_inv_def field_end_def)
      qed
    qed
    show "\<not> is_set UF_PORT ?u" "\<not> is_set UF_USERINFO ?u"
      using inv f' by (auto simp: url_inv_def main_fields_def)
    show "?s \<in> before_host \<longrightarrow> f \<noteq> UF_HOST"
      using f' by (auto simp: before_host_def)
  qed (use inv url_char_facts [OF live] f' in \<open>auto simp: url_inv_def\<close>)
qed

theorem url_loop_inv:
  assumes "url_inv buf s old p u" "p + length rest \<le> length buf" "p + length rest < 2 ^ 16"
    and "rest = take (length rest) (drop p buf)"
  shows "\<exists>r u'. url_loop s old fa p rest u = Some (r, u') \<and>
     (\<forall>b. r = Some b \<longrightarrow> (\<exists>s' old'. url_inv buf s' old' (p + length rest) u'))"
  using assms
proof (induction rest arbitrary: s old p fa u)
  case Nil
  then show ?case by auto
next
  case (Cons ch rest)
  let ?s = "parse_url_char s ch"
  have p: "p < length buf" "p < 2 ^ 16 - 1" using Cons.prems by simp_all
  have ch: "buf ! p = ch"
    using Cons.prems(4) p(1) by (metis Cons_nth_drop_Suc length_Cons list.inject take_Suc_Cons)
  have rest: "rest = take (length rest) (drop (p + 1) buf)"
    using Cons.prems(4) p(1) by (metis Cons_nth_drop_Suc Suc_eq_plus1 length_Cons list.inject take_Suc_Cons)
  have go: "\<exists>r u'. url_loop ?s old' fa' (p + 1) rest u1 = Some (r, u') \<and>
     (\<forall>b. r = Some b \<longrightarrow> (\<exists>s' old'. url_inv buf s' old' (p + length (ch # rest)) u'))"
    if "url_inv buf ?s old' (p + 1) u1" for old' fa' u1
    using Cons.IH [OF that, of fa'] Cons.prems(2,3) rest by simp
  show ?case
  proof (cases "?s = s_dead")
    case True
    then show ?thesis by (simp add: Let_def)
  next
    case False
    have live: "parse_url_char s (buf ! p) \<noteq> s_dead" using False ch by simp
    from url_char_facts(1) [OF False] show ?thesis
    proof (cases rule: piece_cases)
      case 1
      then show ?thesis
        using go [of old u "fa \<or> ?s = s_req_server_with_at"]
          url_inv_step_delimiter [OF Cons.prems(1) live] ch
        by (simp add: Let_def)
    next
      case (2 f)
      then show ?thesis
        using go [of f _ "fa \<or> ?s = s_req_server_with_at"] url_inv_step_grow [OF _ live, of f u]
          url_inv_step_new [OF Cons.prems(1) live, of f] Cons.prems(1) p ch
        by (auto simp: Let_def)
    next
      case 3
      then show ?thesis
        using go [of UF_HOST _ "fa \<or> ?s = s_req_server_with_at"]
          url_inv_step_grow [OF _ live, of UF_HOST u]
          url_inv_step_new [OF Cons.prems(1) live, of UF_HOST] Cons.prems(1) p ch
        by (auto simp: Let_def)
    qed
  qed
qed

subsection \<open>The loop over the host\<close>

text \<open>
  The invariant inside the host, whose bytes end at \<open>lim\<close>: nothing else moves, the host's own
  field ends at or before \<open>p\<close>, and the port is set exactly in its state, with its digits up to \<open>p\<close>.
\<close>

definition host_inv :: "string \<Rightarrow> http_host_state \<Rightarrow> nat \<Rightarrow> http_parser_url \<Rightarrow> bool" where
  "host_inv buf s p u \<longleftrightarrow>
     s \<noteq> s_http_host_dead \<and> is_set UF_HOST u \<and> field_end UF_HOST u \<le> p \<and>
     (if s \<in> {s_http_userinfo_start, s_http_userinfo, s_http_host_start, s_http_host_v6_start}
      then field_size UF_HOST u = 0 else 1 \<le> field_size UF_HOST u) \<and>
     (is_set UF_USERINFO u \<longrightarrow> 1 \<le> field_size UF_USERINFO u \<and> field_end UF_USERINFO u \<le> p) \<and>
     (s = s_http_userinfo \<longrightarrow> is_set UF_USERINFO u) \<and>
     (is_set UF_PORT u \<longleftrightarrow> s = s_http_host_port) \<and>
     (s = s_http_host_port \<longrightarrow> 1 \<le> field_size UF_PORT u \<and> field_end UF_PORT u = p \<and>
        list_all IS_NUM (field_text buf UF_PORT u))"

definition same_main :: "http_parser_url \<Rightarrow> http_parser_url \<Rightarrow> bool" where
  "same_main u u' \<longleftrightarrow>
     (\<forall>f \<in> main_fields. is_set f u' = is_set f u \<and>
        (f \<noteq> UF_HOST \<longrightarrow> field_data u' f = field_data u f))"

lemma host_step_same: "same_main u (host_step s s' p u)"
  by (cases s') (auto simp: same_main_def main_fields_def put_field_def grow_field_def mark_field_def
      is_set_def uf_mask_def bit_or_iff bit_exp_iff bit_2_iff bit_1_iff)

lemma host_char_facts:
  assumes "http_parse_host_char s ch \<noteq> s_http_host_dead"
  defines "s' \<equiv> http_parse_host_char s ch"
  shows "s' = s_http_host_port \<Longrightarrow> IS_NUM ch \<and> s \<in> {s_http_host_port, s_http_host_port_start}"
    and "s = s_http_host_port \<Longrightarrow> s' = s_http_host_port"
    and "s' = s_http_userinfo \<Longrightarrow> s \<in> {s_http_userinfo, s_http_userinfo_start}"
    and "s' = s_http_host \<Longrightarrow> s \<in> {s_http_host, s_http_host_start}"
    and "s' = s_http_host_v6 \<Longrightarrow> s \<in> {s_http_host_v6, s_http_host_v6_start}"
    and "s' \<in> {s_http_host_v6_zone_start, s_http_host_v6_zone, s_http_host_v6_end} \<Longrightarrow>
      s \<in> {s_http_host_v6, s_http_host_v6_zone_start, s_http_host_v6_zone}"
    and "s' = s_http_host_port_start \<Longrightarrow> s \<in> {s_http_host, s_http_host_v6_end}"
    and "s' = s_http_host_v6_start \<Longrightarrow> s = s_http_host_start"
    and "s' = s_http_host_start \<Longrightarrow> s \<in> {s_http_userinfo, s_http_userinfo_start}"
    and "s' \<noteq> s_http_userinfo_start"
  using assms(1) unfolding s'_def by (cases s; auto split: if_splits)+

lemma host_inv_step:
  assumes inv: "host_inv buf s p u" and live: "http_parse_host_char s (buf ! p) \<noteq> s_http_host_dead"
    and p: "p < 2 ^ 16 - 1" "p < length buf"
  shows "host_inv buf (http_parse_host_char s (buf ! p)) (p + 1)
    (host_step s (http_parse_host_char s (buf ! p)) p u)"
proof -
  let ?s = "http_parse_host_char s (buf ! p)"
  note facts = host_char_facts [OF live]
  have cut: "field_text buf f u' = field_text buf f u @ [buf ! p]"
    if "field_start f u' = field_start f u" "field_size f u' = field_size f u + 1" "field_end f u = p"
    for f u'
    using that p(2) by (simp add: field_text_def slice_def field_end_def take_Suc_conv_app_nth)
  have one: "field_text buf f u' = [buf ! p]" if "field_start f u' = p" "field_size f u' = 1" for f u'
    using that p(2) by (simp add: field_text_def slice_def take_Suc_conv_app_nth)
  have size: "field_size f u < 2 ^ 16 - 1" if "field_end f u \<le> p" for f
    using that p by (simp add: field_end_def)
  show ?thesis
  proof (cases ?s)
    case s_http_host
    then show ?thesis
      using inv p facts size
      by (auto simp: host_inv_def field_end_def field_grow field_text_def field_size_def [symmetric])
  next
    case s_http_host_v6
    then show ?thesis
      using inv p facts size
      by (auto simp: host_inv_def field_end_def field_grow field_text_def field_size_def [symmetric])
  next
    case s_http_host_v6_zone_start
    then show ?thesis
      using inv p facts size
      by (auto simp: host_inv_def field_end_def field_grow field_text_def field_size_def [symmetric])
  next
    case s_http_host_v6_zone
    then show ?thesis
      using inv p facts size
      by (auto simp: host_inv_def field_end_def field_grow field_text_def field_size_def [symmetric])
  next
    case s_http_userinfo
    then show ?thesis
      using inv p facts size
      by (auto simp: host_inv_def field_end_def field_grow field_text_def field_size_def [symmetric])
  next
    case s_http_host_port
    then show ?thesis
      using inv p facts size cut one
      by (auto simp: host_inv_def field_end_def field_grow field_size_def [symmetric])
  next
    case s_http_host_start
    then show ?thesis using inv facts(2,9) by (auto simp: host_inv_def)
  next
    case s_http_host_v6_start
    then show ?thesis using inv facts(2,8) by (auto simp: host_inv_def)
  next
    case s_http_host_v6_end
    then show ?thesis using inv facts(2,6) by (auto simp: host_inv_def)
  next
    case s_http_host_port_start
    then show ?thesis using inv facts(2,7) by (auto simp: host_inv_def)
  qed (use live facts(10) in simp_all)
qed


lemma host_loop_inv:
  assumes "host_inv buf s p u" "p + length rest \<le> length buf" "p + length rest < 2 ^ 16"
    and "rest = take (length rest) (drop p buf)"
  shows "case host_loop s p rest u of
      (None, u') \<Rightarrow> same_main u u'
    | (Some s', u') \<Rightarrow> same_main u u' \<and> host_inv buf s' (p + length rest) u'"
  using assms
proof (induction rest arbitrary: s p u)
  case Nil
  then show ?case by (simp add: same_main_def)
next
  case (Cons ch rest)
  let ?s = "http_parse_host_char s ch"
  have p: "p < length buf" "p < 2 ^ 16 - 1" using Cons.prems by simp_all
  have ch: "buf ! p = ch" and rest: "rest = take (length rest) (drop (p + 1) buf)"
    using Cons.prems(4) p(1) by (metis Cons_nth_drop_Suc Suc_eq_plus1 length_Cons list.inject take_Suc_Cons)+
  show ?case
  proof (cases "?s = s_http_host_dead")
    case True
    then show ?thesis by (simp add: same_main_def)
  next
    case False
    have "host_inv buf ?s (p + 1) (host_step s ?s p u)"
      using host_inv_step [OF Cons.prems(1)] False ch p by simp
    from Cons.IH [OF this _ _ rest] show ?thesis
      using Cons.prems(2,3) False host_step_same [of u s ?s p]
      by (auto simp: Let_def same_main_def split: option.splits prod.splits)
  qed
qed

section \<open>The whole parse\<close>

definition decimal :: "string \<Rightarrow> nat" where
  "decimal s = foldl (\<lambda>v c. v * 10 + digit_val c) 0 s"

lemma digits_value_append:
  assumes "list_all IS_NUM ds" "\<not> IS_NUM c"
  shows "digits_value v (ds @ c # rest) = Some (foldl (\<lambda>v c. v * 10 + digit_val c) v ds)"
  using assms by (induction ds arbitrary: v) simp_all

lemma strtoul_field:
  assumes "list_all IS_NUM (field_text buf f u)" "field_end f u < length buf"
    and "\<not> IS_NUM (buf ! field_end f u)"
  shows "strtoul (drop (field_start f u) buf) = Some (min (decimal (field_text buf f u)) (2 ^ 32 - 1))"
proof -
  let ?s = "field_start f u" and ?n = "field_size f u"
  have "drop ?s buf = take ?n (drop ?s buf) @ drop ?n (drop ?s buf)"
    by (rule append_take_drop_id [symmetric])
  also have "drop ?n (drop ?s buf) = buf ! field_end f u # drop (Suc (field_end f u)) buf"
    using assms(2) by (simp add: field_end_def add.commute Cons_nth_drop_Suc)
  finally have "drop ?s buf = field_text buf f u @ buf ! field_end f u # drop (Suc (field_end f u)) buf"
    by (simp add: field_text_def slice_def)
  then show ?thesis
    using digits_value_append [OF assms(1,3)] by (simp add: strtoul_def decimal_def)
qed

text \<open>The fields of \<open>u\<close> that are set are not empty and lie in the first \<open>n\<close> bytes.\<close>

definition fields_within :: "nat \<Rightarrow> http_parser_url \<Rightarrow> bool" where
  "fields_within n u \<longleftrightarrow>
     (\<forall>f. f \<noteq> UF_MAX \<longrightarrow> is_set f u \<longrightarrow> 1 \<le> field_size f u \<and> field_end f u \<le> n)"

lemma url_inv_start:
  assumes "field_set u = 0"
  shows "url_inv buf (if c then s_req_server_start else s_req_spaces_before_url) UF_MAX 0 u"
  using assms by (auto simp: url_inv_def is_set_def url_states_def main_fields_def)

lemma url_fields: "f \<noteq> UF_MAX \<Longrightarrow> f \<in> main_fields \<or> f = UF_PORT \<or> f = UF_USERINFO"
  by (cases f) (simp_all add: main_fields_def)

text \<open>The host parse after a URL loop that ended at \<open>n\<close>.\<close>

lemma http_parse_host_ok:
  assumes inv: "url_inv buf s old n u" and host: "is_set UF_HOST u"
    and n: "n < 2 ^ 16" "n \<le> length buf"
  obtains r u' where "http_parse_host buf u fa = Some (r, u')"
    and "r = 0 \<Longrightarrow> fields_within n u'"
    and "r = 0 \<Longrightarrow> is_set UF_PORT u' \<Longrightarrow> field_end UF_PORT u' = field_end UF_HOST u \<and>
       list_all IS_NUM (field_text buf UF_PORT u')"
proof -
  let ?a = "field_start UF_HOST u" and ?k = "field_size UF_HOST u"
  let ?u = "put_field UF_HOST ?a 0 u"
  let ?s = "if fa then s_http_userinfo_start else s_http_host_start"
  have main: "\<forall>f \<in> main_fields. is_set f u \<longrightarrow> 1 \<le> field_size f u \<and> field_end f u \<le> n"
    using inv by (simp add: url_inv_def)
  have k: "?a + ?k \<le> n"
    using main host by (auto simp: main_fields_def field_end_def)
  have a: "?a < 2 ^ 16" using k n(1) by simp
  have len: "length (slice buf ?a ?k) = ?k"
    using k n(2) by (simp add: slice_def)
  have start: "host_inv buf ?s ?a ?u"
    using inv host a by (auto simp: host_inv_def url_inv_def field_end_def)
  note loop = host_loop_inv [OF start, of "slice buf ?a ?k", unfolded len]
  have loop: "case host_loop ?s ?a (slice buf ?a ?k) ?u of
      (None, u') \<Rightarrow> same_main ?u u'
    | (Some s', u') \<Rightarrow> same_main ?u u' \<and> host_inv buf s' (?a + ?k) u'"
    using k n by (intro loop) (simp_all add: slice_def)
  show ?thesis
  proof (cases "host_loop ?s ?a (slice buf ?a ?k) ?u")
    case (Pair o' u')
    show ?thesis
    proof (cases o')
      case None
      then show ?thesis
        using that [of 1 u'] host k n(2) Pair by (simp add: http_parse_host_def Let_def)
    next
      case (Some s')
      have same: "same_main ?u u'" and h: "host_inv buf s' (?a + ?k) u'"
        using loop Pair Some by simp_all
      have eq: "http_parse_host buf u fa = Some (if host_complete s' then 0 else 1, u')"
        using host k n(2) Pair Some by (simp add: http_parse_host_def Let_def)
      have "fields_within n u'" if "host_complete s'"
        unfolding fields_within_def
      proof (intro allI impI)
        fix f assume f: "f \<noteq> UF_MAX" "is_set f u'"
        show "1 \<le> field_size f u' \<and> field_end f u' \<le> n"
        proof (cases "f \<in> main_fields \<and> f \<noteq> UF_HOST")
          case True
          then have "field_data u' f = field_data u f" "is_set f u"
            using same f(2) by (auto simp: same_main_def put_field_def is_set_def)
          then show ?thesis
            using main True by (simp add: field_end_def field_size_def field_start_def)
        next
          case False
          then have "f = UF_HOST \<or> f = UF_PORT \<or> f = UF_USERINFO"
            using url_fields [OF f(1)] by blast
          then show ?thesis
            using h k f(2) that by (auto simp: host_inv_def host_complete_def split: if_splits)
        qed
      qed
      moreover have "field_end UF_PORT u' = field_end UF_HOST u \<and> list_all IS_NUM (field_text buf UF_PORT u')"
        if "is_set UF_PORT u'"
        using h that by (simp add: host_inv_def field_end_def)
      ultimately show ?thesis
        using that [OF eq] by (cases "host_complete s'") auto
    qed
  qed
qed


lemma port_frame [simp]:
  "port (put_field f p n u) = port u" "port (grow_field f u) = port u" "port (mark_field f u) = port u"
  "port (host_step s s' p u) = port u"
  by (cases s'; simp add: put_field_def grow_field_def mark_field_def)+

lemma host_loop_port: "port (snd (host_loop s p rest u)) = port u"
  by (induction rest arbitrary: s p u) (simp_all add: Let_def)

lemma url_loop_port: "url_loop s old fa p rest u = Some (r, u') \<Longrightarrow> port u' = port u"
  by (induction rest arbitrary: s old fa p u)
    (auto simp: Let_def split: url_piece.splits if_splits)

lemma http_parse_host_port: "http_parse_host buf u fa = Some (r, u') \<Longrightarrow> port u' = port u"
  using host_loop_port [of _ _ _ "put_field UF_HOST (field_start UF_HOST u) 0 u"]
  by (auto simp: http_parse_host_def Let_def split: if_splits prod.splits option.splits)
    (metis snd_conv port_frame(1))+

lemma http_parser_parse_url_good:
  assumes "n < 2 ^ 16" "n < length buf" "\<not> IS_NUM (buf ! n)"
  shows "\<exists>r u'. http_parser_parse_url buf n c u = Some (r, u') \<and>
     (r = 0 \<longrightarrow> fields_within n u' \<and>
        unat (port u') = (if is_set UF_PORT u' then decimal (field_text buf UF_PORT u') else 0) \<and>
        (c \<longrightarrow> field_set u' = or (uf_mask UF_HOST) (uf_mask UF_PORT)))"
proof -
  let ?u = "u\<lparr>port := 0, field_set := 0\<rparr>"
  let ?s = "if c then s_req_server_start else s_req_spaces_before_url"
  have len: "length (take n buf) = n" using assms(2) by simp
  have "url_inv buf ?s UF_MAX 0 ?u" by (rule url_inv_start) simp
  from url_loop_inv [OF this, of "take n buf" False, unfolded len]
  obtain r1 u1 where loop: "url_loop ?s UF_MAX False 0 (take n buf) ?u = Some (r1, u1)"
    and inv: "\<And>b. r1 = Some b \<Longrightarrow> \<exists>s old. url_inv buf s old n u1"
    using assms(1,2) by auto
  have port1: "port u1 = 0" using url_loop_port [OF loop] by simp
  show ?thesis
  proof (cases r1)
    case None
    then show ?thesis using loop assms(2) by (simp add: http_parser_parse_url_def)
  next
    case (Some fa)
    obtain s old where inv1: "url_inv buf s old n u1" using inv [OF Some] by blast
    have nohost: "\<not> is_set UF_PORT u1" "\<not> is_set UF_USERINFO u1"
      "\<forall>f \<in> main_fields. is_set f u1 \<longrightarrow> 1 \<le> field_size f u1 \<and> field_end f u1 \<le> n"
      using inv1 by (simp_all add: url_inv_def)
    show ?thesis
    proof (cases "is_set UF_HOST u1")
      case False
      have "fields_within n u1"
        unfolding fields_within_def using nohost url_fields by blast
      then show ?thesis
        using loop assms(2) Some False nohost(1) port1
        by (auto simp: http_parser_parse_url_def)
    next
      case True
      obtain r u2 where host: "http_parse_host buf u1 fa = Some (r, u2)"
        and within: "r = 0 \<Longrightarrow> fields_within n u2"
        and digits: "r = 0 \<Longrightarrow> is_set UF_PORT u2 \<Longrightarrow>
          field_end UF_PORT u2 = field_end UF_HOST u1 \<and> list_all IS_NUM (field_text buf UF_PORT u2)"
        using http_parse_host_ok [OF inv1 True, of fa] assms(1,2) by auto
      have stop: "field_end UF_HOST u1 < length buf" "\<not> IS_NUM (buf ! field_end UF_HOST u1)"
        using inv1 True nohost(3) assms(2,3) by (auto simp: url_inv_def split: if_splits)
      have conv: "strtoul (drop (field_start UF_PORT u2) buf) =
          Some (min (decimal (field_text buf UF_PORT u2)) (2 ^ 32 - 1))"
        if "r = 0" "is_set UF_PORT u2"
        using digits [OF that] stop by (intro strtoul_field) simp_all
      have "unat (of_nat (min v (2 ^ 32 - 1)) :: u16) = v" if "\<not> min v (2 ^ 32 - 1) > 65535" for v :: nat
        using that by (simp add: unat_of_nat_small min_def split: if_splits)
      moreover have "fields_within n (u2\<lparr>port := q\<rparr>) = fields_within n u2" for q
        by (simp add: fields_within_def field_end_def)
      moreover have "port u2 = 0" using http_parse_host_port [OF host] port1 by simp
      ultimately show ?thesis
        using loop assms(2) Some True host within conv
        by (auto simp: http_parser_parse_url_def field_text_def)
    qed
  qed
qed

text \<open>
  C6: A URL shorter than 64K in a longer buffer, with a byte after it that is no digit (a NUL, say):
  \<open>http_parser_parse_url\<close> returns without a failed assertion or a read outside the buffer. When it
  succeeds, every field it reports is a nonempty part of the URL, the port is the value of its
  digits (0 without a port), and a CONNECT target has a host and a port and nothing else.
\<close>

theorem http_parser_parse_url_ok:
  assumes "n < 2 ^ 16" "n < length buf" "\<not> IS_NUM (buf ! n)"
  shows "\<exists>r u'. http_parser_parse_url buf n c u = Some (r, u') \<and>
     (r = 0 \<longrightarrow> fields_within n u' \<and>
        unat (port u') = (if is_set UF_PORT u' then decimal (field_text buf UF_PORT u') else 0) \<and>
        (c \<longrightarrow> field_set u' = or (uf_mask UF_HOST) (uf_mask UF_PORT)))"
  using assms by (rule http_parser_parse_url_good)

lemma http_parser_parse_url_ok_witness:
  "\<exists>r u. http_parser_parse_url (''http://a.b:80/c?d'' @ [NUL]) 17 False http_parser_url_init = Some (r, u) \<and>
     (r = 0 \<longrightarrow> fields_within 17 u \<and>
        unat (port u) = (if is_set UF_PORT u
                         then decimal (field_text (''http://a.b:80/c?d'' @ [NUL]) UF_PORT u) else 0))"
  using http_parser_parse_url_ok [of 17 "''http://a.b:80/c?d'' @ [NUL]" False http_parser_url_init]
  by (simp only: length_append) (simp add: char_class_defs)

lemmas url_eval = http_parser_parse_url_def http_parse_host_def Let_def parse_url_char_def
  server_char_def char_class_defs url_char_spec_def IS_URL_CHAR_eq slice_def mark_field_def
  put_field_def grow_field_def is_set_def field_start_def field_size_def uf_mask_def
  http_parser_url_init_def strtoul_def host_complete_def zone_char_def field_text_def

text \<open>
  The code's own caveat made precise: the digits of a port at the very end of a URL are read on
  past \<open>buflen\<close>. The ten bytes \<open>http://a:8\<close> give port 8 when a NUL follows them in memory, and
  port 80 when a digit 0 does.
\<close>

theorem port_read_past_buflen:
  "map_option (\<lambda>(r, u). (r, port u))
     (http_parser_parse_url (''http://a:8'' @ [NUL]) 10 False http_parser_url_init) = Some (0, 8) \<and>
   map_option (\<lambda>(r, u). (r, port u))
     (http_parser_parse_url (''http://a:80'' @ [NUL]) 10 False http_parser_url_init) = Some (0, 80)"
  by (simp add: url_eval)

end
