(* ===== verification/Format.thy ===== *)
theory Format
  imports Prelude
begin

text \<open>
  Numbers as text, the part of \<open>sprintf\<close> and of \<open>ostringstream\<close> that the sources use: \<open>%u\<close> and
  \<open>%lu\<close> in \<open>print_dec\<close>, \<open>%x\<close> and \<open>%X\<close> in \<open>print_hex\<close> and \<open>print_hex_upper\<close>.
\<close>

definition is_digit :: "char \<Rightarrow> bool" where
  "is_digit c \<longleftrightarrow> 48 \<le> c_ord c \<and> c_ord c \<le> 57"

text \<open>\<open>sprintf("%x")\<close>: lower-case digits, without leading zeros.\<close>

definition hex_digit :: "nat \<Rightarrow> char" where
  "hex_digit d = char_of (if d < 10 then 48 + d else 87 + d)"

fun print_hex :: "nat \<Rightarrow> string" where
  "print_hex v = (if v < 16 then [hex_digit v] else print_hex (v div 16) @ [hex_digit (v mod 16)])"

declare print_hex.simps [simp del]

text \<open>\<open>sprintf("%u")\<close>\<close>

fun print_dec :: "nat \<Rightarrow> string" where
  "print_dec v =
     (if v < 10 then [char_of (48 + v)] else print_dec (v div 10) @ [char_of (48 + v mod 10)])"

declare print_dec.simps [simp del]

text \<open>\<open>sprintf("%X")\<close>: the same with upper-case digits.\<close>

definition hex_digit_upper :: "nat \<Rightarrow> char" where
  "hex_digit_upper d = char_of (if d < 10 then 48 + d else 55 + d)"

fun print_hex_upper :: "nat \<Rightarrow> string" where
  "print_hex_upper v =
     (if v < 16 then [hex_digit_upper v]
      else print_hex_upper (v div 16) @ [hex_digit_upper (v mod 16)])"

declare print_hex_upper.simps [simp del]

section \<open>Decimal text\<close>

definition dec_value :: "nat \<Rightarrow> string \<Rightarrow> nat" where
  "dec_value v s = foldl (\<lambda>v c. v * 10 + (c_ord c - 48)) v s"

lemma dec_value_simps [simp]:
  "dec_value v [] = v" "dec_value v (c # s) = dec_value (v * 10 + (c_ord c - 48)) s"
  by (simp_all add: dec_value_def)

lemma dec_value_mono: "v \<le> dec_value v s"
proof (induction s arbitrary: v)
  case (Cons c s)
  have "v \<le> v * 10 + (c_ord c - 48)" by simp
  also have "\<dots> \<le> dec_value (v * 10 + (c_ord c - 48)) s" by (rule Cons.IH)
  finally show ?case by simp
qed simp

text \<open>Decimal printing: digits, their value, and how many there are.\<close>

lemma dec_value_append: "dec_value v (xs @ ys) = dec_value (dec_value v xs) ys"
  by (simp add: dec_value_def)

lemma dec_digit: "v < 10 \<Longrightarrow> c_ord (char_of (48 + v)) = 48 + v"
  by (simp add: c_ord_def of_char_of)

lemma print_dec_correct:
  "print_dec v \<noteq> [] \<and> list_all is_digit (print_dec v) \<and> dec_value 0 (print_dec v) = v"
proof (induction v rule: print_dec.induct)
  case (1 v)
  show ?case
  proof (cases "v < 10")
    case True
    then show ?thesis by (subst (1 2 3) print_dec.simps) (simp add: dec_digit is_digit_def)
  next
    case False
    have "v mod 10 < 10" by simp
    then have d: "c_ord (char_of (48 + v mod 10)) = 48 + v mod 10" by (rule dec_digit)
    moreover have "is_digit (char_of (48 + v mod 10))"
      unfolding is_digit_def d using \<open>v mod 10 < 10\<close> by linarith
    ultimately show ?thesis
      using 1 False by (subst (1 2 3) print_dec.simps) (simp add: dec_value_append)
  qed
qed

lemma print_dec_length: "v < 10 ^ Suc k \<Longrightarrow> length (print_dec v) \<le> Suc k"
proof (induction k arbitrary: v)
  case 0
  then show ?case by (subst print_dec.simps) simp
next
  case (Suc k)
  have "v div 10 < 10 ^ Suc k" using Suc.prems by (simp add: less_mult_imp_div_less)
  then show ?case using Suc.IH [of "v div 10"] by (subst print_dec.simps) simp
qed

lemma print_hex_upper_length: "v < 16 ^ Suc k \<Longrightarrow> length (print_hex_upper v) \<le> Suc k"
proof (induction k arbitrary: v)
  case 0
  then show ?case by (subst print_hex_upper.simps) simp
next
  case (Suc k)
  have "v div 16 < 16 ^ Suc k" using Suc.prems by (simp add: less_mult_imp_div_less)
  then show ?case using Suc.IH [of "v div 16"] by (subst print_hex_upper.simps) simp
qed

end
