(* ===== verification/HttpRequest.thy ===== *)
theory HttpRequest
  imports HttpClient HttpUrl Format "HOL-Library.List_Lexorder" "HOL-Library.Char_ord"
begin

text \<open>
  Sending a request: the URL of a request (\<open>http_parsed_url.h\<close>), its text
  (\<open>http_request_builder.h\<close>) and the exchange over a socket (\<open>send\<close>, \<open>send_buffer\<close> and
  \<open>connect_socket\<close> in \<open>http_request_base.h\<close>, \<open>http_request.h\<close>). Strings are C strings without their
  NUL. The socket is a list of answers, one for each call.
\<close>

section \<open>The URL of a request\<close>

record parsed_url =
  pu_port :: u16
  pu_schema :: string
  pu_host :: string
  pu_path :: string
  pu_query :: string
  pu_userinfo :: string

text \<open>The text of a field, or the empty string; the copy is a C string, which ends at a NUL.\<close>

definition url_value :: "string \<Rightarrow> http_parser_url \<Rightarrow> http_parser_url_fields \<Rightarrow> string" where
  "url_value url u f = (if is_set f u then takeWhile (\<lambda>c. c \<noteq> NUL) (field_text url f u) else [])"

text \<open>
  The constructor; \<open>garbage\<close> is what the structure on the stack holds before the parse. The result
  of the parse is not looked at. \<open>None\<close> is a fault of the parser.
\<close>

definition ParsedUrl :: "http_parser_url \<Rightarrow> string \<Rightarrow> parsed_url option" where
  "ParsedUrl garbage url =
     (case http_parser_parse_url (url @ [NUL]) (length url) False garbage of
        None \<Rightarrow> None
      | Some (ret, u) \<Rightarrow>
          (let value = url_value (url @ [NUL]) u; schema = value UF_SCHEMA; path = value UF_PATH
           in Some \<lparr>pu_port = (if port u \<noteq> 0 then port u
                               else if schema = ''https'' \<or> schema = ''wss'' then 443 else 80),
                    pu_schema = schema, pu_host = value UF_HOST,
                    pu_path = (if path = [] then ''/'' else path),
                    pu_query = value UF_QUERY, pu_userinfo = value UF_USERINFO\<rparr>))"

section \<open>The request builder\<close>

text \<open>\<open>std::map\<close> from strings to strings, in the order of its keys.\<close>

type_synonym headers = "(string \<times> string) list"

record request_builder =
  rb_method :: http_method
  rb_url :: parsed_url
  rb_headers :: headers

fun set_header :: "string \<Rightarrow> string \<Rightarrow> headers \<Rightarrow> headers" where
  "set_header key value [] = [(key, value)]"
| "set_header key value ((k, v) # hs) =
     (if k = key then (k, value) # hs
      else if key < k then (key, value) # (k, v) # hs
      else (k, v) # set_header key value hs)"

fun has_header :: "string \<Rightarrow> string option \<Rightarrow> headers \<Rightarrow> bool" where
  "has_header key value [] = False"
| "has_header key value ((k, v) # hs) =
     (if k = key \<and> (value = None \<or> value = Some v) then True else has_header key value hs)"

definition host_header :: "parsed_url \<Rightarrow> string" where
  "host_header u =
     (let port_str = '':'' @ print_dec (unat (pu_port u))
      in if pu_schema u = ''http'' \<and> pu_port u \<noteq> 80 \<or> pu_schema u = ''https'' \<and> pu_port u \<noteq> 443 \<or>
            pu_schema u = ''ws'' \<and> pu_port u \<noteq> 80 \<or> pu_schema u = ''wss'' \<and> pu_port u \<noteq> 443
         then pu_host u @ port_str else pu_host u)"

definition HttpRequestBuilder :: "http_method \<Rightarrow> parsed_url \<Rightarrow> request_builder" where
  "HttpRequestBuilder m u =
     \<lparr>rb_method = m, rb_url = u, rb_headers = set_header ''Host'' (host_header u) []\<rparr>"

subsection \<open>Building the text\<close>

text \<open>What the calls of \<open>sprintf\<close> write, without the NUL that ends each.\<close>

definition request_line :: "http_method \<Rightarrow> parsed_url \<Rightarrow> string" where
  "request_line m u =
     method_name m @ '' '' @ pu_path u @ (if pu_query u \<noteq> [] then ''?'' @ pu_query u else []) @
     '' HTTP/1.1'' @ [CR, LF]"

definition header_line :: "string \<times> string \<Rightarrow> string" where
  "header_line h = (case h of (k, v) \<Rightarrow> k @ '': '' @ v @ [CR, LF])"

text \<open>The sizes the code adds up, in 32 bits.\<close>

definition line_size :: "http_method \<Rightarrow> parsed_url \<Rightarrow> nat" where
  "line_size m u =
     length (method_name m) + 1 + length (pu_path u) +
     (if length (pu_query u) \<noteq> 0 then length (pu_query u) + 1 else 0) + 1 + 8 + 2"

definition header_size :: "string \<times> string \<Rightarrow> nat" where
  "header_size h = (case h of (k, v) \<Rightarrow> length k + 1 + 1 + length v + 2)"

definition request_size :: "bool \<Rightarrow> http_method \<Rightarrow> parsed_url \<Rightarrow> headers \<Rightarrow> u32 \<Rightarrow> u32" where
  "request_size is_chunked m u hs body_size =
     (let size = foldl (\<lambda>size h. size + of_nat (header_size h)) (of_nat (line_size m u)) hs;
          size = size + 2
      in if is_chunked then size else size + body_size)"

text \<open>\<open>snprintf(buffer, 10, "%lu", body_size)\<close>: at most nine characters.\<close>

definition content_length_value :: "u32 \<Rightarrow> string" where
  "content_length_value body_size = take 9 (print_dec (unat body_size))"

definition content_length_header :: "http_method \<Rightarrow> u32 \<Rightarrow> headers \<Rightarrow> headers" where
  "content_length_header m body_size hs =
     (if \<not> has_header ''Transfer-Encoding'' (Some ''chunked'') hs \<and>
         (m = HTTP_POST \<or> m = HTTP_PUT \<or> m = HTTP_DELETE \<or> body_size > 0)
      then set_header ''Content-Length'' (content_length_value body_size) hs else hs)"

text \<open>
  \<open>build\<close>: the new headers, the size, and the buffer of \<open>calloc(size + 1, 1)\<close> after the writes, or
  \<open>None\<close> when one of them leaves the buffer or there is no buffer.
\<close>

definition build :: "(nat \<Rightarrow> bool) \<Rightarrow> string \<Rightarrow> request_builder \<Rightarrow> request_builder \<times> u32 \<times> string option" where
  "build heap_ok body b =
     (let body_size = of_nat (length body);
          is_chunked = has_header ''Transfer-Encoding'' (Some ''chunked'') (rb_headers b);
          hs = content_length_header (rb_method b) body_size (rb_headers b);
          size = request_size is_chunked (rb_method b) (rb_url b) hs body_size;
          capacity = unat (size + 1);
          text = request_line (rb_method b) (rb_url b) @ concat (map header_line hs) @ [CR, LF]
      in (b\<lparr>rb_headers := hs\<rparr>, size,
          if \<not> heap_ok capacity \<or> length text + 1 > capacity \<or> length text + length body > capacity
          then None
          else Some (text @ body @ replicate (capacity - (length text + length body)) NUL)))"

section \<open>Sending\<close>

text \<open>
  The log buffer: its size and what was copied to it. The connection: the answers of
  \<open>Socket::send\<close> still to come, the bytes it has taken, and the log.
\<close>

record connection =
  cn_answers :: "int list"
  cn_wire :: string
  cn_log :: "(nat \<times> string) option"

definition log_slice :: "string \<Rightarrow> connection \<Rightarrow> connection" where
  "log_slice part cn =
     (case cn_log cn of
        None \<Rightarrow> cn
      | Some (limit, logged) \<Rightarrow>
          if length logged + length part < limit then cn\<lparr>cn_log := Some (limit, logged @ part)\<rparr> else cn)"

text \<open>
  \<open>send_buffer\<close> with \<open>total_send_count\<close>; \<open>None\<close> while the socket has not answered. Its buffers are
  smaller than \<open>2^31\<close>, where the signed count cannot overflow.
\<close>

fun send_loop :: "string \<Rightarrow> nat \<Rightarrow> int list \<Rightarrow> connection \<Rightarrow> (int \<times> connection) option" where
  "send_loop buffer count [] cn =
     (if count < length buffer then None else Some (int count, cn\<lparr>cn_answers := []\<rparr>))"
| "send_loop buffer count (r # rs) cn =
     (if count < length buffer then
        (let part = drop count buffer; cn = log_slice part cn
         in if r < 0 then Some (r, cn\<lparr>cn_answers := rs\<rparr>)
            else if r = 0 then Some (int count, cn\<lparr>cn_answers := rs\<rparr>)
            else send_loop buffer (count + nat r) rs (cn\<lparr>cn_wire := cn_wire cn @ take (nat r) part\<rparr>))
      else Some (int count, cn\<lparr>cn_answers := r # rs\<rparr>))"

definition send_buffer :: "string \<Rightarrow> connection \<Rightarrow> (int \<times> connection) option" where
  "send_buffer buffer cn = send_loop buffer 0 (cn_answers cn) cn"

section \<open>The exchange\<close>

text \<open>The request object; \<open>hr_we_created_socket\<close> is true for a request made from a network.\<close>

record http_request =
  hr_builder :: request_builder
  hr_has_response :: bool
  hr_we_created_socket :: bool
  hr_has_body_callback :: bool

definition HttpRequest :: "http_parser_url \<Rightarrow> http_method \<Rightarrow> string \<Rightarrow> http_request option" where
  "HttpRequest garbage m url =
     map_option (\<lambda>u. \<lparr>hr_builder = HttpRequestBuilder m u, hr_has_response = False,
                      hr_we_created_socket = True, hr_has_body_callback = False\<rparr>)
       (ParsedUrl garbage url)"

definition request_set_header :: "string \<Rightarrow> string \<Rightarrow> http_request \<Rightarrow> http_request" where
  "request_set_header key value r =
     r\<lparr>hr_builder := (hr_builder r)\<lparr>rb_headers := set_header key value (rb_headers (hr_builder r))\<rparr>\<rparr>"

text \<open>\<open>connect_socket()\<close>; \<open>result\<close> is what \<open>connect\<close> of the socket answers, 0 for success.\<close>

definition connect_socket :: "int \<Rightarrow> http_request \<Rightarrow> int" where
  "connect_socket result r =
     (if hr_has_response r then - 2100
      else if hr_we_created_socket r then (if result \<noteq> 0 then result else 0)
      else 0)"

text \<open>\<open>_request_buffer_ix = 0\<close>: the log starts over.\<close>

definition reset_log :: "connection \<Rightarrow> connection" where
  "reset_log cn = cn\<lparr>cn_log := map_option (\<lambda>(limit, logged). (limit, [])) (cn_log cn)\<rparr>"

text \<open>
  How \<open>send\<close> ends: the response, \<open>NULL\<close> with an error, not yet, or with undefined behaviour. The
  bytes the socket took are part of the result.
\<close>

datatype sent = Sent_response client string | Sent_null int string | Sent_waiting string | Sent_fault

definition receive_reply :: "(nat \<Rightarrow> bool) \<Rightarrow> http_request \<Rightarrow> recv list \<Rightarrow> connection \<Rightarrow> sent" where
  "receive_reply heap_ok r replies cn =
     (case create_http_response heap_ok (hr_has_body_callback r) replies of
        Ex_response c \<Rightarrow> Sent_response c (cn_wire cn)
      | Ex_error e c \<Rightarrow> Sent_null e (cn_wire cn)
      | Ex_waiting c \<Rightarrow> Sent_waiting (cn_wire cn)
      | Ex_fault \<Rightarrow> Sent_fault)"

definition send :: "(nat \<Rightarrow> bool) \<Rightarrow> int \<Rightarrow> recv list \<Rightarrow> string \<Rightarrow> http_request \<Rightarrow> connection \<Rightarrow> sent" where
  "send heap_ok connected replies body r cn =
     (let ret = connect_socket connected r
      in if ret \<noteq> 0 then Sent_null ret (cn_wire cn)
         else case build heap_ok body (hr_builder r) of
           (b, n, None) \<Rightarrow> Sent_fault
         | (b, n, Some request) \<Rightarrow>
             (case send_buffer (take (unat n) request) (reset_log cn) of
                None \<Rightarrow> Sent_waiting (cn_wire cn)
              | Some (ret, cn) \<Rightarrow>
                  if ret < 0 then Sent_null ret (cn_wire cn) else receive_reply heap_ok r replies cn))"

text \<open>
  The chunks of a request in chunked encoding, as the callback gives them; an empty one ends the
  body. The size is printed into \<open>char size_buff[10]\<close>. The result is the first negative count, or 0.
\<close>

definition chunk_size_text :: "string \<Rightarrow> string" where
  "chunk_size_text chunk = print_hex_upper (length chunk) @ [CR, LF]"

definition send_piece ::
    "string \<Rightarrow> connection \<Rightarrow> (connection \<Rightarrow> (int \<times> connection) option option) \<Rightarrow> (int \<times> connection) option option" where
  "send_piece piece cn k =
     (case send_buffer piece cn of
        None \<Rightarrow> Some None
      | Some (ret, cn) \<Rightarrow> if ret < 0 then Some (Some (ret, cn)) else k cn)"

fun send_chunks :: "string list \<Rightarrow> connection \<Rightarrow> (int \<times> connection) option option" where
  "send_chunks [] cn = Some None"
| "send_chunks (chunk # chunks) cn =
     (if chunk = [] then send_piece (''0'' @ [CR, LF, CR, LF]) cn (\<lambda>cn. Some (Some (0, cn)))
      else if length (chunk_size_text chunk) + 1 > 10 then None
      else send_piece (chunk_size_text chunk) cn (\<lambda>cn.
           send_piece chunk cn (\<lambda>cn.
           send_piece [CR, LF] cn (\<lambda>cn. send_chunks chunks cn))))"

definition send_chunked ::
    "(nat \<Rightarrow> bool) \<Rightarrow> int \<Rightarrow> recv list \<Rightarrow> string list \<Rightarrow> http_request \<Rightarrow> connection \<Rightarrow> sent" where
  "send_chunked heap_ok connected replies chunks r cn =
     (let ret = connect_socket connected r;
          r = request_set_header ''Transfer-Encoding'' ''chunked'' r
      in if ret \<noteq> 0 then Sent_null ret (cn_wire cn)
         else case build heap_ok [] (hr_builder r) of
           (b, n, None) \<Rightarrow> Sent_fault
         | (b, n, Some request) \<Rightarrow>
             (case send_piece (take (unat n) request) (reset_log cn) (send_chunks chunks) of
                None \<Rightarrow> Sent_fault
              | Some None \<Rightarrow> Sent_waiting (cn_wire cn)
              | Some (Some (ret, cn)) \<Rightarrow>
                  if ret < 0 then Sent_null ret (cn_wire cn) else receive_reply heap_ok r replies cn))"

end
