(* ===== verification/HttpRequestTheorems.thy ===== *)
theory HttpRequestTheorems
  imports HttpRequest HttpUrlSafety HttpTheorems
begin

text \<open>
  What the request side computes: the headers as a map, the exact size of a request's text, what
  reaches the socket, and the target of a URL.
\<close>
section \<open>Headers as a map\<close>

definition headers_inv :: "headers \<Rightarrow> bool" where
  "headers_inv hs \<longleftrightarrow> sorted_wrt (<) (map fst hs)"

lemma headers_inv_simps [simp]:
  "headers_inv []" "headers_inv ((k, v) # hs) \<longleftrightarrow> (\<forall>x \<in> set hs. k < fst x) \<and> headers_inv hs"
  by (auto simp: headers_inv_def)

lemma set_header_keys: "set (map fst (set_header k v hs)) = insert k (set (map fst hs))"
  by (induction k v hs rule: set_header.induct) auto

lemma set_header_above:
  assumes "k' < k" "\<forall>x \<in> set hs. k' < fst x"
  shows "\<forall>x \<in> set (set_header k v hs). k' < fst x"
proof -
  have "\<forall>a \<in> set (map fst (set_header k v hs)). k' < a"
    unfolding set_header_keys using assms by auto
  then show ?thesis by simp
qed

lemma headers_inv_absent: "headers_inv ((k, v) # hs) \<Longrightarrow> k' \<le> k \<Longrightarrow> map_of hs k' = None"
  by (force simp: map_of_eq_None_iff)

text \<open>
  C22: The headers of a request are a finite map: \<open>set_header\<close> keeps the keys sorted and distinct and
  is the update of the map at its key, whether the key was there before or not; \<open>has_header\<close> looks
  the key up, and compares the value when one is given.
\<close>

theorem headers_refine_map:
  assumes "headers_inv hs"
  shows "headers_inv (set_header k v hs) \<and> map_of (set_header k v hs) = (map_of hs)(k \<mapsto> v) \<and>
    (has_header k w hs \<longleftrightarrow> (case map_of hs k of None \<Rightarrow> False | Some x \<Rightarrow> w = None \<or> w = Some x))"
proof -
  have inv: "headers_inv (set_header k v hs)"
    using assms
  proof (induction k v hs rule: set_header.induct)
    case (2 k v k' v' hs)
    show ?case
    proof (cases k k' rule: linorder_cases)
      case less
      then show ?thesis using "2.prems" by (auto intro: less_trans)
    next
      case equal
      then show ?thesis using "2.prems" by simp
    next
      case greater
      then have step: "set_header k v ((k', v') # hs) = (k', v') # set_header k v hs" by auto
      have "\<forall>x \<in> set hs. k' < fst x" "headers_inv hs" using "2.prems" by simp_all
      moreover have "headers_inv (set_header k v hs)"
        using "2.IH" greater "2.prems" by auto
      ultimately show ?thesis unfolding step using set_header_above [OF greater] by simp
    qed
  qed simp
  have map: "map_of (set_header k v hs) = (map_of hs)(k \<mapsto> v)"
    by (induction k v hs rule: set_header.induct) (auto simp: fun_eq_iff)
  have look: "has_header k w hs \<longleftrightarrow> (case map_of hs k of None \<Rightarrow> False | Some x \<Rightarrow> w = None \<or> w = Some x)"
    using assms
  proof (induction k w hs rule: has_header.induct)
    case (2 k w k' v' hs)
    then show ?case
      using headers_inv_absent [of k' v' hs k] by (auto split: option.splits)
  qed simp
  show ?thesis using inv map look by blast
qed

lemma headers_refine_map_witness:
  "headers_inv (set_header ''B'' ''2'' [(''A'', ''1'')]) \<and>
   map_of (set_header ''B'' ''2'' [(''A'', ''1'')]) = (map_of [(''A'', ''1'')])(''B'' \<mapsto> ''2'') \<and>
   (has_header ''B'' (Some ''2'') [(''A'', ''1'')] \<longleftrightarrow>
     (case map_of [(''A'', ''1'')] ''B'' of None \<Rightarrow> False
      | Some x \<Rightarrow> Some ''2'' = None \<or> Some ''2'' = Some x))"
  by (rule headers_refine_map) simp

section \<open>The text of a request\<close>

lemma unat_of_nat_plus_1:
  assumes "n + 1 < 2 ^ LENGTH('a::len)"
  shows "unat (of_nat n + 1 :: 'a word) = n + 1"
proof -
  have "(of_nat n + 1 :: 'a word) = of_nat (n + 1)" by simp
  then show ?thesis using unat_of_nat_small [OF assms] by (simp only:)
qed

lemma request_line_length: "length (request_line m u) = line_size m u"
  by (simp add: request_line_def line_size_def)

lemma header_line_length: "length (header_line h) = header_size h"
  by (simp add: header_line_def header_size_def split: prod.splits)

definition request_head :: "http_method \<Rightarrow> parsed_url \<Rightarrow> headers \<Rightarrow> string" where
  "request_head m u hs = request_line m u @ concat (map header_line hs) @ [CR, LF]"

lemma header_sizes:
  "foldl (\<lambda>size h. size + of_nat (header_size h)) a hs = a + (of_nat (length (concat (map header_line hs))) :: u32)"
  by (induction hs arbitrary: a) (simp_all add: header_line_length)

lemma request_size_exact:
  "request_size c m u hs n =
    of_nat (length (request_head m u hs)) + (if c then 0 else n)"
  by (simp add: request_size_def header_sizes request_head_def request_line_length)

definition chunked_request :: "request_builder \<Rightarrow> bool" where
  "chunked_request b \<longleftrightarrow> has_header ''Transfer-Encoding'' (Some ''chunked'') (rb_headers b)"

definition sent_headers :: "string \<Rightarrow> request_builder \<Rightarrow> headers" where
  "sent_headers body b = content_length_header (rb_method b) (of_nat (length body)) (rb_headers b)"

lemma build_text:
  assumes "\<And>n. heap_ok n" "chunked_request b \<Longrightarrow> body = []"
  defines "request \<equiv> request_head (rb_method b) (rb_url b) (sent_headers body b) @ body"
  assumes "length request + 1 < 2 ^ 32"
  shows "\<exists>n. build heap_ok body b =
      (b\<lparr>rb_headers := sent_headers body b\<rparr>, n, Some (request @ [NUL])) \<and> unat n = length request"
proof -
  let ?n = "of_nat (length request) :: u32"
  have n: "unat ?n = length request" "unat (?n + 1) = length request + 1"
    using assms(4) unat_of_nat_plus_1 [of "length request", where 'a = 32]
    by (simp_all add: unat_of_nat_small)
  have "request_size (chunked_request b) (rb_method b) (rb_url b) (sent_headers body b) (of_nat (length body)) = ?n"
    using assms(2) by (auto simp: request_size_exact request_def)
  then show ?thesis
    using n assms(1)
    by (intro exI [of _ ?n])
      (simp add: build_def Let_def chunked_request_def sent_headers_def request_def request_head_def)
qed

text \<open>
  C23: \<open>build\<close> allocates exactly what it writes: for every request of less than 4 GiB that is not
  chunked or has no body, no write leaves the buffer, the buffer holds the request line, the headers,
  the empty line and the body, then the NUL of the allocation, and the reported size is the length of
  that text.
\<close>

theorem build_exact:
  assumes "\<And>n. heap_ok n" "chunked_request b \<Longrightarrow> body = []"
  defines "request \<equiv> request_head (rb_method b) (rb_url b) (sent_headers body b) @ body"
  assumes "length request + 1 < 2 ^ 32"
  shows "\<exists>n. build heap_ok body b =
      (b\<lparr>rb_headers := sent_headers body b\<rparr>, n, Some (request @ [NUL])) \<and> unat n = length request"
  using assms(4) unfolding request_def by (intro build_text assms(1,2))

text \<open>
  A chunked request built with a body overflows its buffer: the size leaves the body out, the copy
  does not.
\<close>

theorem build_chunked_overflow:
  assumes "chunked_request b" "body \<noteq> []"
    and "length (request_head (rb_method b) (rb_url b) (sent_headers body b)) + 1 + length body < 2 ^ 32"
    and "1 < length body"
  shows "snd (snd (build heap_ok body b)) = None"
proof -
  let ?head = "request_head (rb_method b) (rb_url b) (sent_headers body b)"
  let ?n = "of_nat (length ?head) :: u32"
  have "request_size True (rb_method b) (rb_url b) (sent_headers body b) (of_nat (length body)) = ?n"
    by (simp add: request_size_exact)
  moreover have "unat (?n + 1) = length ?head + 1"
    using assms(3) unat_of_nat_plus_1 [of "length ?head", where 'a = 32] by simp
  ultimately show ?thesis
    using assms(1,3,4)
    by (simp add: build_def Let_def chunked_request_def sent_headers_def request_head_def)
qed

text \<open>A builder for the witnesses: a request for \<open>/\<close> of host \<open>h\<close>.\<close>

definition small_builder :: "headers \<Rightarrow> request_builder" where
  "small_builder hs =
     \<lparr>rb_method = HTTP_POST,
      rb_url = \<lparr>pu_port = 80, pu_schema = ''http'', pu_host = ''h'', pu_path = ''/'', pu_query = [],
                pu_userinfo = []\<rparr>,
      rb_headers = hs\<rparr>"

lemmas build_eval = small_builder_def chunked_request_def sent_headers_def content_length_header_def
  content_length_value_def request_head_def request_line_def header_line_def print_dec.simps
  method_strings_def

lemma build_exact_witness:
  "\<exists>n. build (\<lambda>_. True) ''xy'' (small_builder []) =
      ((small_builder [])\<lparr>rb_headers := sent_headers ''xy'' (small_builder [])\<rparr>, n,
       Some ((request_head (rb_method (small_builder [])) (rb_url (small_builder []))
               (sent_headers ''xy'' (small_builder [])) @ ''xy'') @ [NUL])) \<and>
     unat n = length (request_head (rb_method (small_builder [])) (rb_url (small_builder []))
               (sent_headers ''xy'' (small_builder [])) @ ''xy'')"
  by (rule build_exact) (simp_all add: build_eval)

lemma build_chunked_overflow_witness:
  "snd (snd (build (\<lambda>_. True) ''xy'' (small_builder [(''Transfer-Encoding'', ''chunked'')]))) = None"
  by (rule build_chunked_overflow) (simp_all add: build_eval)

section \<open>Sending\<close>

lemma log_slice_wire [simp]: "cn_wire (log_slice s cn) = cn_wire cn"
  by (simp add: log_slice_def split: option.splits)

lemma take_more: "take n xs @ take m (drop n xs) = take (n + m) xs"
  by (simp add: take_add)

lemma send_loop_wire:
  assumes "send_loop buffer count rs cn = Some (r, cn')"
  shows "\<exists>k. cn_wire cn' = cn_wire cn @ take k (drop count buffer) \<and> (0 \<le> r \<longrightarrow> int (count + k) = r)"
  using assms
proof (induction buffer count rs cn rule: send_loop.induct)
  case (1 buffer count cn)
  then show ?case by (auto split: if_splits intro: exI [of _ 0])
next
  case (2 buffer count q rs cn)
  let ?part = "drop count buffer"
  show ?case
  proof (cases "count < length buffer \<and> 0 < q")
    case True
    let ?cn = "(log_slice ?part cn)\<lparr>cn_wire := cn_wire cn @ take (nat q) ?part\<rparr>"
    have "send_loop buffer (count + nat q) rs ?cn = Some (r, cn')"
      using "2.prems" True by (auto simp: Let_def split: if_splits)
    then obtain k where "cn_wire cn' = cn_wire ?cn @ take k (drop (count + nat q) buffer)"
      "0 \<le> r \<longrightarrow> int (count + nat q + k) = r"
      using "2.IH" [of ?part "log_slice ?part cn"] True by (auto simp: Let_def)
    then show ?thesis
      using take_add [of "nat q" k ?part]
      by (intro exI [of _ "nat q + k"]) (auto simp: add.commute)
  next
    case False
    then show ?thesis
      using "2.prems" by (intro exI [of _ 0]) (auto simp: Let_def split: if_splits)
  qed
qed

text \<open>
  What \<open>send_buffer\<close> reports is what the socket took: when it returns a count, the bytes sent are
  exactly that long a prefix of the buffer, in order, however the socket splits them; when it returns
  an error, they are some prefix.
\<close>

theorem send_buffer_prefix:
  assumes "send_buffer buffer cn = Some (r, cn')"
  shows "\<exists>k. cn_wire cn' = cn_wire cn @ take k buffer \<and> (0 \<le> r \<longrightarrow> r = int k)"
  using send_loop_wire [OF assms [unfolded send_buffer_def]] by auto

lemma send_buffer_prefix_witness:
  "\<exists>k. ''abc'' = [] @ take k ''abcde'' \<and> (3::int) = int k"
  using send_buffer_prefix [of "''abcde''" "\<lparr>cn_answers = [2, 1, 0], cn_wire = [], cn_log = None\<rparr>" 3
      "\<lparr>cn_answers = [], cn_wire = ''abc'', cn_log = None\<rparr>"]
  by (simp add: send_buffer_def log_slice_def Let_def)

text \<open>
  The log of a request is not what was sent when the socket takes a buffer in several pieces: each
  call logs all the bytes that are left, so they are logged again (here 6 bytes sent, 9 logged).
\<close>

theorem send_log_repeats:
  "send_buffer ''ABCDEF'' \<lparr>cn_answers = [3, 3], cn_wire = [], cn_log = Some (100, [])\<rparr> =
    Some (6, \<lparr>cn_answers = [], cn_wire = ''ABCDEF'', cn_log = Some (100, ''ABCDEFDEF'')\<rparr>)"
  by (simp add: send_buffer_def log_slice_def Let_def)

text \<open>
  The text of a chunk size fits the ten bytes it is printed into, with its NUL, for every chunk of
  less than 256 MiB, and for no larger one that a 32-bit size can give.
\<close>

theorem chunk_size_fits:
  assumes "length chunk < 2 ^ 32"
  shows "length (chunk_size_text chunk) + 1 \<le> 10 \<longleftrightarrow> length chunk < 2 ^ 28"
proof
  assume "length chunk < 2 ^ 28"
  then show "length (chunk_size_text chunk) + 1 \<le> 10"
    using print_hex_upper_length [of "length chunk" 6] by (simp add: chunk_size_text_def)
next
  have big: "k < length (print_hex_upper v)" if "16 ^ k \<le> v" for k v
    using that
  proof (induction k arbitrary: v)
    case 0
    then show ?case by (subst print_hex_upper.simps) simp
  next
    case (Suc k)
    then have "16 ^ k \<le> v div 16" by (simp add: div_le_mono [of _ v 16, simplified])
    moreover have "16 \<le> v" using Suc.prems by (simp add: order_trans [OF _ Suc.prems])
    ultimately show ?case using Suc.IH by (subst print_hex_upper.simps) simp
  qed
  assume "length (chunk_size_text chunk) + 1 \<le> 10"
  then have "length (print_hex_upper (length chunk)) \<le> 7" by (simp add: chunk_size_text_def)
  then show "length chunk < 2 ^ 28"
    using big [of 7 "length chunk"] by (auto simp: not_less [symmetric])
qed

lemma chunk_size_fits_witness:
  "length (chunk_size_text ''abc'') + 1 \<le> 10 \<longleftrightarrow> length ''abc'' < 2 ^ 28"
  by (rule chunk_size_fits) simp

text \<open>
  A socket that stops taking bytes is not noticed: after a short send (here 5 bytes, then 0)
  \<open>send\<close> goes on to the response as if the whole request had been sent, and hands out whatever
  response arrives.
\<close>

theorem short_send_unnoticed:
  "case send (\<lambda>_. True) 0 [Received (''HTTP/1.1 204 X'' @ [CR, LF, CR, LF])] ''xy''
      \<lparr>hr_builder = small_builder [], hr_has_response = False, hr_we_created_socket = True,
       hr_has_body_callback = False\<rparr>
      \<lparr>cn_answers = [5, 0], cn_wire = [], cn_log = None\<rparr>
   of Sent_response c wire \<Rightarrow> r_status_code (c_response c) = 204 \<and> wire = ''POST ''
    | _ \<Rightarrow> False"
  by code_simp

section \<open>The target\<close>

text \<open>
  For every URL of less than 64K the request has a usable target: the parse does not fault, the
  path is not empty and the port is not 0, whatever the structure held before.
\<close>

theorem ParsedUrl_usable:
  assumes "length url < 2 ^ 16"
  shows "\<exists>p. ParsedUrl garbage url = Some p \<and> pu_path p \<noteq> [] \<and> pu_port p \<noteq> 0"
proof -
  have "\<not> IS_NUM ((url @ [NUL]) ! length url)" by (simp add: char_class_defs)
  then obtain r u where "http_parser_parse_url (url @ [NUL]) (length url) False garbage = Some (r, u)"
    using http_parser_parse_url_good [of "length url" "url @ [NUL]" False garbage] assms by auto
  then show ?thesis by (simp add: ParsedUrl_def Let_def)
qed

text \<open>
  The result of the URL parse is ignored: a URL whose port is out of range, which the parser
  rejects, still makes a request, to the default port of its scheme.
\<close>

theorem ParsedUrl_ignores_error:
  "map_option fst (http_parser_parse_url (''http://h:99999/x'' @ [NUL]) 16 False http_parser_url_init) = Some 1 \<and>
   map_option pu_port (ParsedUrl http_parser_url_init ''http://h:99999/x'') = Some 80"
  by (simp add: ParsedUrl_def url_value_def url_eval)

lemma ParsedUrl_usable_witness:
  "\<exists>p. ParsedUrl http_parser_url_init ''http://h'' = Some p \<and> pu_path p \<noteq> [] \<and> pu_port p \<noteq> 0"
  by (rule ParsedUrl_usable) simp

end
