(* ===== verification/NsBits.thy ===== *)
theory NsBits
  imports Prelude
begin

text \<open>
  \<open>nanostack-libservice\<close>: bit strings (\<open>libBits/common_functions.c\<close>), reads and writes in network
  and in little-endian order (\<open>mbed-client-libservice/common_functions.h\<close>), and the Internet
  checksum (\<open>IPv6_fcf_lib/ip_fsc.c\<close>). A buffer is the list of its bytes; a function that moves a
  pointer returns the bytes it wrote or the offset it moved by.
\<close>

section \<open>Byte order\<close>

text \<open>\<open>*ptr++ = value >> n\<close> keeps the low eight bits of the shifted value.\<close>

definition byte_at :: "nat \<Rightarrow> 'a::len word \<Rightarrow> u8" where
  "byte_at n v = ucast (drop_bit n v)"

definition common_write_64_bit :: "u64 \<Rightarrow> u8 list" where
  "common_write_64_bit v =
     [byte_at 56 v, byte_at 48 v, byte_at 40 v, byte_at 32 v,
      byte_at 24 v, byte_at 16 v, byte_at 8 v, byte_at 0 v]"

definition common_write_32_bit :: "u32 \<Rightarrow> u8 list" where
  "common_write_32_bit v = [byte_at 24 v, byte_at 16 v, byte_at 8 v, byte_at 0 v]"

definition common_write_32_bit_inverse :: "u32 \<Rightarrow> u8 list" where
  "common_write_32_bit_inverse v = [byte_at 0 v, byte_at 8 v, byte_at 16 v, byte_at 24 v]"

definition common_write_24_bit :: "u32 \<Rightarrow> u8 list" where
  "common_write_24_bit v = [byte_at 16 v, byte_at 8 v, byte_at 0 v]"

definition common_write_24_bit_inverse :: "u32 \<Rightarrow> u8 list" where
  "common_write_24_bit_inverse v = [byte_at 0 v, byte_at 8 v, byte_at 16 v]"

definition common_write_16_bit :: "u16 \<Rightarrow> u8 list" where
  "common_write_16_bit v = [byte_at 8 v, byte_at 0 v]"

definition common_write_16_bit_inverse :: "u16 \<Rightarrow> u8 list" where
  "common_write_16_bit_inverse v = [byte_at 0 v, byte_at 8 v]"

text \<open>The sums of shifted bytes; \<open>None\<close> is a read past the buffer.\<close>

fun common_read_64_bit :: "u8 list \<Rightarrow> u64 option" where
  "common_read_64_bit (a # b # c # d # e # f # g # h # _) =
     Some (push_bit 56 (ucast a) + push_bit 48 (ucast b) + push_bit 40 (ucast c) +
           push_bit 32 (ucast d) + push_bit 24 (ucast e) + push_bit 16 (ucast f) +
           push_bit 8 (ucast g) + ucast h)"
| "common_read_64_bit _ = None"

fun common_read_32_bit :: "u8 list \<Rightarrow> u32 option" where
  "common_read_32_bit (a # b # c # d # _) =
     Some (push_bit 24 (ucast a) + push_bit 16 (ucast b) + push_bit 8 (ucast c) + ucast d)"
| "common_read_32_bit _ = None"

fun common_read_32_bit_inverse :: "u8 list \<Rightarrow> u32 option" where
  "common_read_32_bit_inverse (a # b # c # d # _) =
     Some (ucast a + push_bit 8 (ucast b) + push_bit 16 (ucast c) + push_bit 24 (ucast d))"
| "common_read_32_bit_inverse _ = None"

fun common_read_24_bit :: "u8 list \<Rightarrow> u32 option" where
  "common_read_24_bit (a # b # c # _) =
     Some (push_bit 16 (ucast a) + push_bit 8 (ucast b) + ucast c)"
| "common_read_24_bit _ = None"

fun common_read_24_bit_inverse :: "u8 list \<Rightarrow> u32 option" where
  "common_read_24_bit_inverse (a # b # c # _) =
     Some (ucast a + push_bit 8 (ucast b) + push_bit 16 (ucast c))"
| "common_read_24_bit_inverse _ = None"

fun common_read_16_bit :: "u8 list \<Rightarrow> u16 option" where
  "common_read_16_bit (a # b # _) = Some (push_bit 8 (ucast a) + ucast b)"
| "common_read_16_bit _ = None"

fun common_read_16_bit_inverse :: "u8 list \<Rightarrow> u16 option" where
  "common_read_16_bit_inverse (a # b # _) = Some (ucast a + push_bit 8 (ucast b))"
| "common_read_16_bit_inverse _ = None"

section \<open>Counting bits\<close>

definition common_count_bits :: "u8 \<Rightarrow> u32" where
  "common_count_bits value =
     (let count = ucast value - (drop_bit 1 (ucast value) AND 0x55);
          count = (count AND 0x33) + (drop_bit 2 count AND 0x33)
      in drop_bit 4 count + (count AND 0x0F))"

text \<open>The portable branch of \<open>common_count_leading_zeros_*\<close>: halving steps of a mask and a shift.\<close>

definition clz_step :: "'a::len word \<Rightarrow> nat \<Rightarrow> 'a word \<times> nat \<Rightarrow> 'a word \<times> nat" where
  "clz_step m k s =
     (case s of (v, cnt) \<Rightarrow> if v AND m = 0 then (push_bit k v, cnt + k) else (v, cnt))"

definition common_count_leading_zeros_8 :: "u8 \<Rightarrow> nat" where
  "common_count_leading_zeros_8 v =
     (if v = 0 then 8
      else snd (clz_step 0x80 1 (clz_step 0xC0 2 (clz_step 0xF0 4 (v, 0)))))"

definition common_count_leading_zeros :: "u8 \<Rightarrow> nat" where
  "common_count_leading_zeros v = common_count_leading_zeros_8 v"

definition common_count_leading_zeros_16 :: "u16 \<Rightarrow> nat" where
  "common_count_leading_zeros_16 v =
     (if v = 0 then 16
      else snd (clz_step 0x8000 1 (clz_step 0xC000 2 (clz_step 0xF000 4
             (clz_step 0xFF00 8 (v, 0))))))"

definition common_count_leading_zeros_32 :: "u32 \<Rightarrow> nat" where
  "common_count_leading_zeros_32 v =
     (if v = 0 then 32
      else snd (clz_step 0x80000000 1 (clz_step 0xC0000000 2 (clz_step 0xF0000000 4
             (clz_step 0xFF000000 8 (clz_step 0xFFFF0000 16 (v, 0)))))))"

section \<open>Serial numbers\<close>

definition common_serial_number_greater_8 :: "u8 \<Rightarrow> u8 \<Rightarrow> bool" where
  "common_serial_number_greater_8 s1 s2 \<longleftrightarrow>
     s1 > s2 \<and> uint s1 - uint s2 < 0x80 \<or> s1 < s2 \<and> uint s2 - uint s1 > 0x80"

definition common_serial_number_greater_16 :: "u16 \<Rightarrow> u16 \<Rightarrow> bool" where
  "common_serial_number_greater_16 s1 s2 \<longleftrightarrow>
     s1 > s2 \<and> uint s1 - uint s2 < 0x8000 \<or> s1 < s2 \<and> uint s2 - uint s1 > 0x8000"

definition common_serial_number_greater_32 :: "u32 \<Rightarrow> u32 \<Rightarrow> bool" where
  "common_serial_number_greater_32 s1 s2 \<longleftrightarrow>
     s1 > s2 \<and> s1 - s2 < 0x80000000 \<or> s1 < s2 \<and> s2 - s1 > 0x80000000"

section \<open>Bit strings\<close>

text \<open>Bit 0 is the most significant bit of the first byte; \<open>None\<close> is an access past the buffer.\<close>

definition bit_test :: "u8 list \<Rightarrow> nat \<Rightarrow> bool option" where
  "bit_test bs i =
     (if i div 8 < length bs then Some (bs ! (i div 8) AND drop_bit (i mod 8) 0x80 \<noteq> 0) else None)"

definition bit_set :: "u8 list \<Rightarrow> nat \<Rightarrow> u8 list option" where
  "bit_set bs i =
     (if i div 8 < length bs
      then Some (bs[i div 8 := bs ! (i div 8) OR drop_bit (i mod 8) 0x80]) else None)"

definition bit_clear :: "u8 list \<Rightarrow> nat \<Rightarrow> u8 list option" where
  "bit_clear bs i =
     (if i div 8 < length bs
      then Some (bs[i div 8 := bs ! (i div 8) AND NOT (drop_bit (i mod 8) 0x80)]) else None)"

definition context_split_mask :: "nat \<Rightarrow> u8" where
  "context_split_mask n = ucast (- drop_bit n (0x100 :: u32))"

definition bytes_needed :: "nat \<Rightarrow> nat" where
  "bytes_needed bits = bits div 8 + (if bits mod 8 \<noteq> 0 then 1 else 0)"

definition bitsequal :: "u8 list \<Rightarrow> u8 list \<Rightarrow> nat \<Rightarrow> bool option" where
  "bitsequal a b bits =
     (let bytes = bits div 8; r = bits mod 8; m = context_split_mask r
      in if bytes_needed bits > length a \<or> bytes_needed bits > length b then None
         else if take bytes a \<noteq> take bytes b then Some False
         else if r \<noteq> 0 then Some (a ! bytes AND m = b ! bytes AND m)
         else Some True)"

text \<open>The new destination and the offset of the pointer the function returns.\<close>

definition bitcopy :: "u8 list \<Rightarrow> u8 list \<Rightarrow> nat \<Rightarrow> (u8 list \<times> nat) option" where
  "bitcopy dst src bits =
     (let bytes = bits div 8; r = bits mod 8; m = context_split_mask r;
          dst' = take bytes src @ drop bytes dst
      in if bytes_needed bits > length dst \<or> bytes_needed bits > length src then None
         else if r \<noteq> 0
         then Some (dst'[bytes := (src ! bytes AND m) OR (dst' ! bytes AND NOT m)], bytes)
         else Some (dst', bytes))"

definition bitcopy0 :: "u8 list \<Rightarrow> u8 list \<Rightarrow> nat \<Rightarrow> (u8 list \<times> nat) option" where
  "bitcopy0 dst src bits =
     (let bytes = bits div 8; r = bits mod 8; m = context_split_mask r;
          dst' = take bytes src @ drop bytes dst
      in if bytes_needed bits > length dst \<or> bytes_needed bits > length src then None
         else if r \<noteq> 0 then Some (dst'[bytes := src ! bytes AND m], bytes)
         else Some (dst', bytes))"

section \<open>The Internet checksum\<close>

text \<open>
  One vector of \<open>ip_fcf_v\<close>: the accumulator and \<open>odd\<close>, which tells that the last byte went to the
  high half of a 16-bit word.
\<close>

fun sum_words :: "u32 \<Rightarrow> u8 list \<Rightarrow> u32 \<times> bool" where
  "sum_words acc [] = (acc, False)"
| "sum_words acc [a] = (acc + push_bit 8 (ucast a), True)"
| "sum_words acc (a # b # rest) = sum_words (acc + (push_bit 8 (ucast a) OR ucast b)) rest"

fun sum_vector :: "u32 \<times> bool \<Rightarrow> u8 list \<Rightarrow> u32 \<times> bool" where
  "sum_vector (acc, c) [] = (acc, c)"
| "sum_vector (acc, True) (a # rest) = sum_words (acc + ucast a) rest"
| "sum_vector (acc, False) (a # rest) = sum_words acc (a # rest)"

definition fold_carries :: "u32 \<Rightarrow> u16" where
  "fold_carries acc =
     (let acc = drop_bit 16 acc + (acc AND 0xffff)
      in ucast (drop_bit 16 acc + (acc AND 0xffff)))"

definition ip_fcf_v :: "u8 list list \<Rightarrow> u16" where
  "ip_fcf_v vec = NOT (fold_carries (fst (foldl sum_vector (0, False) vec)))"

definition ipv6_fcf :: "u8 list \<Rightarrow> u8 list \<Rightarrow> u16 \<Rightarrow> u8 list \<Rightarrow> u8 \<Rightarrow> u16" where
  "ipv6_fcf src_address dest_address data_length data_ptr next_protocol =
     ip_fcf_v [src_address, dest_address,
       [byte_at 8 data_length, byte_at 0 data_length, 0, next_protocol],
       take (unat data_length) data_ptr]"

end
