(* ===== verification/IpString.thy ===== *)
theory IpString
  imports NsBits Format
begin

text \<open>
  Printing and reading Internet addresses: \<open>libip4string\<close> (\<open>ip4tos.c\<close>, \<open>stoip4.c\<close>) and
  \<open>libip6string\<close> (\<open>ip6tos.c\<close>, \<open>stoip6.c\<close>) of \<open>nanostack-libservice\<close>. The printers give the string
  before its NUL; the readers read a memory \<open>m\<close> from its start, where \<open>None\<close> is a read past it.
\<close>

section \<open>IPv4\<close>

text \<open>\<open>ipv4_itoa\<close>: the digits from the least significant, then the swap of the buffer's ends.\<close>

function itoa_digits :: "u8 \<Rightarrow> string" where
  "itoa_digits byte =
     char_of (48 + unat (byte mod 10)) #
     (if byte div 10 = 0 then [] else itoa_digits (byte div 10))"
  by pat_completeness auto
termination
proof (relation "measure unat", goal_cases)
  case (2 byte)
  have "unat (byte div 10) = unat byte div 10" by (simp add: unat_div)
  moreover have "0 < unat byte" using 2 by (cases "byte = 0") (simp_all add: unat_gt_0)
  ultimately show ?case by simp
qed simp

function swap_ends :: "nat \<Rightarrow> nat \<Rightarrow> string \<Rightarrow> string" where
  "swap_ends i j s = (if i < j then swap_ends (i + 1) (j - 1) (s[j := s ! i, i := s ! j]) else s)"
  by pat_completeness auto
termination by (relation "measure (\<lambda>(i, j, s). j - i)") auto

declare itoa_digits.simps [simp del] swap_ends.simps [simp del]

definition ipv4_itoa :: "u8 \<Rightarrow> string" where
  "ipv4_itoa byte = (let s = itoa_digits byte in swap_ends 0 (length s - 1) s)"

text \<open>The loop over the components: \<open>out\<close> is what the buffer holds before \<open>outputPos\<close>.\<close>

fun ip4tos_loop :: "nat \<Rightarrow> u8 list \<Rightarrow> string \<Rightarrow> string" where
  "ip4tos_loop component [] out = out"
| "ip4tos_loop component (b # bs) out =
     ip4tos_loop (component + 1) bs
       (out @ ipv4_itoa b @ (if component < 3 then ''.'' else ''''))"

text \<open>The string and the length the function returns.\<close>

definition ip4tos :: "u8 list \<Rightarrow> string \<times> nat" where
  "ip4tos addr = (let s = ip4tos_loop 0 (take 4 addr) '''' in (s, length s))"

definition rd :: "string \<Rightarrow> nat \<Rightarrow> char option" where
  "rd m i = (if i < length m then Some (m ! i) else None)"

text \<open>
  The digits of one component: the position after them and the value, \<open>Some None\<close> when it passes
  \<open>0xff\<close>.
\<close>

function stoip4_digits :: "string \<Rightarrow> nat \<Rightarrow> nat \<Rightarrow> nat \<Rightarrow> (nat \<times> nat) option option" where
  "stoip4_digits m len p byte =
     (if p < len then
        (case rd m p of
           None \<Rightarrow> None
         | Some c \<Rightarrow>
             if is_digit c then
               (let byte = byte * 10 + (c_ord c - 48)
                in if byte > 255 then Some None else stoip4_digits m len (p + 1) byte)
             else Some (Some (p, byte)))
      else Some (Some (p, byte)))"
  by pat_completeness auto
termination by (relation "measure (\<lambda>(m, len, p, byte). len - p)") auto

declare stoip4_digits.simps [simp del]

text \<open>
  One round of the loop for \<open>n\<close> components still to read; the result is the answer of the function
  and the bytes written so far.
\<close>

fun stoip4_loop :: "nat \<Rightarrow> string \<Rightarrow> nat \<Rightarrow> nat \<Rightarrow> u8 list \<Rightarrow> (bool \<times> u8 list) option" where
  "stoip4_loop 0 m len p out =
     (if p = len then Some (True, out)
      else case rd m p of None \<Rightarrow> None | Some c \<Rightarrow> Some (c = NUL, out))"
| "stoip4_loop (Suc n) m len p out =
     (if p = len then Some (False, out)
      else case rd m p of
        None \<Rightarrow> None
      | Some c \<Rightarrow>
          if \<not> is_digit c then Some (False, out)
          else case stoip4_digits m len p 0 of
            None \<Rightarrow> None
          | Some None \<Rightarrow> Some (False, out)
          | Some (Some (p, byte)) \<Rightarrow>
              (let out = out @ [of_nat byte]
               in if n = 0 then stoip4_loop 0 m len p out
                  else if p = len then Some (False, out)
                  else case rd m p of
                    None \<Rightarrow> None
                  | Some c \<Rightarrow> if c \<noteq> CHR ''.'' then Some (False, out)
                              else stoip4_loop n m len (p + 1) out))"

definition stoip4 :: "string \<Rightarrow> nat \<Rightarrow> (bool \<times> u8 list) option" where
  "stoip4 m len = (if len > 16 then Some (False, []) else stoip4_loop 4 m len 0 [])"

section \<open>IPv6, printing\<close>

definition part_at :: "u8 list \<Rightarrow> nat \<Rightarrow> u16" where
  "part_at addr n = push_bit 8 (ucast (addr ! (2 * n))) OR ucast (addr ! (2 * n + 1))"

text \<open>The inner scan: the first nonzero part from \<open>n\<close> on, or 8.\<close>

function zero_run_end :: "u8 list \<Rightarrow> nat \<Rightarrow> nat" where
  "zero_run_end addr n =
     (if n < 8 then (if part_at addr n \<noteq> 0 then n else zero_run_end addr (n + 1)) else n)"
  by pat_completeness auto
termination by (relation "measure (\<lambda>(addr, n). 8 - n)") auto

declare zero_run_end.simps [simp del]

lemma zero_run_end_ge: "n \<le> zero_run_end addr n"
proof (induction addr n rule: zero_run_end.induct)
  case (1 addr n)
  then show ?case by (subst zero_run_end.simps) (auto intro: Suc_leD)
qed

text \<open>The search for the longest run of zeros: \<open>zero_start\<close> and \<open>zero_len\<close>.\<close>

function zero_scan :: "u8 list \<Rightarrow> nat \<Rightarrow> nat \<Rightarrow> nat \<Rightarrow> nat \<times> nat" where
  "zero_scan addr n zero_start zero_len =
     (if n < 8 then
        (if part_at addr n \<noteq> 0 then zero_scan addr (n + 1) zero_start zero_len
         else let e = zero_run_end addr (n + 1)
              in if e - n > zero_len then zero_scan addr (e + 1) n (e - n)
                 else zero_scan addr (e + 1) zero_start zero_len)
      else (zero_start, zero_len))"
  by pat_completeness auto
termination
proof (relation "measure (\<lambda>(addr, n, zs, zl). 8 - n)", goal_cases)
  case (3 addr n zs zl e)
  then show ?case using zero_run_end_ge [of "n + 1" addr] by simp
next
  case (4 addr n zs zl e)
  then show ?case using zero_run_end_ge [of "n + 1" addr] by simp
qed auto

declare zero_scan.simps [simp del]

text \<open>The printing loop from part \<open>n\<close>; a run has at least two parts, so \<open>n\<close> grows.\<close>

function ip6_print :: "u8 list \<Rightarrow> nat \<Rightarrow> nat \<Rightarrow> nat \<Rightarrow> string" where
  "ip6_print addr zero_start zero_len n =
     (if n < 8 then
        (if n = zero_start then
           (if n = 0 then '':'' else '''') @ '':'' @
           (if zero_len = 0 then '''' else ip6_print addr zero_start zero_len (n + zero_len))
         else print_hex (unat (part_at addr n)) @ (if n + 1 \<noteq> 8 then '':'' else '''') @
              ip6_print addr zero_start zero_len (n + 1))
      else '''')"
  by pat_completeness auto
termination by (relation "measure (\<lambda>(addr, zs, zl, n). 8 - n)") auto

declare ip6_print.simps [simp del]

definition ip6tos :: "u8 list \<Rightarrow> string \<times> nat" where
  "ip6tos addr =
     (case zero_scan addr 0 255 1 of
        (zero_start, zero_len) \<Rightarrow>
          let s = ip6_print addr zero_start zero_len 0 in (s, length s))"

definition ip6_prefix_tos :: "u8 list \<Rightarrow> nat \<Rightarrow> (string \<times> nat) option" where
  "ip6_prefix_tos prefix prefix_len =
     (if prefix_len > 128 then Some ('''', 0)
      else case bitcopy (replicate 16 0) prefix prefix_len of
        None \<Rightarrow> None
      | Some (addr, _) \<Rightarrow>
          let s = fst (ip6tos addr) @ ''/'' @ print_dec prefix_len in Some (s, length s))"

section \<open>IPv6, reading\<close>

text \<open>\<open>(c & ~0x20)\<close> between \<open>A\<close> and \<open>F\<close>, or a digit.\<close>

definition is_hex :: "char \<Rightarrow> bool" where
  "is_hex c \<longleftrightarrow>
     (let d = take_bit 5 (c_ord c) + 64 * (c_ord c div 64) in 65 \<le> d \<and> d \<le> 70) \<or> is_digit c"

definition hex_value :: "char \<Rightarrow> nat option" where
  "hex_value c =
     (if is_digit c then Some (c_ord c - 48)
      else if 65 \<le> c_ord c \<and> c_ord c \<le> 70 then Some (10 + (c_ord c - 65))
      else if 97 \<le> c_ord c \<and> c_ord c \<le> 102 then Some (10 + (c_ord c - 97))
      else None)"

text \<open>\<open>hex\<close> reads on to the first byte that is no hex digit, whatever \<open>len\<close> was.\<close>

fun hex_loop :: "u16 \<Rightarrow> string \<Rightarrow> u16 option" where
  "hex_loop val [] = None"
| "hex_loop val (c # s) =
     (case hex_value c of
        Some d \<Rightarrow> hex_loop (push_bit 4 val OR of_nat d) s
      | None \<Rightarrow> Some val)"

definition hex :: "string \<Rightarrow> nat \<Rightarrow> u16 option" where
  "hex m p = hex_loop 0 (drop p m)"

text \<open>\<open>for (q = p; len && *q && *q != ':'; len -= 1) if (!is_hex(*q++)) goto error;\<close>\<close>

fun seek_colon :: "string \<Rightarrow> nat \<Rightarrow> nat \<Rightarrow> (nat \<times> nat) option option" where
  "seek_colon m q 0 = Some (Some (q, 0))"
| "seek_colon m q (Suc len) =
     (case rd m q of
        None \<Rightarrow> None
      | Some c \<Rightarrow>
          if c = NUL \<or> c = CHR '':'' then Some (Some (q, Suc len))
          else if is_hex c then seek_colon m (q + 1) len
          else Some None)"

lemma seek_colon_ge: "seek_colon m q len = Some (Some (q', len')) \<Longrightarrow> q \<le> q' \<and> len' \<le> len"
  by (induction m q len rule: seek_colon.induct) (fastforce split: option.splits if_splits)+

text \<open>\<open>len -= 2\<close> on a \<open>size_t\<close> of 32 bits.\<close>

definition minus2 :: "nat \<Rightarrow> nat" where
  "minus2 len = (if len \<ge> 2 then len - 2 else len + (2 ^ 32 - 2))"

text \<open>
  The loop over the fields, at \<open>p\<close> with \<open>field_no\<close>, \<open>coloncolon\<close> and the bytes written:
  \<open>Some None\<close> is \<open>goto error\<close>. It ends at the latest at the end of the memory, which it may not
  read.
\<close>

function stoip6_fields ::
    "string \<Rightarrow> nat \<Rightarrow> nat \<Rightarrow> nat \<Rightarrow> nat option \<Rightarrow> u8 list \<Rightarrow> (nat \<times> nat option \<times> u8 list) option option" where
  "stoip6_fields m p len field_no coloncolon out =
     (if len = 0 then Some (Some (field_no, coloncolon, out))
      else if \<not> p < length m then None
      else if m ! p = NUL then Some (Some (field_no, coloncolon, out))
      else case seek_colon m p len of
        None \<Rightarrow> None
      | Some None \<Rightarrow> Some None
      | Some (Some (q, len)) \<Rightarrow>
          if q - p > 4 then Some None
          else if field_no = 8 then Some None
          else case hex m p of
            None \<Rightarrow> None
          | Some v \<Rightarrow>
              (let out = out @ common_write_16_bit v; field_no = field_no + 1
               in if len = 0 then stoip6_fields m (q + 1) 0 field_no coloncolon out
                  else case rd m q of
                    None \<Rightarrow> None
                  | Some c \<Rightarrow>
                      if c = CHR '':'' then
                        (case rd m (q + 1) of
                           None \<Rightarrow> None
                         | Some d \<Rightarrow>
                             if d = CHR '':'' then
                               (if coloncolon \<noteq> None then Some None
                                else stoip6_fields m (q + 2) (minus2 len) field_no (Some field_no) out)
                             else stoip6_fields m (q + 1) (len - 1) field_no coloncolon out)
                      else stoip6_fields m (q + 1) (len - 1) field_no coloncolon out))"
  by pat_completeness auto
termination
  by (relation "measure (\<lambda>(m, p, len, field_no, coloncolon, out). length m - p)")
    (auto dest!: seek_colon_ge)

declare stoip6_fields.simps [simp del]

definition stoip6 :: "string \<Rightarrow> nat \<Rightarrow> (bool \<times> u8 list) option" where
  "stoip6 m len =
     (if len > 39 then Some (False, replicate 16 0)
      else case stoip6_fields m 0 len 0 None [] of
        None \<Rightarrow> None
      | Some None \<Rightarrow> Some (False, replicate 16 0)
      | Some (Some (field_no, None, out)) \<Rightarrow>
          if field_no \<noteq> 8 then Some (False, replicate 16 0) else Some (True, out)
      | Some (Some (field_no, Some coloncolon, out)) \<Rightarrow>
          (let head_size = 2 * coloncolon;
               inserted_size = 2 * (8 - field_no);
               tail_size = 16 - head_size - inserted_size
           in Some (True, take head_size out @ replicate inserted_size 0 @
                          take tail_size (drop head_size out))))"

text \<open>
  \<open>strtoul(s, 0, 10)\<close>: white space, a sign, digits up to \<open>ULONG_MAX\<close>; a minus sign negates the
  result.
\<close>

definition is_space :: "char \<Rightarrow> bool" where
  "is_space c \<longleftrightarrow> c = SP \<or> 9 \<le> c_ord c \<and> c_ord c \<le> 13"

definition strtoul10 :: "string \<Rightarrow> u32" where
  "strtoul10 s =
     (let s = dropWhile is_space s;
          neg = (s \<noteq> [] \<and> hd s = CHR ''-'');
          s = (if s \<noteq> [] \<and> hd s \<in> {CHR ''-'', CHR ''+''} then tl s else s);
          v = foldl (\<lambda>v c. v * 10 + (int (c_ord c) - 48)) 0 (takeWhile is_digit s)
      in if v > 2 ^ 32 - 1 then - 1 else if neg then of_int (- v) else of_int v)"

text \<open>On the string before its NUL, where \<open>strchr\<close> looks for the slash.\<close>

definition sipv6_prefixlength :: "string \<Rightarrow> u8" where
  "sipv6_prefixlength s =
     (case memchr (CHR ''/'') s of
        None \<Rightarrow> 0
      | Some i \<Rightarrow> ucast (strtoul10 (drop (i + 1) s)))"

text \<open>
  \<open>stoip6_prefix\<close> with a place for the prefix length: the result, the address if it was written,
  and the prefix length (a signed number).
\<close>

definition stoip6_prefix :: "string \<Rightarrow> (int \<times> u8 list option \<times> int) option" where
  "stoip6_prefix s =
     (let total_len = length s;
          addr_len = (case memchr (CHR ''/'') s of None \<Rightarrow> total_len | Some i \<Rightarrow> i);
          parse = (\<lambda>n. case stoip6 (s @ [NUL]) addr_len of
             None \<Rightarrow> None
           | Some (ok, addr) \<Rightarrow> Some (if ok then 0 else - 1, Some addr, n))
      in case memchr (CHR ''/'') s of
           None \<Rightarrow> parse (- 1)
         | Some i \<Rightarrow>
             if total_len - addr_len > 3 then Some (- 1, None, - 1)
             else let n = sint (strtoul10 (drop (i + 1) s))
                  in if n < 0 \<or> n > 128 then Some (- 1, None, - 1) else parse n)"

end
