(* ===== verification/NsBitsTheorems.thy ===== *)
theory NsBitsTheorems
  imports NsBits
begin

text \<open>
  The contracts of the bit and byte functions: reading back what was written, counting, serial
  number order, bit-string copies and comparison bit by bit, and the checksum's independence of
  the way the data is cut and its verification by a receiver.
\<close>

section \<open>Reading back what was written\<close>

lemmas write_defs = common_write_64_bit_def common_write_32_bit_def common_write_32_bit_inverse_def
  common_write_24_bit_def common_write_24_bit_inverse_def common_write_16_bit_def
  common_write_16_bit_inverse_def

text \<open>A byte put back in its place; the sum of bytes at different places is their disjunction.\<close>

lemma byte_place:
  fixes v :: "'a::len word"
  assumes "8 \<le> LENGTH('a)"
  shows "bit (push_bit n (ucast (byte_at n v) :: 'a word)) k \<longleftrightarrow> n \<le> k \<and> k < n + 8 \<and> bit v k"
    and "bit (ucast (byte_at 0 v) :: 'a word) k \<longleftrightarrow> k < 8 \<and> bit v k"
  using assms by (auto simp: byte_at_def bit_simps dest: bit_imp_le_length)

lemma place_add:
  fixes v :: "'a::len word"
  assumes "8 \<le> LENGTH('a)"
  shows "\<forall>k. bit a k \<longrightarrow> n + 8 \<le> k \<or> k < n \<Longrightarrow>
      bit (a + push_bit n (ucast (byte_at n v) :: 'a word)) k \<longleftrightarrow> bit a k \<or> n \<le> k \<and> k < n + 8 \<and> bit v k"
    and "\<forall>k. bit a k \<longrightarrow> 8 \<le> k \<Longrightarrow>
      bit (a + ucast (byte_at 0 v) :: 'a word) k \<longleftrightarrow> bit a k \<or> k < 8 \<and> bit v k"
proof -
  show "bit (a + push_bit n (ucast (byte_at n v) :: 'a word)) k \<longleftrightarrow> bit a k \<or> n \<le> k \<and> k < n + 8 \<and> bit v k"
    if "\<forall>k. bit a k \<longrightarrow> n + 8 \<le> k \<or> k < n"
    using that assms by (subst disjunctive_add) (auto simp: bit_or_iff byte_place not_le)
  show "bit (a + ucast (byte_at 0 v) :: 'a word) k \<longleftrightarrow> bit a k \<or> k < 8 \<and> bit v k"
    if "\<forall>k. bit a k \<longrightarrow> 8 \<le> k"
    using that assms by (subst disjunctive_add) (auto simp: bit_or_iff byte_place not_le)
qed

lemma read_write_16:
  "common_read_16_bit (common_write_16_bit v) = Some v"
  "common_read_16_bit_inverse (common_write_16_bit_inverse v) = Some v"
  by (auto simp: write_defs place_add byte_place intro!: bit_word_eqI)

lemma read_write_24:
  "common_read_24_bit (common_write_24_bit v) = Some (v AND mask 24)"
  "common_read_24_bit_inverse (common_write_24_bit_inverse v) = Some (v AND mask 24)"
  by (auto simp: write_defs place_add byte_place bit_and_iff bit_mask_iff intro!: bit_word_eqI)

lemma read_write_32:
  "common_read_32_bit (common_write_32_bit v) = Some v"
  "common_read_32_bit_inverse (common_write_32_bit_inverse v) = Some v"
  by (auto simp: write_defs place_add byte_place intro!: bit_word_eqI)

lemma read_write_64: "common_read_64_bit (common_write_64_bit v) = Some v"
  by (auto simp: write_defs place_add byte_place intro!: bit_word_eqI)

text \<open>
  Every \<open>common_read_*\<close> gives back what the \<open>common_write_*\<close> of the same width and byte order
  wrote, in network order and inverse; the 24-bit pair keeps the low 24 bits of its argument.
\<close>

theorem read_write_roundtrip:
  "common_read_16_bit (common_write_16_bit a) = Some a \<and>
   common_read_16_bit_inverse (common_write_16_bit_inverse a) = Some a \<and>
   common_read_24_bit (common_write_24_bit b) = Some (b AND mask 24) \<and>
   common_read_24_bit_inverse (common_write_24_bit_inverse b) = Some (b AND mask 24) \<and>
   common_read_32_bit (common_write_32_bit b) = Some b \<and>
   common_read_32_bit_inverse (common_write_32_bit_inverse b) = Some b \<and>
   common_read_64_bit (common_write_64_bit c) = Some c"
  by (intro conjI read_write_16 read_write_24 read_write_32 read_write_64)

section \<open>Counting\<close>

lemma count_bits_table:
  "list_all (\<lambda>n. common_count_bits (of_nat n) =
     of_nat (length (filter (bit (of_nat n :: u8)) [0..<8]))) [0..<256]"
  by code_simp

text \<open>
  The branch-free \<open>common_count_bits\<close> counts the bits that are set, for every byte.
\<close>

theorem common_count_bits_correct:
  "common_count_bits v = of_nat (length (filter (bit v) [0..<8]))"
proof -
  have "unat v \<in> set [0..<256]" using unsigned_less [of v] by simp
  then show ?thesis
    using count_bits_table unfolding list_all_iff by fastforce
qed

lemma high_bits_clear: "v AND NOT (mask n) = 0 \<longleftrightarrow> unat v < 2 ^ n" for v :: "'a::len word"
proof -
  have "unat v < 2 ^ n \<longleftrightarrow> take_bit n v = v"
    by (metis unsigned_take_bit_eq take_bit_nat_eq_self_iff unsigned_word_eqI)
  also have "\<dots> \<longleftrightarrow> v AND NOT (mask n) = 0"
    by (metis (no_types, opaque_lifting) and.right_neutral and_zero_eq bit.conj_cancel_right
        bit.conj_disj_distrib bit.disj_cancel_right take_bit_eq_mask word_bw_assocs(1) or.right_neutral)
  finally show ?thesis by blast
qed

text \<open>\<open>(v, c)\<close> is \<open>v0\<close> shifted by \<open>c\<close>, and between \<open>c\<close> and \<open>c + k\<close> leading bits of \<open>v0\<close> are clear.\<close>

definition clz_inv :: "nat \<Rightarrow> 'a::len word \<Rightarrow> 'a word \<times> nat \<Rightarrow> bool" where
  "clz_inv k v0 s \<longleftrightarrow>
     fst s = push_bit (snd s) v0 \<and> snd s + k \<le> LENGTH('a) \<and>
     2 ^ (LENGTH('a) - snd s - k) \<le> unat v0 \<and> unat v0 < 2 ^ (LENGTH('a) - snd s)"

lemma clz_step_inv:
  fixes v0 :: "'a::len word"
  assumes "clz_inv j v0 s" "j = 2 * k" "m = NOT (mask (LENGTH('a) - k))" "0 < k"
  shows "clz_inv k v0 (clz_step m k s)"
proof -
  obtain v c where s: "s = (v, c)" by (cases s)
  let ?L = "LENGTH('a)"
  have v: "v = push_bit c v0" and c: "c + 2 * k \<le> ?L" and low: "2 ^ (?L - c - 2 * k) \<le> unat v0"
    and high: "unat v0 < 2 ^ (?L - c)"
    using assms(1,2) by (simp_all add: clz_inv_def s)
  have "unat v0 * 2 ^ c < 2 ^ (?L - c) * 2 ^ c"
    using high by simp
  then have unat_v: "unat v = unat v0 * 2 ^ c"
    using c unfolding v unsigned_push_bit_eq
    by (simp add: push_bit_eq_mult take_bit_nat_eq_self flip: power_add)
  have "unat v < 2 ^ (?L - k) \<longleftrightarrow> unat v0 * 2 ^ c < 2 ^ (?L - k - c) * 2 ^ c"
    using c unat_v by (simp flip: power_add)
  then have test: "v AND m = 0 \<longleftrightarrow> unat v0 < 2 ^ (?L - k - c)"
    unfolding assms(3) high_bits_clear by simp
  have "2 ^ (?L - (k + (c + k))) \<le> unat v0"
    using low by (simp add: mult_2_right mult.commute add.left_commute)
  then show ?thesis
    using v c low high test assms(4)
    by (auto simp: clz_inv_def s clz_step_def push_bit_push_bit add.commute diff_diff_eq not_less)
qed

lemma clz_inv_start: "v \<noteq> 0 \<Longrightarrow> clz_inv LENGTH('a) v (v, 0)" for v :: "'a::len word"
  using unsigned_less [of v] by (simp add: clz_inv_def unat_gt_0 Suc_leI)

lemma clz_inv_end:
  fixes v :: "'a::len word"
  assumes "clz_inv 1 v s"
  shows "snd s < LENGTH('a) \<and> 2 ^ (LENGTH('a) - 1 - snd s) \<le> unat v \<and> unat v < 2 ^ (LENGTH('a) - snd s)"
  using assms by (simp add: clz_inv_def add.commute)

text \<open>A word with \<open>k\<close> leading zeros lies between two powers of two.\<close>

lemma common_count_leading_zeros_correct:
  shows "v \<noteq> 0 \<Longrightarrow> common_count_leading_zeros_8 v < 8 \<and>
      2 ^ (7 - common_count_leading_zeros_8 v) \<le> unat v \<and>
      unat v < 2 ^ (8 - common_count_leading_zeros_8 v)"
    and "w \<noteq> 0 \<Longrightarrow> common_count_leading_zeros_16 w < 16 \<and>
      2 ^ (15 - common_count_leading_zeros_16 w) \<le> unat w \<and>
      unat w < 2 ^ (16 - common_count_leading_zeros_16 w)"
    and "x \<noteq> 0 \<Longrightarrow> common_count_leading_zeros_32 x < 32 \<and>
      2 ^ (31 - common_count_leading_zeros_32 x) \<le> unat x \<and>
      unat x < 2 ^ (32 - common_count_leading_zeros_32 x)"
proof -
  show "common_count_leading_zeros_8 v < 8 \<and> 2 ^ (7 - common_count_leading_zeros_8 v) \<le> unat v \<and>
      unat v < 2 ^ (8 - common_count_leading_zeros_8 v)" if "v \<noteq> 0"
  proof -
    note start = clz_inv_start [OF that]
    have a4: "clz_inv 4 v (clz_step 0xF0 4 (v, 0))"
      by (rule clz_step_inv [OF start]) (simp_all add: mask_eq_exp_minus_1)
    have a2: "clz_inv 2 v (clz_step 0xC0 2 (clz_step 0xF0 4 (v, 0)))"
      by (rule clz_step_inv [OF a4]) (simp_all add: mask_eq_exp_minus_1)
    have a1: "clz_inv 1 v (clz_step 0x80 1 (clz_step 0xC0 2 (clz_step 0xF0 4 (v, 0))))"
      by (rule clz_step_inv [OF a2]) (simp_all add: mask_eq_exp_minus_1)
    show ?thesis
      using clz_inv_end [OF a1] that by (simp add: common_count_leading_zeros_8_def)
  qed
  show "common_count_leading_zeros_16 w < 16 \<and> 2 ^ (15 - common_count_leading_zeros_16 w) \<le> unat w \<and>
      unat w < 2 ^ (16 - common_count_leading_zeros_16 w)" if "w \<noteq> 0"
  proof -
    note start = clz_inv_start [OF that]
    have a8: "clz_inv 8 w (clz_step 0xFF00 8 (w, 0))"
      by (rule clz_step_inv [OF start]) (simp_all add: mask_eq_exp_minus_1)
    have a4: "clz_inv 4 w (clz_step 0xF000 4 (clz_step 0xFF00 8 (w, 0)))"
      by (rule clz_step_inv [OF a8]) (simp_all add: mask_eq_exp_minus_1)
    have a2: "clz_inv 2 w (clz_step 0xC000 2 (clz_step 0xF000 4 (clz_step 0xFF00 8 (w, 0))))"
      by (rule clz_step_inv [OF a4]) (simp_all add: mask_eq_exp_minus_1)
    have a1: "clz_inv 1 w (clz_step 0x8000 1 (clz_step 0xC000 2 (clz_step 0xF000 4 (clz_step 0xFF00 8 (w, 0)))))"
      by (rule clz_step_inv [OF a2]) (simp_all add: mask_eq_exp_minus_1)
    show ?thesis
      using clz_inv_end [OF a1] that by (simp add: common_count_leading_zeros_16_def)
  qed
  show "common_count_leading_zeros_32 x < 32 \<and> 2 ^ (31 - common_count_leading_zeros_32 x) \<le> unat x \<and>
      unat x < 2 ^ (32 - common_count_leading_zeros_32 x)" if "x \<noteq> 0"
  proof -
    note start = clz_inv_start [OF that]
    have a16: "clz_inv 16 x (clz_step 0xFFFF0000 16 (x, 0))"
      by (rule clz_step_inv [OF start]) (simp_all add: mask_eq_exp_minus_1)
    have a8: "clz_inv 8 x (clz_step 0xFF000000 8 (clz_step 0xFFFF0000 16 (x, 0)))"
      by (rule clz_step_inv [OF a16]) (simp_all add: mask_eq_exp_minus_1)
    have a4: "clz_inv 4 x (clz_step 0xF0000000 4 (clz_step 0xFF000000 8 (clz_step 0xFFFF0000 16 (x, 0))))"
      by (rule clz_step_inv [OF a8]) (simp_all add: mask_eq_exp_minus_1)
    have a2: "clz_inv 2 x (clz_step 0xC0000000 2 (clz_step 0xF0000000 4 (clz_step 0xFF000000 8 (clz_step 0xFFFF0000 16 (x, 0)))))"
      by (rule clz_step_inv [OF a4]) (simp_all add: mask_eq_exp_minus_1)
    have a1: "clz_inv 1 x (clz_step 0x80000000 1 (clz_step 0xC0000000 2 (clz_step 0xF0000000 4 (clz_step 0xFF000000 8 (clz_step 0xFFFF0000 16 (x, 0))))))"
      by (rule clz_step_inv [OF a2]) (simp_all add: mask_eq_exp_minus_1)
    show ?thesis
      using clz_inv_end [OF a1] that by (simp add: common_count_leading_zeros_32_def)
  qed
qed

text \<open>
  The halving search of \<open>common_count_leading_zeros_8/16/32\<close> finds the number of leading zeros
  of every word: the width for 0, and else the word lies between the two powers of two that the
  number says.
\<close>

theorem count_leading_zeros_spec:
  "(if v = 0 then common_count_leading_zeros_8 v = 8
    else 2 ^ (7 - common_count_leading_zeros_8 v) \<le> unat v \<and> unat v < 2 ^ (8 - common_count_leading_zeros_8 v)) \<and>
   (if w = 0 then common_count_leading_zeros_16 w = 16
    else 2 ^ (15 - common_count_leading_zeros_16 w) \<le> unat w \<and> unat w < 2 ^ (16 - common_count_leading_zeros_16 w)) \<and>
   (if x = 0 then common_count_leading_zeros_32 x = 32
    else 2 ^ (31 - common_count_leading_zeros_32 x) \<le> unat x \<and> unat x < 2 ^ (32 - common_count_leading_zeros_32 x))"
  using common_count_leading_zeros_correct(1) [of v] common_count_leading_zeros_correct(2) [of w]
    common_count_leading_zeros_correct(3) [of x]
  by (simp add: common_count_leading_zeros_8_def common_count_leading_zeros_16_def
      common_count_leading_zeros_32_def)

section \<open>Serial numbers\<close>

text \<open>RFC 1982: \<open>s1\<close> is greater when the difference, as a signed number, is positive.\<close>

lemma uint_minus:
  "uint (a - b) = (if uint b \<le> uint a then uint a - uint b else uint a - uint b + 2 ^ LENGTH('a))"
  for a b :: "'a::len word"
  by (simp add: uint_sub_if_size word_size)

lemma common_serial_number_greater_correct:
  "common_serial_number_greater_8 a b \<longleftrightarrow> 0 < uint (a - b) \<and> uint (a - b) < 2 ^ 7"
  "common_serial_number_greater_16 c d \<longleftrightarrow> 0 < uint (c - d) \<and> uint (c - d) < 2 ^ 15"
  "common_serial_number_greater_32 s1 s2 \<longleftrightarrow> 0 < uint (s1 - s2) \<and> uint (s1 - s2) < 2 ^ 31"
  using uint_bounded [of a] uint_bounded [of b] uint_bounded [of c] uint_bounded [of d]
    uint_bounded [of s1] uint_bounded [of s2] uint_ge_0 [of a] uint_ge_0 [of c] uint_ge_0 [of s1]
  unfolding common_serial_number_greater_8_def common_serial_number_greater_16_def
    common_serial_number_greater_32_def word_less_def uint_minus
  by (simp_all del: uint_ge_0 split: if_split; linarith)+

text \<open>
  The comparison of serial numbers is that of RFC 1982 at each width: the first is greater iff
  their difference, taken modulo the width, is not 0 and less than half the range.
\<close>

theorem serial_number_greater_spec:
  "common_serial_number_greater_8 a b = (0 < uint (a - b) \<and> uint (a - b) < 2 ^ 7) \<and>
   common_serial_number_greater_16 c d = (0 < uint (c - d) \<and> uint (c - d) < 2 ^ 15) \<and>
   common_serial_number_greater_32 s1 s2 = (0 < uint (s1 - s2) \<and> uint (s1 - s2) < 2 ^ 31)"
  by (intro conjI common_serial_number_greater_correct)

section \<open>Bit strings\<close>

lemma context_split_mask_bit:
  assumes "n < 8" "k < 8"
  shows "bit (context_split_mask n) k \<longleftrightarrow> 8 \<le> n + k"
proof -
  have "list_all (\<lambda>n. list_all (\<lambda>k. bit (context_split_mask n) k = (8 \<le> n + k)) [0..<8]) [0..<8]"
    by code_simp
  then show ?thesis using assms by (simp add: list_all_iff)
qed

lemma bit_test_bit:
  assumes "i div 8 < length bs"
  shows "bit_test bs i = Some (bit (bs ! (i div 8)) (7 - i mod 8))"
proof -
  have "drop_bit k (0x80 :: u8) = 2 ^ (7 - k)" if "k < 8" for k
  proof -
    have "list_all (\<lambda>k. drop_bit k (0x80 :: u8) = 2 ^ (7 - k)) [0..<8]" by code_simp
    then show ?thesis using that by (simp add: list_all_iff)
  qed
  then show ?thesis
    using assms by (simp add: bit_test_def and_exp_test)
qed

text \<open>Bit \<open>i\<close> of a byte list, and equality of the first bits.\<close>

definition nth_bit :: "u8 list \<Rightarrow> nat \<Rightarrow> bool" where
  "nth_bit bs i = bit (bs ! (i div 8)) (7 - i mod 8)"

lemma bytes_needed_le: "bytes_needed n \<le> m \<longleftrightarrow> n \<le> 8 * m"
proof -
  define q r where "q = n div 8" and "r = n mod 8"
  have n: "n = 8 * q + r" "r < 8" by (simp_all add: q_def r_def)
  show ?thesis
    unfolding bytes_needed_def q_def [symmetric] r_def [symmetric] using n by auto
qed

lemma less_div_mod: "i < n \<longleftrightarrow> i div 8 < n div 8 \<or> i div 8 = n div 8 \<and> i mod 8 < n mod (8::nat)"
proof -
  have "i = 8 * (i div 8) + i mod 8" "n = 8 * (n div 8) + n mod 8" "i mod 8 < 8" "n mod 8 < 8"
    by simp_all
  then show ?thesis by linarith
qed

lemma mask_bit: "bit (context_split_mask (n mod 8)) (7 - i mod 8) \<longleftrightarrow> i mod 8 < n mod 8"
proof -
  have "7 - i mod 8 < 8" "n mod 8 < 8" "i mod 8 < 8" by simp_all
  then show ?thesis by (subst context_split_mask_bit) auto
qed

lemma nth_prefix:
  assumes "q \<le> length src" "q \<le> length dst" "j < length dst"
  shows "(take q src @ drop q dst) ! j = (if j < q then src ! j else dst ! j)"
  using assms by (simp add: nth_append min_def)

text \<open>What both copies do: the whole bytes, then one mixed byte.\<close>

lemma copy_nth:
  assumes "n \<le> 8 * length dst" "n \<le> 8 * length src" "j < length dst"
  defines "d \<equiv> take (n div 8) src @ drop (n div 8) dst"
  shows "length d = length dst"
    and "(if n mod 8 \<noteq> 0 then d[n div 8 := b] else d) ! j =
      (if j < n div 8 then src ! j else if j = n div 8 \<and> n mod 8 \<noteq> 0 then b else dst ! j)"
proof -
  have q: "n div 8 \<le> length src" "n div 8 \<le> length dst" using assms(1,2) by linarith+
  show len: "length d = length dst" using q by (simp add: d_def)
  show "(if n mod 8 \<noteq> 0 then d[n div 8 := b] else d) ! j =
      (if j < n div 8 then src ! j else if j = n div 8 \<and> n mod 8 \<noteq> 0 then b else dst ! j)"
    using nth_prefix [OF q assms(3)] len assms(3) by (simp add: d_def [symmetric] nth_list_update)
qed

lemma bitcopy_eq:
  assumes "bitcopy dst src n = Some (dst', off)"
  shows "n \<le> 8 * length dst" "n \<le> 8 * length src" "off = n div 8"
    and "dst' = (let d = take (n div 8) src @ drop (n div 8) dst; m = context_split_mask (n mod 8)
      in if n mod 8 \<noteq> 0 then d[n div 8 := (src ! (n div 8) AND m) OR (d ! (n div 8) AND NOT m)] else d)"
  using assms by (auto simp: bitcopy_def Let_def not_less bytes_needed_le split: if_splits)

lemma bitcopy0_eq:
  assumes "bitcopy0 dst src n = Some (dst', off)"
  shows "n \<le> 8 * length dst" "n \<le> 8 * length src" "off = n div 8"
    and "dst' = (let d = take (n div 8) src @ drop (n div 8) dst; m = context_split_mask (n mod 8)
      in if n mod 8 \<noteq> 0 then d[n div 8 := src ! (n div 8) AND m] else d)"
  using assms by (auto simp: bitcopy0_def Let_def not_less bytes_needed_le split: if_splits)

lemma bitcopy_bits:
  assumes "bitcopy dst src n = Some (dst', off)"
  shows "length dst' = length dst" "off = n div 8"
    and "i < 8 * length dst \<Longrightarrow> nth_bit dst' i = (if i < n then nth_bit src i else nth_bit dst i)"
proof -
  note eq = bitcopy_eq [OF assms]
  show "off = n div 8" by (rule eq(3))
  have q: "n div 8 \<le> length dst" using eq(1) by linarith
  show "length dst' = length dst"
    using q eq(2) unfolding eq(4) by (simp add: Let_def)
  assume i: "i < 8 * length dst"
  then have j: "i div 8 < length dst" by linarith
  have "n div 8 \<le> length src" using eq(2) by linarith
  then have old: "(take (n div 8) src @ drop (n div 8) dst) ! (n div 8) = dst ! (n div 8)"
    if "i div 8 = n div 8"
    using nth_prefix [of "n div 8" src dst "n div 8"] q j that by simp
  show "nth_bit dst' i = (if i < n then nth_bit src i else nth_bit dst i)"
    unfolding nth_bit_def eq(4) Let_def copy_nth(2) [OF eq(1,2) j]
    using old mask_bit [of n i]
    by (cases "i div 8 = n div 8")
      (auto simp: less_div_mod [of i n] bit_or_iff bit_and_iff bit_not_iff)
qed

lemma bitcopy_ok: "n \<le> 8 * length dst \<Longrightarrow> n \<le> 8 * length src \<Longrightarrow> bitcopy dst src n \<noteq> None"
  by (auto simp: bitcopy_def Let_def bytes_needed_le not_less)

lemma bitcopy0_ok: "n \<le> 8 * length dst \<Longrightarrow> n \<le> 8 * length src \<Longrightarrow> bitcopy0 dst src n \<noteq> None"
  by (simp add: bitcopy0_def bytes_needed_le Let_def not_less)

lemma bitcopy0_bits:
  assumes "bitcopy0 dst src n = Some (dst', off)"
  shows "length dst' = length dst" "off = n div 8"
    and "i < 8 * length dst \<Longrightarrow> nth_bit dst' i =
      (if i < n then nth_bit src i else if i < 8 * bytes_needed n then False else nth_bit dst i)"
proof -
  note eq = bitcopy0_eq [OF assms]
  show "off = n div 8" by (rule eq(3))
  have q: "n div 8 \<le> length dst" using eq(1) by linarith
  show "length dst' = length dst"
    using q eq(2) unfolding eq(4) by (simp add: Let_def)
  assume i: "i < 8 * length dst"
  then have j: "i div 8 < length dst" by linarith
  have need: "i < 8 * bytes_needed n \<longleftrightarrow> i div 8 < n div 8 \<or> i div 8 = n div 8 \<and> n mod 8 \<noteq> 0"
  proof -
    define q r where "q = i div 8" and "r = i mod 8"
    have "i = 8 * q + r" "r < 8" by (simp_all add: q_def r_def)
    then show ?thesis unfolding bytes_needed_def q_def [symmetric] by auto
  qed
  show "nth_bit dst' i =
      (if i < n then nth_bit src i else if i < 8 * bytes_needed n then False else nth_bit dst i)"
    unfolding nth_bit_def eq(4) Let_def copy_nth(2) [OF eq(1,2) j]
    using mask_bit [of n i] need
    by (cases "i div 8 = n div 8") (auto simp: less_div_mod [of i n] bit_and_iff)
qed

text \<open>
  C30: On buffers that hold \<open>n\<close> bits, \<open>bitcopy\<close> copies exactly the first \<open>n\<close> bits, counted from the
  most significant bit of the first byte, and leaves every other bit of the destination as it was;
  \<open>bitcopy0\<close> does the same and clears the rest of the last byte it touches. Both return a pointer
  \<open>n / 8\<close> bytes on.
\<close>

theorem bitcopy_spec:
  assumes "n \<le> 8 * length dst" "n \<le> 8 * length src"
  shows "\<exists>d e. bitcopy dst src n = Some (d, n div 8) \<and> bitcopy0 dst src n = Some (e, n div 8) \<and>
     length d = length dst \<and> length e = length dst \<and>
     (\<forall>i < 8 * length dst.
        nth_bit d i = (if i < n then nth_bit src i else nth_bit dst i) \<and>
        nth_bit e i = (if i < n then nth_bit src i
                       else if i < 8 * bytes_needed n then False else nth_bit dst i))"
proof -
  obtain d o1 where d: "bitcopy dst src n = Some (d, o1)" using bitcopy_ok [OF assms] by fast
  obtain e o2 where e: "bitcopy0 dst src n = Some (e, o2)" using bitcopy0_ok [OF assms] by fast
  show ?thesis
    using d e bitcopy_bits [OF d] bitcopy0_bits [OF e] by auto
qed

lemma bitcopy_spec_witness:
  "\<exists>d e. bitcopy [0xFF, 0xFF] [0, 0] 5 = Some (d, 5 div 8) \<and> bitcopy0 [0xFF, 0xFF] [0, 0] 5 = Some (e, 5 div 8) \<and>
     length d = length [0xFF, 0xFF :: u8] \<and> length e = length [0xFF, 0xFF :: u8] \<and>
     (\<forall>i < 8 * length [0xFF, 0xFF :: u8].
        nth_bit d i = (if i < 5 then nth_bit [0, 0] i else nth_bit [0xFF, 0xFF] i) \<and>
        nth_bit e i = (if i < 5 then nth_bit [0, 0] i
                       else if i < 8 * bytes_needed 5 then False else nth_bit [0xFF, 0xFF] i))"
  by (rule bitcopy_spec) simp_all

lemma byte_eq_bits: "a = b \<longleftrightarrow> (\<forall>k < 8. bit a (7 - k) = bit b (7 - k))" for a b :: u8
proof
  assume *: "\<forall>k < 8. bit a (7 - k) = bit b (7 - k)"
  show "a = b"
  proof (rule bit_word_eqI)
    fix n assume "n < LENGTH(8)"
    then have "7 - (7 - n) = n" "7 - n < 8" by simp_all
    then show "bit a n = bit b n" using * by metis
  qed
qed simp

text \<open>
  \<open>bitsequal\<close> compares exactly the first \<open>n\<close> bits of two buffers that hold them.
\<close>

theorem bitsequal_bits:
  assumes "n \<le> 8 * length a" "n \<le> 8 * length b"
  shows "bitsequal a b n = Some (\<forall>i < n. nth_bit a i = nth_bit b i)"
proof -
  let ?q = "n div 8" and ?r = "n mod 8"
  have q: "?q \<le> length a" "?q \<le> length b" using assms by linarith+
  have bytes: "take ?q a = take ?q b \<longleftrightarrow> (\<forall>i < 8 * ?q. nth_bit a i = nth_bit b i)"
  proof -
    have "take ?q a = take ?q b \<longleftrightarrow> (\<forall>j < ?q. a ! j = b ! j)"
      using q by (simp add: list_eq_iff_nth_eq min_def)
    also have "\<dots> \<longleftrightarrow> (\<forall>j < ?q. \<forall>k < 8. bit (a ! j) (7 - k) = bit (b ! j) (7 - k))"
      by (simp only: byte_eq_bits)
    also have "\<dots> \<longleftrightarrow> (\<forall>i < 8 * ?q. nth_bit a i = nth_bit b i)"
    proof (rule iffI; intro allI impI)
      fix i assume *: "\<forall>j < ?q. \<forall>k < 8. bit (a ! j) (7 - k) = bit (b ! j) (7 - k)" and "i < 8 * ?q"
      then have "i div 8 < ?q" "i mod 8 < 8" by linarith+
      then show "nth_bit a i = nth_bit b i" using * by (simp add: nth_bit_def)
    next
      fix j k :: nat
      assume *: "\<forall>i < 8 * ?q. nth_bit a i = nth_bit b i" and "j < ?q" "k < 8"
      then have "8 * j + k < 8 * ?q" "(8 * j + k) div 8 = j" "(8 * j + k) mod 8 = k" by simp_all
      then show "bit (a ! j) (7 - k) = bit (b ! j) (7 - k)" using * by (metis nth_bit_def)
    qed
    finally show ?thesis .
  qed
  have last: "a ! ?q AND context_split_mask ?r = b ! ?q AND context_split_mask ?r \<longleftrightarrow>
      (\<forall>k < ?r. nth_bit a (8 * ?q + k) = nth_bit b (8 * ?q + k))"
  proof -
    have "bit (context_split_mask ?r) (7 - k) \<longleftrightarrow> k < ?r" if "k < 8" for k
      using mask_bit [of n k] that by simp
    moreover have "nth_bit c (8 * ?q + k) = bit (c ! ?q) (7 - k)" if "k < 8" for c k
      using that by (simp add: nth_bit_def)
    moreover have "k < 8" if "k < ?r" for k
      using that by (rule less_trans) simp
    ultimately show ?thesis
      unfolding byte_eq_bits bit_and_iff by (metis (no_types, lifting))
  qed
  have "(\<forall>i < n. nth_bit a i = nth_bit b i) \<longleftrightarrow> (\<forall>i < 8 * ?q. nth_bit a i = nth_bit b i) \<and>
      (\<forall>k < ?r. nth_bit a (8 * ?q + k) = nth_bit b (8 * ?q + k))"
  proof -
    have n: "n = 8 * ?q + ?r" by simp
    have "i < n \<longleftrightarrow> i < 8 * ?q \<or> (\<exists>k < ?r. i = 8 * ?q + k)" for i
    proof
      assume "i < n"
      then show "i < 8 * ?q \<or> (\<exists>k < ?r. i = 8 * ?q + k)"
        using n by (intro disjCI) (metis add_diff_inverse_nat nat_add_left_cancel_less not_less)
    next
      assume "i < 8 * ?q \<or> (\<exists>k < ?r. i = 8 * ?q + k)"
      then show "i < n" using n by linarith
    qed
    then show ?thesis by blast
  qed
  moreover have "bitsequal a b n =
      (if take ?q a \<noteq> take ?q b then Some False
       else if ?r \<noteq> 0 then Some (a ! ?q AND context_split_mask ?r = b ! ?q AND context_split_mask ?r)
       else Some True)"
  proof -
    have "\<not> (bytes_needed n > length a \<or> bytes_needed n > length b)"
      using assms by (simp add: not_less bytes_needed_le)
    then show ?thesis by (simp only: bitsequal_def Let_def if_False)
  qed
  ultimately show ?thesis
    using bytes last by (cases "?r = 0") (simp_all del: neq0_conv)
qed

lemma bitsequal_bits_witness:
  "bitsequal [0xF0, 1] [0xF1] 7 = Some (\<forall>i < 7. nth_bit [0xF0, 1] i = nth_bit [0xF1] i)"
  by (rule bitsequal_bits) simp_all

section \<open>The checksum\<close>

text \<open>The sum of the 16-bit words of a byte sequence; \<open>odd\<close> bytes go to the low half.\<close>

fun word_sum :: "bool \<Rightarrow> u8 list \<Rightarrow> u32" where
  "word_sum c [] = 0"
| "word_sum False (a # r) = push_bit 8 (ucast a) + word_sum True r"
| "word_sum True (a # r) = ucast a + word_sum False r"

lemma byte_pair: "(push_bit 8 (ucast a) OR ucast b :: u32) = push_bit 8 (ucast a) + ucast b" for a b :: u8
  by (intro disjunctive_add [symmetric]) (auto simp: bit_push_bit_iff bit_unsigned_iff dest: bit_imp_le_length)

lemma sum_words_eq: "sum_words acc bs = (acc + word_sum False bs, odd (length bs))"
  by (induction acc bs rule: sum_words.induct) (simp_all add: byte_pair algebra_simps)

lemma sum_vector_eq: "sum_vector (acc, c) bs = (acc + word_sum c bs, c \<noteq> odd (length bs))"
  by (cases bs; cases c) (auto simp: sum_words_eq algebra_simps)

lemma word_sum_append: "word_sum c (xs @ ys) = word_sum c xs + word_sum (c \<noteq> odd (length xs)) ys"
  by (induction c xs rule: word_sum.induct) (simp_all add: algebra_simps)

lemma foldl_sum_vector:
  "foldl sum_vector (acc, c) vec =
     (acc + word_sum c (concat vec), c \<noteq> odd (length (concat vec)))"
  by (induction vec arbitrary: acc c) (auto simp: sum_vector_eq word_sum_append algebra_simps)

text \<open>The checksum does not depend on how the data is cut into vectors.\<close>

text \<open>
  C26: The Internet checksum of a gather list depends on its bytes alone, not on how they are cut into
  vectors of any length, odd or even or empty.
\<close>

theorem ip_fcf_v_concat: "ip_fcf_v vec = ip_fcf_v [concat vec]"
  by (simp add: ip_fcf_v_def foldl_sum_vector sum_vector_eq)

lemma fold_once:
  fixes acc :: u32
  defines "a \<equiv> drop_bit 16 acc + (acc AND 0xffff)"
  shows "unat a = unat acc div 65536 + unat acc mod 65536"
proof -
  have m: "(0xffff :: u32) = mask 16" by (simp add: mask_eq_exp_minus_1)
  have 1: "unat (drop_bit 16 acc) = unat acc div 65536"
    by (simp add: drop_bit_eq_div unat_div)
  have 2: "unat (acc AND 0xffff) = unat acc mod 65536"
    unfolding m take_bit_eq_mask [symmetric] by (simp add: take_bit_eq_mod unat_mod)
  have "unat acc < 2 ^ 32" using unsigned_less [of acc] by simp
  then have "unat acc div 65536 + unat acc mod 65536 < 2 ^ 32"
    by linarith
  then show ?thesis
    unfolding a_def using 1 2 by (simp add: unat_add_no_wrap)
qed

lemma fold_carries_nat:
  "unat (fold_carries acc) mod 65535 = unat acc mod 65535"
  "fold_carries acc = 0 \<longleftrightarrow> acc = 0"
proof -
  define a where "a = drop_bit 16 acc + (acc AND 0xffff)"
  define b where "b = drop_bit 16 a + (a AND 0xffff)"
  have bound: "unat acc < 65536 * 65536" using unsigned_less [of acc] by simp
  have a: "unat a = unat acc div 65536 + unat acc mod 65536" unfolding a_def by (rule fold_once)
  have b: "unat b = unat a div 65536 + unat a mod 65536" unfolding b_def by (rule fold_once)
  have "unat a \<le> 131070" using a bound by linarith
  then have "unat b < 65536"
    unfolding b by (cases "unat a < 65536") (simp_all add: mod_if [of "unat a"] div_if [of _ "unat a"])
  then have f: "unat (fold_carries acc) = unat b"
    unfolding fold_carries_def Let_def a_def [symmetric] b_def [symmetric]
    by (simp add: unsigned_ucast_eq take_bit_nat_eq_self)
  have step: "(x div 65536 + x mod 65536) mod 65535 = x mod (65535 :: nat)" for x
  proof -
    have "x = 65535 * (x div 65536) + (x div 65536 + x mod 65536)" by simp
    then show ?thesis by (metis mod_mult_self4)
  qed
  show "unat (fold_carries acc) mod 65535 = unat acc mod 65535"
    unfolding f b step a step ..
  have zero: "x div 65536 + x mod 65536 = 0 \<longleftrightarrow> x = (0 :: nat)" for x
    using div_mult_mod_eq [of x 65536] by auto
  have "unat b = 0 \<longleftrightarrow> unat acc = 0" unfolding b zero a zero ..
  then show "fold_carries acc = 0 \<longleftrightarrow> acc = 0"
    using f by (metis unat_eq_zero)
qed

lemma unat_add_le: "unat (a + b) \<le> unat a + unat b" for a b :: "'a::len word"
  by (simp add: unat_word_ariths)

lemma unat_byte: "unat (ucast a :: u32) = unat a" "unat (push_bit 8 (ucast a) :: u32) = 256 * unat a"
  for a :: u8
proof -
  have a: "unat a < 256" using unsigned_less [of a] by simp
  show 1: "unat (ucast a :: u32) = unat a"
    using a by (simp add: unsigned_ucast_eq take_bit_nat_eq_self)
  show "unat (push_bit 8 (ucast a) :: u32) = 256 * unat a"
    unfolding unsigned_push_bit_eq 1 using a by (simp add: push_bit_eq_mult take_bit_nat_eq_self)
qed

lemma word_sum_bound: "unat (word_sum False bs) \<le> (length bs + 1) div 2 * 65535"
proof (induction bs rule: induct_list012)
  case (2 a)
  have "unat a < 256" using unsigned_less [of a] by simp
  then show ?case by (simp add: unat_byte)
next
  case (3 a b bs)
  let ?h = "push_bit 8 (ucast a) :: u32" and ?l = "ucast b :: u32"
  have ab: "unat a < 256" "unat b < 256" using unsigned_less [of a] unsigned_less [of b] by simp_all
  have "unat (?h + (?l + word_sum False bs)) \<le> unat ?h + (unat ?l + unat (word_sum False bs))"
    by (meson add_mono le_refl order_trans unat_add_le)
  also have "\<dots> \<le> 65535 + (length bs + 1) div 2 * 65535"
    using 3 ab by (simp add: unat_byte)
  finally show ?case by simp
qed simp

text \<open>
  A receiver that sums the data with its checksum gets zero, for an even number of bytes that the
  accumulator can hold.
\<close>

lemma unat_not_u16: "unat (NOT w) = 65535 - unat w" for w :: u16
proof -
  have "NOT w = - 1 - w" by (simp add: not_eq_complement)
  moreover have "unat (- 1 - w) = unat (- 1 :: u16) - unat w"
    by (rule unat_sub) (simp add: word_order.extremum)
  ultimately show ?thesis by (simp add: unsigned_minus_1_eq_mask mask_eq_exp_minus_1)
qed

text \<open>
  C27: A packet of an even number of bytes, up to 131068, with its own checksum appended verifies: the
  checksum over both is 0. (After an odd number the two bytes of the checksum would be paired with
  others.) That is twice as much data as the comment on \<open>ip_fcf_v\<close>
  allows.
\<close>

theorem ip_fcf_v_verifies:
  assumes "even (length data)" "length data \<le> 131068"
  shows "ip_fcf_v [data, common_write_16_bit (ip_fcf_v [data])] = 0"
proof -
  let ?s = "word_sum False data" and ?c = "ip_fcf_v [data]"
  have f: "?c = NOT (fold_carries ?s)"
    by (simp add: ip_fcf_v_def sum_vector_eq)
  have c: "unat ?c = 65535 - unat (fold_carries ?s)"
    unfolding f by (rule unat_not_u16)
  have fs: "unat (fold_carries ?s) \<le> 65535" using unat_u16 [of "fold_carries ?s"] by simp
  have bytes: "word_sum False (common_write_16_bit ?c) = ucast ?c"
  proof (rule bit_word_eqI)
    fix n assume "n < LENGTH(32)"
    moreover have "bit ?c n \<Longrightarrow> n < 16" using bit_imp_le_length [of ?c n] by simp
    ultimately show "bit (word_sum False (common_write_16_bit ?c)) n = bit (ucast ?c :: u32) n"
      by (auto simp: common_write_16_bit_def byte_at_def bit_simps bit_or_iff disjunctive_add)
  qed
  have small: "unat ?s \<le> 65534 * 65535"
    using word_sum_bound [of data] assms by (auto elim!: evenE)
  have cu: "unat (ucast ?c :: u32) = unat ?c"
    using unat_u16 [of ?c] by (simp add: unsigned_ucast_eq take_bit_nat_eq_self)
  have sum: "unat (?s + ucast ?c) = unat ?s + unat ?c"
    using small c unfolding cu [symmetric] by (intro unat_add_no_wrap) (simp add: cu)
  let ?r = "fold_carries (?s + ucast ?c)"
  have "unat ?r mod 65535 = (unat (fold_carries ?s) mod 65535 + unat ?c) mod 65535"
    unfolding fold_carries_nat(1) sum by (simp add: mod_add_left_eq)
  also have "\<dots> = 0"
    unfolding mod_add_left_eq using c fs by simp
  finally have "unat ?r mod 65535 = 0" .
  moreover have "?r \<noteq> 0"
  proof
    assume "?r = 0"
    then have "unat ?s + unat ?c = 0" using fold_carries_nat(2) sum by (metis unat_eq_zero)
    then have "?s = 0" "unat ?c = 0" by (simp_all add: unat_eq_zero)
    then show False using c fold_carries_nat(2) [of ?s] by simp
  qed
  ultimately have "unat ?r = 65535"
  proof -
    assume "unat ?r mod 65535 = 0" "?r \<noteq> 0"
    then have "unat ?r mod 65535 = 0" "0 < unat ?r" "unat ?r \<le> 65535"
      using unat_u16 [of ?r] by (simp_all add: unat_gt_0)
    then show ?thesis by (metis dvd_eq_mod_eq_0 dvd_imp_le le_antisym)
  qed
  then have "unat (NOT ?r) = 0" by (simp add: unat_not_u16)
  then show ?thesis
    using assms(1) bytes by (simp add: ip_fcf_v_def sum_vector_eq unat_eq_zero)
qed

lemma ip_fcf_v_verifies_witness:
  "ip_fcf_v [[1, 2, 3, 0xFF], common_write_16_bit (ip_fcf_v [[1, 2, 3, 0xFF]])] = 0"
  by (rule ip_fcf_v_verifies) simp_all

end
