(* ===== verification/IpStringTheorems.thy ===== *)
theory IpStringTheorems
  imports IpString NsBitsTheorems
begin

text \<open>
  Addresses as strings: what the printers write, the readers of the same library read back.
\<close>

section \<open>IPv4\<close>

lemma itoa_digits_rev: "itoa_digits b = rev (print_dec (unat b))"
proof (induction b rule: itoa_digits.induct)
  case (1 b)
  have q: "unat (b div 10) = unat b div 10" "unat (b mod 10) = unat b mod 10"
    by (simp_all add: unat_div unat_mod)
  have z: "b div 10 = 0 \<longleftrightarrow> unat b < 10"
    using q(1) by (simp add: unat_eq_zero [symmetric] div_eq_0_iff)
  show ?case
  proof (cases "unat b < 10")
    case True
    then show ?thesis using z q by (subst itoa_digits.simps, subst print_dec.simps) simp
  next
    case False
    then show ?thesis using z q 1 by (subst itoa_digits.simps, subst print_dec.simps) simp
  qed
qed

lemma swap_ends_rev: "length s \<le> 3 \<Longrightarrow> swap_ends 0 (length s - 1) s = rev s"
  by (cases s rule: list.exhaust, simp add: swap_ends.simps)
    (rename_tac a t, case_tac t, simp add: swap_ends.simps,
     rename_tac b t', case_tac t', simp add: swap_ends.simps, simp add: swap_ends.simps)

lemma ipv4_itoa_print: "ipv4_itoa b = print_dec (unat b)"
proof -
  have "length (print_dec (unat b)) \<le> 3"
    using unat_u8 [of b] print_dec_length [of "unat b" 2] by (simp add: numeral_eq_Suc)
  then show ?thesis
    using swap_ends_rev [of "rev (print_dec (unat b))"]
    by (simp add: ipv4_itoa_def itoa_digits_rev Let_def)
qed

lemma ipv4_itoa_correct:
  "ipv4_itoa b \<noteq> []" "length (ipv4_itoa b) \<le> 3" "list_all is_digit (ipv4_itoa b)"
  "dec_value 0 (ipv4_itoa b) = unat b"
  using print_dec_correct [of "unat b"] print_dec_length [of "unat b" 2] unat_u8 [of b]
  by (simp_all add: ipv4_itoa_print)

lemma rd_drop: "drop p m = c # rest \<Longrightarrow> rd m p = Some c"
  by (metis Cons_nth_drop_Suc drop_eq_Nil list.distinct(1) list.inject not_le_imp_less rd_def)

lemma drop_next: "drop p m = c # rest \<Longrightarrow> drop (p + 1) m = rest"
  by (metis Suc_eq_plus1 drop_Suc list.sel(3) tl_drop)

lemma drop_more: "drop p m = xs @ rest \<Longrightarrow> drop (p + length xs) m = rest"
  by (metis add.commute append_eq_conv_conj drop_drop)

lemma stoip4_digits_ok:
  assumes "drop p m = ds @ c # rest" "list_all is_digit ds" "\<not> is_digit c" "dec_value v ds \<le> 255"
    and "p + length ds \<le> len"
  shows "stoip4_digits m len p v = Some (Some (p + length ds, dec_value v ds))"
  using assms
proof (induction ds arbitrary: p v)
  case Nil
  then show ?case using rd_drop [of p m c rest] by (subst stoip4_digits.simps) simp
next
  case (Cons d ds)
  let ?v = "v * 10 + (c_ord d - 48)"
  have "?v \<le> 255" using Cons.prems(4) dec_value_mono [of ?v ds] by simp
  moreover have "rd m p = Some d" using rd_drop Cons.prems(1) by simp
  moreover have "drop (p + 1) m = ds @ c # rest" using drop_next Cons.prems(1) by simp
  ultimately show ?case
    using Cons.IH [of "p + 1" ?v] Cons.prems by (subst stoip4_digits.simps) (simp add: Let_def)
qed

text \<open>One component and the byte after it.\<close>

lemma stoip4_component:
  assumes "drop p m = ipv4_itoa b @ c # rest" "\<not> is_digit c" "p + length (ipv4_itoa b) \<le> len"
  shows "stoip4_loop (Suc n) m len p out =
     (let q = p + length (ipv4_itoa b); out = out @ [b]
      in if n = 0 then stoip4_loop 0 m len q out
         else if q = len \<or> c \<noteq> CHR ''.'' then Some (False, out)
         else stoip4_loop n m len (q + 1) out)"
proof -
  let ?s = "ipv4_itoa b"
  obtain d ds where s: "?s = d # ds" using ipv4_itoa_correct(1) by (cases ?s) auto
  have "p \<noteq> len" using assms(3) s by simp
  moreover have "rd m p = Some d" using rd_drop assms(1) s by simp
  moreover have "is_digit d" using ipv4_itoa_correct(3) [of b] s by simp
  moreover have "stoip4_digits m len p 0 = Some (Some (p + length ?s, unat b))"
    using stoip4_digits_ok [OF assms(1) ipv4_itoa_correct(3) assms(2) _ assms(3), of 0]
      ipv4_itoa_correct(4) [of b] unat_u8 [of b] by simp
  moreover have "rd m (p + length ?s) = Some c"
    using rd_drop [OF drop_more [OF assms(1)]] .
  ultimately show ?thesis by (simp add: Let_def)
qed

lemma is_digit_stop: "\<not> is_digit (CHR ''.'')" "\<not> is_digit NUL"
  by (simp_all add: is_digit_def c_ord_def)

text \<open>
  C28: Printing an IPv4 address and reading the string back gives the address: for every four bytes
  the printer writes at most 15 characters, and the reader accepts them and returns the same bytes.
\<close>

theorem stoip4_ip4tos:
  assumes "length addr = 4"
  shows "stoip4 (fst (ip4tos addr) @ [NUL]) (snd (ip4tos addr)) = Some (True, addr) \<and>
    snd (ip4tos addr) \<le> 15"
proof -
  obtain a b c d where addr: "addr = [a, b, c, d]"
    using assms by (auto simp: numeral_eq_Suc length_Suc_conv)
  let ?m = "ipv4_itoa a @ CHR ''.'' # ipv4_itoa b @ CHR ''.'' # ipv4_itoa c @ CHR ''.'' # ipv4_itoa d @ [NUL]"
  let ?len = "length (ipv4_itoa a) + length (ipv4_itoa b) + length (ipv4_itoa c) + length (ipv4_itoa d) + 3"
  have s: "fst (ip4tos addr) @ [NUL] = ?m" "snd (ip4tos addr) = ?len"
    by (simp_all add: ip4tos_def addr Let_def)
  have len: "snd (ip4tos addr) \<le> 15"
    using s(2) ipv4_itoa_correct(2) [of a] ipv4_itoa_correct(2) [of b] ipv4_itoa_correct(2) [of c]
      ipv4_itoa_correct(2) [of d] by simp
  let ?pb = "length (ipv4_itoa a) + 1"
  let ?pc = "?pb + length (ipv4_itoa b) + 1"
  let ?pd = "?pc + length (ipv4_itoa c) + 1"
  have d0: "drop 0 ?m = ipv4_itoa a @ CHR ''.'' # ipv4_itoa b @ CHR ''.'' # ipv4_itoa c @ CHR ''.'' # ipv4_itoa d @ [NUL]"
    by simp
  note d1 = drop_next [OF drop_more [OF d0]]
  note d2 = drop_next [OF drop_more [OF d1]]
  note d3 = drop_next [OF drop_more [OF d2]]
  have rt: "stoip4 (fst (ip4tos addr) @ [NUL]) (snd (ip4tos addr)) = Some (True, addr)"
    unfolding s using s(2) \<open>snd (ip4tos addr) \<le> 15\<close>
    using stoip4_component [OF d0, of ?len 3 "[]"] stoip4_component [OF d1, of ?len 2 "[a]"]
      stoip4_component [OF d2, of ?len 1 "[a, b]"] stoip4_component [OF d3, of ?len 0 "[a, b, c]"]
    by (simp add: stoip4_def is_digit_stop Let_def addr numeral_eq_Suc)
  show ?thesis using rt len by blast
qed

lemma stoip4_ip4tos_witness:
  "stoip4 (fst (ip4tos [192, 168, 0, 1]) @ [NUL]) (snd (ip4tos [192, 168, 0, 1])) = Some (True, [192, 168, 0, 1]) \<and>
   snd (ip4tos [192, 168, 0, 1]) \<le> 15"
  by (rule stoip4_ip4tos) simp

end
