(* ===== verification/Dht.thy ===== *)
theory Dht
  imports Complex_Main Prelude
begin

text \<open>
  The driver of the temperature and humidity sensor, \<open>DHT/DHT.cpp\<close>. The pin is a function of time:
  \<open>io t\<close> tells whether the line is high \<open>t\<close> microseconds after the call began. Reading the pin takes
  no time, \<open>wait_us(n)\<close> takes \<open>n\<close>. A \<open>float\<close> is a rational number; the driver makes floats of small
  integers only, which are exact, and converts them with \<open>fl\<close>, the rounding of the target.
\<close>

type_synonym float_val = rat

datatype eError = ERROR_NONE | BUS_BUSY | ERROR_NOT_PRESENT | ERROR_ACK_TOO_LONG
  | ERROR_SYNC_TIMEOUT | ERROR_DATA_TIMEOUT | ERROR_CHECKSUM | ERROR_NO_PATIENCE

datatype eType = DHT11 | DHT22

datatype eScale = CELCIUS | FARENHEIT | KELVIN

record dht_sensor =
  lastReadTime :: nat
  lastTemperature :: float_val
  lastHumidity :: float_val
  firsttime :: bool
  DHTtype :: eType
  DHT_data :: "u8 list"

text \<open>The constructor sets two fields; the others keep what the memory held.\<close>

definition DHT_create :: "eType \<Rightarrow> dht_sensor \<Rightarrow> dht_sensor" where
  "DHT_create type memory = memory\<lparr>DHTtype := type, firsttime := True\<rparr>"

section \<open>Waiting for the line\<close>

text \<open>\<open>stall\<close> from a value of \<open>cnt\<close> on: the error and the time after it.\<close>

function stall_loop :: "(nat \<Rightarrow> bool) \<Rightarrow> bool \<Rightarrow> nat \<Rightarrow> nat \<Rightarrow> nat \<Rightarrow> eError \<times> nat" where
  "stall_loop io level max_time cnt t =
     (if level = io t then
        (if cnt > max_time then (ERROR_NO_PATIENCE, t)
         else stall_loop io level max_time (cnt + 1) (t + 1))
      else (ERROR_NONE, t))"
  by pat_completeness auto
termination by (relation "measure (\<lambda>(io, level, max_time, cnt, t). max_time + 1 - cnt)") auto

declare stall_loop.simps [simp del]

definition stall :: "(nat \<Rightarrow> bool) \<Rightarrow> bool \<Rightarrow> nat \<Rightarrow> nat \<Rightarrow> eError \<times> nat" where
  "stall io level max_time t = stall_loop io level max_time 0 t"

section \<open>One transfer\<close>

text \<open>A bit: the end of the low phase, 40 microseconds, a sample, the end of the high phase.\<close>

definition read_bit :: "(nat \<Rightarrow> bool) \<Rightarrow> nat \<Rightarrow> bool option \<times> nat" where
  "read_bit io t =
     (case stall io False 75 t of (err, t) \<Rightarrow>
        if err \<noteq> ERROR_NONE then (None, t)
        else let t = t + 40; bit_value = io t
             in case stall io True 50 t of (err, t) \<Rightarrow>
                  if err \<noteq> ERROR_NONE then (None, t) else (Some bit_value, t))"

text \<open>The two nested loops, \<open>n\<close> more bits to capture; \<open>None\<close> is \<open>ERROR_DATA_TIMEOUT\<close>.\<close>

fun capture :: "nat \<Rightarrow> (nat \<Rightarrow> bool) \<Rightarrow> nat \<Rightarrow> bool list option \<times> nat" where
  "capture 0 io t = (Some [], t)"
| "capture (Suc n) io t =
     (case read_bit io t of
        (None, t) \<Rightarrow> (None, t)
      | (Some b, t) \<Rightarrow> (case capture n io t of
          (None, t) \<Rightarrow> (None, t)
        | (Some bs, t) \<Rightarrow> (Some (b # bs), t)))"

text \<open>\<open>b |= (1 << (7-j))\<close> for the bits that are 1, and the five bytes.\<close>

definition store_byte :: "bool list \<Rightarrow> u8" where
  "store_byte bits = foldl (\<lambda>b j. if bits ! j then b OR push_bit (7 - j) 1 else b) 0 [0..<8]"

definition store_data :: "bool list \<Rightarrow> u8 list" where
  "store_data bit_value = map (\<lambda>i. store_byte (take 8 (drop (i * 8) bit_value))) [0..<5]"

definition data_valid :: "u8 list \<Rightarrow> u8" where
  "data_valid data = data ! 0 + data ! 1 + data ! 2 + data ! 3"

definition CalcTemperature :: "dht_sensor \<Rightarrow> float_val" where
  "CalcTemperature d =
     (case DHTtype d of
        DHT11 \<Rightarrow> of_int (uint (DHT_data d ! 2))
      | DHT22 \<Rightarrow>
          (let v = uint (DHT_data d ! 2 AND 0x7F);
               v = v * 256;
               v = v + uint (DHT_data d ! 3);
               v = v div 10;
               v = (if DHT_data d ! 2 AND 0x80 \<noteq> 0 then v * - 1 else v)
           in of_int v))"

definition CalcHumidity :: "dht_sensor \<Rightarrow> float_val" where
  "CalcHumidity d =
     (case DHTtype d of
        DHT11 \<Rightarrow> of_int (uint (DHT_data d ! 0))
      | DHT22 \<Rightarrow>
          (let v = uint (DHT_data d ! 0);
               v = v * 256;
               v = v + uint (DHT_data d ! 1);
               v = v div 10
           in of_int v))"

text \<open>The bytes are stored before the checksum is looked at; the readings only after it.\<close>

definition accept_data :: "nat \<Rightarrow> u8 list \<Rightarrow> dht_sensor \<Rightarrow> eError \<times> dht_sensor" where
  "accept_data currentTime data d =
     (let d = d\<lparr>DHT_data := data\<rparr>
      in if DHT_data d ! 4 = data_valid (DHT_data d)
         then (ERROR_NONE, d\<lparr>lastReadTime := currentTime, lastTemperature := CalcTemperature d,
                             lastHumidity := CalcHumidity d\<rparr>)
         else (ERROR_CHECKSUM, d))"

text \<open>\<open>readData\<close>: the error, the sensor object and the time the call took.\<close>

definition readData :: "(nat \<Rightarrow> bool) \<Rightarrow> nat \<Rightarrow> dht_sensor \<Rightarrow> eError \<times> dht_sensor \<times> nat" where
  "readData io currentTime d =
     (case stall io False 250 0 of (err, t) \<Rightarrow>
      if err \<noteq> ERROR_NONE then (BUS_BUSY, d, t)
      else let t = t + 18000 + 30
      in case stall io True 100 t of (err, t) \<Rightarrow>
      if err \<noteq> ERROR_NONE then (ERROR_NOT_PRESENT, d, t)
      else case stall io False 100 t of (err, t) \<Rightarrow>
      if err \<noteq> ERROR_NONE then (ERROR_SYNC_TIMEOUT, d, t)
      else case stall io True 100 t of (err, t) \<Rightarrow>
      if err \<noteq> ERROR_NONE then (ERROR_NO_PATIENCE, d, t)
      else case capture 40 io t of
        (None, t) \<Rightarrow> (ERROR_DATA_TIMEOUT, d, t)
      | (Some bit_value, t) \<Rightarrow>
          (case accept_data currentTime (store_data bit_value) d of (err, d) \<Rightarrow> (err, d, t)))"

section \<open>Readings\<close>

definition ReadHumidity :: "dht_sensor \<Rightarrow> float_val" where
  "ReadHumidity d = lastHumidity d"

definition ConvertCelciustoFarenheit :: "(rat \<Rightarrow> float_val) \<Rightarrow> float_val \<Rightarrow> float_val" where
  "ConvertCelciustoFarenheit fl celsius = fl (fl (fl (celsius * 9) / 5) + 32)"

definition ConvertCelciustoKelvin :: "(rat \<Rightarrow> float_val) \<Rightarrow> float_val \<Rightarrow> float_val" where
  "ConvertCelciustoKelvin fl celsius = fl (celsius + fl (27315 / 100))"

definition ReadTemperature :: "(rat \<Rightarrow> float_val) \<Rightarrow> eScale \<Rightarrow> dht_sensor \<Rightarrow> float_val" where
  "ReadTemperature fl Scale d =
     (if Scale = FARENHEIT then ConvertCelciustoFarenheit fl (lastTemperature d)
      else if Scale = KELVIN then ConvertCelciustoKelvin fl (lastTemperature d)
      else lastTemperature d)"

end
