(* ===== verification/DhtTheorems.thy ===== *)
theory DhtTheorems
  imports Dht
begin

text \<open>
  What the driver computes: how long a call can take, that it decodes the protocol of the sensor,
  and what the readings are.
\<close>

section \<open>Waiting\<close>

text \<open>The wait ends when the line leaves the level, if that is soon enough.\<close>

lemma stall_loop_ok:
  assumes "\<And>k. k < n \<Longrightarrow> io (t + k) = level" "io (t + n) \<noteq> level" "cnt + n \<le> max_time + 1"
  shows "stall_loop io level max_time cnt t = (ERROR_NONE, t + n)"
  using assms
proof (induction n arbitrary: cnt t)
  case 0
  then show ?case by (subst stall_loop.simps) simp
next
  case (Suc n)
  have "io t = level" using Suc.prems(1) [of 0] by simp
  moreover have "io (Suc t + k) = level" if "k < n" for k
    using Suc.prems(1) [of "Suc k"] that by simp
  ultimately show ?case
    using Suc.IH [of "Suc t" "Suc cnt"] Suc.prems(2,3) by (subst stall_loop.simps) simp
qed

lemma stall_ok:
  assumes "\<And>k. k < n \<Longrightarrow> io (t + k) = level" "io (t + n) \<noteq> level" "n \<le> max_time + 1"
  shows "stall io level max_time t = (ERROR_NONE, t + n)"
  unfolding stall_def by (rule stall_loop_ok) (use assms in auto)

lemma stall_loop_time:
  "cnt \<le> max_time + 1 \<Longrightarrow> snd (stall_loop io level max_time cnt t) + cnt \<le> t + max_time + 1"
proof (induction io level max_time cnt t rule: stall_loop.induct)
  case (1 io level max_time cnt t)
  then show ?case by (subst stall_loop.simps) auto
qed

lemma stall_time: "snd (stall io level max_time t) \<le> t + max_time + 1"
  using stall_loop_time [of 0 max_time io level t] by (simp add: stall_def)

lemma read_bit_time: "snd (read_bit io t) \<le> t + 167"
  using stall_time [of io False 75 t] stall_time [of io True 50 "snd (stall io False 75 t) + 40"]
  by (auto simp: read_bit_def Let_def split: prod.splits)

lemma capture_time: "snd (capture n io t) \<le> t + 167 * n"
proof (induction n arbitrary: t)
  case (Suc n)
  have "snd (capture n io (snd (read_bit io t))) \<le> t + 167 + 167 * n"
    using Suc.IH [of "snd (read_bit io t)"] read_bit_time [of io t] by linarith
  then show ?case
    using read_bit_time [of io t]
    by (auto split: prod.splits option.splits)
qed simp

text \<open>
  Whatever the line does, \<open>readData\<close> returns: no wait hangs on a stuck or missing sensor, and the
  call takes at most 25.264 milliseconds.
\<close>

theorem readData_time: "snd (snd (readData io now d)) \<le> 25264"
proof -
  have s: "stall io level m t = (e, t') \<Longrightarrow> t' \<le> t + m + 1" for level m t e t'
    using stall_time [of io level m t] by simp
  have c: "capture 40 io t = (r, t') \<Longrightarrow> t' \<le> t + 6680" for t r t'
    using capture_time [of 40 io t] by simp
  show ?thesis
    by (auto simp: readData_def Let_def split: prod.splits option.splits dest!: s c)
qed

section \<open>Bytes\<close>

definition byte_bits :: "u8 \<Rightarrow> bool list" where
  "byte_bits b = map (\<lambda>j. bit b (7 - j)) [0..<8]"

lemma bit_store_loop:
  "i < 8 \<Longrightarrow> bit (foldl (\<lambda>b j. if bits ! j then b OR push_bit (7 - j) 1 else b) a js :: u8) i \<longleftrightarrow>
     bit a i \<or> (\<exists>j \<in> set js. bits ! j \<and> i = 7 - j)"
  by (induction js arbitrary: a) (auto simp: bit_or_iff bit_exp_iff)

lemma store_byte_bits: "store_byte (byte_bits b) = b"
proof (rule bit_word_eqI)
  fix i assume "i < LENGTH(8)"
  then have i: "i < 8" "7 - (7 - i) = i" by simp_all
  have "bit (store_byte (byte_bits b)) i \<longleftrightarrow> (\<exists>j \<in> {0..<8}. byte_bits b ! j \<and> i = 7 - j)"
    using i bit_store_loop [of i "byte_bits b" 0 "[0..<8]"] by (simp add: store_byte_def)
  also have "\<dots> \<longleftrightarrow> bit b i"
    using i by (auto simp: byte_bits_def intro!: bexI [of _ "7 - i"])
  finally show "bit (store_byte (byte_bits b)) i = bit b i" .
qed

lemma store_data_bits:
  assumes "length data = 5"
  shows "store_data (concat (map byte_bits data)) = data"
proof -
  obtain a b c d e where "data = [a, b, c, d, e]"
    using assms by (auto simp: numeral_eq_Suc length_Suc_conv)
  moreover have l: "length (byte_bits x) = 8" for x by (simp add: byte_bits_def)
  ultimately show ?thesis
    by (simp add: store_data_def upt_rec store_byte_bits)
qed

section \<open>The protocol\<close>

text \<open>
  What a sensor sends: each bit is a low phase and a high phase, given by their lengths in
  microseconds. After the last bit the sensor holds the line low for a while.
\<close>

fun level_of :: "(nat \<times> nat) list \<Rightarrow> nat \<Rightarrow> bool" where
  "level_of [] k = False"
| "level_of ((l, h) # ps) k = (if k < l then False else if k < l + h then True else level_of ps (k - l - h))"

text \<open>
  Tolerances of the driver: a low phase of 41 to 76 microseconds, then at most 40 high for a 0 and
  41 to 91 for a 1. The data sheet says 50, then 26 to 28 or 70.
\<close>

fun pulse_ok :: "bool \<Rightarrow> nat \<times> nat \<Rightarrow> bool" where
  "pulse_ok b (l, h) \<longleftrightarrow> 40 < l \<and> l \<le> 76 \<and> (if b then 40 < h \<and> h \<le> 91 else 0 < h \<and> h \<le> 40)"

text \<open>From inside the low phase of a bit, \<open>k\<close> microseconds in, to inside the next one.\<close>

lemma read_bit_pulse:
  assumes io: "\<And>j. io (t + j) = level_of ((l, h) # ps) (k + j)"
    and ok: "pulse_ok b (l, h)" "list_all2 pulse_ok bs ps" and k: "k < l"
  defines "k' \<equiv> (if b then 0 else 40 - h)"
  shows "read_bit io t = (Some b, t + (l - k) + h + k')"
    and "io (t + (l - k) + h + k' + j) = level_of ps (k' + j)"
proof -
  have next_low: "\<not> level_of ps m" if "m \<le> 40" for m
  proof (cases ps)
    case (Cons p ps')
    then show ?thesis using ok(2) that by (cases p) (auto simp: list_all2_Cons2)
  qed simp
  have a: "stall io False 75 t = (ERROR_NONE, t + (l - k))"
    by (intro stall_ok) (use ok(1) k io [of "l - k"] in \<open>auto simp: io split: if_splits\<close>)
  have shift: "io (t + (l - k) + j) = level_of ((l, h) # ps) (l + j)" for j
    using io [of "l - k + j"] k by (simp add: add.assoc)
  have after: "io (t + (l - k) + h + j) = level_of ps j" for j
    using shift [of "h + j"] by (simp add: add.assoc)
  show "io (t + (l - k) + h + k' + j) = level_of ps (k' + j)"
    using after [of "k' + j"] by (simp add: add.assoc)
  have sample: "io (t + (l - k) + 40) = b"
  proof (cases b)
    case True
    then show ?thesis using shift [of 40] ok(1) by simp
  next
    case False
    then have e: "t + (l - k) + h + (40 - h) = t + (l - k) + 40" using ok(1) by simp
    have "io (t + (l - k) + 40) = level_of ps (40 - h)"
      using after [of "40 - h"] unfolding e .
    moreover have "40 - h \<le> 40" by simp
    ultimately have "io (t + (l - k) + 40) = level_of ps (40 - h)" "40 - h \<le> 40" .
    then show ?thesis using next_low False by simp
  qed
  have b: "stall io True 50 (t + (l - k) + 40) = (ERROR_NONE, t + (l - k) + h + k')"
  proof (cases b)
    case True
    have high: "io (t + (l - k) + 40 + m)" if "m < h - 40" for m
    proof -
      have "40 + m < h" using that by simp
      then show ?thesis using shift [of "40 + m"] ok(1) by (simp add: add.assoc)
    qed
    have low: "\<not> io (t + (l - k) + 40 + (h - 40))"
    proof -
      have e: "t + (l - k) + 40 + (h - 40) = t + (l - k) + h" using ok(1) True by simp
      show ?thesis unfolding e using after [of 0] next_low [of 0] by simp
    qed
    have "stall io True 50 (t + (l - k) + 40) = (ERROR_NONE, t + (l - k) + 40 + (h - 40))"
      using ok(1) True high low by (intro stall_ok) auto
    then show ?thesis using ok(1) True by (simp add: k'_def)
  next
    case False
    have "stall io True 50 (t + (l - k) + 40) = (ERROR_NONE, t + (l - k) + 40 + 0)"
      using sample False by (intro stall_ok) auto
    then show ?thesis using ok(1) False by (simp add: k'_def)
  qed
  show "read_bit io t = (Some b, t + (l - k) + h + k')"
    using a b sample by (simp add: read_bit_def Let_def)
qed

lemma capture_pulses:
  assumes "\<And>j. io (t + j) = level_of ps (k + j)" "list_all2 pulse_ok bs ps" "ps \<noteq> [] \<Longrightarrow> k < fst (hd ps)"
  shows "\<exists>t'. capture (length bs) io t = (Some bs, t')"
  using assms
proof (induction bs arbitrary: ps t k)
  case (Cons b bs)
  obtain l h ps' where ps: "ps = (l, h) # ps'" and ok: "pulse_ok b (l, h)" "list_all2 pulse_ok bs ps'"
    using Cons.prems(2) by (cases ps) auto
  let ?k = "if b then 0 else 40 - h"
  let ?t = "t + (l - k) + h + ?k"
  have "k < l" using Cons.prems(3) ps by simp
  note bit = read_bit_pulse [OF Cons.prems(1) [unfolded ps] ok this]
  have "ps' \<noteq> [] \<Longrightarrow> ?k < fst (hd ps')"
    using ok(2) by (cases ps') (auto simp: list_all2_Cons2)
  then obtain t' where "capture (length bs) io ?t = (Some bs, t')"
    using Cons.IH [OF bit(2) ok(2)] by blast
  then show ?case using bit(1) by auto
qed simp

text \<open>A whole transfer: the line idles high, and \<open>a\<close> microseconds after the host released it the
  sensor answers with \<open>b\<close> low and \<open>c\<close> high, then the bits.\<close>

definition transfer :: "nat \<Rightarrow> nat \<Rightarrow> nat \<Rightarrow> (nat \<times> nat) list \<Rightarrow> nat \<Rightarrow> bool" where
  "transfer a b c ps t =
     (if t < 18030 + a then True else if t < 18030 + a + b then False
      else if t < 18030 + a + b + c then True else level_of ps (t - (18030 + a + b + c)))"

lemma readData_transfer:
  assumes "a \<le> 101" "0 < b" "b \<le> 101" "0 < c" "c \<le> 101" "list_all2 pulse_ok bits ps" "length bits = 40"
  shows "\<exists>t. readData (transfer a b c ps) now d =
    (case accept_data now (store_data bits) d of (err, d) \<Rightarrow> (err, d, t))"
proof -
  let ?io = "transfer a b c ps"
  obtain l h ps' where ps: "ps = (l, h) # ps'" "0 < l"
    using assms(6,7) by (cases ps; cases bits) auto
  have 0: "stall ?io False 250 0 = (ERROR_NONE, 0)"
    using stall_ok [of 0 ?io 0 False 250] by (simp add: transfer_def)
  have 1: "stall ?io True 100 18030 = (ERROR_NONE, 18030 + a)"
    using assms by (intro stall_ok) (auto simp: transfer_def)
  have 2: "stall ?io False 100 (18030 + a) = (ERROR_NONE, 18030 + a + b)"
    using assms by (intro stall_ok) (auto simp: transfer_def)
  have 3: "stall ?io True 100 (18030 + a + b) = (ERROR_NONE, 18030 + a + b + c)"
    using assms ps by (intro stall_ok) (auto simp: transfer_def)
  obtain t where "capture (length bits) ?io (18030 + a + b + c) = (Some bits, t)"
    using capture_pulses [of ?io "18030 + a + b + c" ps 0 bits] assms(6) ps by (auto simp: transfer_def)
  then show ?thesis
    using 0 1 2 3 assms(7)
    by (cases "accept_data now (store_data bits) d") (simp add: readData_def Let_def)
qed

text \<open>The five bytes as the sensor sends them, and the readings they mean.\<close>

definition checksum_ok :: "u8 list \<Rightarrow> bool" where
  "checksum_ok data \<longleftrightarrow> (\<Sum>b\<leftarrow>take 4 data. unat b) mod 256 = unat (data ! 4)"

lemma data_valid_checksum:
  assumes "length data = 5"
  shows "data ! 4 = data_valid data \<longleftrightarrow> checksum_ok data"
proof -
  obtain a b c d e where data: "data = [a, b, c, d, e]"
    using assms by (auto simp: numeral_eq_Suc length_Suc_conv)
  have "unat (a + b + c + d) = (unat a + unat b + unat c + unat d) mod 256"
    by (simp add: unat_word_ariths mod_simps)
  moreover have "e = a + b + c + d \<longleftrightarrow> unat e = unat (a + b + c + d)"
    by (rule word_unat_eq_iff)
  ultimately show ?thesis
    by (auto simp: data data_valid_def checksum_ok_def add.assoc)
qed

text \<open>
  C24: For every sensor that keeps the timing of the protocol, within the tolerances the driver allows
  (which contain those of the data sheet), \<open>readData\<close> takes in the five bytes that were sent. It
  reports \<open>ERROR_NONE\<close> and updates the readings exactly when the last byte is the sum of the others
  modulo 256; otherwise it reports \<open>ERROR_CHECKSUM\<close> and leaves the last readings as they were.
\<close>

theorem readData_protocol:
  assumes "a \<le> 101" "0 < b" "b \<le> 101" "0 < c" "c \<le> 101" "length data = 5"
    and "list_all2 pulse_ok (concat (map byte_bits data)) ps"
  shows "\<exists>t. readData (transfer a b c ps) now d =
    (if checksum_ok data
     then (ERROR_NONE, d\<lparr>DHT_data := data, lastReadTime := now,
             lastTemperature := CalcTemperature (d\<lparr>DHT_data := data\<rparr>),
             lastHumidity := CalcHumidity (d\<lparr>DHT_data := data\<rparr>)\<rparr>, t)
     else (ERROR_CHECKSUM, d\<lparr>DHT_data := data\<rparr>, t))"
proof -
  have len: "length (concat (map byte_bits data)) = 40"
    using assms(6) by (simp add: length_concat byte_bits_def comp_def sum_list_triv)
  show ?thesis
    using readData_transfer [OF assms(1-5,7) len, of now d] store_data_bits [OF assms(6)]
      data_valid_checksum [OF assms(6)]
    by (auto simp: accept_data_def Let_def)
qed

definition sheet_pulse :: "bool \<Rightarrow> nat \<times> nat" where
  "sheet_pulse b = (50, if b then 70 else 27)"

lemma sheet_pulses: "list_all2 pulse_ok bits (map sheet_pulse bits)"
  by (induction bits) (simp_all add: sheet_pulse_def)

definition new_sensor :: dht_sensor where
  "new_sensor = DHT_create DHT22 \<lparr>lastReadTime = 0, lastTemperature = 0, lastHumidity = 0,
     firsttime = False, DHTtype = DHT11, DHT_data = [0, 0, 0, 0, 0]\<rparr>"

lemma readData_protocol_witness:
  "\<exists>t d. readData (transfer 30 80 80 (map sheet_pulse (concat (map byte_bits [2, 0x92, 1, 0x0D, 0xA2])))) 7 new_sensor =
     (ERROR_NONE, d, t) \<and> DHT_data d = [2, 0x92, 1, 0x0D, 0xA2]"
proof -
  have "checksum_ok [2, 0x92, 1, 0x0D, 0xA2]" by code_simp
  then show ?thesis
    using readData_protocol [of 30 80 80 "[2, 0x92, 1, 0x0D, 0xA2]"
        "map sheet_pulse (concat (map byte_bits [2, 0x92, 1, 0x0D, 0xA2]))" 7 new_sensor, OF _ _ _ _ _ _ sheet_pulses]
    by auto
qed

section \<open>Readings\<close>

lemma sensor_tenths:
  fixes h l :: u8
  shows "uint (h AND 0x7F) * 256 + uint l < 32768" "0 \<le> uint h * 256 + uint l" "uint h * 256 + uint l < 65536"
proof -
  have "h AND 0x7F \<le> 0x7F" by (rule word_and_le1)
  then have "uint (h AND 0x7F) \<le> 127" by (simp add: word_le_def)
  then show "uint (h AND 0x7F) * 256 + uint l < 32768" using uint_bounded [of l] by simp
  show "0 \<le> uint h * 256 + uint l" "uint h * 256 + uint l < 65536"
    using uint_bounded [of l] uint_bounded [of h] by simp_all
qed

text \<open>The tenths of a degree a DHT22 sends: a sign and a magnitude.\<close>

definition tenths :: "u8 list \<Rightarrow> int" where
  "tenths data =
     (if bit (data ! 2) 7 then - 1 else 1) * (uint (data ! 2 AND 0x7F) * 256 + uint (data ! 3))"

lemma cut_tenths:
  fixes m v s :: int
  assumes "0 \<le> m" "m < 32768" "s = 1 \<or> s = - 1"
  defines "T \<equiv> s * (m div 10)" and "v \<equiv> s * m"
  shows "\<bar>10 * T - v\<bar> < 10 \<and> \<bar>10 * T\<bar> \<le> \<bar>v\<bar> \<and> \<bar>T\<bar> \<le> 3276 \<and> (10 * T = v \<longleftrightarrow> v mod 10 = 0)"
proof -
  define q r where "q = m div 10" and "r = m mod 10"
  have m: "m = 10 * q + r" "0 \<le> r" "r < 10" by (simp_all add: q_def r_def)
  then have q: "0 \<le> q" "q \<le> 3276" using assms(1,2) by linarith+
  have "v mod 10 = 0 \<longleftrightarrow> r = 0"
    using assms(3) by (auto simp: v_def r_def mod_eq_0_iff_dvd)
  moreover have "T = q \<and> v = 10 * q + r \<or> T = - q \<and> v = - (10 * q + r)"
  proof -
    have "T = s * q" "v = s * (10 * q + r)" using m(1) by (simp_all add: T_def v_def q_def)
    then show ?thesis using assms(3) by auto
  qed
  ultimately show ?thesis using m q by auto
qed

text \<open>
  The temperature of a DHT22 is the value it sent cut to whole degrees, towards zero: it differs
  from the tenths that were sent by less than a degree, is exact only for whole degrees, and fits a
  single-precision float exactly (it lies between -3276 and 3276).
\<close>

theorem CalcTemperature_truncates:
  assumes "DHTtype d = DHT22"
  defines "v \<equiv> tenths (DHT_data d)"
  shows "\<exists>T. CalcTemperature d = of_int T \<and> \<bar>10 * T - v\<bar> < 10 \<and> \<bar>10 * T\<bar> \<le> \<bar>v\<bar> \<and> \<bar>T\<bar> \<le> 3276 \<and>
     (10 * T = v \<longleftrightarrow> v mod 10 = 0)"
proof -
  let ?m = "uint (DHT_data d ! 2 AND 0x7F) * 256 + uint (DHT_data d ! 3)"
  have m: "0 \<le> ?m" "?m < 32768"
    using sensor_tenths(1) [of "DHT_data d ! 2" "DHT_data d ! 3"] by simp_all
  have sign: "DHT_data d ! 2 AND 0x80 \<noteq> 0 \<longleftrightarrow> bit (DHT_data d ! 2) 7"
    using and_exp_test [of "DHT_data d ! 2" 7] by simp
  define s where "s = (if bit (DHT_data d ! 2) 7 then - 1 else 1 :: int)"
  have "CalcTemperature d = of_int (s * (?m div 10))" "v = s * ?m"
    using assms sign by (simp_all add: CalcTemperature_def tenths_def Let_def s_def)
  then show ?thesis
    using cut_tenths [OF m, of s] by (intro exI [of _ "s * (?m div 10)"]) (auto simp: s_def)
qed

lemma CalcTemperature_truncates_witness:
  "\<exists>T. CalcTemperature \<lparr>lastReadTime = 0, lastTemperature = 0, lastHumidity = 0, firsttime = False, DHTtype = DHT22,
     DHT_data = [2, 145, 128, 105, 1]\<rparr> = of_int T \<and>
     10 * T \<noteq> - 105 \<and> \<bar>10 * T - (- 105)\<bar> < 10"
proof -
  let ?d = "\<lparr>lastReadTime = 0, lastTemperature = 0, lastHumidity = 0, firsttime = False, DHTtype = DHT22,
     DHT_data = [2, 145, 128, 105, 1]\<rparr>"
  have "DHTtype ?d = DHT22" by simp
  moreover have "tenths (DHT_data ?d) = - 105" by code_simp
  ultimately show ?thesis using CalcTemperature_truncates [of ?d] by auto
qed

end
