(* ===== verification/Sensors.thy ===== *)
theory Sensors
  imports Dht
begin

text \<open>
  The sensor threads of \<open>Sicet7\<close>: \<open>SoundSensor\<close>, \<open>LightSensor\<close>, \<open>TempSensor\<close> and \<open>DhtThread\<close>. Each
  object holds a sum of samples, their number and a lock. Its thread adds a sample from time to time;
  the main loop takes the average and starts over. First the operations of each class, then the two
  threads as a machine, with the steps they make one by one.
\<close>

section \<open>The objects\<close>

datatype thread = Main | Reader

record 's averaged =
  total :: 's
  reads :: u32
  holder :: "thread option"

definition fresh :: "'s \<Rightarrow> 's averaged" where
  "fresh zero = \<lparr>total = zero, reads = 0, holder = None\<rparr>"

subsection \<open>\<open>SoundSensor\<close>\<close>

definition SoundSensor :: "u32 averaged" where
  "SoundSensor = fresh 0"

text \<open>A sample of the thread: the mean of 1000 readings of 16 bits.\<close>

definition sound_sample :: "u16 list \<Rightarrow> u32" where
  "sound_sample inputs = foldl (\<lambda>acc x. acc + ucast x) 0 (take 1000 inputs) div 1000"

definition sound_add :: "u32 \<Rightarrow> u16 list \<Rightarrow> u32" where
  "sound_add acc inputs = acc + sound_sample inputs"

text \<open>
  The division of \<open>readOutput\<close>, an unsigned one whose result becomes a float. \<open>None\<close> is a division
  by zero, which C++ leaves undefined for integers.
\<close>

definition sound_output :: "(rat \<Rightarrow> float_val) \<Rightarrow> u32 \<Rightarrow> u32 \<Rightarrow> float_val option" where
  "sound_output fl acc n = (if n = 0 then None else Some (fl (of_nat (unat (acc div n)))))"

subsection \<open>\<open>LightSensor\<close> and \<open>TempSensor\<close>\<close>

definition LightSensor :: "float_val averaged" where
  "LightSensor = fresh 0"

definition TempSensor :: "float_val averaged" where
  "TempSensor = fresh 0"

definition analog_add :: "(rat \<Rightarrow> float_val) \<Rightarrow> float_val \<Rightarrow> float_val \<Rightarrow> float_val" where
  "analog_add fl acc x = fl (acc + x)"

text \<open>A float divided by an unsigned number; without reads the result is no number.\<close>

definition analog_output :: "(rat \<Rightarrow> float_val) \<Rightarrow> float_val \<Rightarrow> u32 \<Rightarrow> float_val option" where
  "analog_output fl acc n =
     (if n = 0 then None else Some (fl (acc / fl (of_nat (unat n)))))"

subsection \<open>\<open>DhtThread\<close>\<close>

record dht_sums =
  humidity :: float_val
  celsius :: float_val
  fahrenheit :: float_val
  kelvin :: float_val

definition DhtThread :: "dht_sums averaged" where
  "DhtThread = fresh \<lparr>humidity = 0, celsius = 0, fahrenheit = 0, kelvin = 0\<rparr>"

text \<open>What the thread adds after a \<open>readData\<close> that found no error.\<close>

definition dht_add :: "(rat \<Rightarrow> float_val) \<Rightarrow> dht_sums \<Rightarrow> dht_sensor \<Rightarrow> dht_sums" where
  "dht_add fl s d =
     \<lparr>humidity = fl (humidity s + ReadHumidity d),
      celsius = fl (celsius s + ReadTemperature fl CELCIUS d),
      fahrenheit = fl (fahrenheit s + ReadTemperature fl FARENHEIT d),
      kelvin = fl (kelvin s + ReadTemperature fl KELVIN d)\<rparr>"

text \<open>One round of the thread: a failed transfer and a lock that is taken skip it.\<close>

definition dht_process ::
    "(rat \<Rightarrow> float_val) \<Rightarrow> (nat \<Rightarrow> bool) \<Rightarrow> nat \<Rightarrow> dht_sensor \<Rightarrow> dht_sums averaged \<Rightarrow> dht_sensor \<times> dht_sums averaged" where
  "dht_process fl io now d t =
     (case readData io now d of (err, d, time) \<Rightarrow>
        if err = ERROR_NONE \<and> holder t = None
        then (d, t\<lparr>total := dht_add fl (total t) d, reads := reads t + 1\<rparr>)
        else (d, t))"

text \<open>The four getters with \<open>avg\<close> true.\<close>

definition dht_output :: "(rat \<Rightarrow> float_val) \<Rightarrow> dht_sums \<Rightarrow> u32 \<Rightarrow> dht_sums option" where
  "dht_output fl s n =
     (if n = 0 then None
      else let avg = (\<lambda>x. fl (x / fl (of_nat (unat n))))
           in Some \<lparr>humidity = avg (humidity s), celsius = avg (celsius s),
                    fahrenheit = avg (fahrenheit s), kelvin = avg (kelvin s)\<rparr>)"

subsection \<open>Reading and starting over\<close>

text \<open>\<open>readOutput\<close> of the analog sensors, and the locked part of the main loop for the DHT.\<close>

definition read_output :: "('s \<Rightarrow> u32 \<Rightarrow> 'o option) \<Rightarrow> 's \<Rightarrow> 's averaged \<Rightarrow> 'o option \<times> 's averaged" where
  "read_output avg zero s = (avg (total s) (reads s), s\<lparr>total := zero, reads := 0\<rparr>)"

section \<open>The two threads\<close>

text \<open>
  Where the threads are. The reader: before \<open>trylock\<close>, before the sum, before the count, before
  \<open>unlock\<close>. The main loop: before the test of \<open>getReads()\<close>, which takes no lock, before the lock,
  before the division, before the reset, before \<open>unlock\<close>, or in a division by zero.
\<close>

datatype reader_pc = R_wait | R_sum | R_count | R_unlock

datatype main_pc = M_test | M_lock | M_divide | M_reset | M_unlock | M_fault

text \<open>
  Three fields are not in the code: \<open>taken\<close> lists all the samples the thread has ever added and is never
  cleared, \<open>since\<close> those since the last reset, \<open>outputs\<close> what the main loop has read, each with the samples
  it stands for.
\<close>

record ('s, 'x, 'o) sensor_system =
  sensor :: "'s averaged"
  rpc :: reader_pc
  mpc :: main_pc
  taken :: "'x list"
  since :: "'x list"
  outputs :: "('x list \<times> 'o) list"

definition system_start :: "'s \<Rightarrow> ('s, 'x, 'o) sensor_system" where
  "system_start zero = \<lparr>sensor = fresh zero, rpc = R_wait, mpc = M_test, taken = [], since = [], outputs = []\<rparr>"

inductive sensor_step ::
    "('s \<Rightarrow> 'x \<Rightarrow> 's) \<Rightarrow> ('s \<Rightarrow> u32 \<Rightarrow> 'o option) \<Rightarrow> 's \<Rightarrow>
     ('s, 'x, 'o) sensor_system \<Rightarrow> ('s, 'x, 'o) sensor_system \<Rightarrow> bool"
  for add avg zero where
  reader_trylock: "rpc y = R_wait \<Longrightarrow> holder (sensor y) = None \<Longrightarrow>
    sensor_step add avg zero y (y\<lparr>rpc := R_sum, sensor := (sensor y)\<lparr>holder := Some Reader\<rparr>\<rparr>)"
| reader_busy: "rpc y = R_wait \<Longrightarrow> holder (sensor y) \<noteq> None \<Longrightarrow> sensor_step add avg zero y y"
| reader_sum: "rpc y = R_sum \<Longrightarrow>
    sensor_step add avg zero y
      (y\<lparr>rpc := R_count, sensor := (sensor y)\<lparr>total := add (total (sensor y)) x\<rparr>,
        taken := taken y @ [x], since := since y @ [x]\<rparr>)"
| reader_count: "rpc y = R_count \<Longrightarrow>
    sensor_step add avg zero y (y\<lparr>rpc := R_unlock, sensor := (sensor y)\<lparr>reads := reads (sensor y) + 1\<rparr>\<rparr>)"
| reader_unlock: "rpc y = R_unlock \<Longrightarrow>
    sensor_step add avg zero y (y\<lparr>rpc := R_wait, sensor := (sensor y)\<lparr>holder := None\<rparr>\<rparr>)"
| main_skip: "mpc y = M_test \<Longrightarrow> reads (sensor y) = 0 \<Longrightarrow> sensor_step add avg zero y y"
| main_test: "mpc y = M_test \<Longrightarrow> reads (sensor y) \<noteq> 0 \<Longrightarrow> sensor_step add avg zero y (y\<lparr>mpc := M_lock\<rparr>)"
| main_lock: "mpc y = M_lock \<Longrightarrow> holder (sensor y) = None \<Longrightarrow>
    sensor_step add avg zero y (y\<lparr>mpc := M_divide, sensor := (sensor y)\<lparr>holder := Some Main\<rparr>\<rparr>)"
| main_divide: "mpc y = M_divide \<Longrightarrow> avg (total (sensor y)) (reads (sensor y)) = Some out \<Longrightarrow>
    sensor_step add avg zero y (y\<lparr>mpc := M_reset, outputs := outputs y @ [(since y, out)]\<rparr>)"
| main_fault: "mpc y = M_divide \<Longrightarrow> avg (total (sensor y)) (reads (sensor y)) = None \<Longrightarrow>
    sensor_step add avg zero y (y\<lparr>mpc := M_fault\<rparr>)"
| main_reset: "mpc y = M_reset \<Longrightarrow>
    sensor_step add avg zero y
      (y\<lparr>mpc := M_unlock, sensor := (sensor y)\<lparr>total := zero, reads := 0\<rparr>, since := []\<rparr>)"
| main_unlock: "mpc y = M_unlock \<Longrightarrow>
    sensor_step add avg zero y (y\<lparr>mpc := M_test, sensor := (sensor y)\<lparr>holder := None\<rparr>\<rparr>)"

definition sensor_reachable ::
    "('s \<Rightarrow> 'x \<Rightarrow> 's) \<Rightarrow> ('s \<Rightarrow> u32 \<Rightarrow> 'o option) \<Rightarrow> 's \<Rightarrow> ('s, 'x, 'o) sensor_system \<Rightarrow> bool" where
  "sensor_reachable add avg zero y \<longleftrightarrow> (sensor_step add avg zero)\<^sup>*\<^sup>* (system_start zero) y"

end
