(* ===== verification/SensorsTheorems.thy ===== *)
theory SensorsTheorems
  imports Sensors
begin

text \<open>
  The threads of a sensor and the main loop: their invariant, the averages the main loop reads, and
  the arithmetic of the sound level.
\<close>

section \<open>The invariant of the two threads\<close>

definition sensor_inv :: "('s \<Rightarrow> 'x \<Rightarrow> 's) \<Rightarrow> ('s \<Rightarrow> u32 \<Rightarrow> 'o option) \<Rightarrow> 's \<Rightarrow> ('s, 'x, 'o) sensor_system \<Rightarrow> bool" where
  "sensor_inv add avg zero y \<longleftrightarrow>
     (holder (sensor y) = Some Reader \<longleftrightarrow> rpc y \<noteq> R_wait) \<and>
     (holder (sensor y) = Some Main \<longleftrightarrow> mpc y \<in> {M_divide, M_reset, M_unlock, M_fault}) \<and>
     total (sensor y) = foldl add zero (since y) \<and>
     (if rpc y = R_count then \<exists>xs x. since y = xs @ [x] \<and> reads (sensor y) = of_nat (length xs)
      else reads (sensor y) = of_nat (length (since y))) \<and>
     (mpc y \<in> {M_lock, M_divide, M_reset, M_fault} \<longrightarrow> since y \<noteq> []) \<and>
     (\<forall>(xs, out) \<in> set (outputs y). xs \<noteq> [] \<and> avg (foldl add zero xs) (of_nat (length xs)) = Some out) \<and>
     concat (map fst (outputs y)) @ (if mpc y = M_reset then [] else since y) = taken y \<and>
     (mpc y = M_fault \<longrightarrow> avg (foldl add zero (since y)) (of_nat (length (since y))) = None)"

lemma sensor_inv_start: "sensor_inv add avg zero (system_start zero)"
  by (simp add: sensor_inv_def system_start_def fresh_def)

lemma sensor_inv_step:
  assumes "sensor_step add avg zero y z" "sensor_inv add avg zero y"
  shows "sensor_inv add avg zero z"
  using assms
proof cases
  case reader_trylock
  then show ?thesis using assms(2) by (auto simp: sensor_inv_def)
next
  case reader_busy
  then show ?thesis using assms(2) by (auto simp: sensor_inv_def)
next
  case (reader_sum x)
  then show ?thesis using assms(2) by (auto simp: sensor_inv_def)
next
  case reader_count
  then show ?thesis using assms(2) by (auto simp: sensor_inv_def)
next
  case reader_unlock
  then show ?thesis using assms(2) by (auto simp: sensor_inv_def)
next
  case main_skip
  then show ?thesis using assms(2) by (auto simp: sensor_inv_def)
next
  case main_test
  then show ?thesis using assms(2) by (auto simp: sensor_inv_def)
next
  case main_lock
  then show ?thesis using assms(2) by (auto simp: sensor_inv_def)
next
  case (main_divide out)
  then show ?thesis using assms(2) by (auto simp: sensor_inv_def)
next
  case main_fault
  then show ?thesis using assms(2) by (auto simp: sensor_inv_def)
next
  case main_reset
  then show ?thesis using assms(2) by (auto simp: sensor_inv_def)
next
  case main_unlock
  then show ?thesis using assms(2) by (auto simp: sensor_inv_def)
qed

lemma sensor_inv_reachable: "sensor_reachable add avg zero y \<Longrightarrow> sensor_inv add avg zero y"
  unfolding sensor_reachable_def
  by (induction rule: rtranclp_induct) (auto intro: sensor_inv_start sensor_inv_step)

text \<open>
  C10: Under every interleaving of the sensor's thread with the main loop, no sample is lost and none is
  counted twice: all the samples the thread has ever added are, in their order, those of the values
  the main loop has read, one after the other, and then those that wait in the sum, which is theirs
  unless it is just about to be reset. Every value read stands for at least one sample and is the
  sensor's division of the sum of exactly its samples by their number, both as the sensor computes
  them: the arithmetic of the sensor (\<open>add\<close>, \<open>avg\<close>), which may round or wrap around, is a parameter.
\<close>

theorem sensor_outputs_exact:
  assumes "sensor_reachable add avg zero y"
  shows "\<exists>waiting. concat (map fst (outputs y)) @ waiting = taken y \<and>
     (mpc y \<noteq> M_reset \<longrightarrow> total (sensor y) = foldl add zero waiting) \<and>
     (\<forall>(xs, out) \<in> set (outputs y). xs \<noteq> [] \<and> avg (foldl add zero xs) (of_nat (length xs)) = Some out)"
  using sensor_inv_reachable [OF assms]
  by (intro exI [of _ "if mpc y = M_reset then [] else since y"]) (simp add: sensor_inv_def)

text \<open>A run with one sample that is read, for the witnesses.\<close>

lemma one_round:
  assumes "avg (add zero x) 1 = Some out"
  shows "sensor_reachable add avg zero
    \<lparr>sensor = \<lparr>total = add zero x, reads = 1, holder = Some Main\<rparr>, rpc = R_wait, mpc = M_reset,
     taken = [x], since = [x], outputs = [([x], out)]\<rparr>"
proof -
  let ?y = "\<lambda>t n h r m xs os. \<lparr>sensor = \<lparr>total = t, reads = n, holder = h\<rparr>, rpc = r, mpc = m, taken = xs, since = xs, outputs = os\<rparr>"
  let ?R = "sensor_step add avg zero" and ?t = "add zero x"
  have "?R (?y zero 0 None R_wait M_test [] []) (?y zero 0 (Some Reader) R_sum M_test [] [])"
    using reader_trylock [of "?y zero 0 None R_wait M_test [] []" add avg zero] by simp
  moreover have "?R (?y zero 0 (Some Reader) R_sum M_test [] []) (?y ?t 0 (Some Reader) R_count M_test [x] [])"
    using reader_sum [of "?y zero 0 (Some Reader) R_sum M_test [] []" add avg zero x] by simp
  moreover have "?R (?y ?t 0 (Some Reader) R_count M_test [x] []) (?y ?t 1 (Some Reader) R_unlock M_test [x] [])"
    using reader_count [of "?y ?t 0 (Some Reader) R_count M_test [x] []" add avg zero] by simp
  moreover have "?R (?y ?t 1 (Some Reader) R_unlock M_test [x] []) (?y ?t 1 None R_wait M_test [x] [])"
    using reader_unlock [of "?y ?t 1 (Some Reader) R_unlock M_test [x] []" add avg zero] by simp
  moreover have "?R (?y ?t 1 None R_wait M_test [x] []) (?y ?t 1 None R_wait M_lock [x] [])"
    using main_test [of "?y ?t 1 None R_wait M_test [x] []" add avg zero] by simp
  moreover have "?R (?y ?t 1 None R_wait M_lock [x] []) (?y ?t 1 (Some Main) R_wait M_divide [x] [])"
    using main_lock [of "?y ?t 1 None R_wait M_lock [x] []" add avg zero] by simp
  moreover have "?R (?y ?t 1 (Some Main) R_wait M_divide [x] []) (?y ?t 1 (Some Main) R_wait M_reset [x] [([x], out)])"
    using main_divide [of "?y ?t 1 (Some Main) R_wait M_divide [x] []" avg out add zero] assms by simp
  ultimately show ?thesis
    unfolding sensor_reachable_def system_start_def fresh_def
    by (meson converse_rtranclp_into_rtranclp rtranclp.rtrancl_refl)
qed

lemma sensor_outputs_exact_witness:
  "\<exists>waiting. concat [[3]] @ waiting = [3 :: rat] \<and>
     analog_output id (foldl (analog_add id) 0 [3]) (of_nat (length [3 :: rat])) = Some 3"
proof -
  have "analog_output id (analog_add id 0 3) 1 = Some 3" by (simp add: analog_output_def analog_add_def)
  from sensor_outputs_exact [OF one_round [of "analog_output id" "analog_add id" 0 3 3, OF this]] show ?thesis by simp
qed

section \<open>No division by zero\<close>

text \<open>The divisions of the sensors fail for no reads only.\<close>

locale averaging =
  fixes avg :: "'s \<Rightarrow> u32 \<Rightarrow> 'o option"
  assumes avg_None: "avg acc n = None \<longleftrightarrow> n = 0"
begin

lemma no_fault:
  assumes "sensor_reachable add avg zero y" "length (since y) < 2 ^ 32"
  shows "mpc y \<noteq> M_fault" "rpc y = R_wait \<or> mpc y \<in> {M_test, M_lock}"
proof -
  have inv: "sensor_inv add avg zero y" by (rule sensor_inv_reachable [OF assms(1)])
  show "mpc y \<noteq> M_fault"
  proof
    assume fault: "mpc y = M_fault"
    then have ne: "since y \<noteq> []" and "avg (foldl add zero (since y)) (of_nat (length (since y))) = None"
      using inv by (simp_all add: sensor_inv_def)
    then have "(of_nat (length (since y)) :: u32) = 0" by (simp add: avg_None)
    then have "unat (of_nat (length (since y)) :: u32) = 0" by simp
    then show False using assms(2) ne by (simp add: unat_of_nat_small)
  qed
  show "rpc y = R_wait \<or> mpc y \<in> {M_test, M_lock}" 
    using inv by (cases "mpc y") (auto simp: sensor_inv_def)
qed

end

interpretation sound: averaging "sound_output fl"
  by unfold_locales (simp add: sound_output_def)

interpretation analog: averaging "analog_output fl"
  by unfold_locales (simp add: analog_output_def)

interpretation dht: averaging "dht_output fl"
  by unfold_locales (simp add: dht_output_def Let_def)

section \<open>The sound level\<close>

definition mean_input :: "u16 list \<Rightarrow> nat" where
  "mean_input inputs = (\<Sum>x\<leftarrow>inputs. unat x) div 1000"

lemma unat_sum_words:
  fixes a :: u32 and xs :: "u16 list"
  assumes "unat a + 65535 * length xs < 2 ^ 32"
  shows "unat (foldl (\<lambda>acc x. acc + ucast x) a xs) = unat a + (\<Sum>x\<leftarrow>xs. unat x)"
  using assms
proof (induction xs arbitrary: a)
  case (Cons x xs)
  have x: "unat (ucast x :: u32) = unat x" "unat x \<le> 65535"
    using unat_u16 [of x] by (simp_all add: unsigned_ucast_eq take_bit_nat_eq_self)
  have "unat (a + ucast x) = unat a + unat x"
    using Cons.prems x by (subst unat_add_no_wrap) simp_all
  then show ?case using Cons.IH [of "a + ucast x"] Cons.prems x by simp
qed simp

lemma sum_inputs_le: "(\<Sum>x\<leftarrow>xs. unat x) \<le> 65535 * length xs" for xs :: "u16 list"
proof (induction xs)
  case (Cons x xs)
  then show ?case using unat_u16 [of x] by simp
qed simp

lemma sound_sample_mean:
  assumes "length inputs = 1000"
  shows "unat (sound_sample inputs) = mean_input inputs" "mean_input inputs \<le> 65535"
proof -
  show "unat (sound_sample inputs) = mean_input inputs"
    using unat_sum_words [of 0 inputs] assms by (simp add: sound_sample_def mean_input_def unat_div)
  show "mean_input inputs \<le> 65535"
    using sum_inputs_le [of inputs] assms unfolding mean_input_def by simp
qed

lemma sound_sum:
  assumes "\<forall>x \<in> set xs. length x = 1000" "unat a + 65535 * length xs < 2 ^ 32"
  shows "unat (foldl sound_add a xs) = unat a + (\<Sum>x\<leftarrow>xs. mean_input x)"
  using assms
proof (induction xs arbitrary: a)
  case (Cons x xs)
  have x: "unat (sound_sample x) = mean_input x" "mean_input x \<le> 65535"
    using sound_sample_mean Cons.prems(1) by simp_all
  have "unat (sound_add a x) = unat a + mean_input x"
    unfolding sound_add_def using Cons.prems x by (subst unat_add_no_wrap) simp_all
  then show ?case using Cons.IH [of "sound_add a x"] Cons.prems x by simp
qed simp

text \<open>
  C31: The sound level the main loop reads is, up to the last conversion to a float, the mean of the
  samples' means rounded down, whatever the interleaving, if each sample is of 1000 readings and the
  value stands for at most 65537 samples. Then the words of 32 bits give what whole numbers would.
\<close>

theorem sound_reading:
  assumes "sensor_reachable sound_add (sound_output fl) 0 y" "(xs, out) \<in> set (outputs y)"
    and "\<forall>x \<in> set xs. length x = 1000" "length xs \<le> 65537"
  shows "out = fl (of_nat ((\<Sum>x\<leftarrow>xs. mean_input x) div length xs))"
proof -
  have ne: "xs \<noteq> []" and out: "sound_output fl (foldl sound_add 0 xs) (of_nat (length xs)) = Some out"
    using sensor_inv_reachable [OF assms(1)] assms(2) by (auto simp: sensor_inv_def)
  have n: "unat (of_nat (length xs) :: u32) = length xs"
    using assms(4) by (intro unat_of_nat_small) simp
  moreover have "unat (foldl sound_add 0 xs) = (\<Sum>x\<leftarrow>xs. mean_input x)"
    using sound_sum [OF assms(3), of 0] assms(4) by simp
  ultimately show ?thesis
    using out by (simp add: sound_output_def unat_div split: if_splits)
qed

lemma sound_reading_witness:
  "sound_output id (sound_add 0 (replicate 1000 7)) 1 =
     Some (of_nat ((\<Sum>x\<leftarrow>[replicate 1000 7]. mean_input x) div length [replicate 1000 (7 :: u16)]))"
proof -
  let ?xs = "[replicate 1000 (7 :: u16)]"
  obtain out where out: "sound_output id (sound_add 0 (replicate 1000 7)) 1 = Some out"
    by (simp add: sound_output_def)
  have "out = id (of_nat ((\<Sum>x\<leftarrow>?xs. mean_input x) div length ?xs))"
    by (rule sound_reading [OF one_round [of "sound_output id" sound_add 0 "replicate 1000 7" out, OF out]]) simp_all
  then show ?thesis unfolding out by (simp only: id_apply)
qed

text \<open>
  No thread ever divides by zero: as long as fewer than \<open>2^32\<close> samples came since the last
  reset, the main loop, which tests the count without the lock and divides under it, never meets a
  count of 0 in the division, of any of the four sensors; and the two threads are never in their
  critical sections together.
\<close>

theorem no_division_by_zero:
  assumes "avg = sound_output fl" "avg' = analog_output fl" "avg'' = dht_output fl"
    and "sensor_reachable sound_add avg 0 x" "length (since x) < 2 ^ 32"
    and "sensor_reachable (analog_add fl) avg' 0 y" "length (since y) < 2 ^ 32"
    and "sensor_reachable (dht_add fl) avg'' (total DhtThread) z" "length (since z) < 2 ^ 32"
  shows "mpc x \<noteq> M_fault \<and> mpc y \<noteq> M_fault \<and> mpc z \<noteq> M_fault \<and>
    (rpc x = R_wait \<or> mpc x \<in> {M_test, M_lock}) \<and> (rpc y = R_wait \<or> mpc y \<in> {M_test, M_lock}) \<and>
    (rpc z = R_wait \<or> mpc z \<in> {M_test, M_lock})"
  using sound.no_fault [OF assms(4) [unfolded assms(1)] assms(5)]
    analog.no_fault [OF assms(6) [unfolded assms(2)] assms(7)]
    dht.no_fault [OF assms(8) [unfolded assms(3)] assms(9)] by blast

lemma no_division_by_zero_witness:
  "mpc (system_start 0 :: (u32, u16 list, rat) sensor_system) \<noteq> M_fault \<and>
   mpc (system_start 0 :: (rat, rat, rat) sensor_system) \<noteq> M_fault \<and>
   mpc (system_start (total DhtThread) :: (dht_sums, dht_sensor, dht_sums) sensor_system) \<noteq> M_fault \<and>
   (rpc (system_start 0 :: (u32, u16 list, rat) sensor_system) = R_wait \<or>
     mpc (system_start 0 :: (u32, u16 list, rat) sensor_system) \<in> {M_test, M_lock}) \<and>
   (rpc (system_start 0 :: (rat, rat, rat) sensor_system) = R_wait \<or>
     mpc (system_start 0 :: (rat, rat, rat) sensor_system) \<in> {M_test, M_lock}) \<and>
   (rpc (system_start (total DhtThread) :: (dht_sums, dht_sensor, dht_sums) sensor_system) = R_wait \<or>
     mpc (system_start (total DhtThread) :: (dht_sums, dht_sensor, dht_sums) sensor_system) \<in> {M_test, M_lock})"
  by (rule no_division_by_zero [OF refl refl refl, of id])
    (simp_all add: sensor_reachable_def system_start_def)

text \<open>
  One sample more can be too much: while the main loop does not read, because the other sensor
  gives no data, 65538 loud samples (eleven minutes at one every 10 milliseconds) wrap the sum
  around, and the average comes out as 0.
\<close>

theorem sound_sum_overflow:
  "sound_output fl (foldl sound_add 0 (replicate 65538 (replicate 1000 0xFFFF))) 65538 = Some (fl 0)"
proof -
  have "foldl sound_add a (replicate n x) = a + of_nat n * sound_sample x" for a n x
    by (induction n arbitrary: a) (simp_all add: sound_add_def algebra_simps)
  moreover have "unat (sound_sample (replicate 1000 0xFFFF)) = 65535"
    using sound_sample_mean(1) [of "replicate 1000 0xFFFF"]
    by (simp add: mean_input_def sum_list_replicate)
  then have "sound_sample (replicate 1000 0xFFFF) = 65535"
    by (simp add: word_unat_eq_iff)
  ultimately have "foldl sound_add 0 (replicate 65538 (replicate 1000 0xFFFF)) = (of_nat 65538 * 65535 :: u32)"
    by (simp only: add_0_left)
  moreover have "(of_nat 65538 * 65535 :: u32) = 65534" by simp
  ultimately have f: "foldl sound_add 0 (replicate 65538 (replicate 1000 0xFFFF)) = 65534"
    by (rule trans)
  show ?thesis unfolding f by (simp add: sound_output_def)
qed

end
