(* ===== verification/Container.thy ===== *)
theory Container
  imports Main
begin

text \<open>
  \<open>Sicet7/Container.cpp\<close>: the container and its six instances are made on first use, by the same
  code each time: a test, the lock, a second test, \<open>new\<close>. The machine runs it in any number of
  threads \<open>'t\<close>, one access to memory at a step; memory is sequentially consistent.
\<close>

datatype getter_pc = G_test | G_lock | G_test_again | G_new | G_unlock | G_return
  | G_returned "nat option"

text \<open>The instance is a number, the count of the objects made before it.\<close>

record 't container =
  instance_ptr :: "nat option"
  lock_owner :: "'t option"
  created :: nat
  pc :: "'t \<Rightarrow> getter_pc"

definition container_start :: "'t container" where
  "container_start = \<lparr>instance_ptr = None, lock_owner = None, created = 0, pc = (\<lambda>t. G_test)\<rparr>"

definition goto :: "'t \<Rightarrow> getter_pc \<Rightarrow> 't container \<Rightarrow> 't container" where
  "goto t g y = y\<lparr>pc := (pc y)(t := g)\<rparr>"

inductive getter_step :: "'t container \<Rightarrow> 't container \<Rightarrow> bool" where
  test_null: "pc y t = G_test \<Longrightarrow> instance_ptr y = None \<Longrightarrow> getter_step y (goto t G_lock y)"
| test_set: "pc y t = G_test \<Longrightarrow> instance_ptr y \<noteq> None \<Longrightarrow> getter_step y (goto t G_return y)"
| lock: "pc y t = G_lock \<Longrightarrow> lock_owner y = None \<Longrightarrow>
    getter_step y (goto t G_test_again (y\<lparr>lock_owner := Some t\<rparr>))"
| again_null: "pc y t = G_test_again \<Longrightarrow> instance_ptr y = None \<Longrightarrow> getter_step y (goto t G_new y)"
| again_set: "pc y t = G_test_again \<Longrightarrow> instance_ptr y \<noteq> None \<Longrightarrow> getter_step y (goto t G_unlock y)"
| create: "pc y t = G_new \<Longrightarrow>
    getter_step y (goto t G_unlock (y\<lparr>instance_ptr := Some (created y), created := created y + 1\<rparr>))"
| unlock: "pc y t = G_unlock \<Longrightarrow> getter_step y (goto t G_return (y\<lparr>lock_owner := None\<rparr>))"
| return: "pc y t = G_return \<Longrightarrow> getter_step y (goto t (G_returned (instance_ptr y)) y)"
| call: "pc y t = G_returned p \<Longrightarrow> getter_step y (goto t G_test y)"

section \<open>One instance\<close>

definition container_inv :: "'t container \<Rightarrow> bool" where
  "container_inv y \<longleftrightarrow>
     (\<forall>t. lock_owner y = Some t \<longleftrightarrow> pc y t \<in> {G_test_again, G_new, G_unlock}) \<and>
     (\<forall>t. pc y t = G_new \<longrightarrow> instance_ptr y = None) \<and>
     (\<forall>t. pc y t \<in> {G_unlock, G_return} \<longrightarrow> instance_ptr y = Some 0) \<and>
     (\<forall>t p. pc y t = G_returned p \<longrightarrow> p = Some 0 \<and> instance_ptr y = Some 0) \<and>
     (case instance_ptr y of None \<Rightarrow> created y = 0 | Some i \<Rightarrow> i = 0 \<and> created y = 1)"

lemma container_inv_step:
  assumes "getter_step y z" "container_inv y"
  shows "container_inv z"
  using assms
proof cases
  case (test_null t)
  then show ?thesis using assms(2) by (auto simp: container_inv_def goto_def split: option.splits)
next
  case (test_set t)
  then show ?thesis using assms(2) by (auto simp: container_inv_def goto_def split: option.splits)
next
  case (lock t)
  then show ?thesis using assms(2) by (auto simp: container_inv_def goto_def split: option.splits)
next
  case (again_null t)
  then show ?thesis using assms(2) by (auto simp: container_inv_def goto_def split: option.splits)
next
  case (again_set t)
  then show ?thesis using assms(2) by (auto simp: container_inv_def goto_def split: option.splits)
next
  case (create t)
  have "pc y u \<notin> {G_test_again, G_new, G_unlock}" if "u \<noteq> t" for u
    using create assms(2) that unfolding container_inv_def by (metis insertCI option.inject)
  then show ?thesis
    using create assms(2) by (auto simp: container_inv_def goto_def split: option.splits)
next
  case (unlock t)
  have "pc y u \<notin> {G_test_again, G_new, G_unlock}" if "u \<noteq> t" for u
    using unlock assms(2) that unfolding container_inv_def by (metis insertCI option.inject)
  then show ?thesis
    using unlock assms(2) by (auto simp: container_inv_def goto_def split: option.splits)
next
  case (return t)
  then show ?thesis using assms(2) by (auto simp: container_inv_def goto_def split: option.splits)
next
  case (call t p)
  have old: "p = Some 0" "instance_ptr y = Some 0"
    using call(2) assms(2) unfolding container_inv_def by blast+
  have z: "instance_ptr z = Some 0" "lock_owner z = lock_owner y" "created z = created y"
    "pc z = (pc y)(t := G_test)"
    using call(1) old(2) by (simp_all add: goto_def)
  have "pc z u \<in> {G_test_again, G_new, G_unlock} \<longleftrightarrow> pc y u \<in> {G_test_again, G_new, G_unlock}" for u
    using call(2) z(4) by simp
  moreover have "pc y u \<noteq> G_new" for u
    using assms(2) old(2) unfolding container_inv_def by (metis option.distinct(1))
  then have "pc z u \<noteq> G_new" for u using z(4) by simp
  moreover have "pc z u = G_returned q \<Longrightarrow> q = Some 0" for u q
    using assms(2) z(4) unfolding container_inv_def by (cases "u = t") simp_all
  ultimately show ?thesis
    using assms(2) old(2) z(1-3) unfolding container_inv_def by simp
qed

lemma container_inv_reachable:
  assumes "getter_step\<^sup>*\<^sup>* container_start y"
  shows "container_inv y"
  using assms
proof induction
  case base
  show ?case by (simp add: container_inv_def container_start_def)
next
  case (step y z)
  then show ?case by (blast intro: container_inv_step)
qed

text \<open>
  C11: However many threads call a getter of the container at once, at most one instance is made, and
  every call that returns gives that instance, never a null pointer.
\<close>

theorem container_one_instance:
  assumes "getter_step\<^sup>*\<^sup>* container_start y"
  shows "created y \<le> 1 \<and> (\<forall>t p. pc y t = G_returned p \<longrightarrow> p = Some 0)"
  using container_inv_reachable [OF assms] by (auto simp: container_inv_def split: option.splits)

lemma container_one_instance_witness: "created (goto True G_lock container_start) \<le> 1"
proof -
  have "getter_step container_start (goto True G_lock container_start)"
    by (rule test_null) (simp_all add: container_start_def)
  then have "getter_step\<^sup>*\<^sup>* container_start (goto True G_lock container_start)" by blast
  from container_one_instance [OF this] show ?thesis by blast
qed

section \<open>Progress\<close>

text \<open>A step of one thread, and how far the holder of the lock is from giving it back.\<close>

definition moves :: "'t \<Rightarrow> 't container \<Rightarrow> 't container \<Rightarrow> bool" where
  "moves t y z \<longleftrightarrow> getter_step y z \<and> pc z t \<noteq> pc y t \<and> (\<forall>u. u \<noteq> t \<longrightarrow> pc z u = pc y u)"

fun hold_rank :: "getter_pc \<Rightarrow> nat" where
  "hold_rank G_test_again = 3"
| "hold_rank G_new = 2"
| "hold_rank G_unlock = 1"
| "hold_rank g = 0"

lemma moves_goto:
  assumes "getter_step y (goto t g y')" "pc y' = pc y" "pc y t \<noteq> g"
  shows "moves t y (goto t g y')"
  using assms by (simp add: moves_def goto_def)

lemma free_thread_moves:
  assumes "pc y t = G_lock \<Longrightarrow> lock_owner y = None"
  shows "\<exists>z. moves t y z"
proof (cases "pc y t")
  case G_test
  then show ?thesis
    by (cases "instance_ptr y") (auto intro!: exI moves_goto intro: getter_step.intros)
next
  case G_lock
  then show ?thesis
    using moves_goto [OF lock, of y t] assms by auto
next
  case G_test_again
  then show ?thesis
    by (cases "instance_ptr y") (auto intro!: exI moves_goto intro: getter_step.intros)
next
  case G_new
  then show ?thesis using moves_goto [OF create, of y t] by auto
next
  case G_unlock
  then show ?thesis using moves_goto [OF unlock, of y t] by auto
next
  case G_return
  then show ?thesis using moves_goto [OF return, of y t] by auto
next
  case (G_returned p)
  then show ?thesis using moves_goto [OF call, of y t p] by auto
qed

lemma holder_moves:
  assumes "moves u y z" "pc y u \<in> {G_test_again, G_new, G_unlock}" "lock_owner y = Some u"
  shows "lock_owner z = None \<or> lock_owner z = Some u \<and> hold_rank (pc z u) < hold_rank (pc y u)"
proof -
  have step: "getter_step y z" and moved: "pc z u \<noteq> pc y u" using assms(1) by (simp_all add: moves_def)
  from step show ?thesis
    by cases (use moved assms(2,3) in \<open>auto simp: goto_def split: if_splits\<close>)
qed

text \<open>
  C40: The getters do not deadlock: in every reachable state each thread can make its next
  step, or it waits for the lock, another thread holds it and can make its next step, and every such
  step gives the lock back or brings the holder nearer to it, at most three of them in all.
\<close>

theorem container_progress:
  assumes "getter_step\<^sup>*\<^sup>* container_start y"
  shows "(\<exists>z. moves t y z) \<or>
    (\<exists>u. pc y t = G_lock \<and> lock_owner y = Some u \<and> u \<noteq> t \<and> (\<exists>z. moves u y z) \<and> hold_rank (pc y u) \<le> 3 \<and>
      (\<forall>z. moves u y z \<longrightarrow>
        lock_owner z = None \<or> lock_owner z = Some u \<and> hold_rank (pc z u) < hold_rank (pc y u)))"
proof (cases "pc y t = G_lock \<and> lock_owner y \<noteq> None")
  case False
  then have "\<exists>z. moves t y z" by (intro free_thread_moves) simp
  then show ?thesis by blast
next
  case True
  then obtain u where u: "lock_owner y = Some u" by blast
  then have pc: "pc y u \<in> {G_test_again, G_new, G_unlock}"
    using container_inv_reachable [OF assms] unfolding container_inv_def by blast
  then have "\<exists>z. moves u y z" "u \<noteq> t" "hold_rank (pc y u) \<le> 3"
    using free_thread_moves [of y u] True by auto
  then show ?thesis using u True holder_moves [OF _ pc u] by blast
qed

lemma container_progress_witness: "\<exists>z. moves True (container_start :: bool container) z"
  using container_progress [of "container_start :: bool container" True] by (simp add: container_start_def)

end
