(* ===== verification/App.thy ===== *)
theory App
  imports HttpRequest Sensors
begin

text \<open>
  The application, \<open>main.cpp\<close>, with \<open>To\<close>, \<open>Console\<close> and \<open>NetworkConnection\<close> of \<open>Sicet7\<close>. An
  iteration of the main loop is one function from the state of the sensors and the network to what it
  does; the interleaving with the threads of the sensors is in the theory of the sensors.
\<close>

section \<open>Numbers as text\<close>

text \<open>
  \<open>ostringstream << float\<close>, that is \<open>%g\<close> with six digits: \<open>decimal_exponent\<close> is the exponent of the
  first digit, \<open>round_half_even\<close> the rounding to the last one.
\<close>

definition round_half_even :: "rat \<Rightarrow> int" where
  "round_half_even x =
     (let n = floor x; f = x - of_int n
      in if f < 1 / 2 \<or> f = 1 / 2 \<and> even n then n else n + 1)"

definition decimal_exponent :: "rat \<Rightarrow> int" where
  "decimal_exponent x =
     (case quotient_of x of (p, q) \<Rightarrow>
        if q \<le> p then int (length (print_dec (nat (p div q)))) - 1
        else - int (length (print_dec (nat ((q - 1) div p)))))"

definition scale_10 :: "rat \<Rightarrow> int \<Rightarrow> rat" where
  "scale_10 x k = (if 0 \<le> k then x * 10 ^ nat k else x / 10 ^ nat (- k))"

definition significant :: "rat \<Rightarrow> nat \<times> int" where
  "significant x =
     (let e = decimal_exponent x; m = nat (round_half_even (scale_10 x (5 - e)))
      in if m \<ge> 10 ^ 6 then (10 ^ 5, e + 1) else (m, e))"

definition with_point :: "string \<Rightarrow> string \<Rightarrow> string" where
  "with_point i f =
     (let f = rev (dropWhile (\<lambda>c. c = CHR ''0'') (rev f)) in if f = [] then i else i @ ''.'' @ f)"

definition exponent_text :: "int \<Rightarrow> string" where
  "exponent_text e =
     (let n = nat \<bar>e\<bar>
      in (if e < 0 then ''e-'' else ''e+'') @ (if n < 10 then ''0'' else []) @ print_dec n)"

definition show_positive :: "rat \<Rightarrow> string" where
  "show_positive x =
     (case significant x of (m, e) \<Rightarrow>
        let ds = print_dec m
        in if - 4 \<le> e \<and> e < 6 then
             (if 0 \<le> e then with_point (take (nat e + 1) ds) (drop (nat e + 1) ds)
              else with_point ''0'' (replicate (nat (- e) - 1) CHR ''0'' @ ds))
           else with_point (take 1 ds) (drop 1 ds) @ exponent_text e)"

text \<open>\<open>To::String(float)\<close>; \<open>None\<close> is no number. \<open>To::String(int)\<close>.\<close>

definition To_String_float :: "float_val option \<Rightarrow> string" where
  "To_String_float v =
     (case v of
        None \<Rightarrow> ''nan''
      | Some x \<Rightarrow> if x = 0 then ''0'' else if x < 0 then ''-'' @ show_positive (- x) else show_positive x)"

definition To_String_int :: "int \<Rightarrow> string" where
  "To_String_int i = (if i < 0 then ''-'' @ print_dec (nat (- i)) else print_dec (nat i))"

section \<open>\<open>Console\<close>\<close>

text \<open>
  The text is given to \<open>printf\<close> as its format: what it prints, \<open>None\<close> when a conversion asks for an
  argument that is not there.
\<close>

fun writeWithLock :: "string \<Rightarrow> string option" where
  "writeWithLock [] = Some []"
| "writeWithLock (c # s) =
     (if c \<noteq> CHR ''%'' then map_option (Cons c) (writeWithLock s)
      else case s of
        [] \<Rightarrow> None
      | d # s \<Rightarrow> if d = CHR ''%'' then map_option (Cons d) (writeWithLock s) else None)"

fun writeLines :: "string list \<Rightarrow> string option" where
  "writeLines [] = Some []"
| "writeLines (s # ss) =
     (case writeWithLock s of
        None \<Rightarrow> None
      | Some out \<Rightarrow> map_option (\<lambda>rest. out @ [LF, CR] @ rest) (writeLines ss))"

section \<open>\<open>NetworkConnection\<close>\<close>

text \<open>\<open>answer\<close> is what \<open>connect\<close> of the interface returns, 0 for success.\<close>

definition connect :: "int \<Rightarrow> bool \<Rightarrow> bool" where
  "connect answer conn = (if \<not> conn \<and> answer = 0 then True else conn)"

definition NetworkConnection :: "int \<Rightarrow> bool" where
  "NetworkConnection answer = connect answer False"

definition getIpAddress :: "string \<Rightarrow> bool \<Rightarrow> string" where
  "getIpAddress ip conn = (if \<not> conn then ''0.0.0.0'' else ip)"

section \<open>The main loop\<close>

text \<open>\<open>Container::mbedVersion\<close>\<close>

definition mbedVersion :: "int \<Rightarrow> int \<Rightarrow> int \<Rightarrow> string" where
  "mbedVersion major minor patch =
     To_String_int major @ ''.'' @ To_String_int minor @ ''.'' @ To_String_int patch"

text \<open>The four sensors, and whether the network is connected.\<close>

record app =
  a_sound :: "u32 averaged"
  a_temp :: "float_val averaged"
  a_light :: "float_val averaged"
  a_dht :: "dht_sums averaged"
  a_connected :: bool

text \<open>
  What the outside does in an iteration: the address of the interface, the stack the URL is parsed on,
  the answer of \<open>Socket::connect\<close>, those of \<open>Socket::send\<close>, those of \<open>Socket::recv\<close>, and \<open>malloc\<close>.
\<close>

record world =
  w_ip :: string
  w_stack :: http_parser_url
  w_connect :: int
  w_send :: "int list"
  w_recv :: "recv list"
  w_heap :: "nat \<Rightarrow> bool"

definition MY_HTTP_HOST :: string where
  "MY_HTTP_HOST = ''http://mart496g.sde.local/api/entry''"

definition MY_AUTH_HEADER :: string where
  "MY_AUTH_HEADER = ''bearer 0123456789''"

text \<open>The JSON object, from the seven texts in order.\<close>

definition member :: "string \<Rightarrow> string \<Rightarrow> string" where
  "member k v = ''\"'' @ k @ ''\":\"'' @ v @ ''\"''"

definition payload :: "string \<Rightarrow> string \<Rightarrow> string \<Rightarrow> string \<Rightarrow> string \<Rightarrow> string \<Rightarrow> string \<Rightarrow> string" where
  "payload so te li hu ce fa ke =
     ''{'' @ member ''Sound'' so @ '','' @ member ''Temp'' te @ '','' @ member ''Light'' li @ '','' @
     member ''Humidity'' hu @ '','' @ member ''Celsius'' ce @ '','' @ member ''Fahrenheit'' fa @ '','' @
     member ''Kelvin'' ke @ ''}''"

text \<open>
  The readings: the payload and the state after the resets; \<open>None\<close> is the integer division by zero of
  the sound sensor.
\<close>

definition take_readings :: "(rat \<Rightarrow> float_val) \<Rightarrow> app \<Rightarrow> (string \<times> app) option" where
  "take_readings fl a =
     (let (so, sound) = read_output (sound_output fl) 0 (a_sound a);
          (te, temp) = read_output (analog_output fl) 0 (a_temp a);
          (li, light) = read_output (analog_output fl) 0 (a_light a);
          (d, dht) = read_output (dht_output fl) (total DhtThread) (a_dht a)
      in if so = None then None
         else Some (payload (To_String_float so) (To_String_float te) (To_String_float li)
                (To_String_float (map_option humidity d)) (To_String_float (map_option celsius d))
                (To_String_float (map_option fahrenheit d)) (To_String_float (map_option kelvin d)),
              a\<lparr>a_sound := sound, a_temp := temp, a_light := light, a_dht := dht\<rparr>))"

text \<open>The request of \<open>main\<close> and its exchange.\<close>

definition post :: "world \<Rightarrow> string \<Rightarrow> sent" where
  "post w body =
     (case HttpRequest (w_stack w) HTTP_POST MY_HTTP_HOST of
        None \<Rightarrow> Sent_fault
      | Some r \<Rightarrow>
          let r = request_set_header ''Content-Type'' ''application/json'' r;
              r = request_set_header ''Authorization'' MY_AUTH_HEADER r
          in send (w_heap w) (w_connect w) (w_recv w) body r
               \<lparr>cn_answers = w_send w, cn_wire = [], cn_log = None\<rparr>)"

text \<open>The lines that report the status of the response.\<close>

definition report :: "int \<Rightarrow> string \<Rightarrow> string list" where
  "report status body =
     (if status \<noteq> 200 \<and> status \<noteq> 204 then
        [''HTTP request failed.'',
         if status < 100 \<or> status > 599 then ''Could not connect to remote server: '' @ MY_HTTP_HOST
         else ''Return Code: '' @ To_String_int status]
      else
        [''HTTP request was successful and returned code: '' @ To_String_int status,
         ''Payload: '' @ body])"

text \<open>
  How an iteration ends: with \<open>continue\<close> or at its end, with \<open>break\<close>, not yet, with the null pointer
  that \<open>send\<close> returns on an error, which is dereferenced, or in another undefined behaviour.
\<close>

datatype iteration = Continued | Stopped | Blocked | Null_response int | Undefined

definition exchange_end :: "world \<Rightarrow> string \<Rightarrow> iteration \<times> string list" where
  "exchange_end w body =
     (case post w body of
        Sent_response c wire \<Rightarrow>
          if r_fault (c_response c) then (Undefined, [])
          else (Continued, report (r_status_code (c_response c)) body)
      | Sent_null e wire \<Rightarrow> (Null_response e, [])
      | Sent_waiting wire \<Rightarrow> (Blocked, [])
      | Sent_fault \<Rightarrow> (Undefined, []))"

definition main_iteration :: "(rat \<Rightarrow> float_val) \<Rightarrow> world \<Rightarrow> app \<Rightarrow> iteration \<times> string list \<times> app" where
  "main_iteration fl w a =
     (let rule = ''-----------------------''
      in if reads (a_sound a) = 0 \<or> reads (a_temp a) = 0 \<or> reads (a_light a) = 0 then
           (Continued, [rule, ''Skipping due to missing analog data.''], a)
         else if reads (a_dht a) = 0 then
           (Continued, [rule, ''Skipping due to missing digital data.''], a)
         else if \<not> a_connected a then
           (Stopped,
            [rule, ''Failed to connect to network, connect Ethernet cable and Restart to try again.''], a)
         else
           let ip = ''Connected to network with IP: '' @ getIpAddress (w_ip w) (a_connected a)
           in case take_readings fl a of
                None \<Rightarrow> (Undefined, [rule, ip], a)
              | Some (body, a) \<Rightarrow>
                  (case exchange_end w body of (end, out) \<Rightarrow> (end, [rule, ip] @ out, a)))"

end
