(* ===== verification/AppTheorems.thy ===== *)
theory AppTheorems
  imports App HttpRequestTheorems
begin

text \<open>
  What the application does: numbers as text, the payload, the request, and how an iteration of the
  main loop ends.
\<close>

section \<open>Numbers as text\<close>

lemma char_of_digits [simp]:
  "char_of (48 :: nat) = CHR ''0''" "char_of (49 :: nat) = CHR ''1''" "char_of (50 :: nat) = CHR ''2''"
  "char_of (51 :: nat) = CHR ''3''" "char_of (52 :: nat) = CHR ''4''" "char_of (53 :: nat) = CHR ''5''"
  "char_of (54 :: nat) = CHR ''6''" "char_of (55 :: nat) = CHR ''7''" "char_of (56 :: nat) = CHR ''8''" "char_of (57 :: nat) = CHR ''9''"
  by code_simp+

lemma print_dec_less: "n < 10 \<Longrightarrow> print_dec n = [char_of (48 + n)]"
  by (subst print_dec.simps) simp

lemma print_dec_more: "10 \<le> n \<Longrightarrow> print_dec n = print_dec (n div 10) @ [char_of (48 + n mod 10)]"
  by (subst print_dec.simps) simp

lemma print_dec_nonempty [simp]: "print_dec n \<noteq> []"
  using print_dec_correct [of n] by simp

lemma print_dec_shift: "0 < n \<Longrightarrow> print_dec (n * 10 ^ k) = print_dec n @ replicate k CHR ''0''"
proof (induction k)
  case (Suc k)
  have "10 \<le> n * 10 ^ Suc k" using Suc.prems by simp
  then have "print_dec (n * 10 ^ Suc k) = print_dec (n * 10 ^ k) @ [CHR ''0'']"
    by (subst print_dec_more) simp_all
  then show ?case using Suc by (simp flip: replicate_append_same)
qed simp

lemma print_dec_bounds: "0 < n \<Longrightarrow> 10 ^ (length (print_dec n) - 1) \<le> n \<and> n < 10 ^ length (print_dec n)"
proof (induction n rule: print_dec.induct)
  case (1 n)
  show ?case
  proof (cases "n < 10")
    case True
    then show ?thesis using 1 by (simp add: print_dec_less)
  next
    case False
    then have q: "0 < n div 10" by simp
    have len: "length (print_dec n) = Suc (length (print_dec (n div 10)))"
      using False by (simp add: print_dec_more)
    obtain l where l: "length (print_dec (n div 10)) = Suc l"
      by (cases "print_dec (n div 10)") auto
    have "10 ^ l \<le> n div 10" "n div 10 < 10 ^ Suc l"
      using 1 False q l by simp_all
    then have "10 * 10 ^ l \<le> n" "n < 10 * 10 ^ Suc l" by linarith+
    then show ?thesis unfolding len l by simp
  qed
qed

lemma quotient_of_nat [simp]: "quotient_of (of_nat n) = (int n, 1)"
  using quotient_of_int [of "int n"] by simp

lemma round_half_even_int [simp]: "round_half_even (of_int i) = i"
  by (simp add: round_half_even_def Let_def)

lemma round_half_even_nat [simp]: "round_half_even (of_nat n) = int n"
  using round_half_even_int [of "int n"] by simp

lemma significant_nat:
  assumes "0 < n" "n < 10 ^ 6"
  shows "significant (of_nat n) =
     (n * 10 ^ (6 - length (print_dec n)), int (length (print_dec n)) - 1)"
proof -
  let ?l = "length (print_dec n)"
  have l: "1 \<le> ?l" "?l \<le> 6" using print_dec_length [of n 5] assms(2) by (simp_all add: Suc_le_eq)
  have e: "decimal_exponent (of_nat n) = int ?l - 1"
    using assms by (simp add: decimal_exponent_def)
  have "scale_10 (of_nat n) (5 - (int ?l - 1)) = of_nat (n * 10 ^ (6 - ?l))"
    using l by (simp add: scale_10_def nat_diff_distrib')
  then have m: "nat (round_half_even (scale_10 (of_nat n) (5 - decimal_exponent (of_nat n)))) = n * 10 ^ (6 - ?l)"
    unfolding e by (simp only: round_half_even_nat nat_int)
  have "n * 10 ^ (6 - ?l) < 10 ^ ?l * 10 ^ (6 - ?l)"
    using print_dec_bounds [OF assms(1)] by simp
  also have "\<dots> = 10 ^ 6" using l by (simp flip: power_add)
  finally show ?thesis
    unfolding significant_def Let_def m unfolding e by simp
qed

lemma dropWhile_zeros [simp]: "dropWhile (\<lambda>c. c = x) (replicate k x) = []"
  by (induction k) simp_all

lemma To_String_whole:
  assumes "\<bar>i\<bar> < 10 ^ 6"
  shows "To_String_float (Some (of_int i)) = To_String_int i"
proof -
  have pos: "show_positive (of_nat n) = print_dec n" if "0 < n" "n < 10 ^ 6" for n
  proof -
    let ?l = "length (print_dec n)"
    have l: "1 \<le> ?l" "?l \<le> 6" using print_dec_length [of n 5] that(2) by (simp_all add: Suc_le_eq)
    then have "nat (int ?l - 1) + 1 = ?l" by simp
    then show ?thesis
      using l that by (simp add: show_positive_def significant_nat print_dec_shift with_point_def Let_def)
  qed
  show ?thesis
  proof (cases i rule: linorder_cases [of _ 0])
    case less
    then have "0 < nat (- i)" "nat (- i) < 10 ^ 6" using assms by simp_all
    then show ?thesis using less pos [of "nat (- i)"] by (simp add: To_String_float_def To_String_int_def)
  next
    case equal
    then show ?thesis by (simp add: To_String_float_def To_String_int_def print_dec_less)
  next
    case greater
    then have "0 < nat i" "nat i < 10 ^ 6" using assms by simp_all
    then show ?thesis using greater pos [of "nat i"] by (simp add: To_String_float_def To_String_int_def)
  qed
qed

text \<open>
  A float that holds a whole number of at most six digits, such as a temperature of the DHT22 or
  its average over equal samples, is printed exactly, as the decimal digits of that number with its
  sign and neither a point nor an exponent.
\<close>

theorem To_String_float_whole:
  assumes "\<bar>i\<bar> < 10 ^ 6"
  shows "To_String_float (Some (of_int i)) = To_String_int i"
  by (rule To_String_whole [OF assms])

lemma To_String_float_whole_witness: "To_String_float (Some (of_int (- 12))) = To_String_int (- 12)"
  by (rule To_String_float_whole) simp

text \<open>A number as text has digits, signs, a point and letters only.\<close>

definition number_char :: "char \<Rightarrow> bool" where
  "number_char c \<longleftrightarrow> c \<in> set ''0123456789.+-enainf''"

lemma is_digit_number_char: "is_digit c \<Longrightarrow> number_char c"
proof -
  have all: "\<forall>d \<in> set [48..<58::nat]. number_char (char_of d)" by code_simp
  assume "is_digit c"
  then have "(of_char c :: nat) \<in> {48..<58}" by (simp add: is_digit_def c_ord_def)
  then have "(of_char c :: nat) \<in> set [48..<58]" by (simp only: set_upt)
  from bspec [OF all this] show ?thesis by simp
qed

lemma print_dec_chars: "list_all number_char (print_dec n)"
  using print_dec_correct [of n] by (auto simp: list_all_iff is_digit_number_char)

lemma number_chars [simp]:
  "number_char CHR ''0''" "number_char CHR ''.''" "number_char CHR ''-''" "number_char CHR ''+''"
  "number_char CHR ''e''" "number_char CHR ''n''" "number_char CHR ''a''"
  by (simp_all add: number_char_def)

lemma with_point_chars:
  assumes "list_all number_char i" "list_all number_char f"
  shows "list_all number_char (with_point i f)"
proof -
  have "set (dropWhile (\<lambda>c. c = CHR ''0'') (rev f)) \<subseteq> set f"
    using set_dropWhileD [of _ "\<lambda>c. c = CHR ''0''" "rev f"] by auto
  then show ?thesis
    using assms by (auto simp: with_point_def Let_def list_all_iff)
qed


lemma show_positive_chars: "list_all number_char (show_positive x)"
proof -
  obtain m e where m: "significant x = (m, e)" by (rule prod.exhaust)
  have part: "list_all number_char (take k (print_dec n))" "list_all number_char (drop k (print_dec n))" for k n
    using print_dec_chars [of n] by (auto simp: list_all_iff dest: in_set_takeD in_set_dropD)
  have "list_all number_char (exponent_text e)"
    by (simp add: exponent_text_def Let_def print_dec_chars)
  moreover have "list_all number_char (replicate k CHR ''0'' @ print_dec n)" for k n
    using print_dec_chars [of n] by (auto simp: list_all_iff)
  ultimately show ?thesis
    using part by (simp add: show_positive_def m Let_def with_point_chars)
qed

lemma To_String_float_chars: "list_all number_char (To_String_float v)"
  by (simp add: To_String_float_def show_positive_chars split: option.split)

section \<open>The payload\<close>

text \<open>A reader of flat JSON objects whose members are strings without escapes.\<close>

definition read_string :: "string \<Rightarrow> (string \<times> string) option" where
  "read_string s =
     (if s = [] \<or> hd s \<noteq> CHR ''\"'' then None
      else let r = dropWhile (\<lambda>c. c \<noteq> CHR ''\"'') (tl s)
           in if r = [] then None else Some (takeWhile (\<lambda>c. c \<noteq> CHR ''\"'') (tl s), tl r))"

fun read_members :: "nat \<Rightarrow> string \<Rightarrow> (string \<times> string) list option" where
  "read_members 0 s = None"
| "read_members (Suc n) s =
     (case read_string s of
        None \<Rightarrow> None
      | Some (k, s) \<Rightarrow>
          if take 1 s \<noteq> '':'' then None
          else (case read_string (drop 1 s) of
              None \<Rightarrow> None
            | Some (v, s) \<Rightarrow>
                if s = ''}'' then Some [(k, v)]
                else if take 1 s = '','' then map_option (Cons (k, v)) (read_members n (drop 1 s))
                else None))"

definition read_object :: "string \<Rightarrow> (string \<times> string) list option" where
  "read_object s = (if take 1 s = ''{'' then read_members (length s) (drop 1 s) else None)"

lemma read_string_quoted [simp]:
  assumes "CHR ''\"'' \<notin> set t"
  shows "read_string (CHR ''\"'' # t @ CHR ''\"'' # r) = Some (t, r)"
proof -
  have "\<forall>c \<in> set t. c \<noteq> CHR ''\"''" using assms by auto
  then show ?thesis by (simp add: read_string_def Let_def)
qed

lemma read_members_member:
  assumes "CHR ''\"'' \<notin> set k" "CHR ''\"'' \<notin> set v"
  shows "read_members (Suc n) (member k v @ ''}'') = Some [(k, v)]"
    and "read_members (Suc n) (member k v @ CHR '','' # r) = map_option (Cons (k, v)) (read_members n r)"
  using assms by (simp_all add: member_def)

lemma payload_read:
  assumes "\<forall>v \<in> {so, te, li, hu, ce, fa, ke}. CHR ''\"'' \<notin> set v"
  shows "read_object (payload so te li hu ce fa ke) =
     Some [(''Sound'', so), (''Temp'', te), (''Light'', li), (''Humidity'', hu), (''Celsius'', ce),
           (''Fahrenheit'', fa), (''Kelvin'', ke)]"
proof -
  have "7 \<le> length (payload so te li hu ce fa ke)" by (simp add: payload_def member_def)
  then obtain n where "length (payload so te li hu ce fa ke) = 7 + n"
    using le_Suc_ex by blast
  then have n: "length (payload so te li hu ce fa ke) = Suc (Suc (Suc (Suc (Suc (Suc (Suc n))))))"
    by simp
  show ?thesis
    using assms unfolding read_object_def n
    by (simp add: payload_def read_members_member del: read_members.simps)
qed

lemma no_quote: "list_all number_char s \<Longrightarrow> CHR ''\"'' \<notin> set s"
proof -
  have "\<not> number_char CHR ''\"''" by (simp add: number_char_def)
  then show "list_all number_char s \<Longrightarrow> CHR ''\"'' \<notin> set s" by (auto simp: list_all_iff)
qed

text \<open>
  C9: An iteration that has data reports every reading once: the payload is a JSON object from which
  a reader gets back the seven names with the printed averages, and all four sensors start over.
\<close>

theorem readings_reported:
  fixes fl :: "rat \<Rightarrow> float_val"
  assumes "reads (a_sound a) \<noteq> 0"
  defines "d \<equiv> dht_output fl (total (a_dht a)) (reads (a_dht a))"
  shows "\<exists>body a'. take_readings fl a = Some (body, a') \<and>
     read_object body = Some
       [(''Sound'', To_String_float (sound_output fl (total (a_sound a)) (reads (a_sound a)))),
        (''Temp'', To_String_float (analog_output fl (total (a_temp a)) (reads (a_temp a)))),
        (''Light'', To_String_float (analog_output fl (total (a_light a)) (reads (a_light a)))),
        (''Humidity'', To_String_float (map_option humidity d)),
        (''Celsius'', To_String_float (map_option celsius d)),
        (''Fahrenheit'', To_String_float (map_option fahrenheit d)),
        (''Kelvin'', To_String_float (map_option kelvin d))] \<and>
     a_sound a' = SoundSensor\<lparr>holder := holder (a_sound a)\<rparr> \<and>
     a_temp a' = TempSensor\<lparr>holder := holder (a_temp a)\<rparr> \<and>
     a_light a' = LightSensor\<lparr>holder := holder (a_light a)\<rparr> \<and>
     a_dht a' = DhtThread\<lparr>holder := holder (a_dht a)\<rparr> \<and> a_connected a' = a_connected a"
proof -
  let ?v = "To_String_float" and ?so = "sound_output fl (total (a_sound a)) (reads (a_sound a))"
    and ?te = "analog_output fl (total (a_temp a)) (reads (a_temp a))"
    and ?li = "analog_output fl (total (a_light a)) (reads (a_light a))"
  let ?a = "a\<lparr>a_sound := SoundSensor\<lparr>holder := holder (a_sound a)\<rparr>,
      a_temp := TempSensor\<lparr>holder := holder (a_temp a)\<rparr>,
      a_light := LightSensor\<lparr>holder := holder (a_light a)\<rparr>,
      a_dht := DhtThread\<lparr>holder := holder (a_dht a)\<rparr>\<rparr>"
  let ?body = "payload (?v ?so) (?v ?te) (?v ?li) (?v (map_option humidity d)) (?v (map_option celsius d))
      (?v (map_option fahrenheit d)) (?v (map_option kelvin d))"
  have so: "?so \<noteq> None" using assms(1) by (simp add: sound_output_def)
  have over: "s\<lparr>total := z, reads := 0\<rparr> = (fresh z)\<lparr>holder := holder s\<rparr>" for s :: "'s averaged" and z
    by (simp add: fresh_def)
  have take: "take_readings fl a = Some (?body, ?a)"
    using so by (simp add: take_readings_def read_output_def over d_def SoundSensor_def TempSensor_def
        LightSensor_def DhtThread_def) (simp add: fresh_def)
  have quoted: "\<forall>v \<in> {?v so, ?v te, ?v li, ?v hu, ?v ce, ?v fa, ?v ke}. CHR ''\"'' \<notin> set v"
    for so te li hu ce fa ke
    using no_quote [OF To_String_float_chars] by blast
  show ?thesis
    by (intro exI [of _ ?body] exI [of _ ?a] conjI, rule take, rule payload_read [OF quoted]) simp_all
qed

lemma app_target:
  "ParsedUrl stack MY_HTTP_HOST =
    Some \<lparr>pu_port = 80, pu_schema = ''http'', pu_host = ''mart496g.sde.local'',
          pu_path = ''/api/entry'', pu_query = [], pu_userinfo = []\<rparr>"
  by (simp add: ParsedUrl_def url_value_def MY_HTTP_HOST_def url_eval)


section \<open>The request\<close>

definition app_url :: parsed_url where
  "app_url = \<lparr>pu_port = 80, pu_schema = ''http'', pu_host = ''mart496g.sde.local'',
     pu_path = ''/api/entry'', pu_query = [], pu_userinfo = []\<rparr>"

definition app_headers :: headers where
  "app_headers = [(''Authorization'', ''bearer 0123456789''), (''Content-Type'', ''application/json''),
     (''Host'', ''mart496g.sde.local'')]"

lemma app_headers_sent:
  "content_length_header HTTP_POST n app_headers =
     [(''Authorization'', ''bearer 0123456789''), (''Content-Length'', content_length_value n),
      (''Content-Type'', ''application/json''), (''Host'', ''mart496g.sde.local'')]"
proof -
  have "\<not> has_header ''Transfer-Encoding'' (Some ''chunked'') app_headers" by code_simp
  moreover have "''Authorization'' < ''Content-Length''" "''Content-Length'' < ''Content-Type''" by code_simp+
  ultimately show ?thesis by (simp add: content_length_header_def app_headers_def)
qed

definition request_text :: "string \<Rightarrow> string" where
  "request_text body =
     request_head HTTP_POST app_url (content_length_header HTTP_POST (of_nat (length body)) app_headers) @ body"

lemma app_host: "host_header app_url = ''mart496g.sde.local''"
  by code_simp

lemma post_unfold:
  "post w body =
     send (w_heap w) (w_connect w) (w_recv w) body
       \<lparr>hr_builder = \<lparr>rb_method = HTTP_POST, rb_url = app_url, rb_headers = app_headers\<rparr>,
        hr_has_response = False, hr_we_created_socket = True, hr_has_body_callback = False\<rparr>
       \<lparr>cn_answers = w_send w, cn_wire = [], cn_log = None\<rparr>"
  by (simp add: post_def HttpRequest_def app_target HttpRequestBuilder_def request_set_header_def
      app_host MY_AUTH_HEADER_def app_headers_def flip: app_url_def)

lemma request_text_length: "length (request_text body) \<le> 200 + length body"
proof -
  have "length (content_length_value (of_nat (length body))) \<le> 9" by (simp add: content_length_value_def)
  moreover have "method_strings ! 3 = ''POST''" by code_simp
  ultimately show ?thesis
    by (simp add: request_text_def request_head_def request_line_def header_line_def app_headers_sent app_url_def)
qed


text \<open>
  When a post cannot be made, \<open>send\<close> returns a null pointer and the main loop reads the status
  through it: an iteration that has data and a network dereferences null whenever the server cannot
  be reached, after the sound readings were taken out of their sensor.
\<close>

theorem unreachable_server:
  assumes "reads (a_sound a) \<noteq> 0" "reads (a_temp a) \<noteq> 0" "reads (a_light a) \<noteq> 0" "reads (a_dht a) \<noteq> 0"
    and "a_connected a" "w_connect w \<noteq> 0"
  shows "\<exists>out a'. main_iteration fl w a = (Null_response (w_connect w), out, a') \<and> reads (a_sound a') = 0"
  using assms
  by (auto simp: main_iteration_def exchange_end_def post_unfold send_def connect_socket_def Let_def
      take_readings_def read_output_def sound_output_def)

lemma app_not_chunked: "\<not> chunked_request \<lparr>rb_method = HTTP_POST, rb_url = app_url, rb_headers = app_headers\<rparr>"
  by code_simp

text \<open>The exchange of a request whose text fits its buffer.\<close>

lemma post_cases:
  assumes "\<And>n. w_heap w n" "length body < 2 ^ 31"
  shows "post w body =
     (if w_connect w \<noteq> 0 then Sent_null (w_connect w) []
      else (case send_buffer (request_text body) \<lparr>cn_answers = w_send w, cn_wire = [], cn_log = None\<rparr> of
        None \<Rightarrow> Sent_waiting []
      | Some (ret, cn) \<Rightarrow>
          if ret < 0 then Sent_null ret (cn_wire cn)
          else (case create_http_response (w_heap w) False (w_recv w) of
            Ex_response c \<Rightarrow> Sent_response c (cn_wire cn)
          | Ex_error e c \<Rightarrow> Sent_null e (cn_wire cn)
          | Ex_waiting c \<Rightarrow> Sent_waiting (cn_wire cn)
          | Ex_fault \<Rightarrow> Sent_fault)))"
proof -
  let ?b = "\<lparr>rb_method = HTTP_POST, rb_url = app_url, rb_headers = app_headers\<rparr>"
  have rt: "request_head (rb_method ?b) (rb_url ?b) (sent_headers body ?b) @ body = request_text body"
    by (simp add: request_text_def sent_headers_def)
  have "length (request_text body) + 1 < 2 ^ 32"
    using request_text_length [of body] assms(2) by simp
  then obtain n where "build (w_heap w) body ?b =
      (?b\<lparr>rb_headers := sent_headers body ?b\<rparr>, n, Some (request_text body @ [NUL]))"
    "unat n = length (request_text body)"
    using build_text [of "w_heap w" ?b body] assms(1) app_not_chunked unfolding rt by blast
  then show ?thesis
    by (simp add: post_unfold send_def connect_socket_def receive_reply_def reset_log_def split: option.split)
qed










text \<open>
  An iteration that has data posts it: when the socket takes the whole text at once, what goes
  over the wire is the request line, the four headers with the exact length of the payload, an empty
  line and the payload that was just read.
\<close>

theorem post_wire:
  assumes "\<And>n. w_heap w n" "length body < 10 ^ 9" "w_connect w = 0"
    and "w_send w = [int (length (request_text body))]"
    and "create_http_response (w_heap w) False (w_recv w) = Ex_response c"
  shows "post w body = Sent_response c
     (''POST /api/entry HTTP/1.1'' @ [CR, LF] @ ''Authorization: bearer 0123456789'' @ [CR, LF] @
      ''Content-Length: '' @ print_dec (length body) @ [CR, LF] @
      ''Content-Type: application/json'' @ [CR, LF] @ ''Host: mart496g.sde.local'' @ [CR, LF, CR, LF] @
      body)"
proof -
  have "length (print_dec (length body)) \<le> 9"
    using print_dec_length [of "length body" 8] assms(2) by simp
  then have "content_length_value (of_nat (length body)) = print_dec (length body)"
    using assms(2) by (simp add: content_length_value_def unat_of_nat_small)
  moreover have "method_strings ! 3 = ''POST''" by code_simp
  ultimately have rt: "request_text body =
     ''POST /api/entry HTTP/1.1'' @ [CR, LF] @ ''Authorization: bearer 0123456789'' @ [CR, LF] @
      ''Content-Length: '' @ print_dec (length body) @ [CR, LF] @
      ''Content-Type: application/json'' @ [CR, LF] @ ''Host: mart496g.sde.local'' @ [CR, LF, CR, LF] @
      body"
    by (simp add: request_text_def request_head_def request_line_def header_line_def app_headers_sent app_url_def)
  have "length (request_text body) \<noteq> 0" unfolding rt by simp
  then have "send_buffer (request_text body) \<lparr>cn_answers = w_send w, cn_wire = [], cn_log = None\<rparr> =
      Some (int (length (request_text body)), \<lparr>cn_answers = [], cn_wire = request_text body, cn_log = None\<rparr>)"
    by (simp add: send_buffer_def assms(4) log_slice_def)
  then show ?thesis
    using assms(2,3,5) unfolding rt [symmetric] by (simp add: post_cases assms(1))
qed

text \<open>A state with one read of each sensor and a server that answers, for the examples.\<close>

definition one_read :: app where
  "one_read = \<lparr>a_sound = \<lparr>total = 7, reads = 1, holder = None\<rparr>,
     a_temp = \<lparr>total = 1, reads = 1, holder = None\<rparr>, a_light = \<lparr>total = 0, reads = 1, holder = None\<rparr>,
     a_dht = \<lparr>total = \<lparr>humidity = 40, celsius = 21, fahrenheit = 70, kelvin = 294\<rparr>, reads = 1,
               holder = None\<rparr>, a_connected = True\<rparr>"

definition no_server :: world where
  "no_server = \<lparr>w_ip = ''10.0.0.2'', w_stack = http_parser_url_init, w_connect = - 3004, w_send = [],
     w_recv = [], w_heap = (\<lambda>_. True)\<rparr>"

definition small_server :: world where
  "small_server = no_server\<lparr>w_connect := 0, w_send := [int (length (request_text ''{}''))],
     w_recv := [Received (''HTTP/1.1 204 No Content'' @ [CR, LF, CR, LF])]\<rparr>"

lemma readings_reported_witness:
  "\<exists>body a'. take_readings id one_read = Some (body, a') \<and> reads (a_sound a') = 0"
proof -
  have "reads (a_sound one_read) \<noteq> 0" by (simp add: one_read_def)
  from readings_reported [OF this, of id] show ?thesis
    by (auto simp: SoundSensor_def fresh_def)
qed

lemma unreachable_server_witness:
  "\<exists>out a'. main_iteration id no_server one_read = (Null_response (- 3004), out, a') \<and> reads (a_sound a') = 0"
  using unreachable_server [of one_read no_server id] by (simp add: one_read_def no_server_def)


lemma post_wire_witness:
  "\<exists>c. post small_server ''{}'' = Sent_response c
     (''POST /api/entry HTTP/1.1'' @ [CR, LF] @ ''Authorization: bearer 0123456789'' @ [CR, LF] @
      ''Content-Length: '' @ print_dec (length ''{}'') @ [CR, LF] @
      ''Content-Type: application/json'' @ [CR, LF] @ ''Host: mart496g.sde.local'' @ [CR, LF, CR, LF] @
      ''{}'')"
proof -
  have "case create_http_response (\<lambda>_. True) False
      [Received (''HTTP/1.1 204 No Content'' @ [CR, LF, CR, LF])] of Ex_response c \<Rightarrow> True | _ \<Rightarrow> False"
    by code_simp
  then obtain c where "create_http_response (\<lambda>_. True) False
      [Received (''HTTP/1.1 204 No Content'' @ [CR, LF, CR, LF])] = Ex_response c"
    by (auto split: exchange.splits)
  then have "create_http_response (w_heap small_server) False (w_recv small_server) = Ex_response c"
    by (simp add: small_server_def no_server_def)
  moreover have "\<And>n. w_heap small_server n" "w_connect small_server = 0" "length ''{}'' < 10 ^ 9"
    "w_send small_server = [int (length (request_text ''{}''))]"
    by (simp_all add: small_server_def no_server_def)
  ultimately show ?thesis
    using post_wire [of small_server "''{}''" c] by blast
qed

end
