(* ===== verification/Equeue.thy ===== *)
theory Equeue
  imports Prelude "HOL-Library.Monad_Syntax"
begin

text \<open>
  The event queue of mbed OS, \<open>events/equeue/equeue.c\<close>. Events are records in a buffer; an address is
  an offset in it, and the store gives the record at each. A place that holds an event pointer, which
  the C code addresses by a pointer to a pointer, is a \<open>ptr\<close>. The mutexes make each operation one
  step. \<open>'f\<close> is the type of callbacks, each with the data that follows its event.
\<close>

section \<open>The data\<close>

type_synonym addr = nat

datatype ptr = P_queue | P_head | P_chunks | P_next addr | P_sibling addr

record 'f event =
  ev_size :: nat
  ev_id :: u8
  ev_generation :: u8
  ev_next :: "addr option"
  ev_sibling :: "addr option"
  ev_ref :: ptr
  ev_target :: u32
  ev_period :: int
  ev_dtor :: "'f option"
  ev_cb :: "'f option"

text \<open>
  The queue. \<open>q_head\<close> is the local variable \<open>head\<close> of \<open>equeue_dequeue\<close>, \<open>q_clock\<close> what \<open>equeue_tick()\<close>
  returns; \<open>q_updates\<close> lists the calls of the background timer, oldest first, \<open>q_signals\<close> counts those
  of \<open>equeue_sema_signal\<close>.
\<close>

record 'f equeue =
  q_queue :: "addr option"
  q_tick :: u32
  q_break :: bool
  q_generation :: u8
  q_npw2 :: nat
  q_chunks :: "addr option"
  q_slab_size :: nat
  q_slab_data :: addr
  q_background :: bool
  q_active :: bool
  q_updates :: "int list"
  q_signals :: nat
  q_head :: "addr option"
  q_clock :: u32
  q_store :: "addr \<Rightarrow> 'f event"

abbreviation at :: "'f equeue \<Rightarrow> addr \<Rightarrow> 'f event" where
  "at q a \<equiv> q_store q a"

definition upd_event :: "addr \<Rightarrow> ('f event \<Rightarrow> 'f event) \<Rightarrow> 'f equeue \<Rightarrow> 'f equeue" where
  "upd_event a f q = q\<lparr>q_store := (q_store q)(a := f (q_store q a))\<rparr>"

fun deref :: "ptr \<Rightarrow> 'f equeue \<Rightarrow> addr option" where
  "deref P_queue q = q_queue q"
| "deref P_head q = q_head q"
| "deref P_chunks q = q_chunks q"
| "deref (P_next a) q = ev_next (at q a)"
| "deref (P_sibling a) q = ev_sibling (at q a)"

fun assign :: "ptr \<Rightarrow> addr option \<Rightarrow> 'f equeue \<Rightarrow> 'f equeue" where
  "assign P_queue v q = q\<lparr>q_queue := v\<rparr>"
| "assign P_head v q = q\<lparr>q_head := v\<rparr>"
| "assign P_chunks v q = q\<lparr>q_chunks := v\<rparr>"
| "assign (P_next a) v q = upd_event a (\<lambda>e. e\<lparr>ev_next := v\<rparr>) q"
| "assign (P_sibling a) v q = upd_event a (\<lambda>e. e\<lparr>ev_sibling := v\<rparr>) q"

text \<open>\<open>if (e) e->ref = p\<close>\<close>

definition set_ref :: "addr option \<Rightarrow> ptr \<Rightarrow> 'f equeue \<Rightarrow> 'f equeue" where
  "set_ref v p q = (case v of None \<Rightarrow> q | Some a \<Rightarrow> upd_event a (\<lambda>e. e\<lparr>ev_ref := p\<rparr>) q)"

section \<open>Time and identifiers\<close>

definition equeue_tickdiff :: "u32 \<Rightarrow> u32 \<Rightarrow> 32 word" where
  "equeue_tickdiff a b = a - b"

definition equeue_clampdiff :: "u32 \<Rightarrow> u32 \<Rightarrow> 32 word" where
  "equeue_clampdiff a b =
     (let diff = equeue_tickdiff a b in NOT (signed_drop_bit 31 diff) AND diff)"

definition equeue_incid :: "addr \<Rightarrow> 'f equeue \<Rightarrow> 'f equeue" where
  "equeue_incid a q =
     (let q = upd_event a (\<lambda>e. e\<lparr>ev_id := ev_id e + 1\<rparr>) q
      in if push_bit (q_npw2 q) (ucast (ev_id (at q a)) :: 32 word) = 0
         then upd_event a (\<lambda>e. e\<lparr>ev_id := 1\<rparr>) q else q)"

section \<open>Creation\<close>

fun npw2 :: "nat \<Rightarrow> nat" where
  "npw2 s = (if s = 0 then 0 else npw2 (s div 2) + 1)"

declare npw2.simps [simp del]

text \<open>The store is what the buffer holds; the platform's resources are there.\<close>

definition equeue_create_inplace :: "nat \<Rightarrow> u32 \<Rightarrow> (addr \<Rightarrow> 'f event) \<Rightarrow> 'f equeue" where
  "equeue_create_inplace n clock buffer =
     \<lparr>q_queue = None, q_tick = clock, q_break = False, q_generation = 0, q_npw2 = npw2 n,
      q_chunks = None, q_slab_size = n, q_slab_data = 0, q_background = False, q_active = False,
      q_updates = [], q_signals = 0, q_head = None, q_clock = clock, q_store = buffer\<rparr>"

section \<open>Memory\<close>

text \<open>
  The sizes of the 32-bit target, 36 for \<open>struct equeue_event\<close> and 4 for \<open>void *\<close>; \<open>size_t\<close> wraps around.
\<close>

definition sizeof_event :: nat where "sizeof_event = 36"

definition chunk_size :: "nat \<Rightarrow> nat" where
  "chunk_size n = ((n + sizeof_event) mod 2 ^ 32 + 3) mod 2 ^ 32 div 4 * 4"

text \<open>The loop over the chunks: the place of the first one that fits, or the end.\<close>

partial_function (option) find_chunk :: "'f equeue \<Rightarrow> nat \<Rightarrow> ptr \<Rightarrow> ptr option" where
  "find_chunk q n p =
     (case deref p q of
        None \<Rightarrow> Some p
      | Some a \<Rightarrow> if n \<le> ev_size (at q a) then Some p else find_chunk q n (P_next a))"

definition take_chunk :: "ptr \<Rightarrow> addr \<Rightarrow> 'f equeue \<Rightarrow> 'f equeue" where
  "take_chunk p a q =
     (case ev_sibling (at q a) of
        Some s \<Rightarrow> let n = ev_next (at q a) in assign (P_next s) n (assign p (Some s) q)
      | None \<Rightarrow> assign p (ev_next (at q a)) q)"

definition equeue_mem_alloc :: "nat \<Rightarrow> 'f equeue \<Rightarrow> (addr option \<times> 'f equeue) option" where
  "equeue_mem_alloc n q =
     (let n = chunk_size n
      in do {
        p \<leftarrow> find_chunk q n P_chunks;
        (case deref p q of
           Some a \<Rightarrow> Some (Some a, take_chunk p a q)
         | None \<Rightarrow>
             if n \<le> q_slab_size q then
               let a = q_slab_data q;
                   q = q\<lparr>q_slab_data := a + n, q_slab_size := q_slab_size q - n\<rparr>
               in Some (Some a, upd_event a (\<lambda>e. e\<lparr>ev_size := n, ev_id := 1\<rparr>) q)
             else Some (None, q))
      })"

text \<open>The loop of \<open>equeue_mem_dealloc\<close> is the one of \<open>equeue_mem_alloc\<close>: the first chunk not smaller.\<close>

definition equeue_mem_dealloc :: "addr \<Rightarrow> 'f equeue \<Rightarrow> 'f equeue option" where
  "equeue_mem_dealloc a q =
     do {
       p \<leftarrow> find_chunk q (ev_size (at q a)) P_chunks;
       (let q = (case deref p q of
           Some b \<Rightarrow>
             if ev_size (at q b) = ev_size (at q a)
             then upd_event a (\<lambda>e. e\<lparr>ev_sibling := Some b, ev_next := ev_next (at q b)\<rparr>) q
             else upd_event a (\<lambda>e. e\<lparr>ev_sibling := None, ev_next := Some b\<rparr>) q
         | None \<Rightarrow> upd_event a (\<lambda>e. e\<lparr>ev_sibling := None, ev_next := None\<rparr>) q)
        in Some (assign p (Some a) q))
     }"

definition equeue_alloc :: "nat \<Rightarrow> 'f equeue \<Rightarrow> (addr option \<times> 'f equeue) option" where
  "equeue_alloc n q =
     do {
       (e, q) \<leftarrow> equeue_mem_alloc n q;
       (case e of
          None \<Rightarrow> Some (None, q)
        | Some a \<Rightarrow> Some (Some a, upd_event a (\<lambda>e. e\<lparr>ev_target := 0, ev_period := - 1, ev_dtor := None\<rparr>) q))
     }"

text \<open>
  A callback takes the address of its event; \<open>call\<close> gives its meaning, \<open>None\<close> when it does not return.
\<close>

definition run_dtor ::
    "('f \<Rightarrow> addr \<Rightarrow> 'f equeue \<Rightarrow> 'f equeue option) \<Rightarrow> addr \<Rightarrow> 'f equeue \<Rightarrow> 'f equeue option" where
  "run_dtor call a q = (case ev_dtor (at q a) of None \<Rightarrow> Some q | Some f \<Rightarrow> call f a q)"

definition equeue_dealloc ::
    "('f \<Rightarrow> addr \<Rightarrow> 'f equeue \<Rightarrow> 'f equeue option) \<Rightarrow> addr \<Rightarrow> 'f equeue \<Rightarrow> 'f equeue option" where
  "equeue_dealloc call a q =
     do {
       q \<leftarrow> run_dtor call a q;
       equeue_mem_dealloc a q
     }"

text \<open>The end of a queue: the destructors of what is waiting, slot by slot, the head of a slot last.\<close>

partial_function (option) destroy_siblings ::
    "('f \<Rightarrow> addr \<Rightarrow> 'f equeue \<Rightarrow> 'f equeue option) \<Rightarrow> addr option \<Rightarrow> 'f equeue \<Rightarrow> 'f equeue option" where
  "destroy_siblings call e q =
     (case e of
        None \<Rightarrow> Some q
      | Some a \<Rightarrow> do { q \<leftarrow> run_dtor call a q; destroy_siblings call (ev_sibling (at q a)) q })"

partial_function (option) destroy_slots ::
    "('f \<Rightarrow> addr \<Rightarrow> 'f equeue \<Rightarrow> 'f equeue option) \<Rightarrow> addr option \<Rightarrow> 'f equeue \<Rightarrow> 'f equeue option" where
  "destroy_slots call es q =
     (case es of
        None \<Rightarrow> Some q
      | Some a \<Rightarrow>
          do {
            q \<leftarrow> destroy_siblings call (ev_sibling (at q a)) q;
            q \<leftarrow> run_dtor call a q;
            destroy_slots call (ev_next (at q a)) q
          })"

definition equeue_destroy ::
    "('f \<Rightarrow> addr \<Rightarrow> 'f equeue \<Rightarrow> 'f equeue option) \<Rightarrow> 'f equeue \<Rightarrow> 'f equeue option" where
  "equeue_destroy call q =
     do {
       q \<leftarrow> destroy_slots call (q_queue q) q;
       Some (if q_background q then q\<lparr>q_updates := q_updates q @ [- 1]\<rparr> else q)
     }"

section \<open>Scheduling\<close>

text \<open>The slot for a time: the first that is not before it.\<close>

partial_function (option) find_slot :: "'f equeue \<Rightarrow> u32 \<Rightarrow> ptr \<Rightarrow> ptr option" where
  "find_slot q t p =
     (case deref p q of
        None \<Rightarrow> Some p
      | Some a \<Rightarrow> if sint (equeue_tickdiff (ev_target (at q a)) t) < 0 then find_slot q t (P_next a) else Some p)"

definition join_slot :: "addr \<Rightarrow> addr \<Rightarrow> 'f equeue \<Rightarrow> 'f equeue" where
  "join_slot a b q =
     (let n = ev_next (at q b);
          q = upd_event a (\<lambda>e. e\<lparr>ev_next := n\<rparr>) q;
          q = set_ref n (P_next a) q;
          q = upd_event a (\<lambda>e. e\<lparr>ev_sibling := Some b\<rparr>) q
      in upd_event b (\<lambda>e. e\<lparr>ev_next := None, ev_ref := P_sibling a\<rparr>) q)"

definition new_slot :: "addr \<Rightarrow> addr option \<Rightarrow> 'f equeue \<Rightarrow> 'f equeue" where
  "new_slot a n q =
     (let q = upd_event a (\<lambda>e. e\<lparr>ev_next := n\<rparr>) q;
          q = set_ref n (P_next a) q
      in upd_event a (\<lambda>e. e\<lparr>ev_sibling := None\<rparr>) q)"

definition link_event :: "addr \<Rightarrow> ptr \<Rightarrow> 'f equeue \<Rightarrow> 'f equeue" where
  "link_event a p q =
     (let q = (case deref p q of
          None \<Rightarrow> new_slot a None q
        | Some b \<Rightarrow> if ev_target (at q b) = ev_target (at q a) then join_slot a b q else new_slot a (Some b) q)
      in upd_event a (\<lambda>e. e\<lparr>ev_ref := p\<rparr>) (assign p (Some a) q))"

definition notify_timer :: "addr \<Rightarrow> u32 \<Rightarrow> 'f equeue \<Rightarrow> 'f equeue" where
  "notify_timer a tick q =
     (if q_background q \<and> q_active q \<and> q_queue q = Some a \<and> ev_sibling (at q a) = None
      then q\<lparr>q_updates := q_updates q @ [sint (equeue_clampdiff (ev_target (at q a)) tick)]\<rparr> else q)"

definition event_id :: "addr \<Rightarrow> 'f equeue \<Rightarrow> 32 word" where
  "event_id a q = push_bit (q_npw2 q) (ucast (ev_id (at q a))) OR of_nat a"

definition equeue_enqueue :: "addr \<Rightarrow> u32 \<Rightarrow> 'f equeue \<Rightarrow> (32 word \<times> 'f equeue) option" where
  "equeue_enqueue a tick q =
     (let id = event_id a q;
          t = tick + equeue_clampdiff (ev_target (at q a)) tick;
          q = upd_event a (\<lambda>e. e\<lparr>ev_target := t, ev_generation := q_generation q\<rparr>) q
      in do {
        p \<leftarrow> find_slot q t P_queue;
        Some (id, notify_timer a tick (link_event a p q))
      })"

text \<open>Taking an event out of the queue, from wherever \<open>ref\<close> says it hangs.\<close>

definition unlink_event :: "addr \<Rightarrow> 'f equeue \<Rightarrow> 'f equeue" where
  "unlink_event a q =
     (let n = ev_next (at q a); r = ev_ref (at q a)
      in case ev_sibling (at q a) of
        Some s \<Rightarrow>
          let q = upd_event s (\<lambda>e. e\<lparr>ev_next := n\<rparr>) q;
              q = set_ref n (P_next s) q;
              q = assign r (Some s) q
          in upd_event s (\<lambda>e. e\<lparr>ev_ref := r\<rparr>) q
      | None \<Rightarrow> set_ref n r (assign r n q))"

definition equeue_unqueue :: "32 word \<Rightarrow> 'f equeue \<Rightarrow> addr option \<times> 'f equeue" where
  "equeue_unqueue i q =
     (let a = unat (i AND mask (q_npw2 q))
      in if ucast (ev_id (at q a)) \<noteq> signed_drop_bit (q_npw2 q) i then (None, q)
         else
           let q = upd_event a (\<lambda>e. e\<lparr>ev_cb := None, ev_period := - 1\<rparr>) q;
               diff = sint (equeue_tickdiff (ev_target (at q a)) (q_tick q))
           in if diff < 0 \<or> diff = 0 \<and> ev_generation (at q a) \<noteq> q_generation q then (None, q)
              else (Some a, equeue_incid a (unlink_event a q)))"

text \<open>The first slot that has not expired, and the reversal of one slot.\<close>

partial_function (option) find_unexpired :: "'f equeue \<Rightarrow> u32 \<Rightarrow> ptr \<Rightarrow> ptr option" where
  "find_unexpired q t p =
     (case deref p q of
        None \<Rightarrow> Some p
      | Some a \<Rightarrow>
          if sint (equeue_tickdiff (ev_target (at q a)) t) \<le> 0 then find_unexpired q t (P_next a) else Some p)"

partial_function (option) reverse_slot ::
    "addr option \<Rightarrow> addr option \<Rightarrow> 'f equeue \<Rightarrow> (addr option \<times> 'f equeue) option" where
  "reverse_slot prev e q =
     (case e of
        None \<Rightarrow> Some (prev, q)
      | Some a \<Rightarrow>
          let q = upd_event a (\<lambda>e. e\<lparr>ev_next := prev\<rparr>) q
          in reverse_slot (Some a) (ev_sibling (at q a)) q)"

partial_function (option) flatten :: "ptr \<Rightarrow> addr option \<Rightarrow> 'f equeue \<Rightarrow> 'f equeue option" where
  "flatten tail ess q =
     (case ess of
        None \<Rightarrow> Some q
      | Some es \<Rightarrow>
          let rest = ev_next (at q es)
          in do {
            (prev, q) \<leftarrow> reverse_slot None (Some es) q;
            flatten (P_next es) rest (assign tail prev q)
          })"

text \<open>The slots from the place \<open>p\<close> on stay in the queue, those before it are left at \<open>head\<close>.\<close>

definition cut_queue :: "ptr \<Rightarrow> 'f equeue \<Rightarrow> 'f equeue" where
  "cut_queue p q =
     (let q = q\<lparr>q_queue := deref p q\<rparr>;
          q = set_ref (q_queue q) P_queue q
      in assign p None q)"

definition equeue_dequeue :: "u32 \<Rightarrow> 'f equeue \<Rightarrow> (addr option \<times> 'f equeue) option" where
  "equeue_dequeue t q =
     (let q = q\<lparr>q_generation := q_generation q + 1\<rparr>;
          q = (if sint (equeue_tickdiff (q_tick q) t) \<le> 0 then q\<lparr>q_tick := t\<rparr> else q);
          q = q\<lparr>q_head := q_queue q\<rparr>
      in do {
        p \<leftarrow> find_unexpired q t P_head;
        let q = cut_queue p q;
        q \<leftarrow> flatten P_head (q_head q) q;
        Some (q_head q, q)
      })"

definition equeue_post :: "'f \<Rightarrow> addr \<Rightarrow> 'f equeue \<Rightarrow> (32 word \<times> 'f equeue) option" where
  "equeue_post cb a q =
     (let tick = q_clock q;
          q = upd_event a (\<lambda>e. e\<lparr>ev_cb := Some cb, ev_target := tick + ev_target e\<rparr>) q
      in map_option (\<lambda>(id, q). (id, q\<lparr>q_signals := q_signals q + 1\<rparr>)) (equeue_enqueue a tick q))"

definition equeue_cancel ::
    "('f \<Rightarrow> addr \<Rightarrow> 'f equeue \<Rightarrow> 'f equeue option) \<Rightarrow> 32 word \<Rightarrow> 'f equeue \<Rightarrow> 'f equeue option" where
  "equeue_cancel call i q =
     (if i = 0 then Some q
      else case equeue_unqueue i q of
        (None, q) \<Rightarrow> Some q
      | (Some a, q) \<Rightarrow> equeue_dealloc call a q)"

definition equeue_timeleft :: "32 word \<Rightarrow> 'f equeue \<Rightarrow> int" where
  "equeue_timeleft i q =
     (if i = 0 then - 1
      else let a = unat (i AND mask (q_npw2 q))
           in if ucast (ev_id (at q a)) = signed_drop_bit (q_npw2 q) i
              then sint (equeue_clampdiff (ev_target (at q a)) (q_clock q)) else - 1)"

definition equeue_break :: "'f equeue \<Rightarrow> 'f equeue" where
  "equeue_break q = q\<lparr>q_break := True, q_signals := q_signals q + 1\<rparr>"

section \<open>Dispatching\<close>

text \<open>The callbacks of the events \<open>equeue_dequeue\<close> returned, along \<open>next\<close>.\<close>

partial_function (option) dispatch_events ::
    "('f \<Rightarrow> addr \<Rightarrow> 'f equeue \<Rightarrow> 'f equeue option) \<Rightarrow> addr option \<Rightarrow> 'f equeue \<Rightarrow> 'f equeue option" where
  "dispatch_events call es q =
     (case es of
        None \<Rightarrow> Some q
      | Some a \<Rightarrow>
          let es = ev_next (at q a)
          in do {
            q \<leftarrow> (case ev_cb (at q a) of None \<Rightarrow> Some q | Some f \<Rightarrow> call f a q);
            q \<leftarrow> (if 0 \<le> ev_period (at q a)
                 then map_option snd (equeue_enqueue a (q_clock q)
                        (upd_event a (\<lambda>e. e\<lparr>ev_target := ev_target e + of_int (ev_period e)\<rparr>) q))
                 else equeue_dealloc call a (equeue_incid a q));
            dispatch_events call es q
          })"

text \<open>The end of a dispatch whose time is over.\<close>

definition time_over :: "u32 \<Rightarrow> 'f equeue \<Rightarrow> 'f equeue" where
  "time_over tick q =
     (let q = (if q_background q then
                 (case q_queue q of
                    None \<Rightarrow> q
                  | Some a \<Rightarrow> q\<lparr>q_updates := q_updates q @ [sint (equeue_clampdiff (ev_target (at q a)) tick)]\<rparr>)
                 \<lparr>q_active := True\<rparr>
               else q)
      in q\<lparr>q_break := False\<rparr>)"

definition next_deadline :: "u32 \<Rightarrow> 32 word \<Rightarrow> 'f equeue \<Rightarrow> 32 word" where
  "next_deadline tick deadline q =
     (case q_queue q of
        None \<Rightarrow> deadline
      | Some a \<Rightarrow>
          let diff = equeue_clampdiff (ev_target (at q a)) tick in if diff < deadline then diff else deadline)"

text \<open>\<open>wait\<close> is \<open>equeue_sema_wait\<close>: it lets time pass and other threads use the queue.\<close>

partial_function (option) dispatch_loop ::
    "('f \<Rightarrow> addr \<Rightarrow> 'f equeue \<Rightarrow> 'f equeue option) \<Rightarrow> (32 word \<Rightarrow> 'f equeue \<Rightarrow> 'f equeue option) \<Rightarrow>
     int \<Rightarrow> u32 \<Rightarrow> u32 \<Rightarrow> 'f equeue \<Rightarrow> 'f equeue option" where
  "dispatch_loop call wait ms timeout tick q =
     do {
       (es, q) \<leftarrow> equeue_dequeue tick q;
       q \<leftarrow> dispatch_events call es q;
       let tick = q_clock q;
       let deadline = (if 0 \<le> ms then equeue_tickdiff timeout tick else - 1);
       (if 0 \<le> ms \<and> sint deadline \<le> 0 then Some (time_over tick q)
        else do {
          q \<leftarrow> wait (next_deadline tick deadline q) q;
          (if q_break q then Some (q\<lparr>q_break := False\<rparr>)
           else dispatch_loop call wait ms timeout (q_clock q) q)
        })
     }"

definition equeue_dispatch ::
    "('f \<Rightarrow> addr \<Rightarrow> 'f equeue \<Rightarrow> 'f equeue option) \<Rightarrow> (32 word \<Rightarrow> 'f equeue \<Rightarrow> 'f equeue option) \<Rightarrow>
     int \<Rightarrow> 'f equeue \<Rightarrow> 'f equeue option" where
  "equeue_dispatch call wait ms q =
     dispatch_loop call wait ms (q_clock q + of_int ms) (q_clock q) (q\<lparr>q_active := False\<rparr>)"

section \<open>Events and calls\<close>

definition equeue_event_delay :: "addr \<Rightarrow> int \<Rightarrow> 'f equeue \<Rightarrow> 'f equeue" where
  "equeue_event_delay a ms = upd_event a (\<lambda>e. e\<lparr>ev_target := of_int ms\<rparr>)"

definition equeue_event_period :: "addr \<Rightarrow> int \<Rightarrow> 'f equeue \<Rightarrow> 'f equeue" where
  "equeue_event_period a ms = upd_event a (\<lambda>e. e\<lparr>ev_period := ms\<rparr>)"

definition equeue_event_dtor :: "addr \<Rightarrow> 'f option \<Rightarrow> 'f equeue \<Rightarrow> 'f equeue" where
  "equeue_event_dtor a f = upd_event a (\<lambda>e. e\<lparr>ev_dtor := f\<rparr>)"

text \<open>The three calls: an event for a callback and its data, 8 bytes, set up and posted.\<close>

definition call_with ::
    "(addr \<Rightarrow> 'f equeue \<Rightarrow> 'f equeue) \<Rightarrow> 'f \<Rightarrow> 'f equeue \<Rightarrow> (32 word \<times> 'f equeue) option" where
  "call_with setup cb q =
     do {
       (e, q) \<leftarrow> equeue_alloc 8 q;
       (case e of None \<Rightarrow> Some (0, q) | Some a \<Rightarrow> equeue_post cb a (setup a q))
     }"

definition equeue_call :: "'f \<Rightarrow> 'f equeue \<Rightarrow> (32 word \<times> 'f equeue) option" where
  "equeue_call = call_with (\<lambda>a q. q)"

definition equeue_call_in :: "int \<Rightarrow> 'f \<Rightarrow> 'f equeue \<Rightarrow> (32 word \<times> 'f equeue) option" where
  "equeue_call_in ms = call_with (\<lambda>a. equeue_event_delay a ms)"

definition equeue_call_every :: "int \<Rightarrow> 'f \<Rightarrow> 'f equeue \<Rightarrow> (32 word \<times> 'f equeue) option" where
  "equeue_call_every ms = call_with (\<lambda>a q. equeue_event_period a ms (equeue_event_delay a ms q))"

text \<open>\<open>update\<close> tells whether there is a new timer.\<close>

definition equeue_background :: "bool \<Rightarrow> 'f equeue \<Rightarrow> 'f equeue" where
  "equeue_background update q =
     (let q = (if q_background q then q\<lparr>q_updates := q_updates q @ [- 1]\<rparr> else q);
          q = q\<lparr>q_background := update\<rparr>;
          q = (case q_queue q of
                 Some a \<Rightarrow>
                   if update
                   then q\<lparr>q_updates := q_updates q @ [sint (equeue_clampdiff (ev_target (at q a)) (q_clock q))]\<rparr>
                   else q
               | None \<Rightarrow> q)
      in q\<lparr>q_active := True\<rparr>)"

end
