(* ===== verification/EqueueSlots.thy ===== *)
theory EqueueSlots
  imports Equeue
begin

text \<open>
  The slots of the event queue: the list of slots along \<open>next\<close>, each the events of one time along
  \<open>sibling\<close>, newest first, every event knowing the place that points to it by its \<open>ref\<close>; and what a
  change of one link does to them. \<open>queue_holds q xs\<close> says that \<open>q\<close> holds the events \<open>xs\<close>, in the order in
  which they will run.
\<close>

section \<open>Time\<close>

lemma sint_diff:
  fixes x y b :: u32
  assumes "unat (x - b) < 2 ^ 31" "unat (y - b) < 2 ^ 31"
  shows "sint (x - y) = int (unat (x - b)) - int (unat (y - b))"
proof -
  let ?k = "int (unat (x - b)) - int (unat (y - b))"
  have "x - y = (x - b) - (y - b)" by simp
  also have "\<dots> = word_of_int ?k" by (simp add: of_int_diff)
  finally have xy: "x - y = word_of_int ?k" .
  have "int (unat (x - b)) < int (2 ^ 31)" "int (unat (y - b)) < int (2 ^ 31)"
    using assms by (simp_all only: of_nat_less_iff)
  then have "int (unat (x - b)) < 2 ^ 31" "int (unat (y - b)) < 2 ^ 31"
    by (simp_all only: of_nat_power of_nat_numeral)
  then have "- (2 ^ 31) \<le> ?k" "?k < 2 ^ 31" by linarith+
  then have "signed_take_bit 31 ?k = ?k" by (intro signed_take_bit_int_eq_self) simp_all
  moreover have "sint (word_of_int k :: u32) = signed_take_bit 31 k" for k
    by (simp add: signed_of_int)
  ultimately show ?thesis by (simp only: xy)
qed

lemma clampdiff_max: "sint (equeue_clampdiff x y) = max 0 (sint (x - y))"
proof -
  let ?s = "sint (x - y) div 2 ^ 31"
  have s: "sint (signed_drop_bit 31 (x - y)) = ?s" by (simp add: sint_signed_drop_bit_eq drop_bit_eq_div)
  have r: "- (2 ^ 31) \<le> sint (x - y)" "sint (x - y) < 2 ^ 31"
    using sint_greater_eq [of "x - y"] sint_less [of "x - y"] by simp_all
  show ?thesis
  proof (cases "sint (x - y) < 0")
    case True
    then have "?s = - 1" using r(1) by simp
    then have "signed_drop_bit 31 (x - y) = (- 1 :: u32)"
      using s by (intro signed_word_eqI) simp
    then show ?thesis using True by (simp add: equeue_clampdiff_def equeue_tickdiff_def)
  next
    case False
    then have "?s = 0" using r(2) by simp
    then have "signed_drop_bit 31 (x - y) = (0 :: u32)"
      using s by (intro signed_word_eqI) simp
    then show ?thesis using False by (simp add: equeue_clampdiff_def equeue_tickdiff_def)
  qed
qed

section \<open>Slots\<close>

fun siblings :: "'f equeue \<Rightarrow> ptr \<Rightarrow> addr option \<Rightarrow> addr list \<Rightarrow> bool" where
  "siblings q l p [] \<longleftrightarrow> p = None"
| "siblings q l p (a # as) \<longleftrightarrow>
     p = Some a \<and> ev_ref (at q a) = l \<and> ev_next (at q a) = None \<and>
     siblings q (P_sibling a) (ev_sibling (at q a)) as"

fun slots :: "'f equeue \<Rightarrow> ptr \<Rightarrow> addr option \<Rightarrow> addr list list \<Rightarrow> addr option \<Rightarrow> bool" where
  "slots q l p [] r \<longleftrightarrow> p = r"
| "slots q l p ([] # ss) r \<longleftrightarrow> False"
| "slots q l p ((a # as) # ss) r \<longleftrightarrow>
     p = Some a \<and> ev_ref (at q a) = l \<and> siblings q (P_sibling a) (ev_sibling (at q a)) as \<and>
     slots q (P_next a) (ev_next (at q a)) ss r"

fun slot_end :: "ptr \<Rightarrow> addr list list \<Rightarrow> ptr" where
  "slot_end l [] = l"
| "slot_end l (s # ss) = slot_end (P_next (hd s)) ss"

lemma slot_end_append [simp]: "slot_end l (ss @ [s]) = P_next (hd s)"
  by (induction l ss rule: slot_end.induct) auto

lemma slot_end_not_Nil: "ss \<noteq> [] \<Longrightarrow> slot_end l ss = P_next (hd (last ss))"
  by (induction l ss rule: slot_end.induct) auto

lemma slots_append:
  "slots q l p (ss @ ss') r \<longleftrightarrow> (\<exists>m. slots q l p ss m \<and> slots q (slot_end l ss) m ss' r)"
  by (induction q l p ss r rule: slots.induct) auto

definition links :: "'f event \<Rightarrow> addr option \<times> addr option \<times> ptr" where
  "links e = (ev_next e, ev_sibling e, ev_ref e)"

lemma siblings_frame:
  "\<forall>a \<in> set as. links (at q' a) = links (at q a) \<Longrightarrow> siblings q' l p as = siblings q l p as"
  by (induction q l p as rule: siblings.induct) (simp_all add: links_def)

lemma slots_frame:
  "\<forall>a \<in> set (concat ss). links (at q' a) = links (at q a) \<Longrightarrow> slots q' l p ss r = slots q l p ss r"
proof (induction q l p ss r rule: slots.induct)
  case (3 q l p a as ss r)
  have "siblings q' (P_sibling a) (ev_sibling (at q a)) as = siblings q (P_sibling a) (ev_sibling (at q a)) as"
    using 3(2) by (intro siblings_frame) simp
  moreover have "slots q' (P_next a) (ev_next (at q a)) ss r = slots q (P_next a) (ev_next (at q a)) ss r"
    using 3 by simp
  moreover have "links (at q' a) = links (at q a)" using 3(2) by simp
  ultimately show ?case by (simp add: links_def)
qed simp_all

lemma slots_deref_end: "slots q l (deref l q) ss r \<Longrightarrow> deref (slot_end l ss) q = r"
  by (induction q l "deref l q" ss r rule: slots.induct) auto

lemma slots_Nil_not_in: "slots q l p ss r \<Longrightarrow> [] \<notin> set ss"
  by (induction q l p ss r rule: slots.induct) auto

lemma at_upd_event [simp]: "at (upd_event a f q) b = (if b = a then f (at q a) else at q b)"
  by (simp add: upd_event_def)

lemma upd_event_fields [simp]:
  "q_queue (upd_event a f q) = q_queue q" "q_tick (upd_event a f q) = q_tick q"
  "q_generation (upd_event a f q) = q_generation q" "q_head (upd_event a f q) = q_head q"
  "q_npw2 (upd_event a f q) = q_npw2 q" "q_chunks (upd_event a f q) = q_chunks q"
  by (simp_all add: upd_event_def)

text \<open>Places that are no field of a listed event.\<close>

abbreviation root_place :: "ptr \<Rightarrow> bool" where
  "root_place l \<equiv> l \<in> {P_queue, P_head}"

lemma slots_assign_last:
  assumes "slots q l p ss r" "distinct (concat ss)" "ss \<noteq> []"
  shows "slots (assign (slot_end l ss) v q) l p ss v"
proof (cases ss rule: rev_cases)
  case (snoc ss' s)
  obtain a as where s: "s = a # as"
    using slots_Nil_not_in [OF assms(1)] snoc by (cases s) auto
  obtain m where m: "slots q l p ss' m" "m = Some a" "ev_ref (at q a) = slot_end l ss'"
      "siblings q (P_sibling a) (ev_sibling (at q a)) as"
    using assms(1) by (auto simp: snoc s slots_append)
  let ?q = "assign (P_next a) v q"
  have "a \<notin> set as" "a \<notin> set (concat ss')" using assms(2) by (auto simp: snoc s)
  then have "siblings ?q (P_sibling a) (ev_sibling (at q a)) as" "slots ?q l p ss' m"
    using m(1,4) siblings_frame [of as ?q q] slots_frame [of ss' ?q q] by (auto simp: links_def)
  then show ?thesis using m(2,3) by (auto simp: snoc s slots_append)
qed (use assms(3) in simp)

lemma slots_assign_end:
  assumes "slots q l (deref l q) ss r" "distinct (concat ss)" "root_place l"
  shows "slots (assign (slot_end l ss) v q) l (deref l (assign (slot_end l ss) v q)) ss v"
proof (cases "ss = []")
  case True
  then show ?thesis using assms(3) by auto
next
  case False
  then have "deref l (assign (slot_end l ss) v q) = deref l q"
    using assms(3) by (auto simp: slot_end_not_Nil)
  then show ?thesis using slots_assign_last [OF assms(1,2) False] by simp
qed

lemma at_assign_end:
  assumes "[] \<notin> set ss" "root_place l" "x \<notin> set (concat ss)"
  shows "at (assign (slot_end l ss) v q) x = at q x"
proof (cases ss rule: rev_cases)
  case Nil
  then show ?thesis using assms(2) by auto
next
  case (snoc ss' s)
  then have "hd s \<noteq> x" using assms(1,3) by (cases s) auto
  then show ?thesis by (simp add: snoc)
qed

lemma siblings_re_ref:
  assumes "siblings q l p as" "distinct as"
  shows "siblings (set_ref p l' q) l' p as"
proof (cases as)
  case Nil
  then show ?thesis using assms(1) by (simp add: set_ref_def)
next
  case (Cons a as')
  then have "siblings (set_ref p l' q) (P_sibling a) (ev_sibling (at q a)) as' =
      siblings q (P_sibling a) (ev_sibling (at q a)) as'"
    using assms by (intro siblings_frame) (auto simp: set_ref_def)
  then show ?thesis using assms Cons by (auto simp: set_ref_def)
qed

lemma slots_re_ref:
  assumes "slots q l p ss None" "distinct (concat ss)"
  shows "slots (set_ref p l' q) l' p ss None"
proof (cases ss)
  case Nil
  then show ?thesis using assms(1) by (simp add: set_ref_def)
next
  case (Cons s ss')
  then obtain a as where s: "s = a # as" using assms(1) by (cases s) auto
  let ?q = "set_ref p l' q"
  have p: "p = Some a" using assms(1) Cons s by simp
  have "siblings ?q (P_sibling a) (ev_sibling (at q a)) as = siblings q (P_sibling a) (ev_sibling (at q a)) as"
    using assms(2) Cons s p by (intro siblings_frame) (auto simp: set_ref_def)
  moreover have "slots ?q (P_next a) (ev_next (at q a)) ss' None = slots q (P_next a) (ev_next (at q a)) ss' None"
    using assms(2) Cons s p by (intro slots_frame) (auto simp: set_ref_def)
  ultimately show ?thesis using assms(1) Cons s p by (simp add: set_ref_def)
qed

lemma set_ref_fields [simp]:
  "q_queue (set_ref v p q) = q_queue q" "q_tick (set_ref v p q) = q_tick q"
  "q_generation (set_ref v p q) = q_generation q" "q_head (set_ref v p q) = q_head q"
  "q_npw2 (set_ref v p q) = q_npw2 q"
  by (simp_all add: set_ref_def split: option.splits)

lemma at_set_ref: "at (set_ref v p q) x = (if v = Some x then (at q x)\<lparr>ev_ref := p\<rparr> else at q x)"
  by (auto simp: set_ref_def split: option.splits)

lemma assign_fields [simp]:
  "q_tick (assign p v q) = q_tick q" "q_generation (assign p v q) = q_generation q"
  "q_npw2 (assign p v q) = q_npw2 q"
  by (cases p; simp)+

lemma at_assign: "at (assign p v q) x =
    (if p = P_next x then (at q x)\<lparr>ev_next := v\<rparr> else if p = P_sibling x then (at q x)\<lparr>ev_sibling := v\<rparr> else at q x)"
  by (cases p) auto

text \<open>What belongs neither to the events nor to the slots.\<close>

definition environment :: "'f equeue \<Rightarrow> addr option \<times> nat \<times> addr \<times> bool \<times> u32 \<times> nat" where
  "environment q = (q_chunks q, q_slab_size q, q_slab_data q, q_background q, q_clock q, q_npw2 q)"

lemma environment_upd [simp]:
  "environment (upd_event a f q) = environment q" "environment (set_ref v p q) = environment q"
  "environment (q\<lparr>q_queue := v\<rparr>) = environment q" "environment (q\<lparr>q_tick := t\<rparr>) = environment q"
  "environment (q\<lparr>q_generation := g\<rparr>) = environment q" "environment (q\<lparr>q_head := v\<rparr>) = environment q"
  "environment (q\<lparr>q_updates := us\<rparr>) = environment q" "environment (q\<lparr>q_signals := k\<rparr>) = environment q"
  by (simp_all add: environment_def upd_event_def set_ref_def split: option.split)

lemma environment_assign [simp]: "p \<noteq> P_chunks \<Longrightarrow> environment (assign p v q) = environment q"
  by (cases p) (simp_all add: environment_def upd_event_def)

lemma environmentD:
  assumes "environment q' = environment q"
  shows "q_chunks q' = q_chunks q" "q_slab_size q' = q_slab_size q" "q_slab_data q' = q_slab_data q"
    "q_background q' = q_background q" "q_clock q' = q_clock q" "q_npw2 q' = q_npw2 q"
  using assms by (simp_all add: environment_def)

lemma hd_in_concat: "s \<in> set ss \<Longrightarrow> s \<noteq> [] \<Longrightarrow> hd s \<in> set (concat ss)"
  by (metis UN_I hd_in_set set_concat)

text \<open>Where the links of listed events lead: to listed events, and to both ends.\<close>

lemma siblings_places:
  assumes "siblings q l p as" "x \<in> set as"
  shows "ev_next (at q x) = None" "\<And>y. ev_sibling (at q x) = Some y \<Longrightarrow> y \<in> set as"
    "ev_ref (at q x) = l \<or> (\<exists>y \<in> set as. ev_ref (at q x) = P_sibling y)"
  using assms by (induction q l p as rule: siblings.induct) (auto elim: siblings.elims)

lemma slots_places:
  assumes "slots q l p ss r" "x \<in> set (concat ss)"
  shows "\<And>y. ev_next (at q x) = Some y \<Longrightarrow> y \<in> set (concat ss) \<or> r = Some y"
    "\<And>y. ev_sibling (at q x) = Some y \<Longrightarrow> y \<in> set (concat ss)"
    "ev_ref (at q x) = l \<or> (\<exists>y \<in> set (concat ss). ev_ref (at q x) = P_sibling y \<or> ev_ref (at q x) = P_next y)"
proof -
  have "(\<forall>y. ev_next (at q x) = Some y \<longrightarrow> y \<in> set (concat ss) \<or> r = Some y) \<and>
      (\<forall>y. ev_sibling (at q x) = Some y \<longrightarrow> y \<in> set (concat ss)) \<and>
      (ev_ref (at q x) = l \<or> (\<exists>y \<in> set (concat ss). ev_ref (at q x) = P_sibling y \<or> ev_ref (at q x) = P_next y))"
    using assms
  proof (induction q l p ss r rule: slots.induct)
    case (3 q l p a as ss r)
    consider "x = a" | "x \<in> set as" | "x \<in> set (concat ss)" using 3(3) by auto
    then show ?case
    proof cases
      case 1
      have "ev_sibling (at q a) = Some y \<Longrightarrow> y \<in> set as" for y using 3(2) by (cases as) auto
      moreover have "ev_next (at q a) = Some y \<Longrightarrow> y \<in> set (concat ss) \<or> r = Some y" for y
        using 3(2) by (cases ss rule: list.exhaust; cases "hd ss") auto
      ultimately show ?thesis using 1 3(2) by auto
    next
      case 2
      have "siblings q (P_sibling a) (ev_sibling (at q a)) as" using 3(2) by simp
      from siblings_places [OF this 2] show ?thesis by auto
    next
      case 3
      then show ?thesis using "3.IH" "3.prems"(1) by auto
    qed
  qed simp_all
  then show "\<And>y. ev_next (at q x) = Some y \<Longrightarrow> y \<in> set (concat ss) \<or> r = Some y"
    "\<And>y. ev_sibling (at q x) = Some y \<Longrightarrow> y \<in> set (concat ss)"
    "ev_ref (at q x) = l \<or> (\<exists>y \<in> set (concat ss). ev_ref (at q x) = P_sibling y \<or> ev_ref (at q x) = P_next y)"
    by blast+
qed

lemma slots_first: "slots q l p ss r \<Longrightarrow> p = Some y \<Longrightarrow> y \<in> set (concat ss) \<or> r = Some y"
  by (cases ss rule: list.exhaust; cases "hd ss") auto

lemma slot_end_place:
  assumes "[] \<notin> set ss"
  shows "slot_end l ss = l \<and> ss = [] \<or> (\<exists>y \<in> set (concat ss). slot_end l ss = P_next y)"
proof (cases "ss = []")
  case False
  then have "hd (last ss) \<in> set (concat ss)" using assms by (metis hd_in_concat last_in_set)
  then show ?thesis using False by (auto simp: slot_end_not_Nil)
qed simp

section \<open>The queue\<close>

definition due :: "'f equeue \<Rightarrow> addr \<Rightarrow> nat" where
  "due q a = unat (ev_target (at q a) - q_tick q)"

definition queue_inv :: "'f equeue \<Rightarrow> addr list list \<Rightarrow> bool" where
  "queue_inv q ss \<longleftrightarrow>
     slots q P_queue (q_queue q) ss None \<and> distinct (concat ss) \<and>
     (\<forall>s \<in> set ss. \<forall>a \<in> set s. due q a = due q (hd s)) \<and>
     sorted_wrt (<) (map (\<lambda>s. due q (hd s)) ss) \<and>
     (\<forall>a \<in> set (concat ss).
        due q a < 2 ^ 31 \<and> (due q a = 0 \<longrightarrow> ev_generation (at q a) = q_generation q))"

text \<open>The events in the order in which they will run: slots in turn, each from its oldest event on.\<close>

definition order :: "addr list list \<Rightarrow> addr list" where
  "order ss = concat (map rev ss)"

definition queue_holds :: "'f equeue \<Rightarrow> addr list \<Rightarrow> bool" where
  "queue_holds q xs \<longleftrightarrow> (\<exists>ss. queue_inv q ss \<and> xs = order ss)"

lemma set_order [simp]: "set (order ss) = set (concat ss)"
  by (auto simp: order_def)

lemma order_append: "order (ss @ ss') = order ss @ order ss'"
  by (simp add: order_def)

section \<open>Linking\<close>

lemma find_slot_end:
  assumes "slots q l (deref l q) ss None"
  shows "find_slot q t l =
    Some (slot_end l (takeWhile (\<lambda>s. sint (equeue_tickdiff (ev_target (at q (hd s))) t) < 0) ss))"
  using assms
proof (induction ss arbitrary: l)
  case Nil
  then show ?case by (simp add: find_slot.simps)
next
  case (Cons s ss)
  then obtain a as where "s = a # as" by (cases s) auto
  with Cons show ?case
    by (subst find_slot.simps) simp
qed

lemma find_unexpired_end:
  assumes "slots q l' (deref l q) ss None"
  shows "find_unexpired q t l =
    Some (slot_end l (takeWhile (\<lambda>s. sint (equeue_tickdiff (ev_target (at q (hd s))) t) \<le> 0) ss))"
  using assms
proof (induction ss arbitrary: l l')
  case Nil
  then show ?case by (simp add: find_unexpired.simps)
next
  case (Cons s ss)
  then obtain a as where "s = a # as" by (cases s) auto
  with Cons.prems Cons.IH [of "P_next a" "P_next a"] show ?case
    by (subst find_unexpired.simps) simp
qed

text \<open>The slots after linking \<open>a\<close> between \<open>ss\<close> and \<open>ss'\<close>.\<close>

fun insert_slot :: "('f equeue) \<Rightarrow> addr \<Rightarrow> addr list list \<Rightarrow> addr list list" where
  "insert_slot q a [] = [[a]]"
| "insert_slot q a (s # ss) =
     (if ev_target (at q (hd s)) = ev_target (at q a) then (a # s) # ss else [a] # s # ss)"

lemma slots_link:
  assumes "slots q l (deref l q) (ss @ ss') None" "root_place l"
    and "distinct (concat (ss @ ss'))" "a \<notin> set (concat (ss @ ss'))"
  defines "q' \<equiv> link_event a (slot_end l ss) q"
  shows "slots q' l (deref l q') (ss @ insert_slot q a ss') None"
proof -
  let ?p = "slot_end l ss"
  obtain m where m: "slots q l (deref l q) ss m" "slots q ?p m ss' None"
    using assms(1) by (auto simp: slots_append)
  have at_p: "deref ?p q = m" using slots_deref_end m(1) by blast
  have ss: "[] \<notin> set ss" by (rule slots_Nil_not_in [OF m(1)])
  text \<open>What links everything but \<open>?p\<close>.\<close>
  have ends: "slots (upd_event a (\<lambda>e. e\<lparr>ev_ref := ?p\<rparr>) (assign ?p (Some a) q1)) l
      (deref l (upd_event a (\<lambda>e. e\<lparr>ev_ref := ?p\<rparr>) (assign ?p (Some a) q1))) (ss @ new) None"
    if keep: "\<forall>x \<in> set (concat ss). links (at q1 x) = links (at q x)" "deref l q1 = deref l q"
      and fresh: "slots (upd_event a (\<lambda>e. e\<lparr>ev_ref := ?p\<rparr>) q1) ?p (Some a) new None"
        "set (concat new) \<inter> set (concat ss) = {}" for q1 new
  proof -
    let ?q2 = "assign ?p (Some a) q1" and ?q3 = "upd_event a (\<lambda>e. e\<lparr>ev_ref := ?p\<rparr>) (assign ?p (Some a) q1)"
    have "slots q1 l (deref l q1) ss m" using m(1) slots_frame [OF keep(1)] keep(2) by simp
    then have "slots ?q2 l (deref l ?q2) ss (Some a)"
      using assms(2,3) by (intro slots_assign_end) auto
    moreover have "\<forall>x \<in> set (concat ss). links (at ?q3 x) = links (at ?q2 x)"
      using assms(4) by auto
    moreover have "deref l ?q3 = deref l ?q2" using assms(2) by auto
    ultimately have front: "slots ?q3 l (deref l ?q3) ss (Some a)"
      using slots_frame [of ss ?q3 ?q2] by simp
    have "links (at ?q3 x) = links (at (upd_event a (\<lambda>e. e\<lparr>ev_ref := ?p\<rparr>) q1) x)"
      if "x \<in> set (concat new)" for x
    proof -
      have "x \<notin> set (concat ss)" using fresh(2) that by blast
      then show ?thesis using at_assign_end [OF ss assms(2), of x "Some a" q1] by auto
    qed
    then have "slots ?q3 ?p (Some a) new None"
      using fresh(1) slots_frame [of new ?q3 "upd_event a (\<lambda>e. e\<lparr>ev_ref := ?p\<rparr>) q1"] by blast
    then show ?thesis using front by (auto simp: slots_append)
  qed
  show ?thesis
  proof (cases ss')
    case Nil
    then have "m = None" using m(2) by simp
    then have q': "q' = upd_event a (\<lambda>e. e\<lparr>ev_ref := ?p\<rparr>) (assign ?p (Some a) (new_slot a None q))"
      using at_p by (simp add: q'_def link_event_def)
    show ?thesis unfolding q' Nil
      by (rule ends) (use assms(2,4) in \<open>auto simp: new_slot_def set_ref_def\<close>)
  next
    case (Cons s rest)
    then obtain b bs where s: "s = b # bs" using m(2) by (cases s) auto
    have b: "m = Some b" "ev_ref (at q b) = ?p" "siblings q (P_sibling b) (ev_sibling (at q b)) bs"
      "slots q (P_next b) (ev_next (at q b)) rest None"
      using m(2) Cons s by simp_all
    have sep: "a \<noteq> b" "a \<notin> set bs" "a \<notin> set (concat rest)" "b \<notin> set bs" "b \<notin> set (concat rest)"
      "set bs \<inter> set (concat rest) = {}" "distinct (concat rest)"
      using assms(3,4) Cons s by auto
    have dist: "distinct (concat ss')" using assms(3) by simp
    have before: "set (concat ss') \<inter> set (concat ss) = {}" using assms(3) by auto
    show ?thesis
    proof (cases "ev_target (at q b) = ev_target (at q a)")
      case True
      let ?n = "ev_next (at q b)" and ?q1 = "join_slot a b q"
      let ?q2 = "upd_event a (\<lambda>e. e\<lparr>ev_ref := ?p\<rparr>) ?q1"
      have q': "q' = upd_event a (\<lambda>e. e\<lparr>ev_ref := ?p\<rparr>) (assign ?p (Some a) ?q1)"
        using at_p b(1) True by (simp add: q'_def link_event_def)
      have n: "?n = Some x \<Longrightarrow> x \<in> set (concat rest)" for x
        using b(4) by (cases rest rule: list.exhaust; cases "hd rest") auto
      have "siblings ?q2 (P_sibling b) (ev_sibling (at q b)) bs"
      proof -
        have "\<forall>x \<in> set bs. ?n \<noteq> Some x \<and> x \<noteq> a \<and> x \<noteq> b" using n sep by blast
        then have "\<forall>x \<in> set bs. links (at ?q2 x) = links (at q x)"
          by (simp add: join_slot_def Let_def at_set_ref links_def)
        then show ?thesis using b(3) siblings_frame by blast
      qed
      moreover have "slots ?q2 (P_next a) ?n rest None"
      proof -
        have "slots (set_ref ?n (P_next a) q) (P_next a) ?n rest None"
          by (rule slots_re_ref [OF b(4) sep(7)])
        moreover have "\<forall>x \<in> set (concat rest). links (at ?q2 x) = links (at (set_ref ?n (P_next a) q) x)"
          using sep by (auto simp: join_slot_def Let_def at_set_ref links_def)
        ultimately show ?thesis using slots_frame by blast
      qed
      moreover have "ev_next (at ?q2 a) = ?n" "ev_sibling (at ?q2 a) = Some b" "ev_ref (at ?q2 a) = ?p"
        "ev_next (at ?q2 b) = None" "ev_ref (at ?q2 b) = P_sibling a" "ev_sibling (at ?q2 b) = ev_sibling (at q b)"
        using sep n by (auto simp: join_slot_def Let_def at_set_ref)
      ultimately have new: "slots ?q2 ?p (Some a) ((a # s) # rest) None" using s by simp
      have keep: "\<forall>x \<in> set (concat ss). links (at ?q1 x) = links (at q x)"
        using before n assms(4) Cons s by (auto simp: join_slot_def Let_def at_set_ref links_def)
      have "deref l ?q1 = deref l q" using assms(2) by (auto simp: join_slot_def Let_def)
      from ends [OF keep this new] show ?thesis
        using before assms(4) Cons s True unfolding q' by auto
    next
      case False
      let ?q1 = "new_slot a (Some b) q"
      let ?q2 = "upd_event a (\<lambda>e. e\<lparr>ev_ref := ?p\<rparr>) ?q1"
      have q': "q' = upd_event a (\<lambda>e. e\<lparr>ev_ref := ?p\<rparr>) (assign ?p (Some a) ?q1)"
        using at_p b(1) False by (simp add: q'_def link_event_def)
      have "slots (set_ref (Some b) (P_next a) q) (P_next a) (Some b) ss' None"
        using slots_re_ref [OF m(2) dist] b(1) by simp
      moreover have "\<forall>x \<in> set (concat ss'). links (at ?q2 x) = links (at (set_ref (Some b) (P_next a) q) x)"
        using assms(4) by (auto simp: new_slot_def Let_def at_set_ref links_def)
      ultimately have "slots ?q2 (P_next a) (Some b) ss' None" using slots_frame by blast
      moreover have "ev_next (at ?q2 a) = Some b" "ev_sibling (at ?q2 a) = None" "ev_ref (at ?q2 a) = ?p"
        using sep by (simp_all add: new_slot_def Let_def at_set_ref)
      ultimately have new: "slots ?q2 ?p (Some a) ([a] # ss') None" by simp
      have keep: "\<forall>x \<in> set (concat ss). links (at ?q1 x) = links (at q x)"
        using before assms(4) Cons s by (auto simp: new_slot_def Let_def at_set_ref links_def)
      have "deref l ?q1 = deref l q" using assms(2) by (auto simp: new_slot_def Let_def)
      from ends [OF keep this new] show ?thesis
        using before assms(4) Cons s False unfolding q' by auto
    qed
  qed
qed

end
