(* ===== verification/EqueueEnqueue.thy ===== *)
theory EqueueEnqueue
  imports EqueueSlots
begin

text \<open>
  Enqueuing keeps the queue ordered, and puts an event after all those that are due no later.
\<close>

lemma notify_timer_frame [simp]:
  "q_queue (notify_timer a t q) = q_queue q" "q_tick (notify_timer a t q) = q_tick q"
  "q_generation (notify_timer a t q) = q_generation q" "q_store (notify_timer a t q) = q_store q"
  "q_npw2 (notify_timer a t q) = q_npw2 q" "q_head (notify_timer a t q) = q_head q"
  by (simp_all add: notify_timer_def)

lemma queue_inv_frame:
  assumes "q_queue q' = q_queue q" "q_tick q' = q_tick q" "q_generation q' = q_generation q"
    and "\<forall>a \<in> set (concat ss). links (at q' a) = links (at q a) \<and>
           ev_target (at q' a) = ev_target (at q a) \<and> ev_generation (at q' a) = ev_generation (at q a)"
  shows "queue_inv q' ss = queue_inv q ss"
proof (cases "[] \<in> set ss")
  case True
  then have "\<not> slots q P_queue (q_queue q) ss None" "\<not> slots q' P_queue (q_queue q') ss None"
    using slots_Nil_not_in by blast+
  then show ?thesis by (simp add: queue_inv_def)
next
  case False
  have due: "due q' a = due q a" if "a \<in> set (concat ss)" for a
    using bspec [OF assms(4) that] assms(2) by (simp add: due_def)
  have hd: "due q' (hd s) = due q (hd s)" if "s \<in> set ss" for s
  proof -
    have "hd s \<in> set (concat ss)" using hd_in_concat [OF that] False that by blast
    then show ?thesis by (rule due)
  qed
  have "map (\<lambda>s. due q' (hd s)) ss = map (\<lambda>s. due q (hd s)) ss" using hd by simp
  moreover have "slots q' P_queue (q_queue q') ss None = slots q P_queue (q_queue q) ss None"
    using assms(1,4) slots_frame [of ss q' q] by simp
  moreover have "(\<forall>s \<in> set ss. \<forall>a \<in> set s. due q' a = due q' (hd s)) \<longleftrightarrow>
      (\<forall>s \<in> set ss. \<forall>a \<in> set s. due q a = due q (hd s))"
  proof -
    have "due q' a = due q a" if "s \<in> set ss" "a \<in> set s" for s a
      using that by (intro due) auto
    then show ?thesis by (intro ball_cong refl) (simp add: hd)
  qed
  moreover have "(\<forall>a \<in> set (concat ss). due q' a < 2 ^ 31 \<and> (due q' a = 0 \<longrightarrow> ev_generation (at q' a) = q_generation q')) \<longleftrightarrow>
      (\<forall>a \<in> set (concat ss). due q a < 2 ^ 31 \<and> (due q a = 0 \<longrightarrow> ev_generation (at q a) = q_generation q))"
    using due assms(3,4) by auto
  ultimately show ?thesis by (simp only: queue_inv_def)
qed

text \<open>What an event holds beside its links, which linking leaves alone.\<close>

definition content :: "'f event \<Rightarrow> nat \<times> u8 \<times> u8 \<times> u32 \<times> int \<times> 'f option \<times> 'f option" where
  "content e = (ev_size e, ev_id e, ev_generation e, ev_target e, ev_period e, ev_dtor e, ev_cb e)"

lemma content_upd_event: "(\<And>e. content (f e) = content e) \<Longrightarrow> content (at (upd_event a f q) x) = content (at q x)"
  by simp

lemma content_assign [simp]: "content (at (assign p v q) x) = content (at q x)"
  by (cases p) (simp_all add: content_def)

lemma content_set_ref [simp]: "content (at (set_ref v p q) x) = content (at q x)"
  by (simp add: at_set_ref content_def)

lemma content_links [simp]:
  "content (e\<lparr>ev_next := v\<rparr>) = content e" "content (e\<lparr>ev_sibling := v\<rparr>) = content e"
  "content (e\<lparr>ev_ref := r\<rparr>) = content e"
  by (simp_all add: content_def)

lemma content_link_event: "content (at (link_event a p q) x) = content (at q x)"
  by (simp add: link_event_def new_slot_def join_slot_def Let_def content_upd_event
      del: at_upd_event split: option.split)

lemma link_event_fields [simp]:
  "q_tick (link_event a p q) = q_tick q" "q_generation (link_event a p q) = q_generation q"
  "q_npw2 (link_event a p q) = q_npw2 q"
  by (simp_all add: link_event_def new_slot_def join_slot_def Let_def split: option.split)

lemma link_event_frame:
  assumes "slots q l (deref l q) (ss @ ss') None" "l \<in> {P_queue, P_head}"
  shows "x \<notin> insert a (set (concat (ss @ ss'))) \<Longrightarrow> at (link_event a (slot_end l ss) q) x = at q x"
    and "environment (link_event a (slot_end l ss) q) = environment q"
proof -
  let ?p = "slot_end l ss"
  obtain m where m: "slots q l (deref l q) ss m" "slots q ?p m ss' None"
    using assms(1) by (auto simp: slots_append)
  have at_p: "deref ?p q = m" using slots_deref_end m(1) by blast
  have p: "?p = l \<or> (\<exists>y \<in> set (concat ss). ?p = P_next y)"
    using slot_end_place [OF slots_Nil_not_in [OF m(1)]] by auto
  then have chunks: "?p \<noteq> P_chunks" using assms(2) by auto
  have m_in: "b \<in> set (concat ss')" if "m = Some b" for b using slots_first [OF m(2) that] by simp
  have n_in: "c \<in> set (concat ss')" if "m = Some b" "ev_next (at q b) = Some c" for b c
    using slots_places(1) [OF m(2) m_in [OF that(1)] that(2)] by simp
  show "environment (link_event a ?p q) = environment q"
    using chunks by (simp add: link_event_def at_p new_slot_def join_slot_def Let_def split: option.split)
  assume x: "x \<notin> insert a (set (concat (ss @ ss')))"
  have "?p \<noteq> P_next x \<and> ?p \<noteq> P_sibling x" using p x assms(2) by auto
  then have p_frame: "at (assign ?p v q1) x = at q1 x" for v and q1 :: "'a equeue" by (simp add: at_assign)
  have "m \<noteq> Some x" using m_in x by auto
  moreover have "ev_next (at q b) \<noteq> Some x" if "m = Some b" for b using n_in [OF that] x by auto
  ultimately show "at (link_event a ?p q) x = at q x"
    using x by (auto simp: link_event_def at_p p_frame new_slot_def join_slot_def Let_def at_set_ref split: option.split)
qed

lemma due_inj: "due q a = due q b \<longleftrightarrow> ev_target (at q a) = ev_target (at q b)"
  using word_unat_eq_iff [of "ev_target (at q a) - q_tick q" "ev_target (at q b) - q_tick q"]
  by (simp add: due_def)

lemma before_iff:
  assumes "due q a < 2 ^ 31" "due q b < 2 ^ 31"
  shows "sint (equeue_tickdiff (ev_target (at q a)) (ev_target (at q b))) < 0 \<longleftrightarrow> due q a < due q b"
proof -
  have "sint (equeue_tickdiff (ev_target (at q a)) (ev_target (at q b))) = int (due q a) - int (due q b)"
    using sint_diff assms unfolding due_def equeue_tickdiff_def by blast
  then show ?thesis by simp
qed

text \<open>Slots in order: splitting them at a time splits the events.\<close>

lemma sorted_split:
  fixes k :: nat
  assumes "sorted_wrt (<) (map f ss)"
  defines "ss1 \<equiv> takeWhile (\<lambda>s. f s < k) ss" and "ss2 \<equiv> dropWhile (\<lambda>s. f s < k) ss"
  shows "ss = ss1 @ ss2" "\<forall>s \<in> set ss1. f s < k" "\<forall>s \<in> set ss2. k \<le> f s"
    and "ss2 = s # rest \<Longrightarrow> \<forall>s' \<in> set rest. k < f s'"
proof -
  show split: "ss = ss1 @ ss2" by (simp add: ss1_def ss2_def)
  show "\<forall>s \<in> set ss1. f s < k" by (auto simp: ss1_def dest: set_takeWhileD)
  have sorted: "sorted_wrt (<) (map f ss2)" using assms(1) split by (metis map_append sorted_wrt_append)
  show "\<forall>s \<in> set ss2. k \<le> f s"
  proof (cases ss2)
    case (Cons s r)
    then have "\<not> f s < k" using hd_dropWhile [of "\<lambda>s. f s < k" ss] by (simp add: ss2_def)
    then show ?thesis using sorted Cons by auto
  qed simp
  then show "ss2 = s # rest \<Longrightarrow> \<forall>s' \<in> set rest. k < f s'" using sorted by auto
qed

lemma order_insert:
  assumes "queue_inv q (ss @ ss')" "\<forall>s \<in> set ss. due q (hd s) < due q a" "\<forall>s \<in> set ss'. due q a \<le> due q (hd s)"
    and "a \<notin> set (concat (ss @ ss'))"
  shows "order (ss @ insert_slot q a ss') =
    filter (\<lambda>x. due q x \<le> due q a) (order (ss @ ss')) @ [a] @ filter (\<lambda>x. due q a < due q x) (order (ss @ ss'))"
proof -
  have due: "due q x = due q (hd s)" if "s \<in> set (ss @ ss')" "x \<in> set s" for s x
    using assms(1) that by (simp add: queue_inv_def)
  have front: "\<forall>x \<in> set (order ss). due q x < due q a"
  proof
    fix x assume "x \<in> set (order ss)"
    then obtain s where "s \<in> set ss" "x \<in> set s" by auto
    then show "due q x < due q a" using due [of s x] assms(2) by simp
  qed
  have sorted: "sorted_wrt (<) (map (\<lambda>s. due q (hd s)) ss')"
    using assms(1) by (simp add: queue_inv_def sorted_wrt_append)
  have split: "filter P (order ss @ xs) = filter P (order ss) @ filter P xs" for P xs by simp
  have f1: "filter (\<lambda>x. due q x \<le> due q a) (order ss) = order ss" "filter (\<lambda>x. due q a < due q x) (order ss) = []"
    using front by (force simp: filter_id_conv filter_empty_conv)+
  have rest: "order (insert_slot q a ss') =
      filter (\<lambda>x. due q x \<le> due q a) (order ss') @ [a] @ filter (\<lambda>x. due q a < due q x) (order ss')"
  proof (cases ss')
    case (Cons s ss'')
    have later: "\<forall>x \<in> set (order ss''). due q a < due q x"
    proof -
      have "\<forall>t \<in> set ss''. due q (hd s) < due q (hd t)" using sorted Cons by simp
      then have "\<forall>t \<in> set ss''. due q a < due q (hd t)" using assms(3) Cons by force
      show ?thesis
      proof
        fix x assume "x \<in> set (order ss'')"
        then obtain t where "t \<in> set ss''" "x \<in> set t" by auto
        then show "due q a < due q x" using due [of t x] Cons \<open>\<forall>t \<in> set ss''. due q a < due q (hd t)\<close> by simp
      qed
    qed
    have f2: "filter (\<lambda>x. due q x \<le> due q a) (order ss'') = []" "filter (\<lambda>x. due q a < due q x) (order ss'') = order ss''"
      using later by (force simp: filter_id_conv filter_empty_conv)+
    have s: "\<forall>x \<in> set s. due q x = due q (hd s)" using due Cons by auto
    show ?thesis
    proof (cases "ev_target (at q (hd s)) = ev_target (at q a)")
      case True
      then have "filter (\<lambda>x. due q x \<le> due q a) (rev s) = rev s" "filter (\<lambda>x. due q a < due q x) (rev s) = []"
        using s by (auto simp: filter_id_conv filter_empty_conv due_def)
      then show ?thesis using True Cons f2 by (simp add: order_def)
    next
      case False
      then have "due q a < due q (hd s)" using assms(3) Cons due_inj [of q a "hd s"] by force
      then have "filter (\<lambda>x. due q x \<le> due q a) (rev s) = []" "filter (\<lambda>x. due q a < due q x) (rev s) = rev s"
        using s by (auto simp: filter_id_conv filter_empty_conv)
      then show ?thesis using False Cons f2 by (simp add: order_def)
    qed
  qed (simp add: order_def)
  show ?thesis unfolding order_append filter_append f1 rest by simp
qed

lemma insert_slot_set: "set (concat (insert_slot q a ss)) = insert a (set (concat ss))"
  by (cases "(q, a, ss)" rule: insert_slot.cases) auto

lemma queue_inv_link:
  assumes "queue_inv q ss" "a \<notin> set (concat ss)" "due q a < 2 ^ 31"
    and "due q a = 0 \<longrightarrow> ev_generation (at q a) = q_generation q"
  defines "ss1 \<equiv> takeWhile (\<lambda>s. due q (hd s) < due q a) ss" and "ss2 \<equiv> dropWhile (\<lambda>s. due q (hd s) < due q a) ss"
  shows "queue_inv (link_event a (slot_end P_queue ss1) q) (ss1 @ insert_slot q a ss2)"
proof -
  let ?q = "link_event a (slot_end P_queue ss1) q" and ?ss = "ss1 @ insert_slot q a ss2"
  have inv: "slots q P_queue (q_queue q) ss None" "distinct (concat ss)"
    "\<And>s x. s \<in> set ss \<Longrightarrow> x \<in> set s \<Longrightarrow> due q x = due q (hd s)"
    "sorted_wrt (<) (map (\<lambda>s. due q (hd s)) ss)"
    "\<And>x. x \<in> set (concat ss) \<Longrightarrow> due q x < 2 ^ 31 \<and> (due q x = 0 \<longrightarrow> ev_generation (at q x) = q_generation q)"
    using assms(1) unfolding queue_inv_def by blast+
  have split: "ss = ss1 @ ss2" "\<forall>s \<in> set ss1. due q (hd s) < due q a" "\<forall>s \<in> set ss2. due q a \<le> due q (hd s)"
    "\<And>s rest. ss2 = s # rest \<Longrightarrow> \<forall>s' \<in> set rest. due q a < due q (hd s')"
    unfolding ss1_def ss2_def using sorted_split [OF inv(4)] by blast+
  have linked: "slots ?q P_queue (deref P_queue ?q) ?ss None"
    using inv(1,2) assms(2) split(1) by (intro slots_link) simp_all
  have d: "due ?q x = due q x" "ev_generation (at ?q x) = ev_generation (at q x)" for x
    using content_link_event [of a "slot_end P_queue ss1" q x] by (simp_all add: due_def content_def)
  have members: "set (concat ?ss) = insert a (set (concat ss))"
    using insert_slot_set [of q a ss2] split(1) by auto
  have "distinct (concat ?ss)" "sorted_wrt (<) (map (\<lambda>s. due q (hd s)) ?ss) \<and>
      (\<forall>s \<in> set ?ss. \<forall>x \<in> set s. due q x = due q (hd s))"
  proof -
    have order: "sorted_wrt (<) (map (\<lambda>s. due q (hd s)) ss1)" "sorted_wrt (<) (map (\<lambda>s. due q (hd s)) ss2)"
      using inv(4) split(1) by (simp_all add: sorted_wrt_append)
    show "distinct (concat ?ss)"
      using inv(2) assms(2) split(1) by (cases "(q, a, ss2)" rule: insert_slot.cases) auto
    show "sorted_wrt (<) (map (\<lambda>s. due q (hd s)) ?ss) \<and> (\<forall>s \<in> set ?ss. \<forall>x \<in> set s. due q x = due q (hd s))"
    proof (cases ss2)
      case Nil
      then show ?thesis using order split inv(3) by (auto simp: sorted_wrt_append)
    next
      case (Cons s rest)
      have s: "s \<in> set ss" "\<forall>s' \<in> set rest. due q a < due q (hd s')" "due q a \<le> due q (hd s)"
        using split Cons by auto
      have cross: "\<forall>x \<in> set ss1. \<forall>y \<in> set rest. due q (hd x) < due q (hd y)"
        using split(2) s(2) by (blast intro: less_trans)
      show ?thesis
      proof (cases "ev_target (at q (hd s)) = ev_target (at q a)")
        case True
        then have same: "due q (hd s) = due q a" using due_inj by blast
        have "\<forall>x \<in> set s. due q x = due q a" using inv(3) [OF s(1)] same by simp
        then show ?thesis
          using True order split s inv(3) same Cons cross by (auto simp: sorted_wrt_append)
      next
        case False
        then have "due q a < due q (hd s)" using s(3) due_inj [of q a "hd s"] by force
        then show ?thesis
          using False order split s inv(3) Cons cross by (auto simp: sorted_wrt_append)
      qed
    qed
  qed
  moreover have "\<forall>x \<in> set (concat ?ss). due q x < 2 ^ 31 \<and> (due q x = 0 \<longrightarrow> ev_generation (at q x) = q_generation q)"
    unfolding members using inv(5) assms(3,4) by blast
  ultimately show ?thesis using linked by (simp add: queue_inv_def d)
qed

lemma queue_inv_window: "queue_inv q ss \<Longrightarrow> s \<in> set ss \<Longrightarrow> due q (hd s) < 2 ^ 31"
proof -
  assume inv: "queue_inv q ss" and s: "s \<in> set ss"
  then have "s \<noteq> []" using slots_Nil_not_in unfolding queue_inv_def by blast
  then have "hd s \<in> set (concat ss)" by (rule hd_in_concat [OF s])
  then show ?thesis using inv unfolding queue_inv_def by blast
qed

lemma enqueue_holds:
  fixes tick :: u32
  assumes "queue_holds q xs" "a \<notin> set xs"
  defines "t \<equiv> tick + equeue_clampdiff (ev_target (at q a)) tick"
  assumes "unat (t - q_tick q) < 2 ^ 31"
  shows "\<exists>q'. equeue_enqueue a tick q = Some (event_id a q, q') \<and>
     q_tick q' = q_tick q \<and> environment q' = environment q \<and> (\<forall>x. x \<notin> insert a (set xs) \<longrightarrow> at q' x = at q x) \<and>
     (\<forall>x. content (at q' x) =
        content (if x = a then (at q a)\<lparr>ev_target := t, ev_generation := q_generation q\<rparr> else at q x)) \<and>
     queue_holds q' (filter (\<lambda>x. due q' x \<le> due q' a) xs @ [a] @ filter (\<lambda>x. due q' a < due q' x) xs)"
proof -
  obtain ss where ss: "queue_inv q ss" "xs = order ss" using assms(1) by (auto simp: queue_holds_def)
  let ?q1 = "upd_event a (\<lambda>e. e\<lparr>ev_target := t, ev_generation := q_generation q\<rparr>) q"
  have a: "a \<notin> set (concat ss)" using assms(2) ss(2) by simp
  have inv1: "queue_inv ?q1 ss"
    using a ss(1) by (subst queue_inv_frame [of _ q]) auto
  have due_a: "due ?q1 a < 2 ^ 31" using assms(4) by (simp add: due_def)
  let ?ss1 = "takeWhile (\<lambda>s. due ?q1 (hd s) < due ?q1 a) ss" and ?ss2 = "dropWhile (\<lambda>s. due ?q1 (hd s) < due ?q1 a) ss"
  have "slots ?q1 P_queue (deref P_queue ?q1) ss None" using inv1 by (simp add: queue_inv_def)
  then have "find_slot ?q1 t P_queue =
      Some (slot_end P_queue (takeWhile (\<lambda>s. sint (equeue_tickdiff (ev_target (at ?q1 (hd s))) t) < 0) ss))"
    by (rule find_slot_end)
  also have "takeWhile (\<lambda>s. sint (equeue_tickdiff (ev_target (at ?q1 (hd s))) t) < 0) ss = ?ss1"
  proof (rule takeWhile_cong [OF refl])
    fix s assume "s \<in> set ss"
    then have "due ?q1 (hd s) < 2 ^ 31" by (rule queue_inv_window [OF inv1])
    from before_iff [OF this due_a]
    show "sint (equeue_tickdiff (ev_target (at ?q1 (hd s))) t) < 0 \<longleftrightarrow> due ?q1 (hd s) < due ?q1 a" by simp
  qed
  finally have find: "find_slot ?q1 t P_queue = Some (slot_end P_queue ?ss1)" .
  let ?q2 = "link_event a (slot_end P_queue ?ss1) ?q1"
  let ?q' = "notify_timer a tick ?q2"
  have "queue_inv ?q2 (?ss1 @ insert_slot ?q1 a ?ss2)"
    using inv1 a due_a by (intro queue_inv_link) simp_all
  then have inv': "queue_inv ?q' (?ss1 @ insert_slot ?q1 a ?ss2)"
    by (subst queue_inv_frame [of _ ?q2]) simp_all
  have slots1: "slots ?q1 P_queue (deref P_queue ?q1) (?ss1 @ ?ss2) None" using inv1 by (simp add: queue_inv_def)
  note frame = link_event_frame [where a = a, OF slots1]
  have "content (at ?q' x) = content (at ?q1 x)" for x by (simp add: content_link_event)
  then have content: "ev_target (at ?q' x) = ev_target (at ?q1 x)"
    and contents: "content (at ?q' x) = content (at ?q1 x)" for x by (simp_all add: content_def)
  have tick: "q_tick ?q' = q_tick ?q1" by simp
  have due': "due ?q' x = due ?q1 x" for x
    unfolding due_def [of ?q' x] due_def [of ?q1 x] content tick ..
  have sorted: "sorted_wrt (<) (map (\<lambda>s. due ?q1 (hd s)) ss)" using inv1 by (simp add: queue_inv_def)
  note split = sorted_split [OF sorted, of "due ?q1 a"]
  have "order (?ss1 @ insert_slot ?q1 a ?ss2) =
      filter (\<lambda>x. due ?q1 x \<le> due ?q1 a) (order (?ss1 @ ?ss2)) @ [a] @
      filter (\<lambda>x. due ?q1 a < due ?q1 x) (order (?ss1 @ ?ss2))"
    using inv1 a split(2,3) by (intro order_insert) simp_all
  then have "queue_holds ?q' (filter (\<lambda>x. due ?q' x \<le> due ?q' a) xs @ [a] @ filter (\<lambda>x. due ?q' a < due ?q' x) xs)"
    using inv' unfolding queue_holds_def due' ss(2) by auto
  moreover have "equeue_enqueue a tick q = Some (event_id a q, ?q')"
    using find by (simp add: equeue_enqueue_def Let_def t_def)
  moreover have "q_tick ?q' = q_tick q" by simp
  moreover have "environment ?q' = environment q" using frame(2) by (simp add: notify_timer_def)
  moreover have "at ?q' x = at q x" if "x \<notin> insert a (set xs)" for x
    using frame(1) that ss(2) by simp
  moreover have "content (at ?q' x) =
      content (if x = a then (at q a)\<lparr>ev_target := t, ev_generation := q_generation q\<rparr> else at q x)" for x
    unfolding contents by simp
  ultimately show ?thesis by blast
qed


end
