(* ===== verification/EqueueUnqueue.thy ===== *)
theory EqueueUnqueue
  imports EqueueEnqueue
begin

text \<open>
  Unlinking takes one event out, wherever in its slot it is, and leaves the others in their order.
\<close>

section \<open>Unlinking\<close>

text \<open>Taking one event out of its slot, and the slot out of the list when it is the only one.\<close>

fun remove_slot :: "addr \<Rightarrow> addr list list \<Rightarrow> addr list list" where
  "remove_slot a [] = []"
| "remove_slot a (s # ss) =
     (if a \<in> set s then (let s' = filter (\<lambda>x. x \<noteq> a) s in if s' = [] then ss else s' # ss)
      else s # remove_slot a ss)"

lemma siblings_unlink:
  assumes "siblings q (P_sibling h) (ev_sibling (at q h)) as" "a \<in> set as" "distinct (h # as)"
  defines "q' \<equiv> unlink_event a q"
  shows "siblings q' (P_sibling h) (ev_sibling (at q' h)) (filter (\<lambda>x. x \<noteq> a) as) \<and>
     (\<forall>x. x \<notin> set as \<longrightarrow> ev_next (at q' x) = ev_next (at q x) \<and> ev_ref (at q' x) = ev_ref (at q x)) \<and>
     (\<forall>x. x \<notin> set (h # as) \<longrightarrow> ev_sibling (at q' x) = ev_sibling (at q x)) \<and> q_queue q' = q_queue q"
  using assms(1-3)
proof (induction as arbitrary: h)
  case (Cons c as)
  have c: "ev_sibling (at q h) = Some c" "ev_ref (at q c) = P_sibling h" "ev_next (at q c) = None"
    "siblings q (P_sibling c) (ev_sibling (at q c)) as"
    using Cons.prems(1) by simp_all
  show ?case
  proof (cases "c = a")
    case False
    then have a: "a \<in> set as" "distinct (c # as)" using Cons.prems by simp_all
    note IH = Cons.IH [OF c(4) a]
    have "ev_sibling (at q' h) = Some c" using IH c(1) Cons.prems(3) by auto
    moreover have "ev_next (at q' c) = None" "ev_ref (at q' c) = P_sibling h"
      using IH c Cons.prems(3) by auto
    ultimately show ?thesis using IH False by auto
  next
    case True
    have rest: "filter (\<lambda>x. x \<noteq> a) (c # as) = as"
      using True Cons.prems(3) by (auto simp: filter_id_conv)
    show ?thesis
    proof (cases as)
      case Nil
      then have "q' = upd_event h (\<lambda>e. e\<lparr>ev_sibling := None\<rparr>) q"
        using c True by (simp add: q'_def unlink_event_def set_ref_def)
      then show ?thesis using Nil True by auto
    next
      case (Cons b bs)
      then have b: "ev_sibling (at q a) = Some b" "ev_next (at q b) = None"
        "siblings q (P_sibling b) (ev_sibling (at q b)) bs"
        using c True by simp_all
      have q': "q' = upd_event b (\<lambda>e. e\<lparr>ev_ref := P_sibling h\<rparr>)
          (upd_event h (\<lambda>e. e\<lparr>ev_sibling := Some b\<rparr>) (upd_event b (\<lambda>e. e\<lparr>ev_next := None\<rparr>) q))"
        using b(1) c True by (simp add: q'_def unlink_event_def set_ref_def)
      have d: "b \<noteq> h" "b \<notin> set bs" "h \<notin> set bs" using Cons.prems(3) Cons by auto
      then have "\<forall>x \<in> set bs. x \<noteq> b \<and> x \<noteq> h" by blast
      then have "\<forall>x \<in> set bs. links (at q' x) = links (at q x)" by (simp add: q' links_def)
      then have "siblings q' (P_sibling b) (ev_sibling (at q b)) bs"
        using b(3) siblings_frame by blast
      then show ?thesis using b(2) d Cons unfolding rest q' by auto
    qed
  qed
qed simp

lemma slots_splice:
  assumes "slots q l (deref l q) ss m" "root_place l" "distinct (concat ss)"
    and "\<forall>x \<in> set (concat ss). links (at q1 x) = links (at q x)" "deref l q1 = deref l q"
    and "\<forall>x \<in> set (concat ss). links (at q' x) = links (at (assign (slot_end l ss) v q1) x)"
    and "deref l q' = deref l (assign (slot_end l ss) v q1)"
    and "slots q' (slot_end l ss) v new None"
  shows "slots q' l (deref l q') (ss @ new) None"
proof -
  let ?q2 = "assign (slot_end l ss) v q1"
  have "slots q1 l (deref l q1) ss m" using assms(1) slots_frame [OF assms(4)] assms(5) by simp
  then have "slots ?q2 l (deref l ?q2) ss v" using assms(3,2) by (rule slots_assign_end)
  then have "slots q' l (deref l q') ss v" using slots_frame [OF assms(6)] assms(7) by simp
  then show ?thesis using assms(8) by (auto simp: slots_append)
qed

lemma deref_upd [simp]: "root_place l \<Longrightarrow> deref l (upd_event a f q) = deref l q"
  by auto

lemma deref_set_ref [simp]: "root_place l \<Longrightarrow> deref l (set_ref v p q) = deref l q"
  by auto

lemma slots_unlink_head:
  assumes "slots q l (deref l q) (ss @ (a # as) # ss') None" "root_place l"
    and "distinct (concat (ss @ (a # as) # ss'))"
  defines "q' \<equiv> unlink_event a q"
  shows "slots q' l (deref l q') (ss @ (if as = [] then ss' else as # ss')) None"
proof -
  let ?p = "slot_end l ss" and ?n = "ev_next (at q a)"
  obtain m where m: "slots q l (deref l q) ss m" "m = Some a" "ev_ref (at q a) = ?p"
      "siblings q (P_sibling a) (ev_sibling (at q a)) as" "slots q (P_next a) ?n ss' None"
    using assms(1) by (auto simp: slots_append)
  have nil: "[] \<notin> set ss" by (rule slots_Nil_not_in [OF m(1)])
  have dist: "distinct (concat ss)" "distinct (concat ss')" "distinct (a # as)"
    and apart: "set (concat ss) \<inter> set (concat ss') = {}" "set (a # as) \<inter> set (concat ss) = {}"
      "set (a # as) \<inter> set (concat ss') = {}"
    using assms(3) by auto
  have n: "?n = Some x \<Longrightarrow> x \<in> set (concat ss')" for x
    using m(5) by (cases ss' rule: list.exhaust; cases "hd ss'") auto
  note keep_at = at_assign_end [OF nil assms(2)]
  show ?thesis
  proof (cases as)
    case Nil
    then have q': "q' = set_ref ?n ?p (assign ?p ?n q)"
      using m by (simp add: q'_def unlink_event_def Let_def)
    have "\<forall>x \<in> set (concat ss'). links (at (assign ?p ?n q) x) = links (at q x)"
    proof
      fix x assume "x \<in> set (concat ss')"
      then have "x \<notin> set (concat ss)" using apart(1) by blast
      from keep_at [OF this, of ?n q] show "links (at (assign ?p ?n q) x) = links (at q x)" by (rule arg_cong)
    qed
    then have "slots (assign ?p ?n q) (P_next a) ?n ss' None"
      using m(5) slots_frame by blast
    then have "slots q' ?p ?n ss' None" unfolding q' by (rule slots_re_ref [OF _ dist(2)])
    moreover have "\<forall>x \<in> set (concat ss). links (at q' x) = links (at (assign ?p ?n q) x)"
    proof
      fix x assume "x \<in> set (concat ss)"
      then have "?n \<noteq> Some x" using n apart(1) by blast
      then show "links (at q' x) = links (at (assign ?p ?n q) x)" by (simp only: q' at_set_ref if_False)
    qed
    moreover have "deref l q' = deref l (assign ?p ?n q)" using assms(2) by (simp add: q')
    ultimately have "slots q' l (deref l q') (ss @ ss') None"
      by (intro slots_splice [OF m(1) assms(2) dist(1), of q]) simp_all
    then show ?thesis using Nil by simp
  next
    case (Cons b bs)
    then have b: "ev_sibling (at q a) = Some b" "siblings q (P_sibling b) (ev_sibling (at q b)) bs"
      using m(4) by simp_all
    let ?q1 = "set_ref ?n (P_next b) (upd_event b (\<lambda>e. e\<lparr>ev_next := ?n\<rparr>) q)"
    have q': "q' = upd_event b (\<lambda>e. e\<lparr>ev_ref := ?p\<rparr>) (assign ?p (Some b) ?q1)"
      using b(1) m(3) by (simp add: q'_def unlink_event_def Let_def)
    have out: "at q' x = (if x = b then (at ?q1 b)\<lparr>ev_ref := ?p\<rparr> else at ?q1 x)" if "x \<notin> set (concat ss)" for x
      using keep_at [OF that, of "Some b" ?q1] unfolding q' by auto
    have bs: "b \<notin> set (concat ss)" "b \<notin> set (concat ss')" "b \<notin> set bs" "?n \<noteq> Some b"
      using apart dist Cons n by auto
    have "\<forall>x \<in> set bs. links (at q' x) = links (at q x)"
    proof
      fix x assume x: "x \<in> set bs"
      then have "x \<notin> set (concat ss)" "x \<noteq> b" "?n \<noteq> Some x" using apart Cons bs n by auto
      then show "links (at q' x) = links (at q x)" by (simp add: out at_set_ref)
    qed
    then have "siblings q' (P_sibling b) (ev_sibling (at q b)) bs" using b(2) siblings_frame by blast
    moreover have "slots q' (P_next b) ?n ss' None"
    proof -
      have "slots (set_ref ?n (P_next b) q) (P_next b) ?n ss' None" by (rule slots_re_ref [OF m(5) dist(2)])
      moreover have "\<forall>x \<in> set (concat ss'). links (at q' x) = links (at (set_ref ?n (P_next b) q) x)"
      proof
        fix x assume x: "x \<in> set (concat ss')"
        then have "x \<notin> set (concat ss)" "x \<noteq> b" using apart bs by auto
        then show "links (at q' x) = links (at (set_ref ?n (P_next b) q) x)" by (simp add: out at_set_ref)
      qed
      ultimately show ?thesis using slots_frame by blast
    qed
    moreover have "ev_next (at q' b) = ?n" "ev_ref (at q' b) = ?p" "ev_sibling (at q' b) = ev_sibling (at q b)"
      using bs out [OF bs(1)] by (simp_all add: at_set_ref)
    ultimately have new: "slots q' ?p (Some b) (as # ss') None" using Cons by simp
    have keep: "\<forall>x \<in> set (concat ss). links (at ?q1 x) = links (at q x)"
    proof
      fix x assume x: "x \<in> set (concat ss)"
      then have "x \<noteq> b" "?n \<noteq> Some x" using bs(1) n apart(1) by blast+
      then show "links (at ?q1 x) = links (at q x)" by (simp add: at_set_ref)
    qed
    have "\<forall>x \<in> set (concat ss). links (at q' x) = links (at (assign ?p (Some b) ?q1) x)"
      using bs(1) unfolding q' by auto
    moreover have "deref l ?q1 = deref l q" "deref l q' = deref l (assign ?p (Some b) ?q1)"
      using assms(2) unfolding q' by simp_all
    ultimately have "slots q' l (deref l q') (ss @ as # ss') None"
      using slots_splice [OF m(1) assms(2) dist(1) keep _ _ _ new] by blast
    then show ?thesis using Cons by simp
  qed
qed

lemma remove_slot_split:
  assumes "a \<notin> set (concat ss)" "a \<in> set s"
  shows "remove_slot a (ss @ s # ss') = ss @ (let s' = filter (\<lambda>x. x \<noteq> a) s in if s' = [] then ss' else s' # ss')"
  using assms by (induction ss) simp_all

lemma slot_of:
  assumes "a \<in> set (concat ss)"
  obtains ss1 s ss2 where "ss = ss1 @ s # ss2" "a \<in> set s" "a \<notin> set (concat ss1)"
proof -
  have "\<exists>s \<in> set ss. a \<in> set s" using assms by auto
  from split_list_first_prop [OF this] show ?thesis using that by auto
qed

lemma slots_unlink:
  assumes "slots q P_queue (q_queue q) ss None" "distinct (concat ss)" "a \<in> set (concat ss)"
  defines "q' \<equiv> unlink_event a q"
  shows "slots q' P_queue (q_queue q') (remove_slot a ss) None"
proof -
  obtain ss1 s ss2 where ss: "ss = ss1 @ s # ss2" "a \<in> set s" "a \<notin> set (concat ss1)"
    by (rule slot_of [OF assms(3)])
  obtain h as where s: "s = h # as" using ss(2) by (cases s) auto
  have dist: "distinct (h # as)" "set s \<inter> set (concat ss1) = {}" "set s \<inter> set (concat ss2) = {}"
    using assms(2) ss(1) s by auto
  show ?thesis
  proof (cases "h = a")
    case True
    then have "filter (\<lambda>x. x \<noteq> a) s = as" using dist(1) s by (auto simp: filter_id_conv)
    then have "remove_slot a ss = ss1 @ (if as = [] then ss2 else as # ss2)"
      unfolding ss(1) remove_slot_split [OF ss(3,2)] by simp
    then show ?thesis
      using slots_unlink_head [of q P_queue ss1 a as ss2] assms(1,2) ss(1) s True by (simp add: q'_def)
  next
    case False
    then have a: "a \<in> set as" "filter (\<lambda>x. x \<noteq> a) s = h # filter (\<lambda>x. x \<noteq> a) as" using ss(2) s by simp_all
    obtain m where m: "slots q P_queue (q_queue q) ss1 m" "m = Some h" "ev_ref (at q h) = slot_end P_queue ss1"
      "siblings q (P_sibling h) (ev_sibling (at q h)) as" "slots q (P_next h) (ev_next (at q h)) ss2 None"
      using assms(1) by (auto simp: ss(1) s slots_append)
    note sib = siblings_unlink [OF m(4) a(1) dist(1), folded q'_def]
    have out: "links (at q' x) = links (at q x)" if "x \<notin> set s" for x
      using sib that s by (simp add: links_def)
    have "\<forall>x \<in> set (concat ss1). links (at q' x) = links (at q x)"
      "\<forall>x \<in> set (concat ss2). links (at q' x) = links (at q x)"
      using dist(2,3) out by blast+
    note frames = this [THEN slots_frame]
    have "q_queue q' = q_queue q" using sib by blast
    then have "slots q' P_queue (q_queue q') ss1 m" using m(1) frames(1) by simp
    moreover have "slots q' (P_next h) (ev_next (at q h)) ss2 None" using m(5) frames(2) by simp
    moreover have "ev_next (at q' h) = ev_next (at q h)" "ev_ref (at q' h) = ev_ref (at q h)"
      using sib dist(1) by auto
    ultimately have "slots q' P_queue (q_queue q') (ss1 @ (h # filter (\<lambda>x. x \<noteq> a) as) # ss2) None"
      using sib m(2,3) by (auto simp: slots_append)
    moreover have "remove_slot a ss = ss1 @ (h # filter (\<lambda>x. x \<noteq> a) as) # ss2"
      unfolding ss(1) remove_slot_split [OF ss(3,2)] a(2) by simp
    ultimately show ?thesis by simp
  qed
qed

lemma content_unlink_event: "content (at (unlink_event a q) x) = content (at q x)"
  by (simp add: unlink_event_def Let_def content_upd_event del: at_upd_event split: option.split)

lemma unlink_event_fields [simp]:
  "q_tick (unlink_event a q) = q_tick q" "q_generation (unlink_event a q) = q_generation q"
  "q_npw2 (unlink_event a q) = q_npw2 q"
  by (simp_all add: unlink_event_def Let_def split: option.split)

lemma unlink_event_frame:
  assumes "slots q P_queue (q_queue q) ss None" "a \<in> set (concat ss)"
  shows "x \<notin> set (concat ss) \<Longrightarrow> at (unlink_event a q) x = at q x"
    and "environment (unlink_event a q) = environment q"
proof -
  note places = slots_places [OF assms]
  have "ev_ref (at q a) \<noteq> P_chunks" using places(3) by auto
  then show "environment (unlink_event a q) = environment q"
    by (simp add: unlink_event_def Let_def split: option.split)
  assume x: "x \<notin> set (concat ss)"
  have "ev_ref (at q a) \<noteq> P_next x \<and> ev_ref (at q a) \<noteq> P_sibling x" using places(3) x by auto
  then have "at (assign (ev_ref (at q a)) v q1) x = at q1 x" for v and q1 :: "'a equeue" by (simp add: at_assign)
  moreover have "ev_next (at q a) \<noteq> Some x" "ev_sibling (at q a) \<noteq> Some x" using places(1,2) x by auto
  ultimately show "at (unlink_event a q) x = at q x"
    by (auto simp: unlink_event_def Let_def at_set_ref split: option.split)
qed

lemma order_remove:
  assumes "distinct (concat ss)" "a \<in> set (concat ss)"
  shows "order (remove_slot a ss) = filter (\<lambda>x. x \<noteq> a) (order ss)"
    and "concat (remove_slot a ss) = filter (\<lambda>x. x \<noteq> a) (concat ss)"
    and "\<forall>s' \<in> set (remove_slot a ss). \<exists>s \<in> set ss. s' = filter (\<lambda>x. x \<noteq> a) s"
proof -
  obtain ss1 s ss2 where ss: "ss = ss1 @ s # ss2" "a \<in> set s" "a \<notin> set (concat ss1)"
    by (rule slot_of [OF assms(2)])
  have a2: "a \<notin> set (concat ss2)" using assms(1) ss by auto
  have id: "filter (\<lambda>x. x \<noteq> a) t = t" if "a \<notin> set t" for t
    using that by (auto simp: filter_id_conv)
  have rs: "remove_slot a ss = ss1 @ (let s' = filter (\<lambda>x. x \<noteq> a) s in if s' = [] then ss2 else s' # ss2)"
    unfolding ss(1) by (rule remove_slot_split [OF ss(3,2)])
  have "a \<notin> set (order ss1)" "a \<notin> set (order ss2)" using ss(3) a2 by simp_all
  then show "order (remove_slot a ss) = filter (\<lambda>x. x \<noteq> a) (order ss)"
    unfolding rs unfolding ss(1) order_append by (simp add: order_def id Let_def rev_filter [symmetric])
  show "concat (remove_slot a ss) = filter (\<lambda>x. x \<noteq> a) (concat ss)"
    unfolding rs unfolding ss(1) using id [OF ss(3)] id [OF a2] by (simp add: Let_def)
  have "\<forall>s' \<in> set ss1 \<union> set ss2. s' = filter (\<lambda>x. x \<noteq> a) s'"
    using ss(3) a2 id by auto
  then show "\<forall>s' \<in> set (remove_slot a ss). \<exists>s \<in> set ss. s' = filter (\<lambda>x. x \<noteq> a) s"
    unfolding rs unfolding ss(1) by (auto simp: Let_def split: if_splits)
qed

lemma queue_inv_unlink:
  assumes "queue_inv q ss" "a \<in> set (concat ss)"
  shows "queue_inv (unlink_event a q) (remove_slot a ss)"
proof -
  let ?q = "unlink_event a q" and ?ss = "remove_slot a ss"
  have inv: "slots q P_queue (q_queue q) ss None" "distinct (concat ss)"
    "\<And>s x. s \<in> set ss \<Longrightarrow> x \<in> set s \<Longrightarrow> due q x = due q (hd s)"
    "sorted_wrt (<) (map (\<lambda>s. due q (hd s)) ss)"
    "\<And>x. x \<in> set (concat ss) \<Longrightarrow> due q x < 2 ^ 31 \<and> (due q x = 0 \<longrightarrow> ev_generation (at q x) = q_generation q)"
    using assms(1) unfolding queue_inv_def by blast+
  have linked: "slots ?q P_queue (q_queue ?q) ?ss None"
    using inv(1,2) assms(2) by (rule slots_unlink)
  have d: "due ?q x = due q x" "ev_generation (at ?q x) = ev_generation (at q x)" for x
    using content_unlink_event [of a q x] by (simp_all add: due_def content_def)
  note rem = order_remove [OF inv(2) assms(2)]
  have nonempty: "[] \<notin> set ?ss" by (rule slots_Nil_not_in [OF linked])
  have in_old: "\<exists>s \<in> set ss. set s' \<subseteq> set s" if "s' \<in> set ?ss" for s'
    using rem(3) that by fastforce
  have same: "due q x = due q (hd s')" if "s' \<in> set ?ss" "x \<in> set s'" for s' x
  proof -
    from in_old [OF that(1)] obtain s where s: "s \<in> set ss" "set s' \<subseteq> set s" by blast
    moreover have "hd s' \<in> set s'" using that(2) by (cases s') auto
    ultimately have "due q x = due q (hd s)" "due q (hd s') = due q (hd s)"
      using inv(3) [OF s(1)] that(2) by blast+
    then show ?thesis by simp
  qed
  have "sorted_wrt (<) (map (\<lambda>s. due q (hd s)) ?ss)"
  proof -
    obtain ss1 s ss2 where ss: "ss = ss1 @ s # ss2" "a \<in> set s" "a \<notin> set (concat ss1)"
      by (rule slot_of [OF assms(2)])
    let ?s = "filter (\<lambda>x. x \<noteq> a) s"
    have rs: "?ss = ss1 @ (if ?s = [] then ss2 else ?s # ss2)"
      unfolding ss(1) remove_slot_split [OF ss(3,2)] by (simp add: Let_def)
    show ?thesis
    proof (cases "?s = []")
      case True
      then show ?thesis using inv(4) unfolding rs unfolding ss(1) by (simp add: sorted_wrt_append)
    next
      case False
      then have "hd ?s \<in> set s" using hd_in_set [OF False] by auto
      then have "due q (hd ?s) = due q (hd s)" using inv(3) [of s "hd ?s"] ss(1) by simp
      then show ?thesis using inv(4) False unfolding rs unfolding ss(1) by (simp add: sorted_wrt_append)
    qed
  qed
  moreover have "distinct (concat ?ss)" unfolding rem(2) using inv(2) by simp
  moreover have "\<forall>x \<in> set (concat ?ss). due q x < 2 ^ 31 \<and> (due q x = 0 \<longrightarrow> ev_generation (at q x) = q_generation q)"
    unfolding rem(2) using inv(5) by simp
  ultimately show ?thesis using linked same by (simp add: queue_inv_def d)
qed

text \<open>The next identifier of an event.\<close>

definition next_id :: "nat \<Rightarrow> u8 \<Rightarrow> u8" where
  "next_id n i = (if push_bit n (ucast (i + 1) :: 32 word) = 0 then 1 else i + 1)"

lemma equeue_incid_next: "equeue_incid a q = upd_event a (\<lambda>e. e\<lparr>ev_id := next_id (q_npw2 q) (ev_id e)\<rparr>) q"
  by (auto simp: equeue_incid_def next_id_def Let_def) (simp_all add: upd_event_def)

lemma next_id_neq_0: "next_id n i \<noteq> 0"
proof
  assume "next_id n i = 0"
  then have "push_bit n (ucast (i + 1) :: 32 word) \<noteq> 0" "i + 1 = 0"
    by (simp_all add: next_id_def split: if_splits)
  then show False by simp
qed

lemma next_id_neq:
  assumes "n < 31"
  shows "next_id n i \<noteq> i"
proof -
  have "i + 1 \<noteq> i" by simp
  moreover have "push_bit n (ucast (i + 1) :: u32) \<noteq> 0" if "i = 1"
  proof
    assume "push_bit n (ucast (i + 1) :: u32) = 0"
    then have "push_bit n (2 :: u32) = 0" using that by simp
    then have "\<not> bit (push_bit n (2 :: u32)) (n + 1)" by simp
    then show False using assms by (simp add: bit_push_bit_iff)
  qed
  ultimately show ?thesis by (auto simp: next_id_def)
qed

lemma sint_due: "due q a < 2 ^ 31 \<Longrightarrow> sint (ev_target (at q a) - q_tick q) = int (due q a)"
  using sint_diff [of "ev_target (at q a)" "q_tick q" "q_tick q"] by (simp add: due_def)

lemma unqueue_holds:
  assumes "queue_holds q xs" "a \<in> set xs"
    and "unat (i AND mask (q_npw2 q)) = a" "ucast (ev_id (at q a)) = signed_drop_bit (q_npw2 q) i"
  shows "\<exists>q'. equeue_unqueue i q = (Some a, q') \<and> queue_holds q' (filter (\<lambda>x. x \<noteq> a) xs) \<and>
     q_tick q' = q_tick q \<and> environment q' = environment q \<and> (\<forall>x. x \<notin> set xs \<longrightarrow> at q' x = at q x) \<and>
     (\<forall>x. content (at q' x) = content (if x = a
        then (at q a)\<lparr>ev_cb := None, ev_period := - 1, ev_id := next_id (q_npw2 q) (ev_id (at q a))\<rparr> else at q x))"
proof -
  obtain ss where ss: "queue_inv q ss" "xs = order ss" using assms(1) by (auto simp: queue_holds_def)
  have a: "a \<in> set (concat ss)" using assms(2) ss(2) by simp
  let ?q1 = "upd_event a (\<lambda>e. e\<lparr>ev_cb := None, ev_period := - 1\<rparr>) q"
  let ?q2 = "unlink_event a ?q1"
  let ?q3 = "equeue_incid a ?q2"
  have inv1: "queue_inv ?q1 ss"
    using ss(1) by (subst queue_inv_frame [of _ q]) (simp_all add: links_def)
  then have "slots ?q1 P_queue (q_queue ?q1) ss None" by (simp add: queue_inv_def)
  note frame = unlink_event_frame [OF this a]
  have d: "due q a < 2 ^ 31" "due q a = 0 \<Longrightarrow> ev_generation (at q a) = q_generation q"
    using ss(1) a unfolding queue_inv_def by blast+
  have "sint (equeue_tickdiff (ev_target (at ?q1 a)) (q_tick ?q1)) = int (due q a)"
    using sint_due [OF d(1)] by (simp add: equeue_tickdiff_def)
  then have "equeue_unqueue i q = (Some a, ?q3)"
    using assms(3,4) d(2) by (cases "due q a = 0") (simp_all add: equeue_unqueue_def Let_def)
  moreover have "queue_inv ?q3 (remove_slot a ss)"
    using queue_inv_unlink [OF inv1 a]
    by (subst queue_inv_frame [of _ ?q2]) (simp_all add: equeue_incid_next links_def)
  moreover have "order (remove_slot a ss) = filter (\<lambda>x. x \<noteq> a) xs"
    using order_remove(1) ss a unfolding queue_inv_def by blast
  moreover have "content (at ?q3 x) = content (if x = a
      then (at q a)\<lparr>ev_cb := None, ev_period := - 1, ev_id := next_id (q_npw2 q) (ev_id (at q a))\<rparr> else at q x)" for x
    using content_unlink_event [of a ?q1 x] by (cases "x = a") (simp_all add: equeue_incid_next content_def)
  moreover have "at ?q3 x = at q x" if "x \<notin> set xs" for x
    using frame(1) [of x] that assms(2) ss(2) by (auto simp: equeue_incid_next)
  moreover have "environment ?q3 = environment q" "q_tick ?q3 = q_tick q"
    using frame(2) by (simp_all add: equeue_incid_next)
  ultimately show ?thesis by (metis queue_holds_def)
qed

end
