(* ===== verification/EqueueDequeue.thy ===== *)
theory EqueueDequeue
  imports EqueueUnqueue
begin

text \<open>
  Dequeuing: the slots that are due become one chain along \<open>next\<close>, in the order in which they run.
\<close>

section \<open>Dequeuing\<close>

fun chain :: "'f equeue \<Rightarrow> addr option \<Rightarrow> addr list \<Rightarrow> addr option \<Rightarrow> bool" where
  "chain q p [] r \<longleftrightarrow> p = r"
| "chain q p (x # xs) r \<longleftrightarrow> p = Some x \<and> chain q (ev_next (at q x)) xs r"

lemma chain_append: "chain q p (xs @ ys) r \<longleftrightarrow> (\<exists>m. chain q p xs m \<and> chain q m ys r)"
  by (induction q p xs r rule: chain.induct) auto

lemma chain_frame:
  "\<forall>x \<in> set xs. ev_next (at q' x) = ev_next (at q x) \<Longrightarrow> chain q' p xs r = chain q p xs r"
  by (induction q p xs r rule: chain.induct) simp_all

text \<open>What changes only links of type \<open>next\<close>.\<close>

definition next_only :: "'f equeue \<Rightarrow> 'f equeue \<Rightarrow> bool" where
  "next_only q q' \<longleftrightarrow>
     (\<forall>x. content (at q' x) = content (at q x) \<and> ev_sibling (at q' x) = ev_sibling (at q x) \<and>
        ev_ref (at q' x) = ev_ref (at q x)) \<and>
     q_tick q' = q_tick q \<and> q_generation q' = q_generation q \<and> q_queue q' = q_queue q \<and>
     environment q' = environment q"

lemma next_only_refl [simp]: "next_only q q"
  by (simp add: next_only_def)

lemma next_only_trans: "next_only q q' \<Longrightarrow> next_only q' q'' \<Longrightarrow> next_only q q''"
  by (simp add: next_only_def)

lemma next_only_upd [simp]: "next_only q (upd_event a (\<lambda>e. e\<lparr>ev_next := v\<rparr>) q)"
  by (simp add: next_only_def)

lemma reverse_slot_ok:
  assumes "siblings q l p as" "distinct as"
  shows "\<exists>p' q'. reverse_slot prev p q = Some (p', q') \<and> chain q' p' (rev as) prev \<and> next_only q q' \<and>
     (\<forall>x. x \<notin> set as \<longrightarrow> ev_next (at q' x) = ev_next (at q x)) \<and> q_head q' = q_head q"
  using assms
proof (induction as arbitrary: q l p prev)
  case Nil
  then show ?case by (simp add: reverse_slot.simps)
next
  case (Cons a as)
  let ?q = "upd_event a (\<lambda>e. e\<lparr>ev_next := prev\<rparr>) q"
  have "siblings ?q (P_sibling a) (ev_sibling (at q a)) as"
    using Cons.prems siblings_frame [of as ?q q] by (auto simp: links_def)
  then obtain p' q' where r: "reverse_slot (Some a) (ev_sibling (at q a)) ?q = Some (p', q')"
      "chain q' p' (rev as) (Some a)" "next_only ?q q'"
      "\<forall>x. x \<notin> set as \<longrightarrow> ev_next (at q' x) = ev_next (at ?q x)" "q_head q' = q_head ?q"
    using Cons.IH [of ?q "P_sibling a" "ev_sibling (at q a)" "Some a"] Cons.prems(2) by auto
  have "reverse_slot prev p q = Some (p', q')"
    using Cons.prems(1) r(1) by (subst reverse_slot.simps) simp
  moreover have "ev_next (at q' a) = prev" using r(4) Cons.prems(2) by simp
  then have "chain q' p' (rev (a # as)) prev" using r(2) by (auto simp: chain_append)
  moreover have "next_only q q'" using r(3) by (rule next_only_trans [OF next_only_upd])
  ultimately show ?case using r(4,5) by auto
qed

lemma next_only_links:
  "next_only q q' \<Longrightarrow> ev_next (at q' x) = ev_next (at q x) \<Longrightarrow> links (at q' x) = links (at q x)"
  by (simp add: next_only_def links_def)

lemma next_only_assign: "p = P_head \<or> p = P_next a \<Longrightarrow> next_only q (assign p v q)"
  by (auto simp: next_only_def)

lemma order_Cons: "order (s # ss) = rev s @ order ss"
  by (simp add: order_def)

lemma flatten_ok:
  assumes "slots q l p ss None" "distinct (concat ss)"
    and "tail = P_head \<or> (\<exists>z. tail = P_next z \<and> z \<notin> set (concat ss))" "ss = [] \<longrightarrow> deref tail q = None"
  shows "\<exists>q'. flatten tail p q = Some q' \<and> chain q' (deref tail q') (order ss) None \<and> next_only q q' \<and>
     (\<forall>x. x \<notin> set (concat ss) \<longrightarrow> tail \<noteq> P_next x \<longrightarrow> ev_next (at q' x) = ev_next (at q x)) \<and>
     (tail \<noteq> P_head \<longrightarrow> q_head q' = q_head q)"
  using assms
proof (induction ss arbitrary: q l p tail)
  case Nil
  then show ?case by (auto simp: flatten.simps order_def)
next
  case (Cons s ss)
  obtain a as where s: "s = a # as" using Cons.prems(1) by (cases s) auto
  have p: "p = Some a" "siblings q (P_sibling a) (ev_sibling (at q a)) as"
    "slots q (P_next a) (ev_next (at q a)) ss None"
    using Cons.prems(1) s by simp_all
  have d: "distinct as" "a \<notin> set as" "a \<notin> set (concat ss)" "set as \<inter> set (concat ss) = {}" "distinct (concat ss)"
    using Cons.prems(2) s by auto
  let ?n = "ev_next (at q a)" and ?q0 = "upd_event a (\<lambda>e. e\<lparr>ev_next := None\<rparr>) q"
  have "siblings ?q0 (P_sibling a) (ev_sibling (at q a)) as"
    using p(2) d(2) siblings_frame [of as ?q0 q] by (auto simp: links_def)
  then obtain p' q1 where r: "reverse_slot (Some a) (ev_sibling (at q a)) ?q0 = Some (p', q1)"
      "chain q1 p' (rev as) (Some a)" "next_only ?q0 q1"
      "\<forall>x. x \<notin> set as \<longrightarrow> ev_next (at q1 x) = ev_next (at ?q0 x)" "q_head q1 = q_head ?q0"
    using reverse_slot_ok [OF _ d(1)] by blast
  have rev: "reverse_slot None p q = Some (p', q1)"
    unfolding p(1) using r(1) by (subst reverse_slot.simps) simp
  let ?q2 = "assign tail p' q1"
  have tail: "tail \<noteq> P_next a" "\<forall>x \<in> set as. tail \<noteq> P_next x" "\<forall>x \<in> set (concat ss). tail \<noteq> P_next x"
    using Cons.prems(3) s by auto
  have q2: "ev_next (at ?q2 x) = (if tail = P_next x then p' else ev_next (at q1 x))" for x
    using Cons.prems(3) by (auto simp: at_assign)
  have no2: "next_only q ?q2"
    using Cons.prems(3) next_only_assign next_only_trans [OF next_only_upd r(3)] next_only_trans by blast
  have "\<forall>x \<in> set (concat ss). links (at ?q2 x) = links (at q x)"
  proof
    fix x assume x: "x \<in> set (concat ss)"
    then have "x \<notin> set as" "x \<noteq> a" using d by auto
    moreover have "tail \<noteq> P_next x" using tail(3) x by blast
    ultimately have "ev_next (at ?q2 x) = ev_next (at q x)" using r(4) by (simp add: q2)
    then show "links (at ?q2 x) = links (at q x)" by (rule next_only_links [OF no2])
  qed
  then have slots2: "slots ?q2 (P_next a) ?n ss None" using p(3) slots_frame by blast
  have "ev_next (at ?q2 a) = None" using r(4) d(2) tail(1) by (simp add: q2)
  then obtain q' where q': "flatten (P_next a) ?n ?q2 = Some q'" "chain q' (deref (P_next a) q') (order ss) None"
      "next_only ?q2 q'"
      "\<forall>x. x \<notin> set (concat ss) \<longrightarrow> P_next a \<noteq> P_next x \<longrightarrow> ev_next (at q' x) = ev_next (at ?q2 x)"
      "q_head q' = q_head ?q2"
    using Cons.IH [OF slots2 d(5), of "P_next a"] d(3) by auto
  have "flatten tail p q = Some q'"
    unfolding p(1) using rev q'(1) p(1) by (subst flatten.simps) (simp add: Let_def)
  moreover have "deref tail q' = p'"
    using Cons.prems(3) q'(4,5) d tail s by (auto simp: at_assign)
  moreover have "chain q' p' (rev as) (Some a)"
  proof -
    have "\<forall>x \<in> set (rev as). ev_next (at q' x) = ev_next (at q1 x)"
    proof
      fix x assume "x \<in> set (rev as)"
      then have x: "x \<in> set as" by simp
      then have "x \<notin> set (concat ss)" "x \<noteq> a" using d by auto
      then show "ev_next (at q' x) = ev_next (at q1 x)" using q'(4) tail(2) x by (simp add: q2)
    qed
    then show ?thesis using r(2) chain_frame by blast
  qed
  then have "chain q' p' (order (s # ss)) None"
    using q'(2) by (auto simp: order_Cons s chain_append)
  moreover have "next_only q q'" by (rule next_only_trans [OF no2 q'(3)])
  moreover have "ev_next (at q' x) = ev_next (at q x)" if "x \<notin> set (concat (s # ss))" "tail \<noteq> P_next x" for x
    using that q'(4) r(4) s by (auto simp: q2)
  moreover have "tail \<noteq> P_head \<Longrightarrow> q_head q' = q_head q"
    using q'(5) r(5) Cons.prems(3) by auto
  ultimately show ?case by blast
qed

lemma slot_end_root: "ss \<noteq> [] \<Longrightarrow> slot_end l ss = slot_end l' ss"
  by (cases ss) simp_all

lemma assign_roots:
  "p \<noteq> P_head \<Longrightarrow> q_head (assign p v q) = q_head q" "p \<noteq> P_queue \<Longrightarrow> q_queue (assign p v q) = q_queue q"
  by (cases p; simp)+

lemma find_unexpired_due:
  assumes "queue_inv q ss" "unat (t - q_tick q) < 2 ^ 31"
    and "slots q1 P_queue (deref l q1) ss None" "\<And>x. ev_target (at q1 x) = ev_target (at q x)"
  shows "find_unexpired q1 t l =
     Some (slot_end l (takeWhile (\<lambda>s. due q (hd s) < Suc (unat (t - q_tick q))) ss))"
proof -
  have "find_unexpired q1 t l = Some (slot_end l
      (takeWhile (\<lambda>s. sint (equeue_tickdiff (ev_target (at q1 (hd s))) t) \<le> 0) ss))"
    using assms(3) by (rule find_unexpired_end)
  also have "takeWhile (\<lambda>s. sint (equeue_tickdiff (ev_target (at q1 (hd s))) t) \<le> 0) ss =
      takeWhile (\<lambda>s. due q (hd s) < Suc (unat (t - q_tick q))) ss"
  proof (rule takeWhile_cong [OF refl])
    fix s assume "s \<in> set ss"
    then have "due q (hd s) < 2 ^ 31" by (rule queue_inv_window [OF assms(1)])
    then have "sint (equeue_tickdiff (ev_target (at q1 (hd s))) t) = int (due q (hd s)) - int (unat (t - q_tick q))"
      using sint_diff [of "ev_target (at q (hd s))" "q_tick q" t] assms(2)
      unfolding due_def equeue_tickdiff_def assms(4) by blast
    then show "sint (equeue_tickdiff (ev_target (at q1 (hd s))) t) \<le> 0 \<longleftrightarrow> due q (hd s) < Suc (unat (t - q_tick q))"
      by linarith
  qed
  finally show ?thesis .
qed

lemma cut_queue_ok:
  assumes slots: "slots q P_queue (q_queue q) (ss1 @ ss2) None" "distinct (concat (ss1 @ ss2))" "q_head q = q_queue q"
  defines "q' \<equiv> cut_queue (slot_end P_head ss1) q"
  shows "slots q' P_queue (q_head q') ss1 None" "slots q' P_queue (q_queue q') ss2 None"
    and "\<And>x. x \<notin> set (concat (ss1 @ ss2)) \<Longrightarrow> at q' x = at q x"
    and "\<And>x. content (at q' x) = content (at q x)"
    and "environment q' = environment q" "q_tick q' = q_tick q" "q_generation q' = q_generation q"
proof -
  obtain m where m: "slots q P_queue (q_queue q) ss1 m" "slots q (slot_end P_queue ss1) m ss2 None"
    using slots(1) by (auto simp: slots_append)
  define p where "p = slot_end P_head ss1"
  have p: "p = P_head \<and> ss1 = [] \<or> (\<exists>y \<in> set (concat ss1). p = P_next y \<and> p = slot_end P_queue ss1 \<and> ss1 \<noteq> [])"
    using slot_end_place [OF slots_Nil_not_in [OF m(1)], of P_head] slot_end_root [of ss1 P_head P_queue]
    by (cases "ss1 = []") (auto simp: p_def)
  have at_p: "deref p q = m"
    using p slots(3) m(1) slots_deref_end [of q P_queue ss1 m] by auto
  define q2 where "q2 = set_ref m P_queue (q\<lparr>q_queue := m\<rparr>)"
  have q': "q' = assign p None q2" by (simp add: q'_def cut_queue_def at_p [unfolded p_def] q2_def p_def)
  have dist: "distinct (concat ss1)" "distinct (concat ss2)" "set (concat ss1) \<inter> set (concat ss2) = {}"
    using slots(2) by auto
  have m_in: "m = Some x \<Longrightarrow> x \<in> set (concat ss2)" for x using slots_first [OF m(2)] by simp
  have out: "links (at q' x) = links (at (set_ref m P_queue q) x)" if "x \<notin> set (concat ss1)" for x
    using p that by (auto simp: q' q2_def at_assign at_set_ref)
  have "slots (set_ref m P_queue q) P_queue m ss2 None" by (rule slots_re_ref [OF m(2) dist(2)])
  moreover have "\<forall>x \<in> set (concat ss2). links (at q' x) = links (at (set_ref m P_queue q) x)"
    using out dist(3) by blast
  moreover have "p \<noteq> P_queue" using p by auto
  then have "q_queue q' = m" unfolding q' q2_def by (subst assign_roots) simp_all
  ultimately show "slots q' P_queue (q_queue q') ss2 None" using slots_frame by metis
  show "slots q' P_queue (q_head q') ss1 None"
  proof (cases "ss1 = []")
    case True
    then show ?thesis using p by (auto simp: q')
  next
    case False
    then have p: "p = slot_end P_queue ss1" "p \<noteq> P_head" using p by auto
    have head: "q_head q' = q_queue q" using slots(3) p(2) by (simp add: q' assign_roots) (simp add: q2_def)
    have "links (at q2 x) = links (at q x)" if "x \<in> set (concat ss1)" for x
    proof -
      have "m \<noteq> Some x" using m_in that dist(3) by blast
      then show ?thesis by (simp add: q2_def at_set_ref)
    qed
    then have "slots q2 P_queue (q_queue q) ss1 m" using m(1) slots_frame by blast
    then show ?thesis unfolding head unfolding q' p(1) by (rule slots_assign_last [OF _ dist(1) False])
  qed
  show "at q' x = at q x" if "x \<notin> set (concat (ss1 @ ss2))" for x
  proof -
    have "p \<noteq> P_next x \<and> p \<noteq> P_sibling x" "m \<noteq> Some x" using p that m_in by auto
    then show ?thesis by (simp add: q' q2_def at_assign at_set_ref)
  qed
  show "content (at q' x) = content (at q x)" for x by (simp add: q' q2_def)
  have "p \<noteq> P_chunks" using p by auto
  then show "environment q' = environment q" by (simp add: q' q2_def)
  show "q_tick q' = q_tick q" "q_generation q' = q_generation q" by (simp_all add: q' q2_def)
qed

text \<open>The queue at a later time, after the slots that are due by then are gone.\<close>

lemma queue_inv_later:
  assumes "queue_inv q (ss1 @ ss2)" "q_tick q' = t"
  defines "k \<equiv> unat (t - q_tick q)"
  assumes "\<forall>s \<in> set ss2. k < due q (hd s)"
    and "slots q' P_queue (q_queue q') ss2 None" "\<And>x. content (at q' x) = content (at q x)"
  shows "queue_inv q' ss2"
proof -
  have inv: "distinct (concat ss2)"
    "\<And>s x. s \<in> set ss2 \<Longrightarrow> x \<in> set s \<Longrightarrow> due q x = due q (hd s)"
    "sorted_wrt (<) (map (\<lambda>s. due q (hd s)) ss2)"
    "\<And>x. x \<in> set (concat ss2) \<Longrightarrow> due q x < 2 ^ 31"
    using assms(1) unfolding queue_inv_def by (auto simp: sorted_wrt_append)
  have due': "due q' x = due q x - k" if "k < due q x" for x
  proof -
    have "ev_target (at q' x) - t = (ev_target (at q x) - q_tick q) - (t - q_tick q)"
      using assms(6) [of x] by (simp add: content_def)
    moreover have "t - q_tick q \<le> ev_target (at q x) - q_tick q"
      using that by (simp add: due_def k_def word_le_nat_alt)
    then have "unat ((ev_target (at q x) - q_tick q) - (t - q_tick q)) = due q x - k"
      unfolding due_def k_def by (rule unat_sub)
    ultimately show ?thesis by (simp only: due_def [of q'] assms(2))
  qed
  have late: "k < due q x" if "s \<in> set ss2" "x \<in> set s" for s x
    using assms(4) inv(2) that by force
  have "due q' x = due q' (hd s)" if "s \<in> set ss2" "x \<in> set s" for s x
    using that inv(2) [of s x] assms(4) by (simp add: due')
  moreover have "sorted_wrt (<) (map (\<lambda>s. due q' (hd s)) ss2)"
    using inv(3) unfolding sorted_wrt_map
    by (rule sorted_wrt_mono_rel [rotated]) (use assms(4) in \<open>simp add: due' diff_less_mono less_imp_le\<close>)
  moreover have "due q' x < 2 ^ 31 \<and> 0 < due q' x" if "x \<in> set (concat ss2)" for x
    using inv(4) [OF that] late that by (auto simp: due')
  ultimately show ?thesis using assms(5) inv(1) unfolding queue_inv_def by (metis less_irrefl)
qed

lemma event_eqI: "content e = content e' \<Longrightarrow> links e = links e' \<Longrightarrow> e = (e' :: 'f event)"
  by (simp add: content_def links_def)

lemma dequeue_holds:
  assumes "queue_holds q xs" "unat (t - q_tick q) < 2 ^ 31"
  defines "k \<equiv> unat (t - q_tick q)"
  shows "\<exists>h q'. equeue_dequeue t q = Some (h, q') \<and> chain q' h (filter (\<lambda>x. due q x \<le> k) xs) None \<and>
     queue_holds q' (filter (\<lambda>x. k < due q x) xs) \<and> q_tick q' = t \<and> q_generation q' = q_generation q + 1 \<and>
     environment q' = environment q \<and> (\<forall>x. content (at q' x) = content (at q x)) \<and> (\<forall>x. x \<notin> set xs \<longrightarrow> at q' x = at q x)"
proof -
  obtain ss where ss: "queue_inv q ss" "xs = order ss" using assms(1) by (auto simp: queue_holds_def)
  then have inv: "slots q P_queue (q_queue q) ss None" "distinct (concat ss)"
    "\<And>s x. s \<in> set ss \<Longrightarrow> x \<in> set s \<Longrightarrow> due q x = due q (hd s)"
    "sorted_wrt (<) (map (\<lambda>s. due q (hd s)) ss)"
    unfolding queue_inv_def by blast+
  define q1 where "q1 = q\<lparr>q_generation := q_generation q + 1, q_tick := t, q_head := q_queue q\<rparr>"
  have q1: "at q1 x = at q x" "q_head q1 = q_queue q1" "q_queue q1 = q_queue q" "environment q1 = environment q" for x
    by (simp_all add: q1_def environment_def)
  have past: "sint (equeue_tickdiff (q_tick q) t) \<le> 0"
    using sint_diff [of "q_tick q" "q_tick q" t] assms(2) by (simp add: equeue_tickdiff_def)
  define ss1 ss2 where "ss1 = takeWhile (\<lambda>s. due q (hd s) < Suc k) ss" and "ss2 = dropWhile (\<lambda>s. due q (hd s) < Suc k) ss"
  note split = sorted_split [OF inv(4), of "Suc k", folded ss1_def ss2_def]
  have slots1: "slots q1 P_queue (q_queue q1) ss None" using inv(1) slots_frame [of ss q1 q] by (simp add: q1)
  have find: "find_unexpired q1 t P_head = Some (slot_end P_head ss1)"
    using find_unexpired_due [OF ss(1) assms(2), of q1 P_head] slots1 by (simp add: q1 ss1_def k_def)
  define q3 where "q3 = cut_queue (slot_end P_head ss1) q1"
  note cut = cut_queue_ok [of q1 ss1 ss2, folded split(1) q3_def, OF slots1 inv(2) q1(2)]
  have dist: "distinct (concat ss1)" "set (concat ss1) \<inter> set (concat ss2) = {}"
    using inv(2) unfolding split(1) by auto
  have "ss1 = [] \<longrightarrow> q_head q3 = None" using cut(1) by auto
  then obtain q' where q': "flatten P_head (q_head q3) q3 = Some q'" "chain q' (q_head q') (order ss1) None"
      "next_only q3 q'" "\<forall>x. x \<notin> set (concat ss1) \<longrightarrow> ev_next (at q' x) = ev_next (at q3 x)"
    using flatten_ok [OF cut(1) dist(1), of P_head] by auto
  have res: "equeue_dequeue t q = Some (q_head q', q')"
    using find past q'(1) by (simp add: equeue_dequeue_def Let_def q1_def q3_def)
  have content': "content (at q' x) = content (at q x)" for x using q'(3) cut(4) by (simp add: next_only_def q1)
  have links': "links (at q' x) = links (at q3 x)" if "x \<notin> set (concat ss1)" for x
    using next_only_links [OF q'(3)] q'(4) that by blast
  have "at q' x = at q3 x" if "x \<notin> set (concat ss1)" for x
    using q'(3) links' [OF that] by (intro event_eqI) (simp_all add: next_only_def)
  then have frame: "at q' x = at q x" if "x \<notin> set xs" for x
    using cut(3) [of x] that ss(2) split(1) by (simp add: q1)
  have generation: "q_generation q' = q_generation q + 1" using q'(3) cut(7) by (simp add: next_only_def q1_def)
  have fields: "q_tick q' = t" "q_queue q' = q_queue q3" "environment q' = environment q"
    using q'(3) cut(5,6) q1(4) by (simp_all add: next_only_def q1_def)
  have "slots q' P_queue (q_queue q') ss2 None"
    unfolding fields using cut(2) links' dist(2) slots_frame [of ss2 q' q3] by blast
  then have "queue_inv q' ss2"
    using ss(1) split fields(1) content'
    by (intro queue_inv_later [of q ss1 ss2]) (simp_all add: k_def Suc_le_eq)
  moreover have "\<forall>x \<in> set (order ss1). due q x \<le> k" "\<forall>x \<in> set (order ss2). k < due q x"
    using split inv(3) by (force simp: less_Suc_eq_le Suc_le_eq)+
  then have "filter (\<lambda>x. due q x \<le> k) xs = order ss1" "filter (\<lambda>x. k < due q x) xs = order ss2"
    unfolding ss(2) split(1) order_append filter_append by (force simp: filter_id_conv filter_empty_conv)+
  ultimately show ?thesis
    using res q'(2) generation fields content' frame unfolding queue_holds_def by metis
qed

end
