(* ===== verification/EqueueMemory.thy ===== *)
theory EqueueMemory
  imports EqueueDequeue
begin

text \<open>
  The memory of the event queue: the free blocks are kept in classes of equal size, the sizes growing
  along \<open>next\<close>; allocation and deallocation keep the blocks apart.
\<close>

section \<open>Memory\<close>

text \<open>
  The free chunks: a list of classes linked by \<open>next\<close>, each a list of chunks of one size linked by
  \<open>sibling\<close>.
\<close>

fun class_chunks :: "'f equeue \<Rightarrow> addr option \<Rightarrow> addr list \<Rightarrow> bool" where
  "class_chunks q p [] \<longleftrightarrow> p = None"
| "class_chunks q p (a # as) \<longleftrightarrow> p = Some a \<and> class_chunks q (ev_sibling (at q a)) as"

fun chunks :: "'f equeue \<Rightarrow> addr option \<Rightarrow> addr list list \<Rightarrow> addr option \<Rightarrow> bool" where
  "chunks q p [] r \<longleftrightarrow> p = r"
| "chunks q p ([] # cs) r \<longleftrightarrow> False"
| "chunks q p ((a # as) # cs) r \<longleftrightarrow>
     p = Some a \<and> class_chunks q (ev_sibling (at q a)) as \<and> chunks q (ev_next (at q a)) cs r"

abbreviation chunk_links :: "'f event \<Rightarrow> addr option \<times> addr option" where
  "chunk_links e \<equiv> (ev_next e, ev_sibling e)"

lemma chunks_append: "chunks q p (cs @ cs') r \<longleftrightarrow> (\<exists>m. chunks q p cs m \<and> chunks q m cs' r)"
  by (induction q p cs r rule: chunks.induct) auto

lemma class_chunks_frame:
  "\<forall>a \<in> set as. ev_sibling (at q' a) = ev_sibling (at q a) \<Longrightarrow> class_chunks q' p as = class_chunks q p as"
  by (induction q p as rule: class_chunks.induct) simp_all

lemma chunks_frame:
  "\<forall>a \<in> set (concat cs). chunk_links (at q' a) = chunk_links (at q a) \<Longrightarrow> chunks q' p cs r = chunks q p cs r"
proof (induction q p cs r rule: chunks.induct)
  case (3 q p a as cs r)
  have "class_chunks q' (ev_sibling (at q a)) as = class_chunks q (ev_sibling (at q a)) as"
    using 3(2) by (intro class_chunks_frame) simp
  then show ?case using 3 by simp
qed simp_all

lemma chunks_Nil_not_in: "chunks q p cs r \<Longrightarrow> [] \<notin> set cs"
  by (induction q p cs r rule: chunks.induct) auto

lemma chunks_deref_end: "chunks q (deref l q) cs r \<Longrightarrow> deref (slot_end l cs) q = r"
proof (induction cs arbitrary: l)
  case (Cons s cs)
  then show ?case by (cases s) auto
qed simp

lemma chunks_assign_end:
  assumes "chunks q (q_chunks q) cs r" "distinct (concat cs)"
  shows "chunks (assign (slot_end P_chunks cs) v q) (q_chunks (assign (slot_end P_chunks cs) v q)) cs v"
proof (cases cs rule: rev_cases)
  case Nil
  then show ?thesis by simp
next
  case (snoc cs' s)
  obtain a as where s: "s = a # as"
    using chunks_Nil_not_in [OF assms(1)] snoc by (cases s) auto
  obtain m where m: "chunks q (q_chunks q) cs' m" "m = Some a" "class_chunks q (ev_sibling (at q a)) as"
    using assms(1) by (auto simp: snoc s chunks_append)
  let ?q = "assign (P_next a) v q"
  have "a \<notin> set as" "a \<notin> set (concat cs')" using assms(2) by (auto simp: snoc s)
  then have "\<forall>x \<in> set as. ev_sibling (at ?q x) = ev_sibling (at q x)"
    "\<forall>x \<in> set (concat cs'). chunk_links (at ?q x) = chunk_links (at q x)" by auto
  then have "class_chunks ?q (ev_sibling (at q a)) as" "chunks ?q (q_chunks q) cs' m"
    using m(1,3) class_chunks_frame chunks_frame by blast+
  then show ?thesis using m(2) by (auto simp: snoc s chunks_append)
qed

text \<open>The sizes grow from class to class.\<close>

abbreviation sz :: "'f equeue \<Rightarrow> addr \<Rightarrow> nat" where
  "sz q a \<equiv> ev_size (at q a)"

definition chunks_inv :: "'f equeue \<Rightarrow> addr list list \<Rightarrow> bool" where
  "chunks_inv q cs \<longleftrightarrow>
     chunks q (q_chunks q) cs None \<and> distinct (concat cs) \<and>
     (\<forall>s \<in> set cs. \<forall>a \<in> set s. sz q a = sz q (hd s)) \<and> sorted_wrt (<) (map (\<lambda>s. sz q (hd s)) cs)"

definition free_chunks :: "'f equeue \<Rightarrow> addr set \<Rightarrow> bool" where
  "free_chunks q F \<longleftrightarrow> (\<exists>cs. chunks_inv q cs \<and> F = set (concat cs))"

lemma find_chunk_end:
  assumes "chunks q (deref l q) cs None"
  shows "find_chunk q n l = Some (slot_end l (takeWhile (\<lambda>s. sz q (hd s) < n) cs))"
  using assms
proof (induction cs arbitrary: l)
  case Nil
  then show ?case by (simp add: find_chunk.simps)
next
  case (Cons s cs)
  then obtain a as where "s = a # as" by (cases s) auto
  with Cons show ?case
    by (subst find_chunk.simps) auto
qed

text \<open>The place for a size, and the classes before and after it.\<close>

lemma chunk_place:
  fixes n :: nat
  assumes "chunks_inv q cs"
  defines "cs1 \<equiv> takeWhile (\<lambda>s. sz q (hd s) < n) cs" and "cs2 \<equiv> dropWhile (\<lambda>s. sz q (hd s) < n) cs"
  shows "find_chunk q n P_chunks = Some (slot_end P_chunks cs1)" "cs = cs1 @ cs2"
    and "\<forall>a \<in> set (concat cs1). sz q a < n" "\<forall>a \<in> set (concat cs2). n \<le> sz q a"
    and "\<exists>m. chunks q (q_chunks q) cs1 m \<and> chunks q m cs2 None \<and> deref (slot_end P_chunks cs1) q = m"
proof -
  have inv: "chunks q (q_chunks q) cs None" "sorted_wrt (<) (map (\<lambda>s. sz q (hd s)) cs)"
    "\<And>s a. s \<in> set cs \<Longrightarrow> a \<in> set s \<Longrightarrow> sz q a = sz q (hd s)"
    using assms(1) unfolding chunks_inv_def by blast+
  show "find_chunk q n P_chunks = Some (slot_end P_chunks cs1)"
    unfolding cs1_def by (rule find_chunk_end) (use inv(1) in simp)
  note split = sorted_split [OF inv(2), of n, folded cs1_def cs2_def]
  show cs: "cs = cs1 @ cs2" by (rule split(1))
  show "\<forall>a \<in> set (concat cs1). sz q a < n"
  proof
    fix a assume "a \<in> set (concat cs1)"
    then obtain s where "s \<in> set cs1" "a \<in> set s" by auto
    then show "sz q a < n" using split(2) inv(3) [of s a] cs by simp
  qed
  show "\<forall>a \<in> set (concat cs2). n \<le> sz q a"
  proof
    fix a assume "a \<in> set (concat cs2)"
    then obtain s where "s \<in> set cs2" "a \<in> set s" by auto
    then show "n \<le> sz q a" using split(3) inv(3) [of s a] cs by simp
  qed
  obtain m where m: "chunks q (q_chunks q) cs1 m" "chunks q m cs2 None"
    using inv(1) by (auto simp: cs chunks_append)
  moreover have "deref (slot_end P_chunks cs1) q = m"
    by (rule chunks_deref_end) (use m(1) in simp)
  ultimately show "\<exists>m. chunks q (q_chunks q) cs1 m \<and> chunks q m cs2 None \<and> deref (slot_end P_chunks cs1) q = m"
    by blast
qed

lemma chunk_place_ex:
  assumes "chunks_inv q cs"
  obtains cs1 cs2 m where "cs = cs1 @ cs2" "find_chunk q n P_chunks = Some (slot_end P_chunks cs1)"
    "\<forall>a \<in> set (concat cs1). sz q a < n" "\<forall>a \<in> set (concat cs2). n \<le> sz q a"
    "chunks q (q_chunks q) cs1 m" "chunks q m cs2 None" "deref (slot_end P_chunks cs1) q = m"
  using chunk_place [OF assms, of n] that by blast

lemma chunks_splice:
  assumes "chunks q (q_chunks q) cs m" "distinct (concat cs)"
    and "\<forall>x \<in> set (concat cs). chunk_links (at q' x) = chunk_links (at (assign (slot_end P_chunks cs) v q1) x)"
    and "\<forall>x \<in> set (concat cs). chunk_links (at q1 x) = chunk_links (at q x)" "q_chunks q1 = q_chunks q"
    and "q_chunks q' = q_chunks (assign (slot_end P_chunks cs) v q1)" "chunks q' v new None"
  shows "chunks q' (q_chunks q') (cs @ new) None"
proof -
  let ?q2 = "assign (slot_end P_chunks cs) v q1"
  have "chunks q1 (q_chunks q1) cs m" using assms(1,5) chunks_frame [OF assms(4)] by simp
  then have "chunks ?q2 (q_chunks ?q2) cs v" using assms(2) by (rule chunks_assign_end)
  then have "chunks q' (q_chunks q') cs v" using chunks_frame [OF assms(3)] assms(6) by simp
  then show ?thesis using assms(7) by (auto simp: chunks_append)
qed

lemma at_chunk_end:
  assumes "[] \<notin> set cs" "x \<notin> set (concat cs)"
  shows "at (assign (slot_end P_chunks cs) v q) x = at q x"
proof (cases cs rule: rev_cases)
  case (snoc cs' s)
  then have "hd s \<noteq> x" using assms hd_in_concat [of s cs] by auto
  then show ?thesis by (simp add: snoc)
qed simp

lemma assign_slab [simp]:
  "q_slab_data (assign p v q) = q_slab_data q" "q_slab_size (assign p v q) = q_slab_size q"
  by (cases p; simp add: upd_event_def)+

lemma sz_assign [simp]: "sz (assign p v q) x = sz q x"
  using content_assign [of p v q x] by (simp add: content_def)

lemma take_chunk_inv:
  assumes "chunks_inv q (cs1 @ (a # as) # cs2)"
  defines "q' \<equiv> take_chunk (slot_end P_chunks cs1) a q"
  shows "chunks_inv q' (cs1 @ (if as = [] then cs2 else as # cs2))"
proof -
  let ?p = "slot_end P_chunks cs1" and ?n = "ev_next (at q a)" and ?rest = "if as = [] then cs2 else as # cs2"
  have inv: "distinct (concat (cs1 @ (a # as) # cs2))"
    "\<forall>s \<in> set (cs1 @ (a # as) # cs2). \<forall>x \<in> set s. sz q x = sz q (hd s)"
    "sorted_wrt (<) (map (\<lambda>s. sz q (hd s)) (cs1 @ (a # as) # cs2))"
    using assms(1) unfolding chunks_inv_def by blast+
  obtain m where m: "chunks q (q_chunks q) cs1 m" "m = Some a" "class_chunks q (ev_sibling (at q a)) as"
      "chunks q ?n cs2 None"
    using assms(1) by (auto simp: chunks_inv_def chunks_append)
  have nil: "[] \<notin> set cs1" by (rule chunks_Nil_not_in [OF m(1)])
  have apart: "distinct (concat cs1)" "set (concat cs1) \<inter> set (concat cs2) = {}" "set as \<inter> set (concat cs1) = {}"
    "set as \<inter> set (concat cs2) = {}" "distinct as"
    using inv(1) by auto
  note keep = at_chunk_end [OF nil]
  have "chunks q' (q_chunks q') (cs1 @ ?rest) None"
  proof (cases as)
    case Nil
    then have q': "q' = assign ?p ?n q" using m(3) by (simp add: q'_def take_chunk_def)
    have "\<forall>x \<in> set (concat cs2). chunk_links (at q' x) = chunk_links (at q x)"
    proof
      fix x assume "x \<in> set (concat cs2)"
      then have "x \<notin> set (concat cs1)" using apart by blast
      from keep [OF this, of ?n q] show "chunk_links (at q' x) = chunk_links (at q x)" by (simp add: q')
    qed
    then have "chunks q' ?n cs2 None" using m(4) chunks_frame by blast
    then show ?thesis
      using Nil by (intro chunks_splice [OF m(1) apart(1), of _ ?n q]) (simp_all add: q')
  next
    case (Cons b bs)
    have q': "q' = upd_event b (\<lambda>e. e\<lparr>ev_next := ?n\<rparr>) (assign ?p (Some b) q)"
      using m(3) Cons by (simp add: q'_def take_chunk_def)
    have out: "at q' x = (if x = b then (at q b)\<lparr>ev_next := ?n\<rparr> else at q x)" if "x \<notin> set (concat cs1)" for x
      using keep [OF that, of "Some b" q] by (auto simp: q')
    have b: "b \<notin> set (concat cs1)" "b \<notin> set (concat cs2)" "b \<notin> set bs" using apart Cons by auto
    have "\<forall>x \<in> set bs. ev_sibling (at q' x) = ev_sibling (at q x)"
    proof
      fix x assume "x \<in> set bs"
      then have "x \<notin> set (concat cs1)" using apart Cons by auto
      then show "ev_sibling (at q' x) = ev_sibling (at q x)" by (simp add: out)
    qed
    then have "class_chunks q' (ev_sibling (at q b)) bs" using m(3) Cons class_chunks_frame [of bs q' q] by simp
    moreover have "\<forall>x \<in> set (concat cs2). chunk_links (at q' x) = chunk_links (at q x)"
    proof
      fix x assume "x \<in> set (concat cs2)"
      then have "x \<notin> set (concat cs1)" "x \<noteq> b" using apart b by blast+
      then show "chunk_links (at q' x) = chunk_links (at q x)" by (simp add: out)
    qed
    then have "chunks q' ?n cs2 None" using m(4) chunks_frame by blast
    ultimately have new: "chunks q' (Some b) (as # cs2) None" using out [OF b(1)] Cons by simp
    have "chunks q' (q_chunks q') (cs1 @ as # cs2) None"
      by (rule chunks_splice [OF m(1) apart(1) _ _ _ _ new, of q]) (use b in \<open>auto simp: q'\<close>)
    then show ?thesis using Cons by simp
  qed
  moreover have "sz q' x = sz q x" for x
    by (simp add: q'_def take_chunk_def Let_def split: option.split)
  moreover have "\<forall>s \<in> set (cs1 @ ?rest). \<forall>x \<in> set s. sz q x = sz q (hd s)"
    "sorted_wrt (<) (map (\<lambda>s. sz q (hd s)) (cs1 @ ?rest))"
    using inv(2,3) by (auto simp: sorted_wrt_append)
  moreover have "distinct (concat (cs1 @ ?rest))" using inv(1) by (auto split: if_splits)
  ultimately show ?thesis by (simp add: chunks_inv_def)
qed

lemma give_chunk_inv:
  assumes "chunks_inv q (cs1 @ cs2)" "a \<notin> set (concat (cs1 @ cs2))" "\<forall>x \<in> set (concat cs1). sz q x < sz q a"
    and "\<forall>x \<in> set (concat cs2). sz q a \<le> sz q x" "chunks q (q_chunks q) cs1 m" "chunks q m cs2 None"
  defines "q1 \<equiv> (case m of
      Some b \<Rightarrow> if sz q b = sz q a then upd_event a (\<lambda>e. e\<lparr>ev_sibling := Some b, ev_next := ev_next (at q b)\<rparr>) q
                else upd_event a (\<lambda>e. e\<lparr>ev_sibling := None, ev_next := Some b\<rparr>) q
    | None \<Rightarrow> upd_event a (\<lambda>e. e\<lparr>ev_sibling := None, ev_next := None\<rparr>) q)"
  defines "q' \<equiv> assign (slot_end P_chunks cs1) (Some a) q1"
  shows "\<exists>cs. chunks_inv q' cs \<and> set (concat cs) = insert a (set (concat (cs1 @ cs2)))"
proof -
  let ?p = "slot_end P_chunks cs1"
  have inv: "distinct (concat (cs1 @ cs2))"
    "\<And>s x. s \<in> set (cs1 @ cs2) \<Longrightarrow> x \<in> set s \<Longrightarrow> sz q x = sz q (hd s)"
    "sorted_wrt (<) (map (\<lambda>s. sz q (hd s)) (cs1 @ cs2))"
    using assms(1) unfolding chunks_inv_def by blast+
  have nil: "[] \<notin> set cs1" "[] \<notin> set cs2" by (rule chunks_Nil_not_in [OF assms(5)], rule chunks_Nil_not_in [OF assms(6)])
  have dist: "distinct (concat cs1)" "set (concat cs1) \<inter> set (concat cs2) = {}" "a \<notin> set (concat cs1)" "a \<notin> set (concat cs2)"
    using inv(1) assms(2) by auto
  have q1: "at q1 x = at q x" "q_chunks q1 = q_chunks q" if "x \<noteq> a" for x
    using that by (simp_all add: q1_def split: option.split)
  have q1c: "q_chunks q1 = q_chunks q" by (simp add: q1_def split: option.split)
  have sz': "sz q' x = sz q x" for x by (simp add: q'_def q1_def split: option.split)
  have out: "at q' x = at q1 x" if "x \<notin> set (concat cs1)" for x
    unfolding q'_def by (rule at_chunk_end [OF nil(1) that])
  have old: "\<forall>x \<in> set (concat cs2). chunk_links (at q' x) = chunk_links (at q x)"
  proof
    fix x assume "x \<in> set (concat cs2)"
    then have "x \<notin> set (concat cs1)" "x \<noteq> a" using dist by blast+
    then show "chunk_links (at q' x) = chunk_links (at q x)" by (simp add: out q1)
  qed
  have new: "chunks_inv q' (cs1 @ new)"
    if "chunks q' (Some a) new None" "distinct (concat (cs1 @ new))"
      "\<And>s x. s \<in> set new \<Longrightarrow> x \<in> set s \<Longrightarrow> sz q x = sz q (hd s)"
      "sorted_wrt (<) (map (\<lambda>s. sz q (hd s)) (cs1 @ new))" for new
  proof -
    have "\<forall>x \<in> set (concat cs1). chunk_links (at q1 x) = chunk_links (at q x)"
      using dist(3) q1(1) by metis
    then have "chunks q' (q_chunks q') (cs1 @ new) None"
      by (intro chunks_splice [OF assms(5) dist(1), of _ "Some a" q1]) (simp_all add: q'_def [symmetric] q1c that(1))
    then show ?thesis using that inv(2) by (auto simp: chunks_inv_def sz')
  qed
  have below: "\<forall>s \<in> set cs1. sz q (hd s) < sz q a"
    using assms(3) nil(1) hd_in_concat by metis
  have above: "\<forall>s \<in> set cs2. sz q a \<le> sz q (hd s)"
    using assms(4) nil(2) hd_in_concat by metis
  show ?thesis
  proof (cases cs2)
    case Nil
    then have "chunks q' (Some a) [[a]] None"
      using out [OF dist(3)] assms(6) by (simp add: q1_def)
    then have "chunks_inv q' (cs1 @ [[a]])"
      using inv(3) below dist Nil by (intro new) (auto simp: sorted_wrt_append)
    then show ?thesis using Nil by (intro exI [of _ "cs1 @ [[a]]"]) auto
  next
    case (Cons s rest)
    then obtain b bs where s: "s = b # bs" using assms(6) by (cases s) auto
    have b: "m = Some b" "class_chunks q (ev_sibling (at q b)) bs" "chunks q (ev_next (at q b)) rest None" "b \<noteq> a"
      using assms(6) Cons s dist by auto
    have cls: "class_chunks q' (ev_sibling (at q b)) bs" "chunks q' (ev_next (at q b)) rest None"
      "chunks q' (Some b) cs2 None"
    proof -
      have "\<forall>x \<in> set bs. ev_sibling (at q' x) = ev_sibling (at q x)" using old Cons s by simp
      then show "class_chunks q' (ev_sibling (at q b)) bs" using b(2) class_chunks_frame by blast
      have "\<forall>x \<in> set (concat rest). chunk_links (at q' x) = chunk_links (at q x)" using old Cons by simp
      then show "chunks q' (ev_next (at q b)) rest None" using b(3) chunks_frame by blast
      show "chunks q' (Some b) cs2 None" using assms(6) b(1) chunks_frame [OF old] by simp
    qed
    have sib: "ev_sibling (at q' b) = ev_sibling (at q b)" using old Cons s by simp
    show ?thesis
    proof (cases "sz q b = sz q a")
      case True
      have "chunks q' (Some a) ((a # s) # rest) None"
        using cls(1,2) sib out [OF dist(3)] b True s by (simp add: q1_def)
      moreover have "distinct (concat (cs1 @ (a # s) # rest))" using inv(1) assms(2) Cons by auto
      moreover have "sorted_wrt (<) (map (\<lambda>s. sz q (hd s)) (cs1 @ (a # s) # rest))"
        using inv(3) Cons True s by (simp add: sorted_wrt_append)
      moreover have "sz q x = sz q (hd t)" if "t \<in> set ((a # s) # rest)" "x \<in> set t" for t x
        using that inv(2) [of s x] inv(2) [of t x] Cons True s by auto
      ultimately have "chunks_inv q' (cs1 @ (a # s) # rest)" by (intro new)
      then show ?thesis using Cons by (intro exI [of _ "cs1 @ (a # s) # rest"]) auto
    next
      case False
      have "chunks q' (Some a) ([a] # cs2) None"
        using cls(3) out [OF dist(3)] b False by (simp add: q1_def)
      moreover have "distinct (concat (cs1 @ [a] # cs2))" using inv(1) assms(2) by auto
      moreover have "sorted_wrt (<) (map (\<lambda>s. sz q (hd s)) (cs1 @ [a] # cs2))"
      proof -
        have "sz q a < sz q (hd s)" using above Cons s False by force
        moreover have "\<forall>t \<in> set rest. sz q (hd s) < sz q (hd t)" using inv(3) Cons by (simp add: sorted_wrt_append)
        ultimately have "\<forall>t \<in> set cs2. sz q a < sz q (hd t)" using Cons by force
        then show ?thesis using inv(3) below by (auto simp: sorted_wrt_append)
      qed
      moreover have "sz q x = sz q (hd t)" if "t \<in> set ([a] # cs2)" "x \<in> set t" for t x
        using that inv(2) [of t x] by auto
      ultimately have "chunks_inv q' (cs1 @ [a] # cs2)" by (intro new)
      then show ?thesis by (intro exI [of _ "cs1 @ [a] # cs2"]) auto
    qed
  qed
qed

text \<open>
  The blocks of a buffer of \<open>total_size\<close> bytes: \<open>F\<close> free, which are those in the lists of free chunks, and
  \<open>U\<close> in use. Together they are all of the buffer below the slab: they do not overlap, and every byte
  there belongs to one of them.
\<close>

definition apart :: "'f equeue \<Rightarrow> addr \<Rightarrow> addr \<Rightarrow> bool" where
  "apart q a b \<longleftrightarrow> a + sz q a \<le> b \<or> b + sz q b \<le> a"

definition blocks :: "nat \<Rightarrow> 'f equeue \<Rightarrow> addr set \<Rightarrow> addr set \<Rightarrow> bool" where
  "blocks total_size q F U \<longleftrightarrow>
     free_chunks q F \<and> F \<inter> U = {} \<and>
     (\<forall>a \<in> F \<union> U. 0 < sz q a \<and> a + sz q a \<le> q_slab_data q) \<and>
     (\<forall>a \<in> F \<union> U. \<forall>b \<in> F \<union> U. a \<noteq> b \<longrightarrow> apart q a b) \<and>
     (\<forall>i < q_slab_data q. \<exists>a \<in> F \<union> U. a \<le> i \<and> i < a + sz q a) \<and>
     q_slab_data q + q_slab_size q = total_size"

lemma blocks_partition:
  assumes "blocks total_size q F U" "i < q_slab_data q"
  shows "\<exists>!a. a \<in> F \<union> U \<and> a \<le> i \<and> i < a + sz q a"
proof -
  obtain a where "a \<in> F \<union> U" "a \<le> i" "i < a + sz q a" using assms unfolding blocks_def by blast
  moreover have "b = a" if "b \<in> F \<union> U" "b \<le> i" "i < b + sz q b" for b
  proof (rule ccontr)
    assume "b \<noteq> a"
    then have "apart q b a" using assms(1) that(1) calculation(1) unfolding blocks_def by blast
    then show False using that calculation by (auto simp: apart_def)
  qed
  ultimately show ?thesis by blast
qed

lemma take_chunk_fields [simp]:
  "sz (take_chunk p a q) x = sz q x" "q_slab_data (take_chunk p a q) = q_slab_data q"
  "q_slab_size (take_chunk p a q) = q_slab_size q"
  by (simp_all add: take_chunk_def Let_def split: option.split) (simp_all add: upd_event_def)

lemma chunk_size_enough:
  assumes "n < 2 ^ 32 - 40"
  shows "n + sizeof_event \<le> chunk_size n" "chunk_size n < n + sizeof_event + 4" "4 dvd chunk_size n" "0 < chunk_size n"
proof -
  have "chunk_size n = (n + sizeof_event + 3) div 4 * 4" using assms by (simp add: chunk_size_def sizeof_event_def)
  then show "n + sizeof_event \<le> chunk_size n" "chunk_size n < n + sizeof_event + 4" "4 dvd chunk_size n" "0 < chunk_size n"
    by (simp_all add: sizeof_event_def)
qed

text \<open>What memory management leaves alone.\<close>

definition same_queue :: "'f equeue \<Rightarrow> 'f equeue \<Rightarrow> bool" where
  "same_queue q q' \<longleftrightarrow> q_queue q' = q_queue q \<and> q_tick q' = q_tick q \<and> q_generation q' = q_generation q \<and>
     q_npw2 q' = q_npw2 q \<and> q_clock q' = q_clock q \<and> q_background q' = q_background q"

lemma assign_environment [simp]:
  "q_clock (assign p v q) = q_clock q" "q_background (assign p v q) = q_background q"
  by (cases p; simp add: upd_event_def)+

text \<open>What an allocation of \<open>n\<close> bytes, header included, gives; \<open>F\<close> are the free blocks before it.\<close>

definition allocated ::
    "nat \<Rightarrow> nat \<Rightarrow> 'f equeue \<Rightarrow> addr set \<Rightarrow> addr set \<Rightarrow> addr \<Rightarrow> 'f equeue \<Rightarrow> bool" where
  "allocated total_size n q F U a q' \<longleftrightarrow>
     a \<notin> U \<and> n \<le> sz q' a \<and> blocks total_size q' (F - {a}) (insert a U) \<and>
     (\<forall>x. x \<notin> insert a F \<longrightarrow> at q' x = at q x) \<and>
     (\<forall>x. ev_id (at q' x) = (if x = a \<and> a \<notin> F then 1 else ev_id (at q x))) \<and> same_queue q q'"

lemma alloc_chunk:
  assumes "blocks total_size q F U" "chunks_inv q (cs1 @ (a # as) # rest)" "F = set (concat (cs1 @ (a # as) # rest))"
    and "n \<le> sz q a"
  shows "allocated total_size n q F U a (take_chunk (slot_end P_chunks cs1) a q)"
proof -
  let ?p = "slot_end P_chunks cs1"
  let ?q = "take_chunk ?p a q"
  let ?cs = "cs1 @ (if as = [] then rest else as # rest)"
  have chunks: "chunks q (q_chunks q) (cs1 @ (a # as) # rest) None" and dist: "distinct (concat (cs1 @ (a # as) # rest))"
    using assms(2) by (simp_all only: chunks_inv_def)
  have inv: "chunks_inv ?q ?cs" by (rule take_chunk_inv) (rule assms(2))
  have "a \<notin> set (concat ?cs)" using dist by (auto split: if_splits)
  moreover have "F = insert a (set (concat ?cs))" unfolding assms(3) by (auto split: if_splits)
  ultimately have "set (concat ?cs) = F - {a}" by blast
  then have "free_chunks ?q (F - {a})" using inv unfolding free_chunks_def by metis
  moreover have a: "a \<in> F" "a \<notin> U" using assms(1,3) by (auto simp: blocks_def)
  ultimately have "blocks total_size ?q (F - {a}) (insert a U)"
    using assms(1) by (auto simp: blocks_def apart_def)
  moreover have "at ?q x = at q x" if "x \<notin> insert a F" for x
  proof -
    have "x \<notin> set (concat cs1)" using that assms(3) by auto
    moreover have "[] \<notin> set cs1" using chunks chunks_Nil_not_in by (metis chunks_append)
    ultimately have end_frame: "at (assign ?p v q') x = at q' x" for v and q' :: "'a equeue"
      using at_chunk_end by metis
    have "s \<noteq> x" if "ev_sibling (at q a) = Some s" for s
    proof
      assume "s = x"
      then have "x \<in> set as" using chunks that by (cases as) (auto simp: chunks_append)
      then show False using \<open>x \<notin> insert a F\<close> assms(3) by auto
    qed
    then show ?thesis by (auto simp: take_chunk_def Let_def end_frame split: option.split)
  qed
  moreover have "?p \<noteq> P_queue" by (cases "cs1 = []") (simp_all add: slot_end_not_Nil)
  then have "same_queue q ?q"
    by (simp add: take_chunk_def Let_def assign_roots same_queue_def split: option.split) (simp add: upd_event_def)
  moreover have "ev_id (at ?q x) = ev_id (at q x)" for x
    by (simp add: take_chunk_def Let_def at_assign split: option.split)
  ultimately show ?thesis using a assms(4) by (simp add: allocated_def)
qed

lemma chunks_inv_cong:
  assumes "chunks_inv q cs" "q_chunks q' = q_chunks q"
    and "\<And>x. x \<in> set (concat cs) \<Longrightarrow> chunk_links (at q' x) = chunk_links (at q x) \<and> sz q' x = sz q x"
  shows "chunks_inv q' cs"
proof -
  have "chunks q' (q_chunks q') cs None = chunks q (q_chunks q) cs None"
    unfolding assms(2) using assms(3) by (intro chunks_frame) simp
  moreover have sz: "sz q' x = sz q x" if "s \<in> set cs" "x \<in> set s" for s x using assms(3) [of x] that by auto
  moreover have hd: "sz q' (hd s) = sz q (hd s)" if "s \<in> set cs" for s
    using sz [OF that, of "hd s"] that assms(1) chunks_Nil_not_in unfolding chunks_inv_def by (metis hd_in_set)
  moreover from this have "map (\<lambda>s. sz q' (hd s)) cs = map (\<lambda>s. sz q (hd s)) cs" by simp
  ultimately show ?thesis using assms(1) unfolding chunks_inv_def by metis
qed

lemma alloc_slab:
  assumes "blocks total_size q F U" "0 < n" "n \<le> q_slab_size q"
  defines "a \<equiv> q_slab_data q"
  defines "q' \<equiv> upd_event a (\<lambda>e. e\<lparr>ev_size := n, ev_id := 1\<rparr>) (q\<lparr>q_slab_data := a + n, q_slab_size := q_slab_size q - n\<rparr>)"
  shows "allocated total_size n q F U a q'"
proof -
  obtain cs where cs: "chunks_inv q cs" "F = set (concat cs)"
    using assms(1) by (auto simp: blocks_def free_chunks_def)
  have old: "\<forall>b \<in> F \<union> U. 0 < sz q b \<and> b + sz q b \<le> a" using assms(1) by (simp add: blocks_def a_def)
  then have new: "a \<notin> F \<union> U" by force
  have fields: "q_slab_data q' = a + n" "q_slab_size q' = q_slab_size q - n" "q_chunks q' = q_chunks q"
    by (simp_all add: q'_def upd_event_def)
  have same: "at q' b = at q b" if "b \<noteq> a" for b using that by (simp add: q'_def)
  have size: "sz q' a = n" "ev_id (at q' a) = 1" by (simp_all add: q'_def)
  have "at q' x = at q x" if "x \<in> set (concat cs)" for x using that new unfolding cs(2) by (intro same) blast
  then have "chunks_inv q' cs" using fields(3) by (intro chunks_inv_cong [OF cs(1)]) simp_all
  then have "free_chunks q' F" using cs(2) by (auto simp: free_chunks_def)
  moreover have "F - {a} = F" using new by auto
  moreover have "\<forall>b \<in> F \<union> insert a U. 0 < sz q' b \<and> b + sz q' b \<le> q_slab_data q'"
    using old same size assms(2) new unfolding fields by (metis Un_iff insert_iff le_refl trans_le_add1)
  moreover have "apart q' b c" if bc: "b \<in> F \<union> insert a U" "c \<in> F \<union> insert a U" "b \<noteq> c" for b c
  proof (cases "b = a \<or> c = a")
    case True
    then show ?thesis using bc old same size by (auto simp: apart_def)
  next
    case False
    then have "apart q b c" using bc assms(1) unfolding blocks_def by blast
    then show ?thesis using False same by (auto simp: apart_def)
  qed
  moreover have "\<exists>b \<in> F \<union> insert a U. b \<le> i \<and> i < b + sz q' b" if i: "i < a + n" for i
  proof (cases "i < a")
    case True
    then obtain b where b: "b \<in> F \<union> U" "b \<le> i" "i < b + sz q b"
      using assms(1) unfolding blocks_def a_def by blast
    moreover from this have "b \<noteq> a" using new by blast
    ultimately show ?thesis using same [of b] by (intro bexI [of _ b]) auto
  next
    case False
    then show ?thesis using size(1) i by (intro bexI [of _ a]) auto
  qed
  moreover have "F \<inter> insert a U = {}" "a + n + (q_slab_size q - n) = total_size"
    using assms(1,3) new by (auto simp: blocks_def a_def)
  ultimately have "blocks total_size q' (F - {a}) (insert a U)"
    unfolding blocks_def fields by simp
  moreover have "same_queue q q'" by (simp add: q'_def same_queue_def) (simp add: upd_event_def)
  ultimately show ?thesis using new same size by (auto simp: allocated_def)
qed

lemma alloc_blocks:
  assumes "blocks total_size q F U" "n < 2 ^ 32 - 40"
  shows "\<exists>r q'. equeue_mem_alloc n q = Some (r, q') \<and>
     (case r of
        None \<Rightarrow> q' = q \<and> q_slab_size q < chunk_size n \<and> (\<forall>a \<in> F. sz q a < chunk_size n)
      | Some a \<Rightarrow> allocated total_size (chunk_size n) q F U a q')"
proof -
  let ?n = "chunk_size n"
  obtain cs where cs: "chunks_inv q cs" "F = set (concat cs)"
    using assms(1) by (auto simp: blocks_def free_chunks_def)
  obtain cs1 cs2 m where place: "cs = cs1 @ cs2" "find_chunk q ?n P_chunks = Some (slot_end P_chunks cs1)"
      "\<forall>a \<in> set (concat cs1). sz q a < ?n" "\<forall>a \<in> set (concat cs2). ?n \<le> sz q a"
    and m: "chunks q (q_chunks q) cs1 m" "chunks q m cs2 None" "deref (slot_end P_chunks cs1) q = m"
    by (rule chunk_place_ex [OF cs(1)])
  show ?thesis
  proof (cases cs2)
    case (Cons s rest)
    then obtain a as where s: "s = a # as" "m = Some a" using m(2) by (cases s) auto
    have "allocated total_size ?n q F U a (take_chunk (slot_end P_chunks cs1) a q)"
      using assms(1) cs place(1,4) Cons s by (intro alloc_chunk [where as = as and rest = rest]) simp_all
    then show ?thesis using place(2) m(3) s(2) by (simp add: equeue_mem_alloc_def Let_def)
  next
    case Nil
    then have m_None: "m = None" using m(2) by simp
    have "\<forall>a \<in> F. sz q a < ?n" using place(1,3) Nil cs(2) by simp
    then show ?thesis
      using place(2) m(3) m_None alloc_slab [OF assms(1) chunk_size_enough(4) [OF assms(2)]]
      by (simp add: equeue_mem_alloc_def Let_def)
  qed
qed

lemma dealloc_blocks:
  assumes "blocks total_size q F U" "a \<in> U"
  shows "\<exists>q'. equeue_mem_dealloc a q = Some q' \<and> (\<forall>x. content (at q' x) = content (at q x)) \<and> blocks total_size q' (insert a F) (U - {a}) \<and>
     (\<forall>x. x \<notin> insert a F \<longrightarrow> at q' x = at q x) \<and> same_queue q q'"
proof -
  let ?n = "sz q a"
  obtain cs where cs: "chunks_inv q cs" "F = set (concat cs)"
    using assms(1) by (auto simp: blocks_def free_chunks_def)
  obtain cs1 cs2 m where place: "cs = cs1 @ cs2" "find_chunk q ?n P_chunks = Some (slot_end P_chunks cs1)"
      "\<forall>a \<in> set (concat cs1). sz q a < ?n" "\<forall>a \<in> set (concat cs2). ?n \<le> sz q a"
    and m: "chunks q (q_chunks q) cs1 m" "chunks q m cs2 None" "deref (slot_end P_chunks cs1) q = m"
    by (rule chunk_place_ex [OF cs(1)])
  have a: "a \<notin> set (concat (cs1 @ cs2))" using assms cs(2) place(1) by (auto simp: blocks_def)
  let ?q1 = "case m of
      Some b \<Rightarrow> if sz q b = sz q a then upd_event a (\<lambda>e. e\<lparr>ev_sibling := Some b, ev_next := ev_next (at q b)\<rparr>) q
                else upd_event a (\<lambda>e. e\<lparr>ev_sibling := None, ev_next := Some b\<rparr>) q
    | None \<Rightarrow> upd_event a (\<lambda>e. e\<lparr>ev_sibling := None, ev_next := None\<rparr>) q"
  define q' where "q' = assign (slot_end P_chunks cs1) (Some a) ?q1"
  have res: "equeue_mem_dealloc a q = Some q'"
    using place(2) m(3) by (simp add: equeue_mem_dealloc_def Let_def q'_def split: option.split)
  have sz: "sz q' b = sz q b" for b by (simp add: q'_def split: option.split)
  have content: "content (at q' x) = content (at q x)" for x by (simp add: q'_def split: option.split)
  have "\<exists>cs. chunks_inv q' cs \<and> set (concat cs) = insert a (set (concat (cs1 @ cs2)))"
    unfolding q'_def using cs(1) place(1,3,4) a m(1,2) by (intro give_chunk_inv) simp_all
  then have free: "free_chunks q' (insert a F)" using place(1) cs(2) unfolding free_chunks_def by metis
  have slab: "q_slab_data q' = q_slab_data q" "q_slab_size q' = q_slab_size q"
    by (simp_all add: q'_def split: option.split) (simp_all add: upd_event_def)
  have all: "insert a F \<union> (U - {a}) = F \<union> U" using assms(2) by blast
  have "insert a F \<inter> (U - {a}) = {}" using assms(1) unfolding blocks_def by blast
  then have "blocks total_size q' (insert a F) (U - {a})"
    using assms(1) free unfolding blocks_def all slab sz apart_def by simp
  moreover have "at q' x = at q x" if "x \<notin> insert a F" for x
  proof -
    have "x \<notin> set (concat cs1)" using that cs(2) place(1) by auto
    then have "at q' x = at ?q1 x"
      unfolding q'_def by (rule at_chunk_end [OF chunks_Nil_not_in [OF m(1)]])
    then show ?thesis using that by (simp split: option.split)
  qed
  moreover have "same_queue q q'"
  proof -
    have "slot_end P_chunks cs1 \<noteq> P_queue" by (cases "cs1 = []") (simp_all add: slot_end_not_Nil)
    then show ?thesis
      by (simp add: q'_def assign_roots same_queue_def split: option.split) (simp add: upd_event_def)
  qed
  ultimately show ?thesis using res content by blast
qed

end
