(* ===== verification/EqueueInvariant.thy ===== *)
theory EqueueInvariant
  imports EqueueDequeue EqueueMemory
begin

text \<open>
  The state of an event queue over its buffer, \<open>equeue_ok\<close>: the queue of events, the free blocks and the
  blocks in use, and the identifiers; and that every operation keeps it.
\<close>

section \<open>Identifiers\<close>

lemma event_id_value:
  assumes "a < 2 ^ q_npw2 q" "unat (ev_id (at q a)) * 2 ^ q_npw2 q + a < 2 ^ 31"
  shows "event_id a q = of_nat (unat (ev_id (at q a)) * 2 ^ q_npw2 q + a)"
proof -
  let ?n = "q_npw2 q"
  have "\<not> bit (push_bit ?n (ucast (ev_id (at q a)) :: 32 word)) k \<or> \<not> bit (of_nat a :: 32 word) k" for k
  proof (cases "k < ?n")
    case False
    then have "a < 2 ^ k" using assms(1) by (meson less_le_trans not_le one_le_numeral power_increasing)
    then have "\<not> bit a k" by (simp add: bit_nat_iff bit_iff_odd)
    then show ?thesis by (simp add: bit_of_nat_iff)
  qed (simp add: bit_push_bit_iff)
  then have "event_id a q = push_bit ?n (ucast (ev_id (at q a))) + of_nat a"
    unfolding event_id_def by (rule disjunctive_add [symmetric])
  then show ?thesis by (simp add: push_bit_eq_mult unsigned_ucast_eq)
qed

lemma event_id_decode:
  assumes "a < 2 ^ q_npw2 q" "unat (ev_id (at q a)) * 2 ^ q_npw2 q + a < 2 ^ 31"
  shows "unat (event_id a q AND mask (q_npw2 q)) = a"
    and "ucast (i :: u8) = signed_drop_bit (q_npw2 q) (event_id a q) \<longleftrightarrow> i = ev_id (at q a)"
proof -
  let ?n = "q_npw2 q" and ?v = "unat (ev_id (at q a)) * 2 ^ q_npw2 q + a"
  note v = event_id_value [OF assms]
  have unat_v: "unat (of_nat ?v :: u32) = ?v" using assms(2) by (intro unat_of_nat_small) simp
  have "unat (event_id a q AND mask ?n) = take_bit ?n ?v"
    unfolding v take_bit_eq_mask [symmetric] unsigned_take_bit_eq unat_v ..
  also have "\<dots> = a" using assms(1) by (simp add: take_bit_eq_mod)
  finally show "unat (event_id a q AND mask ?n) = a" .
  have "sint (of_nat ?v :: u32) = int ?v"
    using sint_diff [of "of_nat ?v" 0 0] assms(2) unat_v by (simp del: of_nat_add of_nat_mult)
  then have "sint (signed_drop_bit ?n (event_id a q)) = int ?v div 2 ^ ?n"
    by (simp add: v sint_signed_drop_bit_eq drop_bit_eq_div del: of_nat_add of_nat_mult)
  also have "\<dots> = int (?v div 2 ^ ?n)" by (simp only: of_nat_power of_nat_numeral zdiv_int)
  also have "?v div 2 ^ ?n = unat (ev_id (at q a))" using assms(1) by simp
  finally have drop: "sint (signed_drop_bit ?n (event_id a q)) = int (unat (ev_id (at q a)))" .
  have small: "sint (ucast i :: u32) = int (unat i)" for i :: u8
  proof -
    have "unat (ucast i :: u32) = unat i" by (simp add: unsigned_ucast_eq take_bit_nat_eq_self_iff less_le_trans [OF unsigned_less])
    moreover have "unat i < 2 ^ 31" using unat_u8 [of i] by simp
    ultimately show ?thesis using sint_diff [of "ucast i" 0 0] by simp
  qed
  have "ucast i = signed_drop_bit ?n (event_id a q) \<longleftrightarrow>
      sint (ucast i :: u32) = sint (signed_drop_bit ?n (event_id a q))"
    by (metis signed_word_eqI)
  then show "ucast i = signed_drop_bit ?n (event_id a q) \<longleftrightarrow> i = ev_id (at q a)"
    unfolding drop small using word_unat_eq_iff [of i "ev_id (at q a)"] by (simp only: of_nat_eq_iff)
qed

lemma npw2_greater: "n < 2 ^ npw2 n"
proof (induction n rule: npw2.induct)
  case (1 s)
  show ?case
  proof (cases "s = 0")
    case False
    then have "s div 2 < 2 ^ npw2 (s div 2)" by (rule 1)
    then show ?thesis using False by (subst npw2.simps) simp
  qed simp
qed

lemma npw2_le: "n < 2 ^ m \<Longrightarrow> npw2 n \<le> m"
proof (induction n arbitrary: m rule: npw2.induct)
  case (1 s)
  show ?case
  proof (cases "s = 0")
    case False
    then obtain k where "m = Suc k" using 1(2) by (cases m) auto
    then show ?thesis using 1(1) [OF False, of k] 1(2) False by (subst npw2.simps) simp
  qed (simp add: npw2.simps)
qed

section \<open>The invariant\<close>

definition equeue_ok :: "nat \<Rightarrow> 'f equeue \<Rightarrow> addr list \<Rightarrow> addr set \<Rightarrow> addr set \<Rightarrow> bool" where
  "equeue_ok n q xs F U \<longleftrightarrow>
     n < 2 ^ 23 \<and> q_npw2 q = npw2 n \<and> queue_holds q xs \<and> blocks n q F U \<and> set xs \<subseteq> U \<and>
     (\<forall>a \<in> F \<union> U. ev_id (at q a) \<noteq> 0)"

lemma equeue_ok_create: "n < 2 ^ 23 \<Longrightarrow> equeue_ok n (equeue_create_inplace n clock buffer) [] {} {}"
  by (auto simp: equeue_ok_def equeue_create_inplace_def queue_holds_def queue_inv_def order_def blocks_def
      free_chunks_def chunks_inv_def intro!: exI [of _ "[]"])

lemma equeue_ok_addr:
  assumes "equeue_ok n q xs F U" "a \<in> F \<union> U"
  shows "a < 2 ^ q_npw2 q" "unat (ev_id (at q a)) * 2 ^ q_npw2 q + a < 2 ^ 31"
proof -
  have "blocks n q F U" using assms(1) by (simp add: equeue_ok_def)
  then have "0 < sz q a" "a + sz q a \<le> q_slab_data q" "q_slab_data q + q_slab_size q = n"
    using assms(2) unfolding blocks_def by blast+
  then have "a < n" by linarith
  also have "n < 2 ^ npw2 n" by (rule npw2_greater)
  finally show a: "a < 2 ^ q_npw2 q" using assms(1) by (simp add: equeue_ok_def)
  have "npw2 n \<le> 23" using assms(1) npw2_le by (simp add: equeue_ok_def)
  then have "(2 :: nat) ^ q_npw2 q \<le> 2 ^ 23" using assms(1) by (simp add: equeue_ok_def del: power_numeral)
  moreover have "unat (ev_id (at q a)) * 2 ^ q_npw2 q \<le> 255 * 2 ^ q_npw2 q"
    using unat_u8 [of "ev_id (at q a)"] by (intro mult_right_mono) simp_all
  ultimately have "unat (ev_id (at q a)) * 2 ^ q_npw2 q + a < 256 * 2 ^ 23" using a by linarith
  then show "unat (ev_id (at q a)) * 2 ^ q_npw2 q + a < 2 ^ 31" by simp
qed

lemma blocks_cong:
  assumes "blocks n q F U" "q_chunks q' = q_chunks q" "q_slab_data q' = q_slab_data q" "q_slab_size q' = q_slab_size q"
    and "\<And>x. x \<in> F \<Longrightarrow> chunk_links (at q' x) = chunk_links (at q x)" "\<And>x. sz q' x = sz q x"
  shows "blocks n q' F U"
proof -
  obtain cs where "chunks_inv q cs" "F = set (concat cs)" using assms(1) by (auto simp: blocks_def free_chunks_def)
  then have "free_chunks q' F"
    using assms(2,5,6) chunks_inv_cong [of q cs q'] by (auto simp: free_chunks_def)
  then show ?thesis using assms(1,3,4,6) by (simp add: blocks_def apart_def)
qed

lemma queue_holds_cong:
  assumes "queue_holds q xs" "q_queue q' = q_queue q" "q_tick q' = q_tick q" "q_generation q' = q_generation q"
    and "\<And>x. x \<in> set xs \<Longrightarrow> links (at q' x) = links (at q x) \<and>
           ev_target (at q' x) = ev_target (at q x) \<and> ev_generation (at q' x) = ev_generation (at q x)"
  shows "queue_holds q' xs"
proof -
  obtain ss where "queue_inv q ss" "xs = order ss" using assms(1) by (auto simp: queue_holds_def)
  moreover from this have "queue_inv q' ss"
    using assms(5) by (subst queue_inv_frame [OF assms(2-4)]) simp_all
  ultimately show ?thesis by (auto simp: queue_holds_def)
qed

lemma equeue_ok_queue:
  assumes "equeue_ok n q xs F U" "queue_holds q' xs'" "set xs' \<subseteq> U" "environment q' = environment q"
    and "\<And>x. x \<notin> U \<Longrightarrow> at q' x = at q x" "\<And>x. ev_size (at q' x) = ev_size (at q x)"
    and "\<And>x. ev_id (at q' x) = ev_id (at q x) \<or> ev_id (at q' x) \<noteq> 0"
  shows "equeue_ok n q' xs' F U"
proof -
  note env = environmentD [OF assms(4)]
  have blocks: "blocks n q F U" using assms(1) by (simp add: equeue_ok_def)
  have "at q' x = at q x" if "x \<in> F" for x using assms(5) [of x] blocks that by (auto simp: blocks_def)
  then have "blocks n q' F U"
    by (intro blocks_cong [OF blocks]) (simp_all add: env assms(6))
  moreover have "\<forall>a \<in> F \<union> U. ev_id (at q' a) \<noteq> 0"
    using assms(1,7) unfolding equeue_ok_def by metis
  ultimately show ?thesis using assms(1-3) by (simp add: equeue_ok_def env(6))
qed

end
