(* ===== verification/EqueueOperations.thy ===== *)
theory EqueueOperations
  imports EqueueInvariant
begin

text \<open>
  The operations of the event queue on states that satisfy \<open>equeue_ok\<close>: what posting, allocating,
  deallocating, cancelling and dispatching do to the events and the blocks.
\<close>

section \<open>Operations\<close>

lemma clampdiff_ahead:
  assumes "unat d < 2 ^ 31"
  shows "equeue_clampdiff (t + d) t = d"
proof -
  have "sint (equeue_clampdiff (t + d) t) = max 0 (sint d)" using clampdiff_max [of "t + d" t] by simp
  also have "sint d = int (unat d)" using sint_diff [of d 0 0] assms by simp
  finally have "sint (equeue_clampdiff (t + d) t) = sint d" using sint_diff [of d 0 0] assms by simp
  then show ?thesis by (rule signed_word_eqI)
qed

lemma post_ok:
  fixes q :: "'f equeue"
  assumes ok: "equeue_ok n q xs F U" and a: "a \<in> U" "a \<notin> set xs"
    and window: "unat (q_clock q - q_tick q) + unat (ev_target (at q a)) < 2 ^ 31"
  shows "\<exists>q'. equeue_post cb a q = Some (event_id a q, q') \<and> q_tick q' = q_tick q \<and> q_clock q' = q_clock q \<and>
     (\<forall>x. content (at q' x) = content (if x = a
        then (at q a)\<lparr>ev_target := q_clock q + ev_target (at q a), ev_generation := q_generation q, ev_cb := Some cb\<rparr>
        else at q x)) \<and>
     equeue_ok n q' (filter (\<lambda>x. due q x \<le> due q' a) xs @ [a] @ filter (\<lambda>x. due q' a < due q x) xs) F U"
proof -
  let ?t = "q_clock q + ev_target (at q a)"
  let ?q1 = "upd_event a (\<lambda>e. e\<lparr>ev_cb := Some cb, ev_target := q_clock q + ev_target e\<rparr>) q"
  have "queue_holds q xs" using ok by (simp add: equeue_ok_def)
  then have "queue_holds ?q1 xs" by (rule queue_holds_cong) (use a(2) in auto)
  moreover have t: "ev_target (at ?q1 a) = ?t" "q_clock q + equeue_clampdiff ?t (q_clock q) = ?t"
    using window clampdiff_ahead [of "ev_target (at q a)" "q_clock q"] by simp_all
  have "unat (?t - q_tick q) < 2 ^ 31"
  proof -
    have "unat ((q_clock q - q_tick q) + ev_target (at q a)) = unat (q_clock q - q_tick q) + unat (ev_target (at q a))"
      using window by (intro unat_add_lem [THEN iffD1]) simp
    moreover have "?t - q_tick q = (q_clock q - q_tick q) + ev_target (at q a)" by simp
    ultimately show ?thesis using window by metis
  qed
  ultimately obtain q2 where q2: "equeue_enqueue a (q_clock q) ?q1 = Some (event_id a ?q1, q2)"
      "q_tick q2 = q_tick q" "environment q2 = environment q" "\<And>x. x \<notin> insert a (set xs) \<Longrightarrow> at q2 x = at ?q1 x"
      "\<And>x. content (at q2 x) = content (if x = a then (at ?q1 a)\<lparr>ev_target := ?t, ev_generation := q_generation q\<rparr> else at ?q1 x)"
      "queue_holds q2 (filter (\<lambda>x. due q2 x \<le> due q2 a) xs @ [a] @ filter (\<lambda>x. due q2 a < due q2 x) xs)"
    using enqueue_holds [of ?q1 xs a "q_clock q"] a(2) unfolding t by auto
  let ?q' = "q2\<lparr>q_signals := q_signals q2 + 1\<rparr>"
  have content: "content (at ?q' x) = content (if x = a
        then (at q a)\<lparr>ev_target := ?t, ev_generation := q_generation q, ev_cb := Some cb\<rparr> else at q x)" for x
    using q2(5) [of x] by (simp add: content_def)
  have due_q2: "due q2 x = due q x" if "x \<in> set xs" for x
    using q2(2) content [of x] that a(2) by (auto simp: due_def content_def)
  have due': "due (q2\<lparr>q_signals := v\<rparr>) x = due q2 x" for v x by (simp add: due_def)
  have order: "filter (\<lambda>x. due q2 x \<le> due q2 a) xs = filter (\<lambda>x. due q x \<le> due q2 a) xs"
    "filter (\<lambda>x. due q2 a < due q2 x) xs = filter (\<lambda>x. due q2 a < due q x) xs"
    by (rule filter_cong [OF refl], simp only: due_q2)+
  have xs: "set xs \<subseteq> U" using ok by (simp add: equeue_ok_def)
  have "at ?q' x = at q x" if "x \<notin> U" for x
  proof -
    have "x \<notin> insert a (set xs)" "x \<noteq> a" using that xs a(1) by auto
    then show ?thesis using q2(4) [of x] by simp
  qed
  moreover have "ev_size (at ?q' x) = ev_size (at q x)" "ev_id (at ?q' x) = ev_id (at q x)" for x
    using content [of x] by (simp_all add: content_def split: if_splits)
  moreover have "queue_holds ?q' (filter (\<lambda>x. due q x \<le> due q2 a) xs @ [a] @ filter (\<lambda>x. due q2 a < due q x) xs)"
    using q2(6) unfolding order by (rule queue_holds_cong) simp_all
  ultimately have "equeue_ok n ?q' (filter (\<lambda>x. due q x \<le> due q2 a) xs @ [a] @ filter (\<lambda>x. due q2 a < due q x) xs) F U"
    using ok xs a(1) q2(3) by (intro equeue_ok_queue [OF ok]) auto
  moreover have "event_id a ?q1 = event_id a q" by (simp add: event_id_def)
  then have "equeue_post cb a q = Some (event_id a q, ?q')"
    using q2(1) by (simp add: equeue_post_def Let_def)
  moreover have "q_tick ?q' = q_tick q" "q_clock ?q' = q_clock q"
    using q2(2) environmentD(5) [OF q2(3)] by simp_all
  ultimately show ?thesis using content by (intro exI [of _ ?q']) (simp add: due')
qed

lemma alloc_ok:
  assumes ok: "equeue_ok n q xs F U" and "m < 2 ^ 32 - 40"
  shows "\<exists>r q'. equeue_alloc m q = Some (r, q') \<and>
     (case r of
        None \<Rightarrow> q' = q \<and> q_slab_size q < chunk_size m \<and> (\<forall>a \<in> F. ev_size (at q a) < chunk_size m)
      | Some a \<Rightarrow> a \<notin> U \<and> chunk_size m \<le> ev_size (at q' a) \<and> equeue_ok n q' xs (F - {a}) (insert a U) \<and>
          q_tick q' = q_tick q \<and> q_clock q' = q_clock q \<and> (\<forall>x \<in> U. at q' x = at q x) \<and>
          ev_target (at q' a) = 0 \<and> ev_period (at q' a) = - 1 \<and> ev_dtor (at q' a) = None)"
proof -
  have blocks: "blocks n q F U" and id: "\<forall>a \<in> F \<union> U. ev_id (at q a) \<noteq> 0" and xs: "set xs \<subseteq> U" "queue_holds q xs"
    using ok by (simp_all add: equeue_ok_def)
  from alloc_blocks [OF blocks assms(2)] obtain r q1 where r: "equeue_mem_alloc m q = Some (r, q1)"
      "case r of
        None \<Rightarrow> q1 = q \<and> q_slab_size q < chunk_size m \<and> (\<forall>a \<in> F. sz q a < chunk_size m)
      | Some a \<Rightarrow> allocated n (chunk_size m) q F U a q1" by blast
  show ?thesis
  proof (cases r)
    case None
    then show ?thesis using r by (simp add: equeue_alloc_def)
  next
    case (Some a)
    then have al: "a \<notin> U" "chunk_size m \<le> sz q1 a" "blocks n q1 (F - {a}) (insert a U)"
      "\<And>x. x \<notin> insert a F \<Longrightarrow> at q1 x = at q x"
      "\<And>x. ev_id (at q1 x) = (if x = a \<and> a \<notin> F then 1 else ev_id (at q x))" "same_queue q q1"
      using r(2) by (auto simp: allocated_def)
    let ?q' = "upd_event a (\<lambda>e. e\<lparr>ev_target := 0, ev_period := - 1, ev_dtor := None\<rparr>) q1"
    have keep: "at ?q' x = at q x" if "x \<in> U" for x
    proof -
      have "x \<notin> insert a F" using that al(1) blocks by (auto simp: blocks_def)
      then show ?thesis using al(4) by simp
    qed
    have "blocks n ?q' (F - {a}) (insert a U)"
      using al(3) by (rule blocks_cong) (simp_all add: upd_event_def)
    moreover have same: "q_queue ?q' = q_queue q" "q_tick ?q' = q_tick q" "q_generation ?q' = q_generation q"
        "q_npw2 ?q' = q_npw2 q" "q_clock ?q' = q_clock q"
      using al(6) by (simp_all add: same_queue_def) (simp_all add: upd_event_def)
    have "queue_holds ?q' xs"
      using xs(2) by (rule queue_holds_cong) (use same keep xs(1) in \<open>simp_all add: subset_iff\<close>)
    moreover have "\<forall>x \<in> F - {a} \<union> insert a U. ev_id (at ?q' x) \<noteq> 0"
      using al(5) id by auto
    ultimately have "equeue_ok n ?q' xs (F - {a}) (insert a U)"
      using ok xs(1) same(4) by (auto simp: equeue_ok_def)
    moreover have "equeue_alloc m q = Some (Some a, ?q')" using r(1) Some by (simp add: equeue_alloc_def)
    ultimately show ?thesis using al(1,2) same keep by simp
  qed
qed

lemma dealloc_ok:
  assumes ok: "equeue_ok n q xs F U" and a: "a \<in> U" "a \<notin> set xs" "ev_dtor (at q a) = None"
  shows "\<exists>q'. equeue_dealloc call a q = Some q' \<and> equeue_ok n q' xs (insert a F) (U - {a}) \<and>
     (\<forall>x \<in> U - {a}. at q' x = at q x) \<and> (\<forall>x. content (at q' x) = content (at q x)) \<and> same_queue q q'"
proof -
  have blocks: "blocks n q F U" and xs: "set xs \<subseteq> U" "queue_holds q xs"
    using ok by (simp_all add: equeue_ok_def)
  obtain q' where q': "equeue_mem_dealloc a q = Some q'" "\<And>x. content (at q' x) = content (at q x)"
      "blocks n q' (insert a F) (U - {a})" "\<And>x. x \<notin> insert a F \<Longrightarrow> at q' x = at q x" "same_queue q q'"
    using dealloc_blocks [OF blocks a(1)] by blast
  have keep: "at q' x = at q x" if "x \<in> U - {a}" for x
  proof -
    have "x \<notin> insert a F" using that blocks by (auto simp: blocks_def)
    then show ?thesis using q'(4) by simp
  qed
  have xs': "set xs \<subseteq> U - {a}" using xs(1) a(2) by auto
  have "queue_holds q' xs"
    using xs(2) by (rule queue_holds_cong) (use q'(5) keep xs' in \<open>simp_all add: same_queue_def subset_iff\<close>)
  moreover have "ev_id (at q' x) = ev_id (at q x)" for x using q'(2) [of x] by (simp add: content_def)
  ultimately have "equeue_ok n q' xs (insert a F) (U - {a})"
    using ok q'(3,5) xs' a(1) by (auto simp: equeue_ok_def same_queue_def)
  then show ?thesis using q' keep a(3) by (simp add: equeue_dealloc_def run_dtor_def)
qed

lemma event_id_ok:
  assumes "equeue_ok n q xs F U" "a \<in> F \<union> U"
  shows "event_id a q \<noteq> 0" "unat (event_id a q AND mask (q_npw2 q)) = a"
    "ucast (i :: u8) = signed_drop_bit (q_npw2 q) (event_id a q) \<longleftrightarrow> i = ev_id (at q a)"
proof -
  note decode = event_id_decode [OF equeue_ok_addr [OF assms]]
  show "event_id a q \<noteq> 0"
  proof
    assume "event_id a q = 0"
    then have "ucast (0 :: u8) = signed_drop_bit (q_npw2 q) (event_id a q)" by simp
    then show False using decode(2) [of 0] assms by (auto simp: equeue_ok_def)
  qed
  show "unat (event_id a q AND mask (q_npw2 q)) = a" by (rule decode(1))
  show "ucast i = signed_drop_bit (q_npw2 q) (event_id a q) \<longleftrightarrow> i = ev_id (at q a)" by (rule decode(2))
qed

lemma cancel_ok:
  assumes ok: "equeue_ok n q xs F U" and a: "a \<in> set xs" "ev_dtor (at q a) = None"
  shows "\<exists>q'. equeue_cancel call (event_id a q) q = Some q' \<and>
     equeue_ok n q' (filter (\<lambda>x. x \<noteq> a) xs) (insert a F) (U - {a}) \<and> q_tick q' = q_tick q \<and> q_clock q' = q_clock q \<and>
     (\<forall>x. x \<noteq> a \<longrightarrow> content (at q' x) = content (at q x)) \<and>
     ev_id (at q' a) \<noteq> ev_id (at q a) \<and> q_npw2 q' = q_npw2 q"
proof -
  have U: "a \<in> U" "set xs \<subseteq> U" and hold: "queue_holds q xs"
    using ok a(1) by (auto simp: equeue_ok_def)
  have "a \<in> F \<union> U" using U(1) by simp
  note i = event_id_ok [OF ok this]
  obtain q1 where q1: "equeue_unqueue (event_id a q) q = (Some a, q1)" "queue_holds q1 (filter (\<lambda>x. x \<noteq> a) xs)"
      "q_tick q1 = q_tick q" "environment q1 = environment q" "\<And>x. x \<notin> set xs \<Longrightarrow> at q1 x = at q x"
      "\<And>x. content (at q1 x) = content (if x = a
        then (at q a)\<lparr>ev_cb := None, ev_period := - 1, ev_id := next_id (q_npw2 q) (ev_id (at q a))\<rparr> else at q x)"
    using unqueue_holds [OF hold a(1) i(2)] i(3) by blast
  have q1_fields: "ev_size (at q1 x) = ev_size (at q x)" "ev_dtor (at q1 x) = ev_dtor (at q x)"
    "ev_id (at q1 x) = (if x = a then next_id (q_npw2 q) (ev_id (at q a)) else ev_id (at q x))" for x
    using q1(6) [of x] by (simp_all add: content_def split: if_splits)
  have ok1: "equeue_ok n q1 (filter (\<lambda>x. x \<noteq> a) xs) F U"
    using ok q1(2) _ q1(4)
    by (rule equeue_ok_queue) (use U(2) q1(5) q1_fields next_id_neq_0 in \<open>auto simp: subset_iff\<close>)
  obtain q2 where q2: "equeue_dealloc call a q1 = Some q2"
      "equeue_ok n q2 (filter (\<lambda>x. x \<noteq> a) xs) (insert a F) (U - {a})"
      "\<And>x. content (at q2 x) = content (at q1 x)" "same_queue q1 q2"
    using dealloc_ok [OF ok1 U(1), of call] a(2) q1_fields(2) by auto
  have "equeue_cancel call (event_id a q) q = Some q2"
    using i(1) q1(1) q2(1) by (simp add: equeue_cancel_def)
  moreover have "content (at q2 x) = content (at q x)" if "x \<noteq> a" for x
    using q2(3) q1(6) that by simp
  moreover have "ev_id (at q2 a) = next_id (q_npw2 q) (ev_id (at q a))"
    using q2(3) [of a] q1_fields(3) [of a] by (simp add: content_def)
  then have "ev_id (at q2 a) \<noteq> ev_id (at q a)"
    using next_id_neq ok npw2_le [of n 23] by (simp add: equeue_ok_def)
  moreover have "q_tick q2 = q_tick q" "q_clock q2 = q_clock q" "q_npw2 q2 = q_npw2 q"
    using q2(4) q1(3) environmentD [OF q1(4)] by (simp_all add: same_queue_def)
  ultimately show ?thesis using q2(2) by blast
qed

section \<open>Dispatching\<close>

text \<open>
  Callbacks that only let time pass, by \<open>eff\<close>; since it may depend on the event in any way, the clock
  after several calls tells their order.
\<close>

definition run_clock :: "('f \<Rightarrow> addr \<Rightarrow> u32 \<Rightarrow> u32) \<Rightarrow> 'f equeue \<Rightarrow> addr list \<Rightarrow> u32 \<Rightarrow> u32" where
  "run_clock eff q = fold (\<lambda>x. case ev_cb (at q x) of None \<Rightarrow> id | Some f \<Rightarrow> eff f x)"

lemma run_clock_cong:
  "\<forall>x \<in> set xs. ev_cb (at q' x) = ev_cb (at q x) \<Longrightarrow> run_clock eff q' xs = run_clock eff q xs"
  by (induction xs) (simp_all add: run_clock_def)

lemma equeue_ok_clock: "equeue_ok n q xs F U \<Longrightarrow> equeue_ok n (q\<lparr>q_clock := c\<rparr>) xs F U"
proof -
  assume ok: "equeue_ok n q xs F U"
  then have "queue_holds q xs" "blocks n q F U" by (simp_all add: equeue_ok_def)
  then have "queue_holds (q\<lparr>q_clock := c\<rparr>) xs" "blocks n (q\<lparr>q_clock := c\<rparr>) F U"
    by (auto elim: queue_holds_cong blocks_cong)
  then show ?thesis using ok by (simp add: equeue_ok_def)
qed

lemma equeue_ok_incid:
  assumes ok: "equeue_ok n q xs F U" and "a \<in> U" "a \<notin> set xs"
  shows "equeue_ok n (equeue_incid a q) xs F U"
proof -
  have "queue_holds q xs" "set xs \<subseteq> U" using ok by (simp_all add: equeue_ok_def)
  moreover from this(1) have "queue_holds (equeue_incid a q) xs"
    by (rule queue_holds_cong) (auto simp: equeue_incid_next links_def)
  ultimately show ?thesis
    using assms(2) next_id_neq_0
    by (intro equeue_ok_queue [OF ok]) (auto simp: equeue_incid_next)
qed

lemma dispatch_events_run:
  assumes call: "\<And>f a q. call f a q = Some (q\<lparr>q_clock := eff f a (q_clock q)\<rparr>)"
    and "chain q h ys None" "distinct ys" "equeue_ok n q zs F U" "set ys \<subseteq> U" "set zs \<inter> set ys = {}"
    and "\<forall>x \<in> set ys. ev_period (at q x) < 0 \<and> ev_dtor (at q x) = None"
  shows "\<exists>q'. dispatch_events call h q = Some q' \<and> q_clock q' = run_clock eff q ys (q_clock q) \<and>
     equeue_ok n q' zs (F \<union> set ys) (U - set ys) \<and> q_tick q' = q_tick q \<and> q_background q' = q_background q \<and>
     (\<forall>x \<in> U - set ys. at q' x = at q x)"
  using assms(2-)
proof (induction ys arbitrary: h q F U)
  case Nil
  then show ?case by (auto simp: dispatch_events.simps run_clock_def)
next
  case (Cons a ys)
  have h: "h = Some a" "chain q (ev_next (at q a)) ys None" using Cons.prems(1) by simp_all
  have a: "a \<in> U" "a \<notin> set zs" "ev_period (at q a) < 0" "ev_dtor (at q a) = None"
    using Cons.prems(4,5,6) by auto
  define q1 where "q1 = q\<lparr>q_clock := (case ev_cb (at q a) of None \<Rightarrow> id | Some f \<Rightarrow> eff f a) (q_clock q)\<rparr>"
  have q1: "(case ev_cb (at q a) of None \<Rightarrow> Some q | Some f \<Rightarrow> call f a q) = Some q1"
    by (simp add: q1_def call split: option.split)
  let ?q2 = "equeue_incid a q1"
  have "equeue_ok n q1 zs F U" using Cons.prems(3) unfolding q1_def by (rule equeue_ok_clock)
  then have "equeue_ok n ?q2 zs F U" using a(1,2) by (rule equeue_ok_incid)
  from dealloc_ok [OF this a(1,2), of call] obtain q3 where q3: "equeue_dealloc call a ?q2 = Some q3"
      "equeue_ok n q3 zs (insert a F) (U - {a})" "\<And>x. x \<in> U - {a} \<Longrightarrow> at q3 x = at ?q2 x" "same_queue ?q2 q3"
    using a(4) by (auto simp: equeue_incid_next q1_def)
  have step: "dispatch_events call h q = dispatch_events call (ev_next (at q a)) q3"
    unfolding h(1) using q1 q3(1) a(3)
    by (subst dispatch_events.simps) (simp add: q1_def)
  have keep: "at q3 x = at q x" if "x \<in> U - {a}" for x
    using q3(3) [OF that] that by (simp add: equeue_incid_next q1_def)
  have ys: "set ys \<subseteq> U - {a}" "distinct ys" "set zs \<inter> set ys = {}" using Cons.prems(2,4,5) by auto
  have q3_fields: "q_clock q3 = q_clock q1" "q_background q3 = q_background q" "q_tick q3 = q_tick q"
    using q3(4) by (simp_all add: same_queue_def q1_def equeue_incid_next) (simp_all add: upd_event_def)
  have keep_ys: "at q3 x = at q x" if "x \<in> set ys" for x using keep ys(1) that by blast
  have "chain q3 (ev_next (at q a)) ys None" using h(2) keep_ys chain_frame [of ys q3 q] by simp
  moreover have "\<forall>x \<in> set ys. ev_period (at q3 x) < 0 \<and> ev_dtor (at q3 x) = None"
    using Cons.prems(6) by (simp add: keep_ys)
  ultimately obtain q' where q': "dispatch_events call (ev_next (at q a)) q3 = Some q'"
      "q_clock q' = run_clock eff q3 ys (q_clock q3)" "equeue_ok n q' zs (insert a F \<union> set ys) (U - {a} - set ys)"
      "q_tick q' = q_tick q3" "q_background q' = q_background q3" "\<forall>x \<in> U - {a} - set ys. at q' x = at q3 x"
    using Cons.IH [OF _ ys(2) q3(2) ys(1,3)] by blast
  have "run_clock eff q3 ys = run_clock eff q ys" by (rule run_clock_cong) (simp add: keep_ys)
  then have "q_clock q' = run_clock eff q (a # ys) (q_clock q)"
    using q'(2) q3_fields by (simp add: run_clock_def q1_def)
  moreover have "insert a F \<union> set ys = F \<union> set (a # ys)" "U - {a} - set ys = U - set (a # ys)" by auto
  ultimately show ?case using step q'(1,3-6) q3_fields keep by auto
qed

lemma distinct_order: "distinct (concat ss) \<Longrightarrow> distinct (order ss)"
  by (induction ss) (auto simp: order_def)

lemma queue_holds_distinct: "queue_holds q xs \<Longrightarrow> distinct xs"
  by (auto simp: queue_holds_def queue_inv_def distinct_order)

lemma time_over_ok:
  assumes "equeue_ok n q xs F U"
  shows "equeue_ok n (time_over t q) xs F U"
proof -
  have "queue_holds q xs" "blocks n q F U" using assms by (simp_all add: equeue_ok_def)
  moreover have fields: "q_queue (time_over t q) = q_queue q" "q_tick (time_over t q) = q_tick q"
      "q_generation (time_over t q) = q_generation q" "q_chunks (time_over t q) = q_chunks q"
      "q_slab_data (time_over t q) = q_slab_data q" "q_slab_size (time_over t q) = q_slab_size q"
      "q_store (time_over t q) = q_store q" "q_npw2 (time_over t q) = q_npw2 q"
    by (simp_all add: time_over_def Let_def split: option.split)
  ultimately have "queue_holds (time_over t q) xs" "blocks n (time_over t q) F U"
    by (auto elim: queue_holds_cong blocks_cong)
  then show ?thesis using assms by (simp add: equeue_ok_def fields)
qed

lemma dispatch_ok:
  assumes call: "\<And>f a q. call f a q = Some (q\<lparr>q_clock := eff f a (q_clock q)\<rparr>)"
    and ok: "equeue_ok n q xs F U" and window: "unat (q_clock q - q_tick q) < 2 ^ 31"
    and calls: "\<forall>x \<in> set xs. ev_period (at q x) < 0 \<and> ev_dtor (at q x) = None"
  defines "k \<equiv> unat (q_clock q - q_tick q)"
  defines "ys \<equiv> filter (\<lambda>x. due q x \<le> k) xs" and "zs \<equiv> filter (\<lambda>x. k < due q x) xs"
  assumes short: "unat (run_clock eff q ys (q_clock q) - q_clock q) < 2 ^ 31"
  shows "\<exists>q'. equeue_dispatch call wait 0 q = Some q' \<and> q_clock q' = run_clock eff q ys (q_clock q) \<and>
     equeue_ok n q' zs (F \<union> set ys) (U - set ys) \<and> q_tick q' = q_clock q \<and> \<not> q_break q' \<and>
     (\<forall>x \<in> set zs. content (at q' x) = content (at q x))"
proof -
  let ?q0 = "q\<lparr>q_active := False\<rparr>"
  have hold: "queue_holds ?q0 xs" and U: "set xs \<subseteq> U"
    using ok queue_holds_cong [of q xs ?q0] by (simp_all add: equeue_ok_def)
  have ok0: "equeue_ok n ?q0 xs F U"
    using ok hold blocks_cong [of n q F U ?q0] by (simp add: equeue_ok_def)
  have due0: "due ?q0 x = due q x" for x by (simp add: due_def)
  obtain h q1 where q1: "equeue_dequeue (q_clock q) ?q0 = Some (h, q1)" "chain q1 h ys None" "queue_holds q1 zs"
      "q_tick q1 = q_clock q" "environment q1 = environment ?q0" "\<And>x. content (at q1 x) = content (at q x)"
      "\<And>x. x \<notin> set xs \<Longrightarrow> at q1 x = at q x"
    using dequeue_holds [OF hold, of "q_clock q"] window by (auto simp: due0 k_def ys_def zs_def)
  have fields: "ev_size (at q1 x) = ev_size (at q x)" "ev_id (at q1 x) = ev_id (at q x)"
    "ev_period (at q1 x) = ev_period (at q x)" "ev_dtor (at q1 x) = ev_dtor (at q x)"
    "ev_cb (at q1 x) = ev_cb (at q x)" for x
    using q1(6) [of x] by (simp_all add: content_def)
  have sub: "set ys \<subseteq> U" "set zs \<subseteq> U" "set zs \<inter> set ys = {}" using U by (auto simp: ys_def zs_def)
  have ok1: "equeue_ok n q1 zs F U"
    using ok0 q1(3) sub(2) q1(5)
    by (rule equeue_ok_queue) (use U q1(7) fields in \<open>auto simp: subset_iff\<close>)
  have "distinct xs" using hold by (rule queue_holds_distinct)
  then have dist: "distinct ys" by (simp add: ys_def)
  have shots: "\<forall>x \<in> set ys. ev_period (at q1 x) < 0 \<and> ev_dtor (at q1 x) = None"
    using calls fields by (simp add: ys_def)
  obtain q2 where q2: "dispatch_events call h q1 = Some q2" "q_clock q2 = run_clock eff q1 ys (q_clock q1)"
      "equeue_ok n q2 zs (F \<union> set ys) (U - set ys)" "q_tick q2 = q_tick q1" "\<forall>x \<in> U - set ys. at q2 x = at q1 x"
    using dispatch_events_run [where call = call and eff = eff, OF call q1(2) dist ok1 sub(1,3) shots] by blast
  have clock: "q_clock q2 = run_clock eff q ys (q_clock q)"
    using q2(2) environmentD(5) [OF q1(5)] run_clock_cong [of ys q1 q] fields by simp
  have "sint (q_clock q - q_clock q2) \<le> 0"
    using sint_diff [of "q_clock q" "q_clock q" "q_clock q2"] short clock by simp
  then have "equeue_dispatch call wait 0 q = Some (time_over (q_clock q2) q2)"
    unfolding equeue_dispatch_def
    by (subst dispatch_loop.simps) (simp add: q1(1) q2(1) equeue_tickdiff_def Let_def)
  moreover have "equeue_ok n (time_over (q_clock q2) q2) zs (F \<union> set ys) (U - set ys)"
    by (rule time_over_ok [OF q2(3)])
  moreover have "q_clock (time_over t q2) = q_clock q2" "q_tick (time_over t q2) = q_tick q2"
      "\<not> q_break (time_over t q2)" "q_store (time_over t q2) = q_store q2" for t
    by (simp_all add: time_over_def Let_def split: option.split)
  moreover have "\<forall>x \<in> set zs. content (at q2 x) = content (at q x)"
    using q2(5) q1(6) sub(2,3) by (metis DiffI disjoint_iff subsetD)
  ultimately show ?thesis using clock q2(4) q1(4) by auto
qed

end
