(* ===== verification/EqueueTheorems.thy ===== *)
theory EqueueTheorems
  imports EqueueOperations
begin

text \<open>
  What the event queue promises: a call is run once, in order, not before its time, and never after it was
  cancelled; its block is given back; and no sequence of operations breaks the queue or its memory.
\<close>

lemma call_in_ok:
  assumes ok: "equeue_ok n q xs F U" and ms: "0 \<le> ms"
    and window: "unat (q_clock q - q_tick q) + nat ms < 2 ^ 31"
  shows "(\<exists>q'. equeue_call_in ms cb q = Some (0, q') \<and> q' = q \<and>
       q_slab_size q < 44 \<and> (\<forall>a \<in> F. ev_size (at q a) < 44)) \<or>
     (\<exists>a q'. equeue_call_in ms cb q = Some (event_id a q', q') \<and> a \<notin> U \<and> 44 \<le> ev_size (at q' a) \<and>
       ev_cb (at q' a) = Some cb \<and> ev_target (at q' a) = q_clock q + of_int ms \<and>
       ev_period (at q' a) = - 1 \<and> ev_dtor (at q' a) = None \<and>
       q_tick q' = q_tick q \<and> q_clock q' = q_clock q \<and>
       (\<forall>x \<in> U. content (at q' x) = content (at q x)) \<and>
       equeue_ok n q' (filter (\<lambda>x. due q x \<le> due q' a) xs @ [a] @ filter (\<lambda>x. due q' a < due q x) xs)
         (F - {a}) (insert a U))"
proof -
  have size: "chunk_size 8 = 44" by (simp add: chunk_size_def sizeof_event_def)
  obtain r q1 where r: "equeue_alloc 8 q = Some (r, q1)"
      "case r of
        None \<Rightarrow> q1 = q \<and> q_slab_size q < 44 \<and> (\<forall>a \<in> F. ev_size (at q a) < 44)
      | Some a \<Rightarrow> a \<notin> U \<and> 44 \<le> ev_size (at q1 a) \<and> equeue_ok n q1 xs (F - {a}) (insert a U) \<and>
          q_tick q1 = q_tick q \<and> q_clock q1 = q_clock q \<and> (\<forall>x \<in> U. at q1 x = at q x) \<and>
          ev_target (at q1 a) = 0 \<and> ev_period (at q1 a) = - 1 \<and> ev_dtor (at q1 a) = None"
    using alloc_ok [OF ok, of 8] unfolding size by auto
  show ?thesis
  proof (cases r)
    case None
    then show ?thesis using r by (simp add: equeue_call_in_def call_with_def)
  next
    case (Some a)
    then have a: "a \<notin> U" "44 \<le> ev_size (at q1 a)" "equeue_ok n q1 xs (F - {a}) (insert a U)"
      "q_tick q1 = q_tick q" "q_clock q1 = q_clock q" "\<And>x. x \<in> U \<Longrightarrow> at q1 x = at q x"
      "ev_period (at q1 a) = - 1" "ev_dtor (at q1 a) = None"
      using r(2) by simp_all
    have xs: "set xs \<subseteq> U" using ok by (simp add: equeue_ok_def)
    let ?q2 = "equeue_event_delay a ms q1"
    have env: "environment ?q2 = environment q1" "q_tick ?q2 = q_tick q1" by (simp_all add: equeue_event_delay_def)
    have "queue_holds q1 xs" using a(3) by (simp add: equeue_ok_def)
    then have "queue_holds ?q2 xs"
      by (rule queue_holds_cong) (use xs a(1) in \<open>auto simp: equeue_event_delay_def\<close>)
    then have ok2: "equeue_ok n ?q2 xs (F - {a}) (insert a U)"
      using xs env(1) by (intro equeue_ok_queue [OF a(3)]) (auto simp: equeue_event_delay_def)
    have delay: "unat (of_int ms :: u32) = nat ms"
    proof -
      have "nat ms < 2 ^ 32" using window by simp
      then have "unat (of_nat (nat ms) :: u32) = nat ms" by (intro unat_of_nat_small) simp
      then show ?thesis using ms by (simp add: of_nat_nat)
    qed
    have "unat (q_clock ?q2 - q_tick ?q2) + unat (ev_target (at ?q2 a)) < 2 ^ 31"
      using window delay environmentD(5) [OF env(1)] env(2) a(4,5) by (simp add: equeue_event_delay_def)
    moreover have "a \<notin> set xs" using xs a(1) by auto
    ultimately obtain q3 where q3: "equeue_post cb a ?q2 = Some (event_id a ?q2, q3)" "q_tick q3 = q_tick ?q2"
        "q_clock q3 = q_clock ?q2"
        "\<And>x. content (at q3 x) = content (if x = a then (at ?q2 a)\<lparr>ev_target := q_clock ?q2 + ev_target (at ?q2 a),
          ev_generation := q_generation ?q2, ev_cb := Some cb\<rparr> else at ?q2 x)"
        "equeue_ok n q3 (filter (\<lambda>x. due ?q2 x \<le> due q3 a) xs @ [a] @ filter (\<lambda>x. due q3 a < due ?q2 x) xs) (F - {a}) (insert a U)"
      using post_ok [OF ok2, of a cb] by auto
    have due: "due ?q2 x = due q x" if "x \<in> set xs" for x
    proof -
      have "x \<noteq> a" "x \<in> U" using that xs a(1) by auto
      then show ?thesis using a(4,6) by (simp add: due_def equeue_event_delay_def)
    qed
    have order: "filter (\<lambda>x. due ?q2 x \<le> d) xs = filter (\<lambda>x. due q x \<le> d) xs"
        "filter (\<lambda>x. d < due ?q2 x) xs = filter (\<lambda>x. d < due q x) xs" for d
      by (rule filter_cong [OF refl], simp only: due)+
    have clock: "q_clock ?q2 = q_clock q" "q_tick ?q2 = q_tick q"
      using environmentD(5) [OF env(1)] env(2) a(4,5) by simp_all
    have fields: "ev_id (at q3 a) = ev_id (at ?q2 a)" "ev_size (at q3 a) = ev_size (at q1 a)" "ev_cb (at q3 a) = Some cb"
        "ev_target (at q3 a) = q_clock q + of_int ms" "ev_period (at q3 a) = - 1" "ev_dtor (at q3 a) = None"
      using q3(4) [of a] a(7,8) clock by (simp_all add: content_def equeue_event_delay_def)
    have "content (at q3 x) = content (at q x)" if "x \<in> U" for x
    proof -
      have "x \<noteq> a" using that a(1) by auto
      then show ?thesis using q3(4) [of x] a(6) [OF that] by (simp add: equeue_event_delay_def)
    qed
    moreover have "q_npw2 q3 = q_npw2 ?q2" using q3(5) ok2 by (simp add: equeue_ok_def)
    then have "event_id a ?q2 = event_id a q3" by (simp add: event_id_def fields(1))
    then have "equeue_call_in ms cb q = Some (event_id a q3, q3)"
      using r(1) Some q3(1) by (simp add: equeue_call_in_def call_with_def)
    ultimately show ?thesis using a(1,2) fields q3(2,3,5) clock unfolding order by auto
  qed
qed

text \<open>The events of a queue that are due at the current time, and the others; and the place of a new one.\<close>

definition due_now :: "'f equeue \<Rightarrow> addr list \<Rightarrow> addr list" where
  "due_now q = filter (\<lambda>x. due q x \<le> unat (q_clock q - q_tick q))"

definition due_later :: "'f equeue \<Rightarrow> addr list \<Rightarrow> addr list" where
  "due_later q = filter (\<lambda>x. unat (q_clock q - q_tick q) < due q x)"

definition insert_due :: "'f equeue \<Rightarrow> nat \<Rightarrow> addr \<Rightarrow> addr list \<Rightarrow> addr list" where
  "insert_due q d a xs = filter (\<lambda>x. due q x \<le> d) xs @ [a] @ filter (\<lambda>x. d < due q x) xs"

definition one_shot :: "'f event \<Rightarrow> bool" where
  "one_shot e \<longleftrightarrow> ev_period e < 0 \<and> ev_dtor e = None"

lemma one_shot_content: "content e = content e' \<Longrightarrow> one_shot e = one_shot e'"
  by (simp add: content_def one_shot_def)

lemma call_in_room:
  assumes ok: "equeue_ok n q xs F U" and ms: "0 \<le> ms"
    and window: "unat (q_clock q - q_tick q) + nat ms < 2 ^ 31"
  obtains "equeue_call_in ms cb q = Some (0, q)" "q_slab_size q < 44" "\<forall>a \<in> F. ev_size (at q a) < 44"
  | i a q' where "equeue_call_in ms cb q = Some (i, q')" "i \<noteq> 0" "a = unat (i AND mask (q_npw2 q'))" "i = event_id a q'"
      "a \<notin> U" "44 \<le> ev_size (at q' a)" "ev_cb (at q' a) = Some cb" "ev_target (at q' a) = q_clock q + of_int ms"
      "one_shot (at q' a)" "q_tick q' = q_tick q" "q_clock q' = q_clock q"
      "\<forall>x \<in> U. content (at q' x) = content (at q x)"
      "equeue_ok n q' (insert_due q (due q' a) a xs) (F - {a}) (insert a U)"
proof -
  from call_in_ok [OF assms, of cb] consider
      q' where "equeue_call_in ms cb q = Some (0, q')" "q' = q" "q_slab_size q < 44" "\<forall>a \<in> F. ev_size (at q a) < 44"
    | a q' where "equeue_call_in ms cb q = Some (event_id a q', q')" "a \<notin> U" "44 \<le> ev_size (at q' a)"
        "ev_cb (at q' a) = Some cb" "ev_target (at q' a) = q_clock q + of_int ms"
        "ev_period (at q' a) = - 1" "ev_dtor (at q' a) = None" "q_tick q' = q_tick q" "q_clock q' = q_clock q"
        "\<forall>x \<in> U. content (at q' x) = content (at q x)"
        "equeue_ok n q' (insert_due q (due q' a) a xs) (F - {a}) (insert a U)"
    unfolding insert_due_def by blast
  then show ?thesis
  proof cases
    case 1
    then show ?thesis using that(1) by simp
  next
    case (2 a q')
    have "a \<in> (F - {a}) \<union> insert a U" by simp
    from event_id_ok(1,2) [OF 2(11) this] show ?thesis
      using 2 by (intro that(2) [of "event_id a q'" q' a]) (simp_all add: one_shot_def)
  qed
qed

section \<open>Every sequence of operations\<close>

text \<open>
  The states a queue reaches from its creation, with the events it should hold: time passes, calls are
  made, calls that are waiting are cancelled, and what is due is dispatched. The conditions on time are
  that any two times the queue compares are less than half of the clock's range apart.
\<close>

inductive equeue_runs ::
    "nat \<Rightarrow> ('f \<Rightarrow> addr \<Rightarrow> u32 \<Rightarrow> u32) \<Rightarrow> ('f \<Rightarrow> addr \<Rightarrow> 'f equeue \<Rightarrow> 'f equeue option) \<Rightarrow>
     (32 word \<Rightarrow> 'f equeue \<Rightarrow> 'f equeue option) \<Rightarrow> 'f equeue \<Rightarrow> addr list \<Rightarrow> bool"
  for n eff call wait
where
  create: "equeue_runs n eff call wait (equeue_create_inplace n c buffer) []"
| elapse: "equeue_runs n eff call wait q xs \<Longrightarrow> equeue_runs n eff call wait (q\<lparr>q_clock := c\<rparr>) xs"
| full: "equeue_runs n eff call wait q xs \<Longrightarrow> 0 \<le> ms \<Longrightarrow>
     unat (q_clock q - q_tick q) + nat ms < 2 ^ 31 \<Longrightarrow>
     equeue_call_in ms cb q = Some (0, q') \<Longrightarrow> equeue_runs n eff call wait q' xs"
| call_in: "equeue_runs n eff call wait q xs \<Longrightarrow> 0 \<le> ms \<Longrightarrow>
     unat (q_clock q - q_tick q) + nat ms < 2 ^ 31 \<Longrightarrow>
     equeue_call_in ms cb q = Some (i, q') \<Longrightarrow> i \<noteq> 0 \<Longrightarrow> a = unat (i AND mask (q_npw2 q')) \<Longrightarrow>
     equeue_runs n eff call wait q' (insert_due q (due q' a) a xs)"
| cancel: "equeue_runs n eff call wait q xs \<Longrightarrow> a \<in> set xs \<Longrightarrow>
     equeue_cancel call (event_id a q) q = Some q' \<Longrightarrow> equeue_runs n eff call wait q' (filter (\<lambda>x. x \<noteq> a) xs)"
| dispatch: "equeue_runs n eff call wait q xs \<Longrightarrow> unat (q_clock q - q_tick q) < 2 ^ 31 \<Longrightarrow>
     unat (run_clock eff q (due_now q xs) (q_clock q) - q_clock q) < 2 ^ 31 \<Longrightarrow>
     equeue_dispatch call wait 0 q = Some q' \<Longrightarrow> equeue_runs n eff call wait q' (due_later q xs)"

lemma set_insert_due [simp]: "set (insert_due q d a xs) = insert a (set xs)"
  by (auto simp: insert_due_def)

lemma runs_ok:
  assumes "equeue_runs n eff call wait q xs"
    and call: "\<And>f a q. call f a q = Some (q\<lparr>q_clock := eff f a (q_clock q)\<rparr>)" and "n < 2 ^ 23"
  shows "\<exists>F. equeue_ok n q xs F (set xs) \<and> (\<forall>x \<in> set xs. one_shot (at q x))"
  using assms(1)
proof induction
  case (create c buffer)
  show ?case using equeue_ok_create [OF assms(3), of c buffer] by (intro exI [of _ "{}"]) simp
next
  case (elapse q xs c)
  from elapse.IH obtain F where "equeue_ok n q xs F (set xs)" "\<forall>x \<in> set xs. one_shot (at q x)" by blast
  then show ?case using equeue_ok_clock [of n q xs F "set xs" c] by (intro exI [of _ F]) simp
next
  case (full q xs ms cb q')
  from full.IH obtain F where F: "equeue_ok n q xs F (set xs)" "\<forall>x \<in> set xs. one_shot (at q x)" by blast
  have "q' = q"
  proof (cases rule: call_in_room [OF F(1) full.hyps(2,3), of cb])
    case 1
    then show ?thesis using full.hyps(4) by simp
  next
    case (2 i a q'')
    show ?thesis using 2(1,2) full.hyps(4) by simp
  qed
  then show ?case using F by blast
next
  case (call_in q xs ms cb i q' a)
  from call_in.IH obtain F where F: "equeue_ok n q xs F (set xs)" "\<forall>x \<in> set xs. one_shot (at q x)" by blast
  show ?case
  proof (cases rule: call_in_room [OF F(1) call_in.hyps(2,3), of cb])
    case 1
    then show ?thesis using call_in.hyps(4,5) by simp
  next
    case (2 i' a' q'')
    have same: "i' = i" "q'' = q'" "a' = a" using 2(1,3) call_in.hyps(4,6) by simp_all
    have "one_shot (at q' x)" if "x \<in> set xs" for x
      using 2(12) F(2) that one_shot_content unfolding same by blast
    then show ?thesis using 2(9,13) unfolding same by auto
  qed
next
  case (cancel q xs a q')
  from cancel.IH obtain F where F: "equeue_ok n q xs F (set xs)" "\<forall>x \<in> set xs. one_shot (at q x)" by blast
  then have "ev_dtor (at q a) = None" using cancel.hyps(2) by (simp add: one_shot_def)
  from cancel_ok [OF F(1) cancel.hyps(2) this, of call] obtain q2 where q2: "equeue_cancel call (event_id a q) q = Some q2"
      "equeue_ok n q2 (filter (\<lambda>x. x \<noteq> a) xs) (insert a F) (set xs - {a})"
      "\<forall>x. x \<noteq> a \<longrightarrow> content (at q2 x) = content (at q x)" by blast
  have "set xs - {a} = set (filter (\<lambda>x. x \<noteq> a) xs)" by auto
  moreover have "one_shot (at q2 x)" if "x \<in> set (filter (\<lambda>x. x \<noteq> a) xs)" for x
    using q2(3) F(2) that one_shot_content by auto
  moreover have "q2 = q'" using q2(1) cancel.hyps(3) by simp
  ultimately show ?case using q2(2) by metis
next
  case (dispatch q xs q')
  from dispatch.IH obtain F where F: "equeue_ok n q xs F (set xs)" "\<forall>x \<in> set xs. one_shot (at q x)" by blast
  have shots: "\<forall>x \<in> set xs. ev_period (at q x) < 0 \<and> ev_dtor (at q x) = None" using F(2) by (simp add: one_shot_def)
  from dispatch_ok [where call = call and eff = eff, OF call F(1) dispatch.hyps(2) shots dispatch.hyps(3) [unfolded due_now_def], of wait]
  obtain q2 where q2: "equeue_dispatch call wait 0 q = Some q2"
      "equeue_ok n q2 (due_later q xs) (F \<union> set (due_now q xs)) (set xs - set (due_now q xs))"
      "\<forall>x \<in> set (due_later q xs). content (at q2 x) = content (at q x)"
    unfolding due_later_def due_now_def by blast
  have "set xs - set (due_now q xs) = set (due_later q xs)" by (auto simp: due_now_def due_later_def)
  moreover have "one_shot (at q2 x)" if "x \<in> set (due_later q xs)" for x
  proof -
    have "x \<in> set xs" using that by (simp add: due_later_def)
    then show ?thesis using q2(3) F(2) that one_shot_content by blast
  qed
  moreover have "q2 = q'" using q2(1) dispatch.hyps(4) by simp
  ultimately show ?case using q2(2) by metis
qed

text \<open>A queue with one call, for the instances of the properties.\<close>

definition new_queue :: "nat equeue" where
  "new_queue = equeue_create_inplace 1024 100 (\<lambda>a. \<lparr>ev_size = 0, ev_id = 0, ev_generation = 0, ev_next = None,
     ev_sibling = None, ev_ref = P_head, ev_target = 0, ev_period = 0, ev_dtor = None, ev_cb = None\<rparr>)"

definition one_call :: "nat equeue" where
  "one_call = snd (the (equeue_call_in 10 7 new_queue))"

lemma new_queue_ok: "equeue_ok 1024 new_queue [] {} {}"
  unfolding new_queue_def by (rule equeue_ok_create) simp

lemma new_queue_fields: "q_clock new_queue = 100" "q_tick new_queue = 100" "q_slab_size new_queue = 1024"
  by (simp_all add: new_queue_def equeue_create_inplace_def)

lemma npw2_1024: "npw2 1024 = 11"
  by (simp add: npw2.simps)

lemma one_call_id: "map_option fst (equeue_call_in 10 7 new_queue) = Some 2048"
  by (simp add: equeue_call_in_def call_with_def equeue_alloc_def equeue_mem_alloc_def find_chunk.simps
      equeue_post_def equeue_enqueue_def find_slot.simps new_queue_def equeue_create_inplace_def npw2_1024
      chunk_size_def sizeof_event_def event_id_def equeue_event_delay_def upd_event_def Let_def)

lemma one_call:
  "equeue_ok 1024 one_call [0] {} {0}" "one_shot (at one_call 0)" "ev_cb (at one_call 0) = Some 7"
  "ev_target (at one_call 0) = 110" "q_tick one_call = 100" "q_clock one_call = 100"
  "equeue_call_in 10 7 new_queue = Some (2048, one_call)" "due one_call 0 = 10"
proof -
  have "equeue_ok 1024 one_call [0] {} {0} \<and> one_shot (at one_call 0) \<and> ev_cb (at one_call 0) = Some 7 \<and>
      ev_target (at one_call 0) = 110 \<and> q_tick one_call = 100 \<and> q_clock one_call = 100 \<and>
      equeue_call_in 10 7 new_queue = Some (2048, one_call)"
  proof (cases rule: call_in_room [OF new_queue_ok, of 10 7])
    case (4 i a q')
    have i: "i = 2048" and q': "q' = one_call" using 4(1) one_call_id by (simp_all add: one_call_def)
    have "q_npw2 one_call = 11" using 4(13) npw2_1024 unfolding q' by (simp add: equeue_ok_def)
    then have "a = 0" using 4(3) unfolding i q' by (simp add: mask_eq_exp_minus_1)
    then show ?thesis using 4(1,7-11,13) unfolding i q' new_queue_fields by (simp add: insert_due_def)
  qed (use new_queue_fields in simp_all)
  then show "equeue_ok 1024 one_call [0] {} {0}" "one_shot (at one_call 0)" "ev_cb (at one_call 0) = Some 7"
    "ev_target (at one_call 0) = 110" "q_tick one_call = 100" "q_clock one_call = 100"
    "equeue_call_in 10 7 new_queue = Some (2048, one_call)" by blast+
  then show "due one_call 0 = 10" by (simp add: due_def)
qed

section \<open>Properties\<close>

text \<open>
  C13: A call in \<open>ms\<close> milliseconds, at most half of the clock's range ahead of the last dispatch, either fails with 0, and then no free block and not the slab had room
  and nothing changed, or its event is in a block that was not in use, to run the callback at the current
  time plus \<open>ms\<close>; it runs after all the events that are due no later, calls for the same time included,
  and before the others, whose order stays.
\<close>
theorem equeue_call_in_refines:
  assumes ok: "equeue_ok n q xs F U" and "0 \<le> ms" "unat (q_clock q - q_tick q) + nat ms < 2 ^ 31"
  shows "\<exists>i q'. equeue_call_in ms cb q = Some (i, q') \<and>
     (if i = 0 then q' = q \<and> q_slab_size q < 44 \<and> (\<forall>a \<in> F. ev_size (at q a) < 44)
      else let a = unat (i AND mask (q_npw2 q'))
        in a \<notin> U \<and> equeue_ok n q' (insert_due q (due q' a) a xs) (F - {a}) (insert a U) \<and> 44 \<le> ev_size (at q' a) \<and>
           ev_cb (at q' a) = Some cb \<and> ev_target (at q' a) = q_clock q + of_int ms \<and> one_shot (at q' a) \<and>
           (\<forall>x \<in> U. content (at q' x) = content (at q x)))"
proof (cases rule: call_in_room [OF assms, of cb])
  case 1
  then show ?thesis by (intro exI [of _ 0] exI [of _ q]) simp
next
  case (2 i a q')
  have "a = unat (i AND mask (q_npw2 q'))" by (rule 2(3))
  then show ?thesis using 2(1,2,5-9,12,13) by (intro exI [of _ i] exI [of _ q']) (simp only: Let_def if_False simp_thms)
qed

lemma equeue_call_in_refines_witness:
  "\<exists>i q'. equeue_call_in 5 8 one_call = Some (i, q') \<and>
     (if i = 0 then q_slab_size one_call < 44 else let a = unat (i AND mask (q_npw2 q')) in
        equeue_ok 1024 q' (insert_due one_call (due q' a) a [0]) ({} - {a}) (insert a {0}))"
  using equeue_call_in_refines [OF one_call(1), of 5 8] by (fastforce simp: one_call(5,6) Let_def split: if_splits)

text \<open>
  C15: Cancelling a waiting one-shot call takes exactly its event out of the queue, the other events and their order
  stay, and gives back its block, without running the callback. After that the identifier is stale:
  cancelling again does nothing, and no time is left.
\<close>
theorem equeue_cancel_exact:
  assumes "equeue_ok n q xs F U" "a \<in> set xs" "one_shot (at q a)"
  shows "\<exists>q'. equeue_cancel call (event_id a q) q = Some q' \<and>
     equeue_ok n q' (filter (\<lambda>x. x \<noteq> a) xs) (insert a F) (U - {a}) \<and> q_clock q' = q_clock q \<and>
     (\<forall>x. x \<noteq> a \<longrightarrow> content (at q' x) = content (at q x)) \<and>
     equeue_cancel call (event_id a q) q' = Some q' \<and> equeue_timeleft (event_id a q) q' = - 1"
proof -
  obtain q' where q': "equeue_cancel call (event_id a q) q = Some q'"
      "equeue_ok n q' (filter (\<lambda>x. x \<noteq> a) xs) (insert a F) (U - {a})" "q_clock q' = q_clock q"
      "\<forall>x. x \<noteq> a \<longrightarrow> content (at q' x) = content (at q x)"
      "ev_id (at q' a) \<noteq> ev_id (at q a)" "q_npw2 q' = q_npw2 q"
    using cancel_ok [OF assms(1,2), of call] assms(3) by (auto simp: one_shot_def)
  have "a \<in> F \<union> U" using assms(1,2) by (auto simp: equeue_ok_def)
  note i = event_id_ok [OF assms(1) this]
  have "ucast (ev_id (at q' a)) \<noteq> signed_drop_bit (q_npw2 q) (event_id a q)" using i(3) q'(5) by simp
  then have "equeue_unqueue (event_id a q) q' = (None, q')" "equeue_timeleft (event_id a q) q' = - 1"
    using i(1,2) q'(6) by (simp_all add: equeue_unqueue_def equeue_timeleft_def)
  then show ?thesis using q' i(1) by (simp add: equeue_cancel_def)
qed

lemma equeue_cancel_exact_witness:
  "\<exists>q'. equeue_cancel (\<lambda>f a q. Some q) (event_id 0 one_call) one_call = Some q' \<and> equeue_ok 1024 q' [] {0} {} \<and>
     equeue_timeleft (event_id 0 one_call) q' = - 1"
  using equeue_cancel_exact [OF one_call(1) _ one_call(2), of "\<lambda>f a q. Some q"] by auto

text \<open>
  The time left of a waiting call is its time less the current one, and 0 once it is overdue.
\<close>
theorem equeue_timeleft_exact:
  assumes "equeue_ok n q xs F U" "a \<in> set xs" "unat (q_clock q - q_tick q) < 2 ^ 31"
  shows "equeue_timeleft (event_id a q) q = max 0 (int (due q a) - int (unat (q_clock q - q_tick q)))"
proof -
  have "a \<in> F \<union> U" using assms(1,2) by (auto simp: equeue_ok_def)
  note i = event_id_ok [OF assms(1) this]
  have "due q a < 2 ^ 31" using assms(1,2) by (auto simp: equeue_ok_def queue_holds_def queue_inv_def)
  then have "sint (ev_target (at q a) - q_clock q) = int (due q a) - int (unat (q_clock q - q_tick q))"
    using sint_diff [of "ev_target (at q a)" "q_tick q" "q_clock q"] assms(3) by (simp add: due_def)
  then show ?thesis using i by (simp add: equeue_timeleft_def clampdiff_max)
qed

lemma equeue_timeleft_exact_witness: "equeue_timeleft (event_id 0 one_call) one_call = 10"
  using equeue_timeleft_exact [OF one_call(1), of 0] by (simp add: one_call(5,6,8))

text \<open>
  C14: On a queue of one-shot events, which have no period and no destructor, a dispatch for no time
  returns. It has run the callbacks of exactly the events that were due, each once, in their order, and
  given back their blocks; the events that were not due are waiting as before. The callbacks are any
  that let time pass; \<open>eff\<close> may tell every event apart, so that the clock at the end tells which were run
  in which order. The clock is less than \<open>2 ^ 31\<close> past the last dispatch, and the callbacks together take
  less than that.
\<close>
theorem equeue_dispatch_runs_due:
  assumes call: "\<And>f a q. call f a q = Some (q\<lparr>q_clock := eff f a (q_clock q)\<rparr>)"
    and ok: "equeue_ok n q xs F U" and "unat (q_clock q - q_tick q) < 2 ^ 31"
    and shots: "\<forall>x \<in> set xs. one_shot (at q x)"
    and "unat (run_clock eff q (due_now q xs) (q_clock q) - q_clock q) < 2 ^ 31"
  shows "\<exists>q'. equeue_dispatch call wait 0 q = Some q' \<and>
     q_clock q' = run_clock eff q (due_now q xs) (q_clock q) \<and>
     equeue_ok n q' (due_later q xs) (F \<union> set (due_now q xs)) (U - set (due_now q xs)) \<and>
     (\<forall>x \<in> set (due_later q xs). content (at q' x) = content (at q x))"
proof -
  have "\<forall>x \<in> set xs. ev_period (at q x) < 0 \<and> ev_dtor (at q x) = None" using shots by (simp add: one_shot_def)
  from dispatch_ok [where call = call and eff = eff, OF call ok assms(3) this assms(5) [unfolded due_now_def], of wait]
  show ?thesis unfolding due_later_def due_now_def by blast
qed

lemma one_call_later: "equeue_ok 1024 (one_call\<lparr>q_clock := 120\<rparr>) [0] {} {0}"
  using one_call(1) by (rule equeue_ok_clock)

lemma equeue_dispatch_runs_due_witness:
  "\<exists>q'. equeue_dispatch (\<lambda>f a q. Some (q\<lparr>q_clock := q_clock q + of_nat f\<rparr>)) (\<lambda>d. Some) 0 (one_call\<lparr>q_clock := 120\<rparr>) =
     Some q' \<and> q_clock q' = 127 \<and> equeue_ok 1024 q' [] {0} {}"
proof -
  let ?q = "one_call\<lparr>q_clock := 120\<rparr>"
  have due: "due_now ?q [0] = [0]" "due_later ?q [0] = []"
    by (simp_all add: due_now_def due_later_def due_def one_call(4,5))
  have run: "run_clock (\<lambda>f a c. c + of_nat f) ?q [0] 120 = 127" by (simp add: run_clock_def one_call(3))
  from equeue_dispatch_runs_due [where call = "\<lambda>f a q. Some (q\<lparr>q_clock := q_clock q + of_nat f\<rparr>)"
      and eff = "\<lambda>f a c. c + of_nat f" and wait = "\<lambda>d. Some", OF refl one_call_later]
  show ?thesis using one_call(2,5) by (simp add: due run)
qed

text \<open>
  C29: An event that a dispatch has taken out of the queue can still be cancelled while it waits for its
  turn: it stays in the dispatcher's list, but has lost its callback and its period, so that it will not
  run. For an event due at this very time, the queue knows from its generation, of 8 bits, that it is
  out; that is the last hypothesis.
\<close>
theorem equeue_cancel_in_flight:
  assumes ok: "equeue_ok n q xs F U" and a: "a \<in> set (due_now q xs)" and window: "unat (q_clock q - q_tick q) < 2 ^ 31"
    and "due q a < unat (q_clock q - q_tick q) \<or> ev_generation (at q a) \<noteq> q_generation q + 1"
  shows "\<exists>h q1 q2. equeue_dequeue (q_clock q) q = Some (h, q1) \<and> chain q1 h (due_now q xs) None \<and>
     equeue_cancel call (event_id a q) q1 = Some q2 \<and> chain q2 h (due_now q xs) None \<and>
     ev_cb (at q2 a) = None \<and> ev_period (at q2 a) = - 1 \<and> (\<forall>x. x \<noteq> a \<longrightarrow> at q2 x = at q1 x)"
proof -
  have hold: "queue_holds q xs" using ok by (simp add: equeue_ok_def)
  obtain h q1 where q1: "equeue_dequeue (q_clock q) q = Some (h, q1)" "chain q1 h (due_now q xs) None"
      "q_tick q1 = q_clock q" "q_generation q1 = q_generation q + 1" "environment q1 = environment q"
      "\<And>x. content (at q1 x) = content (at q x)"
    using dequeue_holds [OF hold window] unfolding due_now_def by blast
  have due: "a \<in> set xs" "due q a \<le> unat (q_clock q - q_tick q)" using a by (simp_all add: due_now_def)
  then have "a \<in> F \<union> U" using ok by (auto simp: equeue_ok_def)
  note i = event_id_ok [OF ok this]
  let ?q2 = "upd_event a (\<lambda>e. e\<lparr>ev_cb := None, ev_period := - 1\<rparr>) q1"
  have fields: "ev_id (at q1 a) = ev_id (at q a)" "ev_target (at q1 a) = ev_target (at q a)"
    "ev_generation (at q1 a) = ev_generation (at q a)" using q1(6) [of a] by (simp_all add: content_def)
  have "due q a < 2 ^ 31" using due(2) window by linarith
  then have "sint (equeue_tickdiff (ev_target (at q1 a)) (q_tick q1)) = int (due q a) - int (unat (q_clock q - q_tick q))"
    using sint_diff [of "ev_target (at q a)" "q_tick q" "q_clock q"] window
    by (simp add: due_def equeue_tickdiff_def fields q1(3))
  then have "sint (equeue_tickdiff (ev_target (at q1 a)) (q_tick q1)) < 0 \<or>
      sint (equeue_tickdiff (ev_target (at q1 a)) (q_tick q1)) = 0 \<and> ev_generation (at q1 a) \<noteq> q_generation q1"
    unfolding fields(3) q1(4) using assms(4) due(2) by linarith
  then have "equeue_unqueue (event_id a q) q1 = (None, ?q2)"
    using i(2,3) environmentD(6) [OF q1(5)] fields(1) by (simp add: equeue_unqueue_def Let_def)
  then have "equeue_cancel call (event_id a q) q1 = Some ?q2" using i(1) by (simp add: equeue_cancel_def)
  moreover have "chain ?q2 h (due_now q xs) None" using q1(2) chain_frame [of "due_now q xs" ?q2 q1] by simp
  ultimately show ?thesis using q1(1,2) by (intro exI [of _ h] exI [of _ q1] exI [of _ ?q2]) simp
qed

lemma equeue_cancel_in_flight_witness:
  "\<exists>h q1 q2. equeue_dequeue 120 (one_call\<lparr>q_clock := 120\<rparr>) = Some (h, q1) \<and>
     equeue_cancel (\<lambda>f a. Some) (event_id 0 (one_call\<lparr>q_clock := 120\<rparr>)) q1 = Some q2 \<and>
     chain q2 h [0] None \<and> ev_cb (at q2 0) = None"
proof -
  let ?q = "one_call\<lparr>q_clock := 120\<rparr>"
  have due: "due ?q 0 = 10" "due_now ?q [0] = [0]" "unat (q_clock ?q - q_tick ?q) = 20"
    by (simp_all add: due_now_def due_def one_call(4,5))
  from equeue_cancel_in_flight [OF one_call_later, of 0 "\<lambda>f a. Some"] show ?thesis
    unfolding due by auto
qed

text \<open>
  C12: From the creation of a queue on, under any sequence of one-shot calls (\<open>equeue_call_in\<close>), failed
  calls, cancellations of waiting calls, dispatches for no time and passing time, with callbacks that
  only let time pass, the buffer is in order. The queue holds exactly the calls that were made and
  neither cancelled nor run, sorted by time; the blocks in use are theirs and no others. No block is
  lost: every byte below the slab belongs to the block of a waiting call or to a block in the lists of
  free blocks, from which it can be given out again; none is in both, and no two overlap. The buffer
  has less than \<open>2 ^ 23\<close> bytes, and times that are compared are less than \<open>2 ^ 31\<close> apart.
\<close>
theorem equeue_runs_ok:
  assumes "equeue_runs n eff call wait q xs"
    and "\<And>f a q. call f a q = Some (q\<lparr>q_clock := eff f a (q_clock q)\<rparr>)" and "n < 2 ^ 23"
  shows "\<exists>F. equeue_ok n q xs F (set xs) \<and> (\<forall>x \<in> set xs. one_shot (at q x)) \<and>
     free_chunks q F \<and> F \<inter> set xs = {} \<and> q_slab_data q + q_slab_size q = n \<and>
     (\<forall>i < q_slab_data q. \<exists>!a. a \<in> F \<union> set xs \<and> a \<le> i \<and> i < a + ev_size (at q a))"
proof -
  obtain F where F: "equeue_ok n q xs F (set xs)" "\<forall>x \<in> set xs. one_shot (at q x)"
    using runs_ok [OF assms] by blast
  then have blocks: "blocks n q F (set xs)" by (simp add: equeue_ok_def)
  then have "free_chunks q F" "F \<inter> set xs = {}" "q_slab_data q + q_slab_size q = n" by (simp_all add: blocks_def)
  then show ?thesis using F blocks_partition [OF blocks] by blast
qed

lemma equeue_runs_ok_witness:
  "\<exists>F. equeue_ok 1024 one_call [0] F (set [0]) \<and>
     (\<forall>i < q_slab_data one_call. \<exists>!a. a \<in> F \<union> set [0] \<and> a \<le> i \<and> i < a + ev_size (at one_call a))"
proof -
  have "equeue_runs 1024 (\<lambda>f a c. c) (\<lambda>f a. Some) (\<lambda>d. Some) new_queue []"
    unfolding new_queue_def by (rule equeue_runs.create)
  from equeue_runs.call_in [OF this _ _ one_call(7)]
  have "equeue_runs 1024 (\<lambda>f a c. c) (\<lambda>f a. Some) (\<lambda>d. Some) one_call [0]"
    using one_call(1) npw2_1024 by (simp add: insert_due_def new_queue_fields equeue_ok_def mask_eq_exp_minus_1)
  from equeue_runs_ok [OF this] show ?thesis by auto
qed

text \<open>
  A block that \<open>equeue_alloc\<close> gives out has room for the event and the bytes asked for, lies in the
  buffer, and overlaps no block in use.
\<close>
theorem equeue_alloc_apart:
  assumes "equeue_ok n q xs F U" "m < 2 ^ 32 - 40" "equeue_alloc m q = Some (Some a, q')"
  shows "a + sizeof_event + m \<le> n \<and>
     (\<forall>b \<in> U. a + sizeof_event + m \<le> b \<or> b + ev_size (at q b) \<le> a) \<and> (\<forall>b \<in> U. at q' b = at q b)"
proof -
  from alloc_ok [OF assms(1,2)] assms(3) have a: "a \<notin> U" "chunk_size m \<le> ev_size (at q' a)"
    "equeue_ok n q' xs (F - {a}) (insert a U)" "\<forall>b \<in> U. at q' b = at q b" by auto
  then have "blocks n q' (F - {a}) (insert a U)" by (simp add: equeue_ok_def)
  then have "a + ev_size (at q' a) \<le> n" "\<forall>b \<in> U. apart q' a b"
    using a(1) by (auto simp: blocks_def)
  moreover have "sizeof_event + m \<le> ev_size (at q' a)" using chunk_size_enough(1) [OF assms(2)] a(2) by linarith
  ultimately show ?thesis using a(4) by (fastforce simp: apart_def)
qed

lemma equeue_alloc_apart_witness:
  "\<exists>a q'. equeue_alloc 8 one_call = Some (Some a, q') \<and> a + sizeof_event + 8 \<le> 1024"
proof -
  obtain r q' where r: "equeue_alloc 8 one_call = Some (r, q')"
      "case r of None \<Rightarrow> q_slab_size one_call < chunk_size 8 | Some a \<Rightarrow> True"
    using alloc_ok [OF one_call(1), of 8] by (fastforce split: option.splits)
  have "q_slab_size one_call = 980"
    by (simp add: one_call_def equeue_call_in_def call_with_def equeue_alloc_def equeue_mem_alloc_def find_chunk.simps
        equeue_post_def equeue_enqueue_def find_slot.simps new_queue_def equeue_create_inplace_def
        chunk_size_def sizeof_event_def event_id_def equeue_event_delay_def upd_event_def Let_def
        link_event_def new_slot_def set_ref_def notify_timer_def)
  then obtain a where "r = Some a" using r(2) by (cases r) (simp_all add: chunk_size_def sizeof_event_def)
  then show ?thesis using equeue_alloc_apart [OF one_call(1), of 8 a q'] r(1) by auto
qed

text \<open>
  A size near \<open>2 ^ 32\<close> wraps around when the event's overhead is added: \<open>equeue_alloc\<close> then
  succeeds, with a block that holds not even the event.
\<close>
theorem equeue_alloc_wraps:
  "chunk_size (2 ^ 32 - 36) = 0 \<and>
   map_option fst (equeue_alloc (2 ^ 32 - 36) new_queue) = Some (Some 0)"
  by (simp_all add: chunk_size_def sizeof_event_def equeue_alloc_def equeue_mem_alloc_def find_chunk.simps
      new_queue_def equeue_create_inplace_def Let_def)

end
