(* ===== verification/Dns.thy ===== *)
theory Dns
  imports Prelude "HOL-Library.Monad_Syntax"
begin

text \<open>
  The DNS resolver of the network stack, \<open>features/netsocket/nsapi_dns.cpp\<close>: the question and the
  response as packets, the cache, and the blocking query over the configured servers.

  A packet is the list of the bytes of its buffer, a pointer into it a position. \<open>None\<close> is undefined
  behaviour: a read past the buffer, or a \<open>strcpy\<close> to a null pointer.
\<close>

section \<open>Addresses\<close>

datatype nsapi_version = NSAPI_UNSPEC | NSAPI_IPv4 | NSAPI_IPv6

text \<open>\<open>na_bytes\<close> is the array of 16 bytes.\<close>

record nsapi_addr =
  na_version :: nsapi_version
  na_bytes :: "u8 list"

definition RR_A :: u16 where "RR_A = 1"
definition RR_AAAA :: u16 where "RR_AAAA = 28"
definition CLASS_IN :: u16 where "CLASS_IN = 1"
definition DNS_BUFFER_SIZE :: nat where "DNS_BUFFER_SIZE = 512"
definition DNS_SERVERS_SIZE :: nat where "DNS_SERVERS_SIZE = 5"
definition DNS_STACK_SERVERS_NUM :: nat where "DNS_STACK_SERVERS_NUM = 5"
definition DNS_HOST_NAME_MAX_LEN :: nat where "DNS_HOST_NAME_MAX_LEN = 255"

section \<open>Writing a packet\<close>

text \<open>What has been written so far is the argument \<open>p\<close>.\<close>

definition dns_append_byte :: "u8 \<Rightarrow> u8 list \<Rightarrow> u8 list" where
  "dns_append_byte byte p = p @ [byte]"

definition dns_append_word :: "u16 \<Rightarrow> u8 list \<Rightarrow> u8 list" where
  "dns_append_word w p =
     dns_append_byte (ucast (0xff AND w)) (dns_append_byte (ucast (0xff AND drop_bit 8 w)) p)"

definition dns_append_name :: "string \<Rightarrow> u8 \<Rightarrow> u8 list \<Rightarrow> u8 list" where
  "dns_append_name name len p = dns_append_byte len p @ map of_char (take (unat len) name)"

definition strcspn_dot :: "string \<Rightarrow> nat" where
  "strcspn_dot s = length (takeWhile (\<lambda>c. c \<noteq> CHR ''.'') s)"

text \<open>The loop over the labels; \<open>host[label_len]\<close> is a dot or the NUL.\<close>

function append_labels :: "string \<Rightarrow> u8 list \<Rightarrow> u8 list" where
  "append_labels host p =
     (if host = [] then p
      else let label_len = strcspn_dot host;
               p = dns_append_name host (of_nat label_len) p
           in append_labels (drop (label_len + (if label_len < length host then 1 else 0)) host) p)"
  by pat_completeness auto
termination
  by (relation "measure (\<lambda>(host, p). length host)") (auto simp: strcspn_dot_def Let_def)

definition dns_append_question :: "u16 \<Rightarrow> string \<Rightarrow> nsapi_version \<Rightarrow> u8 list" where
  "dns_append_question ident host version =
     (let p = dns_append_word ident [];
          p = dns_append_word 0x0100 p;
          p = dns_append_word 1 p;
          p = dns_append_word 0 p;
          p = dns_append_word 0 p;
          p = dns_append_word 0 p;
          p = append_labels host p;
          p = dns_append_byte 0 p;
          p = dns_append_word (if version \<noteq> NSAPI_IPv6 then RR_A else RR_AAAA) p
      in dns_append_word CLASS_IN p)"

section \<open>Reading a response\<close>

definition dns_scan_byte :: "u8 list \<Rightarrow> nat \<Rightarrow> (u8 \<times> nat) option" where
  "dns_scan_byte buf p = (if p < length buf then Some (buf ! p, p + 1) else None)"

definition dns_scan_word :: "u8 list \<Rightarrow> nat \<Rightarrow> (u16 \<times> nat) option" where
  "dns_scan_word buf p = do {
     (a, p) \<leftarrow> dns_scan_byte buf p;
     (b, p) \<leftarrow> dns_scan_byte buf p;
     Some (push_bit 8 (ucast a) OR ucast b, p)
   }"

definition dns_scan_word32 :: "u8 list \<Rightarrow> nat \<Rightarrow> (u32 \<times> nat) option" where
  "dns_scan_word32 buf p = do {
     (a, p) \<leftarrow> dns_scan_byte buf p;
     (b, p) \<leftarrow> dns_scan_byte buf p;
     (c, p) \<leftarrow> dns_scan_byte buf p;
     (d, p) \<leftarrow> dns_scan_byte buf p;
     Some (push_bit 24 (ucast a) OR push_bit 16 (ucast b) OR push_bit 8 (ucast c) OR ucast d, p)
   }"

primrec scan_bytes :: "nat \<Rightarrow> u8 list \<Rightarrow> nat \<Rightarrow> (u8 list \<times> nat) option" where
  "scan_bytes 0 buf p = Some ([], p)"
| "scan_bytes (Suc n) buf p = do {
     (a, p) \<leftarrow> dns_scan_byte buf p;
     (as, p) \<leftarrow> scan_bytes n buf p;
     Some (a # as, p)
   }"

lemma dns_scan_byte_Some: "dns_scan_byte buf p = Some (a, q) \<longleftrightarrow> p < length buf \<and> a = buf ! p \<and> q = p + 1"
  by (auto simp: dns_scan_byte_def)

text \<open>The name of a question, and the name of an answer, which may end in a link.\<close>

function skip_question_name :: "u8 list \<Rightarrow> nat \<Rightarrow> nat option" where
  "skip_question_name buf p =
     (case dns_scan_byte buf p of
        None \<Rightarrow> None
      | Some (len, p) \<Rightarrow> if len = 0 then Some p else skip_question_name buf (p + unat len))"
  by pat_completeness auto
termination
  by (relation "measure (\<lambda>(buf, p). length buf - p)") (auto simp: dns_scan_byte_Some)

function skip_answer_name :: "u8 list \<Rightarrow> nat \<Rightarrow> nat option" where
  "skip_answer_name buf p =
     (case dns_scan_byte buf p of
        None \<Rightarrow> None
      | Some (len, p) \<Rightarrow>
          if len = 0 then Some p
          else if len AND 0xc0 \<noteq> 0 then map_option snd (dns_scan_byte buf p)
          else skip_answer_name buf (p + unat len))"
  by pat_completeness auto
termination
  by (relation "measure (\<lambda>(buf, p). length buf - p)") (auto simp: dns_scan_byte_Some)

declare append_labels.simps [simp del] skip_question_name.simps [simp del] skip_answer_name.simps [simp del]

primrec skip_questions :: "nat \<Rightarrow> u8 list \<Rightarrow> nat \<Rightarrow> nat option" where
  "skip_questions 0 buf p = Some p"
| "skip_questions (Suc n) buf p = do {
     p \<leftarrow> skip_question_name buf p;
     (_, p) \<leftarrow> dns_scan_word buf p;
     (_, p) \<leftarrow> dns_scan_word buf p;
     skip_questions n buf p
   }"

text \<open>
  What the scan has found: the time to live of the first answer, which is not set before it, the
  array of addresses and how many of them are filled.
\<close>

record dns_found =
  df_ttl :: "u32 option"
  df_addrs :: "nsapi_addr list"
  df_count :: nat

definition INT32_MAX :: u32 where "INT32_MAX = 0x7fffffff"

text \<open>Writing the next address; its other bytes keep their values.\<close>

definition store_addr :: "nsapi_version \<Rightarrow> u8 list \<Rightarrow> dns_found \<Rightarrow> dns_found option" where
  "store_addr version bytes f =
     (if df_count f < length (df_addrs f) then
        (let a = df_addrs f ! df_count f
         in Some (f\<lparr>df_addrs := (df_addrs f)[df_count f :=
                      a\<lparr>na_version := version, na_bytes := bytes @ drop (length bytes) (na_bytes a)\<rparr>],
                    df_count := df_count f + 1\<rparr>))
      else None)"

definition scan_record :: "bool \<Rightarrow> u8 list \<Rightarrow> nat \<Rightarrow> dns_found \<Rightarrow> (dns_found \<times> nat) option" where
  "scan_record is_first buf p f = do {
     p \<leftarrow> skip_answer_name buf p;
     (rtype, p) \<leftarrow> dns_scan_word buf p;
     (rclass, p) \<leftarrow> dns_scan_word buf p;
     (ttl_val, p) \<leftarrow> dns_scan_word32 buf p;
     (rdlength, p) \<leftarrow> dns_scan_word buf p;
     let f = (if is_first then f\<lparr>df_ttl := Some (min ttl_val INT32_MAX)\<rparr> else f);
     if rtype = RR_A \<and> rclass = CLASS_IN \<and> rdlength = 4 then do {
       (bytes, p) \<leftarrow> scan_bytes 4 buf p;
       f \<leftarrow> store_addr NSAPI_IPv4 bytes f;
       Some (f, p)
     } else if rtype = RR_AAAA \<and> rclass = CLASS_IN \<and> rdlength = 16 then do {
       (bytes, p) \<leftarrow> scan_bytes 16 buf p;
       f \<leftarrow> store_addr NSAPI_IPv6 bytes f;
       Some (f, p)
     } else Some (f, p + unat rdlength)
   }"

text \<open>The loop over the answers: \<open>n\<close> of them are left, and \<open>is_first\<close> is \<open>i == 0\<close>.\<close>

fun scan_answers :: "nat \<Rightarrow> bool \<Rightarrow> nat \<Rightarrow> u8 list \<Rightarrow> nat \<Rightarrow> dns_found \<Rightarrow> dns_found option" where
  "scan_answers 0 is_first addr_count buf p f = Some f"
| "scan_answers (Suc n) is_first addr_count buf p f =
     (if df_count f < addr_count then do {
        (f, p) \<leftarrow> scan_record is_first buf p f;
        scan_answers n False addr_count buf p f
      } else Some f)"

text \<open>
  \<open>dns_scan_response\<close>: the result with the time to live and the addresses.
\<close>

definition dns_scan_response ::
    "u8 list \<Rightarrow> u16 \<Rightarrow> nsapi_addr list \<Rightarrow> nat \<Rightarrow> (int \<times> u32 option \<times> nsapi_addr list) option" where
  "dns_scan_response buf exp_id addrs addr_count = do {
     (ident, p) \<leftarrow> dns_scan_word buf 0;
     (flags, p) \<leftarrow> dns_scan_word buf p;
     let qr = bit flags 15;
     let opcode = 0xf AND drop_bit 11 flags;
     let rcode = 0xf AND flags;
     (qdcount, p) \<leftarrow> dns_scan_word buf p;
     (ancount, p) \<leftarrow> dns_scan_word buf p;
     (_, p) \<leftarrow> dns_scan_word buf p;
     (_, p) \<leftarrow> dns_scan_word buf p;
     if \<not> (ident = exp_id \<and> qr \<and> opcode = 0) then Some (- 1, None, addrs)
     else if rcode \<noteq> 0 then Some (0, None, addrs)
     else do {
       p \<leftarrow> skip_questions (unat qdcount) buf p;
       f \<leftarrow> scan_answers (unat ancount) True addr_count buf p \<lparr>df_ttl = None, df_addrs = addrs, df_count = 0\<rparr>;
       Some (int (df_count f), df_ttl f, df_addrs f)
     }
   }"

end
