(* ===== verification/DnsQuery.thy ===== *)
theory DnsQuery
  imports Dns
begin

text \<open>
  The cache of the DNS resolver and its blocking query, \<open>features/netsocket/nsapi_dns.cpp\<close>.
\<close>

section \<open>The cache\<close>

record dns_entry =
  dc_address :: nsapi_addr
  dc_host :: string
  dc_expires :: u64
  dc_accessed :: u64

text \<open>The array of pointers, \<open>None\<close> a null pointer.\<close>

type_synonym dns_cache = "dns_entry option list"

definition DNS_CACHE_SIZE :: nat where "DNS_CACHE_SIZE = 3"

definition cache_match :: "string \<Rightarrow> nsapi_version \<Rightarrow> dns_entry \<Rightarrow> bool" where
  "cache_match host version e \<longleftrightarrow>
     (version = NSAPI_UNSPEC \<or> version = na_version (dc_address e)) \<and> dc_host e = host"

text \<open>
  The loop of \<open>nsapi_dns_cache_find\<close> from entry \<open>i\<close> on, where \<open>ms i\<close> is what the clock says at this
  entry. It drops every entry that has expired, and goes on after a match.
\<close>

fun cache_find_loop ::
    "(nat \<Rightarrow> u64) \<Rightarrow> string \<Rightarrow> nsapi_version \<Rightarrow> nat \<Rightarrow> dns_cache \<Rightarrow> nsapi_addr option \<Rightarrow> dns_cache \<times> nsapi_addr option" where
  "cache_find_loop ms host version i [] r = ([], r)"
| "cache_find_loop ms host version i (None # cache) r =
     (let (cache, r) = cache_find_loop ms host version (i + 1) cache r in (None # cache, r))"
| "cache_find_loop ms host version i (Some e # cache) r =
     (if ms i > dc_expires e then
        (let (cache, r) = cache_find_loop ms host version (i + 1) cache r in (None # cache, r))
      else if cache_match host version e then
        (let (cache, r) = cache_find_loop ms host version (i + 1) cache (Some (dc_address e))
         in (Some (e\<lparr>dc_accessed := ms i\<rparr>) # cache, r))
      else (let (cache, r) = cache_find_loop ms host version (i + 1) cache r in (Some e # cache, r)))"

definition nsapi_dns_cache_find ::
    "(nat \<Rightarrow> u64) \<Rightarrow> string \<Rightarrow> nsapi_version \<Rightarrow> dns_cache \<Rightarrow> dns_cache \<times> nsapi_addr option" where
  "nsapi_dns_cache_find ms host version cache = cache_find_loop ms host version 0 cache None"

text \<open>The entry to fill: the first free one, or else the last of those that were accessed first.\<close>

fun cache_index_loop :: "nat \<Rightarrow> dns_cache \<Rightarrow> u64 \<Rightarrow> nat option \<Rightarrow> nat option" where
  "cache_index_loop i [] accessed index = index"
| "cache_index_loop i (None # cache) accessed index = Some i"
| "cache_index_loop i (Some e # cache) accessed index =
     (if dc_accessed e \<le> accessed then cache_index_loop (i + 1) cache (dc_accessed e) (Some i)
      else cache_index_loop (i + 1) cache accessed index)"

text \<open>
  \<open>nsapi_dns_cache_add\<close>. \<open>new_entry\<close> and \<open>new_host\<close> say whether the two allocations succeed; the
  code copies the name without looking at the second.
\<close>

definition nsapi_dns_cache_add ::
    "(nat \<Rightarrow> u64) \<Rightarrow> u64 \<Rightarrow> bool \<Rightarrow> bool \<Rightarrow> string \<Rightarrow> nsapi_addr \<Rightarrow> u32 \<Rightarrow> dns_cache \<Rightarrow> dns_cache option" where
  "nsapi_dns_cache_add ms now new_entry new_host host address ttl cache =
     (if ttl = 0 then Some cache
      else let (cache, found) = nsapi_dns_cache_find ms host (na_version address) cache
           in if found \<noteq> None then Some cache
              else case cache_index_loop 0 cache (- 1) None of
                None \<Rightarrow> Some cache
              | Some i \<Rightarrow>
                  (if cache ! i = None \<and> \<not> new_entry then Some cache
                   else if \<not> new_host then None
                   else Some (cache[i := Some \<lparr>dc_address = address, dc_host = host,
                     dc_expires = now + ucast ttl * 1000, dc_accessed = now\<rparr>])))"

section \<open>The servers\<close>

text \<open>\<open>dns_servers\<close> as it is at the start: three addresses of version 4, two of version 6.\<close>

definition dns_servers :: "nsapi_addr list" where
  "dns_servers =
     [\<lparr>na_version = NSAPI_IPv4, na_bytes = [8, 8, 8, 8, 0, 0, 0, 0, 0, 0, 0, 0, 0, 0, 0, 0]\<rparr>,
      \<lparr>na_version = NSAPI_IPv4, na_bytes = [209, 244, 0, 3, 0, 0, 0, 0, 0, 0, 0, 0, 0, 0, 0, 0]\<rparr>,
      \<lparr>na_version = NSAPI_IPv4, na_bytes = [84, 200, 69, 80, 0, 0, 0, 0, 0, 0, 0, 0, 0, 0, 0, 0]\<rparr>,
      \<lparr>na_version = NSAPI_IPv6, na_bytes = [0x20, 0x01, 0x48, 0x60, 0x48, 0x60, 0, 0, 0, 0, 0, 0, 0, 0, 0x88, 0x88]\<rparr>,
      \<lparr>na_version = NSAPI_IPv6, na_bytes = [0x20, 0x01, 0x16, 0x08, 0, 0x10, 0, 0x25, 0, 0, 0, 0, 0x1c, 0x04, 0xb1, 0x2f]\<rparr>]"

definition nsapi_dns_add_server :: "nsapi_addr \<Rightarrow> nsapi_addr list \<Rightarrow> nsapi_addr list" where
  "nsapi_dns_add_server addr servers = addr # take (DNS_SERVERS_SIZE - 1) servers"

text \<open>
  What the resolver relies on: the network stack, its socket, the clock and the heap. The answers of
  \<open>sendto\<close> and \<open>recvfrom\<close> are functions of the number of the call; a datagram is cut to the buffer.
\<close>

record dns_env =
  de_stack_server :: "nat \<Rightarrow> nsapi_addr option"
  de_servers :: "nsapi_addr list"
  de_open :: int
  de_close :: int
  de_malloc :: "u8 list option"
  de_sendto :: "nat \<Rightarrow> int"
  de_recvfrom :: "nat \<Rightarrow> int + u8 list"
  de_find_ms :: "nat \<Rightarrow> u64"
  de_check_ms :: "nat \<Rightarrow> u64"
  de_now :: u64
  de_new_entry :: bool
  de_new_host :: bool

text \<open>The locals of the query, with a log of the datagrams sent, and the number received.\<close>

record dns_query =
  dq_index :: u8
  dq_retries :: u8
  dq_attempts :: u8
  dq_success :: u8
  dq_packet :: "u8 list"
  dq_addrs :: "nsapi_addr list"
  dq_cache :: dns_cache
  dq_sent :: "(nsapi_addr \<times> u8 list) list"
  dq_received :: nat

definition NSAPI_ERROR_WOULD_BLOCK :: int where "NSAPI_ERROR_WOULD_BLOCK = - 3001"
definition NSAPI_ERROR_PARAMETER :: int where "NSAPI_ERROR_PARAMETER = - 3003"
definition NSAPI_ERROR_NO_MEMORY :: int where "NSAPI_ERROR_NO_MEMORY = - 3007"
definition NSAPI_ERROR_DNS_FAILURE :: int where "NSAPI_ERROR_DNS_FAILURE = - 3009"
definition DNS_RETRIES :: u8 where "DNS_RETRIES = 0"
definition DNS_TOTAL_ATTEMPTS :: u8 where "DNS_TOTAL_ATTEMPTS = 3"

text \<open>
  \<open>nsapi_dns_get_server_addr\<close>: \<open>None\<close> is \<open>NSAPI_ERROR_NO_ADDRESS\<close>.
\<close>

definition nsapi_dns_get_server_addr :: "dns_env \<Rightarrow> dns_query \<Rightarrow> (nsapi_addr \<times> dns_query) option" where
  "nsapi_dns_get_server_addr E q =
     (if dq_attempts q = 0 then None
      else let wrap = (unat (dq_index q) \<ge> DNS_SERVERS_SIZE + DNS_STACK_SERVERS_NUM)
           in if wrap \<and> dq_success q = 0 then None
              else let q = (if wrap then q\<lparr>dq_index := 0, dq_success := 0\<rparr> else q)
                   in case (if unat (dq_index q) < DNS_STACK_SERVERS_NUM
                            then de_stack_server E (unat (dq_index q)) else None) of
                        Some addr \<Rightarrow> Some (addr, q)
                      | None \<Rightarrow>
                          let q = (if unat (dq_index q) < DNS_STACK_SERVERS_NUM
                                   then q\<lparr>dq_index := of_nat DNS_STACK_SERVERS_NUM\<rparr> else q)
                          in Some (de_servers E ! (unat (dq_index q) - DNS_STACK_SERVERS_NUM), q))"

section \<open>The query\<close>

text \<open>
  One round of the loop: what it does, and whether it goes on. The question is written into the
  packet, the datagram over the beginning of it.
\<close>

datatype dns_step = Continue dns_query | Result int dns_query

definition next_server :: "dns_query \<Rightarrow> dns_query" where
  "next_server q = q\<lparr>dq_retries := DNS_RETRIES, dq_index := dq_index q + 1\<rparr>"

definition dns_send :: "dns_env \<Rightarrow> string \<Rightarrow> nsapi_version \<Rightarrow> nsapi_addr \<Rightarrow> dns_query \<Rightarrow> (int \<times> dns_query) option" where
  "dns_send E host version server q =
     (let question = dns_append_question 1 host version
      in if length question > DNS_BUFFER_SIZE then None
         else Some (de_sendto E (length (dq_sent q)),
           q\<lparr>dq_packet := question @ drop (length question) (dq_packet q),
             dq_sent := dq_sent q @ [(server, question)]\<rparr>))"

definition dns_receive :: "dns_env \<Rightarrow> dns_query \<Rightarrow> int \<times> dns_query" where
  "dns_receive E q =
     (let q' = q\<lparr>dq_received := dq_received q + 1\<rparr>
      in case de_recvfrom E (dq_received q) of
           Inl err \<Rightarrow> (err, q')
         | Inr data \<Rightarrow>
             let d = take DNS_BUFFER_SIZE data
             in (int (length d), q'\<lparr>dq_packet := d @ drop (length d) (dq_packet q)\<rparr>))"

definition dns_answer :: "dns_env \<Rightarrow> string \<Rightarrow> nat \<Rightarrow> dns_query \<Rightarrow> dns_step option" where
  "dns_answer E host addr_count q = do {
     (resp, ttl, addrs) \<leftarrow> dns_scan_response (dq_packet q) 1 (dq_addrs q) addr_count;
     let q = q\<lparr>dq_addrs := addrs\<rparr>;
     if resp > 0 then do {
       ttl \<leftarrow> ttl;
       cache \<leftarrow> nsapi_dns_cache_add (de_check_ms E) (de_now E) (de_new_entry E) (de_new_host E) host (addrs ! 0) ttl (dq_cache q);
       Some (Result resp (q\<lparr>dq_cache := cache\<rparr>))
     } else if resp < 0 then Some (Continue q)
     else Some (Result NSAPI_ERROR_DNS_FAILURE q)
   }"

definition dns_round :: "dns_env \<Rightarrow> string \<Rightarrow> nat \<Rightarrow> nsapi_version \<Rightarrow> dns_query \<Rightarrow> dns_step option" where
  "dns_round E host addr_count version q =
     (case nsapi_dns_get_server_addr E q of
        None \<Rightarrow> Some (Result NSAPI_ERROR_DNS_FAILURE q)
      | Some (server, q) \<Rightarrow> do {
          (err, q) \<leftarrow> dns_send E host version server q;
          if err < 0 then Some (Continue (next_server q))
          else do {
            let q = q\<lparr>dq_success := dq_success q + 1,
                      dq_attempts := (if dq_attempts q \<noteq> 0 then dq_attempts q - 1 else 0)\<rparr>;
            let (err, q) = dns_receive E q;
            if err = NSAPI_ERROR_WOULD_BLOCK then
              Some (Continue (if dq_retries q \<noteq> 0 then q\<lparr>dq_retries := dq_retries q - 1\<rparr> else next_server q))
            else if err < 0 then Some (Result err q)
            else dns_answer E host addr_count q
          }
        })"

text \<open>
  The rounds that can be left, whatever the network does: a datagram that was sent uses up an attempt,
  and one that could not be sent moves on to the next server; after the last the list starts again
  once for every attempt.
\<close>

definition rounds_left :: "dns_query \<Rightarrow> nat" where
  "rounds_left q = 22 * unat (dq_attempts q) + (if dq_success q = 0 then 0 else 11) + (11 - unat (dq_index q))"

lemma get_server_left:
  assumes "nsapi_dns_get_server_addr E q = Some (server, q')"
  shows "dq_attempts q' = dq_attempts q" "dq_attempts q \<noteq> 0" "unat (dq_index q') < 10"
    "22 * unat (dq_attempts q) + (if dq_success q' = 0 then 0 else 11) + (10 - unat (dq_index q')) < rounds_left q"
proof -
  have q': "q' = (let q = if unat (dq_index q) \<ge> 10 then q\<lparr>dq_index := 0, dq_success := 0\<rparr> else q
      in if unat (dq_index q) < 5 \<and> de_stack_server E (unat (dq_index q)) = None then q\<lparr>dq_index := 5\<rparr> else q)"
    and more: "dq_attempts q \<noteq> 0" "unat (dq_index q) \<ge> 10 \<Longrightarrow> dq_success q \<noteq> 0"
    using assms by (auto simp: nsapi_dns_get_server_addr_def Let_def DNS_SERVERS_SIZE_def DNS_STACK_SERVERS_NUM_def
        split: if_splits option.splits)
  show "dq_attempts q \<noteq> 0" by (rule more)
  show "dq_attempts q' = dq_attempts q" "unat (dq_index q') < 10"
    unfolding q' by (simp_all add: Let_def)
  show "22 * unat (dq_attempts q) + (if dq_success q' = 0 then 0 else 11) + (10 - unat (dq_index q')) < rounds_left q"
    using more(2) unfolding q' rounds_left_def by (auto simp: Let_def)
qed

lemma next_server_left:
  assumes "unat (dq_index q) < 10"
  shows "rounds_left (next_server q) = 22 * unat (dq_attempts q) + (if dq_success q = 0 then 0 else 11) + (10 - unat (dq_index q))"
proof -
  have "unat (dq_index q + 1) = unat (dq_index q) + 1"
    using assms unat_add_no_wrap [of "dq_index q" 1] by simp
  then show ?thesis by (simp add: rounds_left_def next_server_def)
qed

lemma attempt_left:
  assumes "dq_attempts q \<noteq> 0" "dq_attempts q' = dq_attempts q - 1"
  shows "rounds_left q' \<le> 22 * unat (dq_attempts q)"
proof -
  have "unat (dq_attempts q') + 1 = unat (dq_attempts q)"
    using assms by (simp add: unat_minus_one) (metis Suc_pred unat_gt_0)
  then show ?thesis unfolding rounds_left_def by auto
qed

lemma attempts_kept [simp]:
  "dq_attempts (snd (dns_receive E q)) = dq_attempts q" "dq_attempts (next_server q) = dq_attempts q"
  by (simp_all add: dns_receive_def next_server_def Let_def split: sum.split)

lemma dns_send_kept:
  assumes "dns_send E host version server q = Some (err, q')"
  shows "dq_attempts q' = dq_attempts q" "dq_index q' = dq_index q" "dq_success q' = dq_success q"
  using assms by (auto simp: dns_send_def Let_def split: if_splits)

lemma dns_answer_continue:
  "dns_answer E host addr_count q = Some (Continue q') \<Longrightarrow> dq_attempts q' = dq_attempts q"
  by (auto simp: dns_answer_def Let_def bind_eq_Some_conv split: if_splits)

lemma dns_round_left:
  assumes "dns_round E host addr_count version q = Some (Continue q')"
  shows "rounds_left q' < rounds_left q"
proof -
  obtain server q1 err q2 where server: "nsapi_dns_get_server_addr E q = Some (server, q1)"
      and send: "dns_send E host version server q1 = Some (err, q2)"
    using assms by (auto simp: dns_round_def bind_eq_Some_conv split: option.splits)
  note left = get_server_left [OF server] and kept = dns_send_kept [OF send]
  show ?thesis
  proof (cases "err < 0")
    case True
    then have "q' = next_server q2" using assms server send by (simp add: dns_round_def)
    then show ?thesis using left kept next_server_left [of q2] by simp
  next
    case False
    let ?q = "q2\<lparr>dq_success := dq_success q2 + 1, dq_attempts := dq_attempts q2 - 1\<rparr>"
    have "dq_attempts q' = dq_attempts q - 1"
      using assms server send False left(1,2) kept(1) attempts_kept(1) [of E ?q]
      by (auto simp: dns_round_def Let_def split: prod.splits if_splits dest: dns_answer_continue simp del: attempts_kept(1))
    then have "rounds_left q' \<le> 22 * unat (dq_attempts q)" by (rule attempt_left [OF left(2)])
    then show ?thesis using left(4) by linarith
  qed
qed

text \<open>The loop of \<open>nsapi_dns_query_multiple\<close>: it ends, whatever the network answers.\<close>

function dns_loop :: "dns_env \<Rightarrow> string \<Rightarrow> nat \<Rightarrow> nsapi_version \<Rightarrow> dns_query \<Rightarrow> (int \<times> dns_query) option" where
  "dns_loop E host addr_count version q =
     (case dns_round E host addr_count version q of
        None \<Rightarrow> None
      | Some (Result r q) \<Rightarrow> Some (r, q)
      | Some (Continue q) \<Rightarrow> dns_loop E host addr_count version q)"
  by pat_completeness auto
termination
  by (relation "measure (\<lambda>(E, host, addr_count, version, q). rounds_left q)") (auto intro: dns_round_left)

declare dns_loop.simps [simp del]

definition start_query :: "u8 list \<Rightarrow> nsapi_addr list \<Rightarrow> dns_cache \<Rightarrow> dns_query" where
  "start_query packet addrs cache =
     \<lparr>dq_index = 0, dq_retries = DNS_RETRIES, dq_attempts = DNS_TOTAL_ATTEMPTS, dq_success = 0,
      dq_packet = packet, dq_addrs = addrs, dq_cache = cache, dq_sent = [], dq_received = 0\<rparr>"

text \<open>
  \<open>nsapi_dns_query_multiple\<close>: the result, and the query as it was left, with the addresses and the
  cache. The answer from the cache is one address.
\<close>

definition nsapi_dns_query_multiple ::
    "dns_env \<Rightarrow> string \<Rightarrow> nsapi_addr list \<Rightarrow> nat \<Rightarrow> nsapi_version \<Rightarrow> dns_cache \<Rightarrow> (int \<times> dns_query) option" where
  "nsapi_dns_query_multiple E host addrs addr_count version cache =
     (let q = start_query [] addrs cache
      in if length host > DNS_HOST_NAME_MAX_LEN \<or> host = [] then Some (NSAPI_ERROR_PARAMETER, q)
         else let (cache, found) = nsapi_dns_cache_find (de_find_ms E) host version cache;
                  q = q\<lparr>dq_cache := cache\<rparr>
              in case found of
                Some a \<Rightarrow> if addrs = [] then None else Some (1, q\<lparr>dq_addrs := addrs[0 := a]\<rparr>)
              | None \<Rightarrow>
                  if de_open E \<noteq> 0 then Some (de_open E, q)
                  else case de_malloc E of
                    None \<Rightarrow> Some (NSAPI_ERROR_NO_MEMORY, q)
                  | Some packet \<Rightarrow> do {
                      (r, q) \<leftarrow> dns_loop E host addr_count version (q\<lparr>dq_packet := packet\<rparr>);
                      Some (if de_close E \<noteq> 0 then de_close E else r, q)
                    })"

text \<open>\<open>nsapi_dns_query\<close> for one address.\<close>

definition nsapi_dns_query ::
    "dns_env \<Rightarrow> string \<Rightarrow> nsapi_addr \<Rightarrow> nsapi_version \<Rightarrow> dns_cache \<Rightarrow> (int \<times> dns_query) option" where
  "nsapi_dns_query E host addr version cache = do {
     (r, q) \<leftarrow> nsapi_dns_query_multiple E host [addr] 1 version cache;
     Some (if r > 0 then 0 else r, q)
   }"

end
