(* ===== verification/DnsPackets.thy ===== *)
theory DnsPackets
  imports DnsQuery
begin

text \<open>
  Packets of the DNS resolver: how names, questions and records are written, and that a response with
  any of them is read as it was written.
\<close>

section \<open>Bytes on the wire\<close>

definition word_bytes :: "u16 \<Rightarrow> u8 list" where
  "word_bytes w = [ucast (drop_bit 8 w), ucast w]"

definition word32_bytes :: "u32 \<Rightarrow> u8 list" where
  "word32_bytes w = [ucast (drop_bit 24 w), ucast (drop_bit 16 w), ucast (drop_bit 8 w), ucast w]"

lemma word_bytes_length [simp]: "length (word_bytes w) = 2" "length (word32_bytes v) = 4"
  by (simp_all add: word_bytes_def word32_bytes_def)

lemma drop_append_add: "drop p buf = xs @ rest \<Longrightarrow> drop (p + length xs) buf = rest"
  by (metis append_eq_conv_conj drop_drop add.commute)

lemma scan_byte_at: "drop p buf = b # rest \<Longrightarrow> dns_scan_byte buf p = Some (b, Suc p)"
  by (metis dns_scan_byte_def Suc_eq_plus1 drop_eq_Nil2 linorder_not_less list.distinct(1) nth_via_drop)

lemma drop_scanned: "drop p buf = b # rest \<Longrightarrow> drop (Suc p) buf = rest"
  using drop_append_add [of p buf "[b]" rest] by simp

lemma word_of_bytes: "push_bit 8 (ucast (ucast (drop_bit 8 w) :: u8)) OR ucast (ucast w :: u8) = w" for w :: u16
  by (rule bit_word_eqI) (auto simp: bit_simps)

lemma word32_of_bytes:
  fixes w :: u32
  shows "push_bit 24 (ucast (ucast (drop_bit 24 w) :: u8)) OR push_bit 16 (ucast (ucast (drop_bit 16 w) :: u8))
     OR push_bit 8 (ucast (ucast (drop_bit 8 w) :: u8)) OR ucast (ucast w :: u8) = w" (is "?x = w")
proof (rule bit_word_eqI)
  fix n assume "n < LENGTH(32)"
  then consider "n < 8" | "8 \<le> n" "n < 16" | "16 \<le> n" "n < 24" | "24 \<le> n" "n < 32" by fastforce
  then show "bit ?x n = bit w n"
    by cases (auto simp: bit_simps)
qed

lemma scan_word_at:
  assumes "drop p buf = word_bytes w @ rest"
  shows "dns_scan_word buf p = Some (w, p + 2)"
proof -
  have at: "drop p buf = ucast (drop_bit 8 w) # ucast w # rest" using assms by (simp add: word_bytes_def)
  note b = scan_byte_at [OF at] scan_byte_at [OF drop_scanned [OF at]]
  show ?thesis unfolding dns_scan_word_def by (simp add: b word_of_bytes)
qed

lemma scan_word32_at:
  assumes "drop p buf = word32_bytes w @ rest"
  shows "dns_scan_word32 buf p = Some (w, p + 4)"
proof -
  have at: "drop p buf = ucast (drop_bit 24 w) # ucast (drop_bit 16 w) # ucast (drop_bit 8 w) # ucast w # rest"
    using assms by (simp add: word32_bytes_def)
  note at1 = drop_scanned [OF at] and at2 = drop_scanned [OF drop_scanned [OF at]]
  note b = scan_byte_at [OF at] scan_byte_at [OF at1] scan_byte_at [OF at2] scan_byte_at [OF drop_scanned [OF at2]]
  show ?thesis unfolding dns_scan_word32_def using b by (simp add: word32_of_bytes)
qed

lemma scan_bytes_at: "drop p buf = bs @ rest \<Longrightarrow> scan_bytes (length bs) buf p = Some (bs, p + length bs)"
proof (induction bs arbitrary: p)
  case (Cons b bs)
  have at: "drop p buf = b # (bs @ rest)" using Cons.prems by simp
  show ?case using scan_byte_at [OF at] Cons.IH [OF drop_scanned [OF at]] by simp
qed simp

text \<open>A name as it stands in a question.\<close>

definition label_bytes :: "u8 list \<Rightarrow> u8 list" where
  "label_bytes l = of_nat (length l) # l"

definition name_bytes :: "u8 list list \<Rightarrow> u8 list" where
  "name_bytes ls = concat (map label_bytes ls) @ [0]"

definition label_ok :: "nat \<Rightarrow> u8 list \<Rightarrow> bool" where
  "label_ok m l \<longleftrightarrow> l \<noteq> [] \<and> length l \<le> m"

lemma label_byte:
  assumes "label_ok m l" "m < 256"
  shows "unat (of_nat (length l) :: u8) = length l" "(of_nat (length l) :: u8) \<noteq> 0"
proof -
  show u: "unat (of_nat (length l) :: u8) = length l"
    using assms by (intro unat_of_nat_small) (simp add: label_ok_def)
  show "(of_nat (length l) :: u8) \<noteq> 0"
    using u assms(1) by (metis label_ok_def length_0_conv unat_0)
qed

lemma small_no_link:
  assumes "n < 64"
  shows "of_nat n AND (0xc0 :: u8) = 0"
proof -
  have "list_all (\<lambda>n. of_nat n AND (0xc0 :: u8) = 0) [0..<64]" by code_simp
  then show ?thesis using assms by (simp add: list_all_iff)
qed

text \<open>A name: its labels, and the byte 0 or a link.\<close>

definition answer_name_bytes :: "u8 list list \<Rightarrow> (u8 \<times> u8) option \<Rightarrow> u8 list" where
  "answer_name_bytes ls link =
     concat (map label_bytes ls) @ (case link of None \<Rightarrow> [0] | Some (a, b) \<Rightarrow> [a, b])"

definition link_ok :: "(u8 \<times> u8) option \<Rightarrow> bool" where
  "link_ok link \<longleftrightarrow> (case link of None \<Rightarrow> True | Some (a, b) \<Rightarrow> a AND 0xc0 \<noteq> 0)"

lemma drop_Suc_add: "drop (Suc p) buf = xs @ rest \<Longrightarrow> drop (Suc (p + length xs)) buf = rest"
  using drop_append_add [of "Suc p" buf xs rest] by simp

lemma skip_question_name_at:
  assumes "drop p buf = name_bytes ls @ rest" "list_all (label_ok 255) ls"
  shows "skip_question_name buf p = Some (p + length (name_bytes ls))"
  using assms
proof (induction ls arbitrary: p)
  case Nil
  then have "drop p buf = 0 # rest" by (simp add: name_bytes_def)
  from scan_byte_at [OF this] show ?case
    by (subst skip_question_name.simps) (simp add: name_bytes_def)
next
  case (Cons l ls)
  have at: "drop p buf = of_nat (length l) # (l @ name_bytes ls @ rest)"
    using Cons.prems(1) by (simp add: name_bytes_def label_bytes_def)
  have ok: "label_ok 255 l" "list_all (label_ok 255) ls" using Cons.prems(2) by simp_all
  note len = label_byte [OF ok(1)]
  have "drop (Suc (p + length l)) buf = name_bytes ls @ rest" using drop_scanned [OF at] by (rule drop_Suc_add)
  from Cons.IH [OF this ok(2)] show ?case
    using scan_byte_at [OF at] len by (subst skip_question_name.simps) (simp add: name_bytes_def label_bytes_def)
qed

lemma skip_answer_name_at:
  assumes "drop p buf = answer_name_bytes ls link @ rest" "list_all (label_ok 63) ls" "link_ok link"
  shows "skip_answer_name buf p = Some (p + length (answer_name_bytes ls link))"
  using assms(1,2)
proof (induction ls arbitrary: p)
  case Nil
  show ?case
  proof (cases link)
    case None
    then have "drop p buf = 0 # rest" using Nil by (simp add: answer_name_bytes_def)
    from scan_byte_at [OF this] show ?thesis
      using None by (subst skip_answer_name.simps) (simp add: answer_name_bytes_def)
  next
    case (Some ab)
    obtain a b where ab: "ab = (a, b)" by (cases ab)
    have at: "drop p buf = a # b # rest" using Nil Some ab by (simp add: answer_name_bytes_def)
    have "a AND 0xc0 \<noteq> 0" using assms(3) Some ab by (simp add: link_ok_def)
    moreover from this have "a \<noteq> 0" by auto
    ultimately show ?thesis
      using scan_byte_at [OF at] scan_byte_at [OF drop_scanned [OF at]] Some ab
      by (subst skip_answer_name.simps) (simp add: answer_name_bytes_def)
  qed
next
  case (Cons l ls)
  have at: "drop p buf = of_nat (length l) # (l @ answer_name_bytes ls link @ rest)"
    using Cons.prems(1) by (simp add: answer_name_bytes_def label_bytes_def)
  have ok: "label_ok 63 l" "list_all (label_ok 63) ls" using Cons.prems(2) by simp_all
  note len = label_byte [OF ok(1)]
  have "of_nat (length l) AND (0xc0 :: u8) = 0" using ok(1) by (intro small_no_link) (simp add: label_ok_def)
  moreover have "drop (Suc (p + length l)) buf = answer_name_bytes ls link @ rest"
    using drop_scanned [OF at] by (rule drop_Suc_add)
  note Cons.IH [OF this ok(2)]
  ultimately show ?case
    using scan_byte_at [OF at] len
    by (subst skip_answer_name.simps) (simp add: answer_name_bytes_def label_bytes_def)
qed

section \<open>Questions and answers\<close>

type_synonym dns_question = "u8 list list \<times> u16 \<times> u16"

fun question_bytes :: "dns_question \<Rightarrow> u8 list" where
  "question_bytes (ls, qtype, qclass) = name_bytes ls @ word_bytes qtype @ word_bytes qclass"

definition question_ok :: "dns_question \<Rightarrow> bool" where
  "question_ok q \<longleftrightarrow> list_all (label_ok 255) (fst q)"

lemma skip_questions_at:
  assumes "drop p buf = concat (map question_bytes qs) @ rest" "list_all question_ok qs"
  shows "skip_questions (length qs) buf p = Some (p + length (concat (map question_bytes qs)))"
  using assms
proof (induction qs arbitrary: p)
  case (Cons q qs)
  obtain ls t c where q: "q = (ls, t, c)" by (cases q)
  have at: "drop p buf = name_bytes ls @ (word_bytes t @ word_bytes c @ concat (map question_bytes qs) @ rest)"
    using Cons.prems(1) q by simp
  note at1 = drop_append_add [OF at]
  note at2 = drop_append_add [OF at1]
  note at3 = drop_append_add [OF at2]
  have "list_all (label_ok 255) ls" using Cons.prems(2) q by (simp add: question_ok_def)
  note steps = skip_question_name_at [OF at this] scan_word_at [OF at1] scan_word_at [OF at2 [simplified]]
  show ?case
    using steps Cons.IH [OF at3 [simplified]] Cons.prems(2) q
    by (simp add: add.assoc)
qed simp

record dns_rr =
  rr_labels :: "u8 list list"
  rr_link :: "(u8 \<times> u8) option"
  rr_type :: u16
  rr_class :: u16
  rr_ttl :: u32
  rr_data :: "u8 list"

definition rr_bytes :: "dns_rr \<Rightarrow> u8 list" where
  "rr_bytes r = answer_name_bytes (rr_labels r) (rr_link r) @ word_bytes (rr_type r) @ word_bytes (rr_class r) @
     word32_bytes (rr_ttl r) @ word_bytes (of_nat (length (rr_data r))) @ rr_data r"

definition rr_ok :: "dns_rr \<Rightarrow> bool" where
  "rr_ok r \<longleftrightarrow> list_all (label_ok 63) (rr_labels r) \<and> link_ok (rr_link r) \<and> length (rr_data r) < 2 ^ 16"

text \<open>The address in a record, if it has one.\<close>

definition rr_addr :: "dns_rr \<Rightarrow> (nsapi_version \<times> u8 list) option" where
  "rr_addr r =
     (if rr_type r = RR_A \<and> rr_class r = CLASS_IN \<and> length (rr_data r) = 4 then Some (NSAPI_IPv4, rr_data r)
      else if rr_type r = RR_AAAA \<and> rr_class r = CLASS_IN \<and> length (rr_data r) = 16 then Some (NSAPI_IPv6, rr_data r)
      else None)"

definition set_addr :: "nsapi_version \<times> u8 list \<Rightarrow> nsapi_addr \<Rightarrow> nsapi_addr" where
  "set_addr va a = a\<lparr>na_version := fst va, na_bytes := snd va @ drop (length (snd va)) (na_bytes a)\<rparr>"

definition take_record :: "bool \<Rightarrow> dns_rr \<Rightarrow> dns_found \<Rightarrow> dns_found" where
  "take_record is_first r f =
     (let f = (if is_first then f\<lparr>df_ttl := Some (min (rr_ttl r) INT32_MAX)\<rparr> else f)
      in case rr_addr r of
           None \<Rightarrow> f
         | Some va \<Rightarrow> f\<lparr>df_addrs := (df_addrs f)[df_count f := set_addr va (df_addrs f ! df_count f)],
                        df_count := df_count f + 1\<rparr>)"

lemma scan_record_at:
  assumes at: "drop p buf = rr_bytes r @ rest" and ok: "rr_ok r" and room: "df_count f < length (df_addrs f)"
  shows "scan_record is_first buf p f = Some (take_record is_first r f, p + length (rr_bytes r))"
proof -
  let ?n = "answer_name_bytes (rr_labels r) (rr_link r)"
  have at0: "drop p buf = ?n @ (word_bytes (rr_type r) @ word_bytes (rr_class r) @
     word32_bytes (rr_ttl r) @ word_bytes (of_nat (length (rr_data r))) @ rr_data r @ rest)"
    using at by (simp add: rr_bytes_def)
  note at1 = drop_append_add [OF at0]
  note at2 = drop_append_add [OF at1]
  note at3 = drop_append_add [OF at2]
  note at4 = drop_append_add [OF at3]
  note at5 = drop_append_add [OF at4]
  have name: "skip_answer_name buf p = Some (p + length ?n)"
    using skip_answer_name_at [OF at0] ok by (simp add: rr_ok_def)
  note words = scan_word_at [OF at1] scan_word_at [OF at2 [simplified]] scan_word32_at [OF at3 [simplified]]
    scan_word_at [OF at4 [simplified]]
  have len: "unat (of_nat (length (rr_data r)) :: u16) = length (rr_data r)"
    using ok by (intro unat_of_nat_small) (simp add: rr_ok_def)
  have "(of_nat (length (rr_data r)) :: u16) = k \<longleftrightarrow> length (rr_data r) = unat k" for k
    using len word_unat_eq_iff [of "of_nat (length (rr_data r))" k] by simp
  from this [of 4] this [of 16]
  have lens: "(of_nat (length (rr_data r)) :: u16) = 4 \<longleftrightarrow> length (rr_data r) = 4"
    "(of_nat (length (rr_data r)) :: u16) = 16 \<longleftrightarrow> length (rr_data r) = 16" by simp_all
  let ?p = "p + length ?n + 2 + 2 + 4 + 2"
  have data: "scan_bytes (length (rr_data r)) buf ?p = Some (rr_data r, ?p + length (rr_data r))"
    using scan_bytes_at [OF at5] by simp
  have scan: "scan_record is_first buf p f =
     (let f = (if is_first then f\<lparr>df_ttl := Some (min (rr_ttl r) INT32_MAX)\<rparr> else f);
          n = length (rr_data r)
      in if rr_type r = RR_A \<and> rr_class r = CLASS_IN \<and> n = 4 then
           do { (bytes, p) \<leftarrow> scan_bytes 4 buf ?p; f \<leftarrow> store_addr NSAPI_IPv4 bytes f; Some (f, p) }
         else if rr_type r = RR_AAAA \<and> rr_class r = CLASS_IN \<and> n = 16 then
           do { (bytes, p) \<leftarrow> scan_bytes 16 buf ?p; f \<leftarrow> store_addr NSAPI_IPv6 bytes f; Some (f, p) }
         else Some (f, ?p + n))"
    unfolding scan_record_def using name words by (simp add: lens len Let_def)
  have pos: "?p + length (rr_data r) = p + length (rr_bytes r)" by (simp add: rr_bytes_def)
  have store: "store_addr v (rr_data r) f' = Some (f'\<lparr>df_addrs := (df_addrs f')[df_count f' := set_addr (v, rr_data r) (df_addrs f' ! df_count f')],
      df_count := df_count f' + 1\<rparr>)" if "df_count f' < length (df_addrs f')" for v f'
    using that by (simp add: store_addr_def set_addr_def Let_def)
  consider (A) "rr_type r = RR_A" "rr_class r = CLASS_IN" "length (rr_data r) = 4"
    | (AAAA) "rr_type r = RR_AAAA" "rr_class r = CLASS_IN" "length (rr_data r) = 16"
    | (other) "rr_addr r = None"
    unfolding rr_addr_def by (metis (no_types, lifting))
  then show ?thesis
  proof cases
    case A
    then show ?thesis using data pos room by (simp add: scan store take_record_def rr_addr_def Let_def)
  next
    case AAAA
    then show ?thesis using data pos room by (simp add: scan store take_record_def rr_addr_def Let_def RR_A_def RR_AAAA_def)
  next
    case other
    then show ?thesis using pos unfolding scan by (auto simp: take_record_def rr_addr_def Let_def split: if_splits)
  qed
qed

fun take_records :: "bool \<Rightarrow> nat \<Rightarrow> dns_rr list \<Rightarrow> dns_found \<Rightarrow> dns_found" where
  "take_records is_first n [] f = f"
| "take_records is_first n (r # rs) f =
     (if df_count f < n then take_records False n rs (take_record is_first r f) else f)"

lemma take_record_size [simp]:
  "length (df_addrs (take_record is_first r f)) = length (df_addrs f)"
  "df_count (take_record is_first r f) \<le> Suc (df_count f)"
  by (auto simp: take_record_def Let_def split: option.split)

lemma scan_answers_at:
  assumes "drop p buf = concat (map rr_bytes rs) @ rest" "list_all rr_ok rs" "n \<le> length (df_addrs f)"
  shows "scan_answers (length rs) is_first n buf p f = Some (take_records is_first n rs f)"
  using assms
proof (induction rs arbitrary: is_first p f)
  case (Cons r rs)
  have at: "drop p buf = rr_bytes r @ (concat (map rr_bytes rs) @ rest)" using Cons.prems(1) by simp
  have ok: "rr_ok r" "list_all rr_ok rs" using Cons.prems(2) by simp_all
  show ?case
  proof (cases "df_count f < n")
    case True
    then show ?thesis
      using scan_record_at [OF at ok(1), of f is_first] Cons.IH [OF drop_append_add [OF at] ok(2), of "take_record is_first r f"] Cons.prems(3)
      by simp
  qed simp
qed simp

text \<open>In closed form: the first \<open>n\<close> records with an address fill the array from its start.\<close>

definition addrs_of :: "dns_rr list \<Rightarrow> (nsapi_version \<times> u8 list) list" where
  "addrs_of rs = List.map_filter rr_addr rs"

lemma addrs_of_simps [simp]:
  "addrs_of [] = []"
  "addrs_of (r # rs) = (case rr_addr r of None \<Rightarrow> addrs_of rs | Some va \<Rightarrow> va # addrs_of rs)"
  by (simp_all add: addrs_of_def List.map_filter_def split: option.split)

definition fill_addrs :: "nat \<Rightarrow> (nsapi_version \<times> u8 list) list \<Rightarrow> nsapi_addr list \<Rightarrow> nsapi_addr list" where
  "fill_addrs i as addrs = take i addrs @ map2 set_addr as (drop i addrs) @ drop (i + length as) addrs"

lemma fill_addrs_Nil [simp]: "fill_addrs i [] addrs = addrs"
  by (simp add: fill_addrs_def)

lemma fill_addrs_Cons:
  assumes "i < length addrs" "length as < length addrs - i"
  shows "fill_addrs (Suc i) as (addrs[i := set_addr va (addrs ! i)]) = fill_addrs i (va # as) addrs"
proof -
  have "drop i addrs = addrs ! i # drop (Suc i) addrs" using assms(1) by (simp add: Cons_nth_drop_Suc)
  moreover have "take (Suc i) (addrs[i := set_addr va (addrs ! i)]) = take i addrs @ [set_addr va (addrs ! i)]"
    using assms(1) by (simp add: take_Suc_conv_app_nth)
  ultimately show ?thesis using assms(1) by (simp add: fill_addrs_def)
qed

lemma take_records_closed:
  fixes rs :: "dns_rr list"
  assumes "n \<le> length (df_addrs f)" "df_count f \<le> n"
  defines "as \<equiv> take (n - df_count f) (addrs_of rs)"
  shows "df_count (take_records is_first n rs f) = df_count f + length as"
    and "df_addrs (take_records is_first n rs f) = fill_addrs (df_count f) as (df_addrs f)"
    and "df_ttl (take_records is_first n rs f) =
      (if is_first \<and> rs \<noteq> [] \<and> df_count f < n then Some (min (rr_ttl (hd rs)) INT32_MAX) else df_ttl f)"
proof -
  have "df_count (take_records is_first n rs f) = df_count f + length as \<and>
     df_addrs (take_records is_first n rs f) = fill_addrs (df_count f) as (df_addrs f) \<and>
     df_ttl (take_records is_first n rs f) =
      (if is_first \<and> rs \<noteq> [] \<and> df_count f < n then Some (min (rr_ttl (hd rs)) INT32_MAX) else df_ttl f)"
    using assms(1,2) unfolding as_def
  proof (induction rs arbitrary: is_first f)
    case (Cons r rs)
    show ?case
    proof (cases "df_count f < n")
      case True
      let ?f = "take_record is_first r f"
      have "n \<le> length (df_addrs ?f)" "df_count ?f \<le> n"
        using Cons.prems True take_record_size(2) [of is_first r f] by (simp_all del: take_record_size(2))
      note IH = Cons.IH [OF this, of False]
      show ?thesis
      proof (cases "rr_addr r")
        case None
        then show ?thesis using IH True by (simp add: take_record_def Let_def)
      next
        case (Some va)
        have size: "length (take (n - Suc (df_count f)) (addrs_of rs)) < length (df_addrs f) - df_count f"
          using True Cons.prems(1) by simp
        have "n - df_count f = Suc (n - Suc (df_count f))" using True by simp
        then show ?thesis
          using IH True Some fill_addrs_Cons [OF _ size, of va] Cons.prems(1)
          by (simp add: take_record_def Let_def)
      qed
    qed simp
  qed simp
  then show "df_count (take_records is_first n rs f) = df_count f + length as"
    "df_addrs (take_records is_first n rs f) = fill_addrs (df_count f) as (df_addrs f)"
    "df_ttl (take_records is_first n rs f) =
      (if is_first \<and> rs \<noteq> [] \<and> df_count f < n then Some (min (rr_ttl (hd rs)) INT32_MAX) else df_ttl f)"
    by blast+
qed

section \<open>Responses\<close>

definition response_bytes :: "u16 \<Rightarrow> u16 \<Rightarrow> u16 \<Rightarrow> u16 \<Rightarrow> dns_question list \<Rightarrow> dns_rr list \<Rightarrow> u8 list" where
  "response_bytes ident flags ns ar qs rs =
     word_bytes ident @ word_bytes flags @ word_bytes (of_nat (length qs)) @ word_bytes (of_nat (length rs)) @
     word_bytes ns @ word_bytes ar @ concat (map question_bytes qs) @ concat (map rr_bytes rs)"

text \<open>A standard query's response without an error.\<close>

definition answer_flags :: "u16 \<Rightarrow> bool" where
  "answer_flags flags \<longleftrightarrow> bit flags 15 \<and> 0xf AND drop_bit 11 flags = 0 \<and> 0xf AND flags = 0"

text \<open>A well-formed response is read as it was written, whatever follows its answers.\<close>

lemma scan_response_exact:
  assumes "answer_flags flags" "list_all question_ok qs" "list_all rr_ok rs" "length qs < 2 ^ 16" "length rs < 2 ^ 16"
    and "n \<le> length addrs"
  shows "dns_scan_response (response_bytes ident flags ns ar qs rs @ rest) ident addrs n =
     Some (int (length (take n (addrs_of rs))),
       if rs \<noteq> [] \<and> 0 < n then Some (min (rr_ttl (hd rs)) INT32_MAX) else None,
       map2 set_addr (take n (addrs_of rs)) addrs @ drop (length (take n (addrs_of rs))) addrs)"
proof -
  let ?buf = "response_bytes ident flags ns ar qs rs @ rest"
  let ?f = "\<lparr>df_ttl = None, df_addrs = addrs, df_count = 0\<rparr>"
  have at0: "drop 0 ?buf = word_bytes ident @ (word_bytes flags @ word_bytes (of_nat (length qs)) @ word_bytes (of_nat (length rs)) @
     word_bytes ns @ word_bytes ar @ concat (map question_bytes qs) @ concat (map rr_bytes rs) @ rest)"
    by (simp add: response_bytes_def)
  note at1 = drop_append_add [OF at0]
  note at2 = drop_append_add [OF at1]
  note at3 = drop_append_add [OF at2]
  note at4 = drop_append_add [OF at3]
  note at5 = drop_append_add [OF at4]
  note at6 = drop_append_add [OF at5]
  note at7 = drop_append_add [OF at6]
  note words = scan_word_at [OF at0] scan_word_at [OF at1] scan_word_at [OF at2] scan_word_at [OF at3]
    scan_word_at [OF at4] scan_word_at [OF at5]
  note questions = skip_questions_at [OF at6 assms(2)]
  have "n \<le> length (df_addrs ?f)" using assms(6) by simp
  note answers = scan_answers_at [OF at7 assms(3) this, of True]
  have lens: "unat (of_nat (length qs) :: u16) = length qs" "unat (of_nat (length rs) :: u16) = length rs"
    using assms(4,5) by (intro unat_of_nat_small; simp)+
  have closed: "df_count (take_records True n rs ?f) = length (take n (addrs_of rs))"
    "df_addrs (take_records True n rs ?f) = fill_addrs 0 (take n (addrs_of rs)) addrs"
    "df_ttl (take_records True n rs ?f) = (if rs \<noteq> [] \<and> 0 < n then Some (min (rr_ttl (hd rs)) INT32_MAX) else None)"
    using take_records_closed [where n = n and f = ?f and rs = rs and is_first = True] assms(6) by simp_all
  show ?thesis
    using words questions answers lens closed assms(1)
    unfolding dns_scan_response_def
    by (simp add: answer_flags_def Let_def fill_addrs_def)
qed

end
