(* ===== verification/DnsTheorems.thy ===== *)
theory DnsTheorems
  imports DnsPackets
begin

text \<open>
  What the DNS resolver computes: the question is what the standard says and fits its buffer, the
  query ends after few datagrams, and with an answering server it gives the server's addresses; and a
  response that makes it read outside its packet.
\<close>

section \<open>The question\<close>

text \<open>A host name: its labels with dots between them.\<close>

fun dotted :: "string list \<Rightarrow> string" where
  "dotted [] = []"
| "dotted [l] = l"
| "dotted (l # ls) = l @ CHR ''.'' # dotted ls"

definition host_label :: "string \<Rightarrow> bool" where
  "host_label l \<longleftrightarrow> l \<noteq> [] \<and> CHR ''.'' \<notin> set l \<and> length l < 256"

lemma dns_append_word_bytes: "dns_append_word w p = p @ word_bytes w"
proof -
  have "ucast (0xff AND v) = (ucast v :: u8)" for v :: u16
    by (rule bit_word_eqI) (auto simp: bit_simps mask_eq_exp_minus_1 [symmetric] bit_mask_iff numeral_eq_Suc bit_numeral_rec less_Suc_eq)
  then show ?thesis by (simp add: dns_append_word_def dns_append_byte_def word_bytes_def)
qed

lemma dns_append_label:
  assumes "host_label l" "strcspn_dot host = length l" "take (length l) host = l"
  shows "dns_append_name host (of_nat (strcspn_dot host)) p = p @ label_bytes (map of_char l)"
proof -
  have "unat (of_nat (length l) :: u8) = length l"
    using assms(1) by (intro unat_of_nat_small) (simp add: host_label_def)
  then show ?thesis using assms by (simp add: dns_append_name_def dns_append_byte_def label_bytes_def)
qed

lemma strcspn_label:
  assumes "host_label l"
  shows "strcspn_dot l = length l" "strcspn_dot (l @ CHR ''.'' # s) = length l"
proof -
  have "\<And>c. c \<in> set l \<Longrightarrow> c \<noteq> CHR ''.''" using assms by (auto simp: host_label_def)
  then show "strcspn_dot l = length l" "strcspn_dot (l @ CHR ''.'' # s) = length l"
    unfolding strcspn_dot_def by (simp_all add: takeWhile_append1 takeWhile_append2 takeWhile_eq_all_conv [THEN iffD2])
qed

lemma append_labels_dotted:
  "list_all host_label ls \<Longrightarrow> append_labels (dotted ls) p = p @ concat (map (label_bytes \<circ> map of_char) ls)"
proof (induction ls arbitrary: p rule: dotted.induct)
  case 1
  show ?case by (subst append_labels.simps) simp
next
  case (2 l)
  have l: "host_label l" "l \<noteq> []" using 2 by (simp_all add: host_label_def)
  have "append_labels [] q = q" for q by (subst append_labels.simps) simp
  then show ?case
    using l dns_append_label [of l l p] strcspn_label(1) [OF l(1)]
    by (subst append_labels.simps) (simp add: Let_def)
next
  case (3 l m ls)
  let ?s = "dotted (m # ls)" and ?p = "p @ label_bytes (map of_char l)"
  have l: "host_label l" "list_all host_label (m # ls)" using 3(2) by simp_all
  have "append_labels (l @ CHR ''.'' # ?s) p = append_labels ?s ?p"
    using dns_append_label [OF l(1) strcspn_label(2) [OF l(1)], of ?s p] strcspn_label(2) [OF l(1), of ?s]
    by (subst append_labels.simps) (simp add: Let_def)
  then show ?case using 3(1) [OF l(2), of ?p] by simp
qed

definition version_rr :: "nsapi_version \<Rightarrow> u16" where
  "version_rr version = (if version \<noteq> NSAPI_IPv6 then RR_A else RR_AAAA)"

lemma append_labels_length: "length (append_labels host p) \<le> length p + length host + 1"
proof (induction host p rule: append_labels.induct)
  case (1 host p)
  show ?case
  proof (cases "host = []")
    case False
    let ?l = "strcspn_dot host"
    let ?p = "dns_append_name host (of_nat ?l) p" and ?h = "drop (?l + (if ?l < length host then 1 else 0)) host"
    have l: "?l \<le> length host" by (simp add: strcspn_dot_def length_takeWhile_le)
    have "unat (of_nat ?l :: u8) \<le> ?l" by (simp add: unat_of_nat take_bit_nat_less_eq_self)
    then have p: "length ?p \<le> length p + ?l + 1" by (simp add: dns_append_name_def dns_append_byte_def)
    have step: "append_labels host p = append_labels ?h ?p" using False by (subst append_labels.simps) (simp add: Let_def)
    show ?thesis
    proof (cases "?l < length host")
      case True
      have "length (append_labels ?h ?p) \<le> length ?p + length ?h + 1" using 1 [OF False refl refl] by simp
      then show ?thesis using p True unfolding step by simp
    next
      case end_of_host: False
      have "append_labels [] ?p = ?p" by (subst append_labels.simps) simp
      then show ?thesis using p l end_of_host unfolding step by simp
    qed
  qed (subst append_labels.simps, simp)
qed

lemma dns_question_fits:
  assumes "length host \<le> 255"
  shows "length (dns_append_question ident host version) \<le> DNS_BUFFER_SIZE"
  using append_labels_length [of host "word_bytes ident @ word_bytes 0x0100 @ word_bytes 1 @ word_bytes 0 @ word_bytes 0 @ word_bytes 0"] assms
  by (simp add: dns_append_question_def dns_append_word_bytes dns_append_byte_def Let_def DNS_BUFFER_SIZE_def)

text \<open>
  The question that is sent for a host name of labels separated by dots, none empty and none above
  255 bytes, is the one of RFC 1035: a header with the identifier, the flag for recursion and one
  question, the labels with their lengths, the byte 0, and the type for the version of address with
  class IN; and it fits the buffer of 512 bytes for every name that the query accepts.
\<close>

theorem dns_append_question_exact:
  assumes "list_all host_label ls" "length (dotted ls) \<le> DNS_HOST_NAME_MAX_LEN"
  shows "dns_append_question ident (dotted ls) version =
     word_bytes ident @ word_bytes 0x0100 @ word_bytes 1 @ word_bytes 0 @ word_bytes 0 @ word_bytes 0 @
       question_bytes (map (map of_char) ls, version_rr version, CLASS_IN) \<and>
     length (dns_append_question ident (dotted ls) version) \<le> DNS_BUFFER_SIZE"
proof
  show "length (dns_append_question ident (dotted ls) version) \<le> DNS_BUFFER_SIZE"
    using assms(2) by (intro dns_question_fits) (simp add: DNS_HOST_NAME_MAX_LEN_def)
  show "dns_append_question ident (dotted ls) version =
     word_bytes ident @ word_bytes 0x0100 @ word_bytes 1 @ word_bytes 0 @ word_bytes 0 @ word_bytes 0 @
       question_bytes (map (map of_char) ls, version_rr version, CLASS_IN)"
    by (simp add: dns_append_question_def dns_append_word_bytes append_labels_dotted [OF assms(1)] name_bytes_def
        dns_append_byte_def version_rr_def Let_def comp_def)
qed

lemma dns_append_question_exact_witness:
  "dns_append_question 7 ''api.dk'' NSAPI_IPv4 =
     word_bytes 7 @ word_bytes 0x0100 @ word_bytes 1 @ word_bytes 0 @ word_bytes 0 @ word_bytes 0 @
       question_bytes ([[97, 112, 105], [100, 107]], RR_A, CLASS_IN) \<and>
     length (dns_append_question 7 ''api.dk'' NSAPI_IPv4) \<le> DNS_BUFFER_SIZE"
proof -
  have ok: "list_all host_label [''api'', ''dk'']" "length (dotted [''api'', ''dk'']) \<le> DNS_HOST_NAME_MAX_LEN" by code_simp+
  have host: "dotted [''api'', ''dk''] = ''api.dk''" "map (map of_char) [''api'', ''dk''] = [[97, 112, 105], [100, 107 :: u8]]"
    "version_rr NSAPI_IPv4 = RR_A" by (simp_all add: version_rr_def)
  show ?thesis using dns_append_question_exact [OF ok, of 7 NSAPI_IPv4] unfolding host .
qed

section \<open>The loop\<close>

text \<open>What a round adds to the log, and the datagrams it may still wait for.\<close>

definition asks :: "string \<Rightarrow> nsapi_version \<Rightarrow> dns_query \<Rightarrow> bool" where
  "asks host version q \<longleftrightarrow> list_all (\<lambda>d. snd d = dns_append_question 1 host version) (dq_sent q)"

fun step_query :: "dns_step \<Rightarrow> dns_query" where
  "step_query (Continue q) = q"
| "step_query (Result r q) = q"

lemma dns_receive_log:
  "dq_sent (snd (dns_receive E q)) = dq_sent q" "dq_received (snd (dns_receive E q)) = Suc (dq_received q)"
  by (simp_all add: dns_receive_def Let_def split: sum.split)

lemma dns_answer_log:
  assumes "dns_answer E host n q = Some s"
  shows "dq_sent (step_query s) = dq_sent q" "dq_received (step_query s) = dq_received q" "dq_attempts (step_query s) = dq_attempts q"
  using assms by (auto simp: dns_answer_def Let_def bind_eq_Some_conv split: if_splits)

lemma get_server_log:
  "nsapi_dns_get_server_addr E q = Some (server, q') \<Longrightarrow> dq_sent q' = dq_sent q \<and> dq_received q' = dq_received q"
  by (auto simp: nsapi_dns_get_server_addr_def Let_def split: if_splits option.splits)

lemma dns_round_sends:
  assumes "dns_round E host n version q = Some s"
  shows "s = Result NSAPI_ERROR_DNS_FAILURE q \<or>
     (rounds_left q \<noteq> 0 \<and> (\<exists>server. dq_sent (step_query s) = dq_sent q @ [(server, dns_append_question 1 host version)]) \<and>
      dq_received (step_query s) + unat (dq_attempts (step_query s)) \<le> dq_received q + unat (dq_attempts q))"
proof (cases "nsapi_dns_get_server_addr E q")
  case None
  then show ?thesis using assms by (simp add: dns_round_def)
next
  case (Some sq)
  obtain server q1 where sq: "sq = (server, q1)" by (cases sq)
  note left = get_server_left [OF Some [unfolded sq]] and log = get_server_log [OF Some [unfolded sq]]
  obtain err q2 where send: "dns_send E host version server q1 = Some (err, q2)"
    using assms Some sq by (auto simp: dns_round_def bind_eq_Some_conv)
  have q2: "dq_sent q2 = dq_sent q @ [(server, dns_append_question 1 host version)]" "dq_received q2 = dq_received q"
    "dq_attempts q2 = dq_attempts q"
    using send log left(1) by (auto simp: dns_send_def Let_def split: if_splits)
  have "dq_sent (step_query s) = dq_sent q2 \<and>
      dq_received (step_query s) + unat (dq_attempts (step_query s)) \<le> dq_received q2 + unat (dq_attempts q2)"
  proof (cases "err < 0")
    case True
    then have "s = Continue (next_server q2)" using assms Some sq send by (simp add: dns_round_def)
    then show ?thesis by (simp add: next_server_def)
  next
    case False
    let ?q = "q2\<lparr>dq_success := dq_success q2 + 1, dq_attempts := dq_attempts q2 - 1\<rparr>"
    obtain err' q3 where q3: "dns_receive E ?q = (err', q3)" by (cases "dns_receive E ?q")
    have log3: "dq_sent q3 = dq_sent q2" "dq_received q3 = Suc (dq_received q2)" "dq_attempts q3 = dq_attempts q2 - 1"
      using dns_receive_log [of E ?q] attempts_kept(1) [of E ?q] q3 by simp_all
    have "dq_sent (step_query s) = dq_sent q3 \<and> dq_received (step_query s) = dq_received q3 \<and> dq_attempts (step_query s) = dq_attempts q3"
      using assms Some sq send False q3 q2(3) left(2)
      by (auto simp: dns_round_def next_server_def split: if_splits dest: dns_answer_log)
    moreover have "unat (dq_attempts q2 - 1) + 1 = unat (dq_attempts q2)"
      using left(2) q2(3) by (simp add: unat_minus_one) (metis Suc_pred unat_gt_0)
    ultimately show ?thesis using log3 by simp
  qed
  then show ?thesis using q2 left(4) by auto
qed

lemma dns_loop_log:
  assumes "dns_loop E host n version q = Some (r, q')" "asks host version q"
  shows "asks host version q' \<and> length (dq_sent q') \<le> length (dq_sent q) + rounds_left q \<and>
     dq_received q' \<le> dq_received q + unat (dq_attempts q)"
  using assms
proof (induction E host n version q rule: dns_loop.induct)
  case (1 E host n version q)
  obtain s where s: "dns_round E host n version q = Some s"
    using 1(2) by (subst (asm) dns_loop.simps) (auto split: option.splits)
  note sends = dns_round_sends [OF s]
  show ?case
  proof (cases s)
    case (Result r' q1)
    then have "q' = q1" using 1(2) s by (subst (asm) dns_loop.simps) simp
    then show ?thesis using sends Result 1(3) by (auto simp: asks_def)
  next
    case (Continue q1)
    have loop: "dns_loop E host n version q1 = Some (r, q')"
      using 1(2) s Continue by (subst (asm) dns_loop.simps) simp
    have sent: "\<exists>server. dq_sent q1 = dq_sent q @ [(server, dns_append_question 1 host version)]"
      "dq_received q1 + unat (dq_attempts q1) \<le> dq_received q + unat (dq_attempts q)"
      using sends Continue by simp_all
    then have "asks host version q1" using 1(3) by (auto simp: asks_def)
    note IH = 1(1) [OF s Continue loop this]
    have "rounds_left q1 < rounds_left q" using s Continue by (intro dns_round_left) simp
    then show ?thesis using IH sent by auto
  qed
qed

text \<open>Where the scan of a response succeeds, its result can be cached; so the answer fails only where the scan does.\<close>

lemma store_addr_found: "store_addr v bytes f = Some f' \<Longrightarrow> length (df_addrs f') = length (df_addrs f) \<and> df_ttl f' = df_ttl f"
  by (auto simp: store_addr_def Let_def split: if_splits)

lemma scan_record_found:
  assumes "scan_record is_first buf p f = Some (f', p')"
  shows "length (df_addrs f') = length (df_addrs f) \<and> (df_ttl f' = None \<longrightarrow> df_ttl f = None \<and> \<not> is_first)"
proof -
  define g where "g t = (if is_first then f\<lparr>df_ttl := Some (min t INT32_MAX)\<rparr> else f)" for t
  have g: "length (df_addrs (g t)) = length (df_addrs f)" "df_ttl (g t) = None \<longrightarrow> df_ttl f = None \<and> \<not> is_first" for t
    by (simp_all add: g_def)
  obtain t where "g t = f' \<or> (\<exists>v bytes. store_addr v bytes (g t) = Some f')"
    using assms unfolding scan_record_def Let_def g_def [symmetric] bind_eq_Some_conv case_prod_beta
    by (elim exE conjE) (split if_split_asm, auto simp only: bind_eq_Some_conv split: if_split_asm)
  then show ?thesis using g [of t] by (auto dest: store_addr_found)
qed
lemma cache_add_Some: "new_host \<Longrightarrow> \<exists>cache'. nsapi_dns_cache_add ms now new_entry new_host host address ttl cache = Some cache'"
  by (auto simp: nsapi_dns_cache_add_def Let_def split: prod.splits option.splits)

lemma scan_answers_found:
  assumes "scan_answers k is_first n buf p f = Some f'"
  shows "length (df_addrs f') = length (df_addrs f) \<and>
     (df_ttl f' = None \<longrightarrow> df_ttl f = None \<and> (is_first \<longrightarrow> f' = f))"
  using assms
proof (induction k is_first n buf p f rule: scan_answers.induct)
  case (2 k is_first n buf p f)
  show ?case
  proof (cases "df_count f < n")
    case True
    obtain f1 p1 where step: "scan_record is_first buf p f = Some (f1, p1)" "scan_answers k False n buf p1 f1 = Some f'"
      using 2(2) True by (auto simp: bind_eq_Some_conv)
    show ?thesis using 2(1) [OF True step(1) refl step(2)] scan_record_found [OF step(1)] by auto
  qed (use 2(2) in simp)
qed simp

lemma scan_response_found:
  assumes "dns_scan_response buf i addrs n = Some (resp, ttl, addrs')"
  shows "length addrs' = length addrs" "0 < resp \<Longrightarrow> ttl \<noteq> None"
proof -
  have "(\<exists>k p f. scan_answers k True n buf p \<lparr>df_ttl = None, df_addrs = addrs, df_count = 0\<rparr> = Some f \<and>
      resp = int (df_count f) \<and> ttl = df_ttl f \<and> addrs' = df_addrs f) \<or> resp \<le> 0 \<and> addrs' = addrs"
    using assms unfolding dns_scan_response_def Let_def bind_eq_Some_conv case_prod_beta
    by (elim exE conjE) (split if_split_asm, simp, split if_split_asm, simp, auto simp only: bind_eq_Some_conv option.inject prod.inject)
  then show "length addrs' = length addrs" "0 < resp \<Longrightarrow> ttl \<noteq> None"
    by (auto dest!: scan_answers_found)
qed

lemma dns_answer_None:
  assumes "dns_answer E host n q = None" "de_new_host E"
  shows "dns_scan_response (dq_packet q) 1 (dq_addrs q) n = None"
proof (rule ccontr)
  assume "dns_scan_response (dq_packet q) 1 (dq_addrs q) n \<noteq> None"
  then obtain resp ttl addrs where scan: "dns_scan_response (dq_packet q) 1 (dq_addrs q) n = Some (resp, ttl, addrs)" by auto
  show False
  proof (cases "0 < resp")
    case True
    then obtain t where "ttl = Some t" using scan_response_found(2) [OF scan] by auto
    moreover obtain cache where "nsapi_dns_cache_add (de_check_ms E) (de_now E) (de_new_entry E) (de_new_host E) host (addrs ! 0) t (dq_cache q) = Some cache"
      using cache_add_Some assms(2) by blast
    ultimately show False using assms(1) scan True by (simp add: dns_answer_def Let_def)
  qed (use assms scan in \<open>simp add: dns_answer_def Let_def split: if_splits\<close>)
qed

lemma dns_answer_kept:
  assumes "dns_answer E host n q = Some (Continue q')"
  shows "dq_packet q' = dq_packet q" "length (dq_addrs q') = length (dq_addrs q)"
  using assms by (auto simp: dns_answer_def Let_def bind_eq_Some_conv split: if_splits dest: scan_response_found(1))

text \<open>
  Datagram \<open>i\<close> leads the scan outside the packet, with something behind it in the buffer; \<open>m\<close> is the
  size of the array of addresses, \<open>n\<close> how many of them are asked for.
\<close>

definition overruns :: "dns_env \<Rightarrow> nat \<Rightarrow> nat \<Rightarrow> nat \<Rightarrow> bool" where
  "overruns E m n i \<longleftrightarrow>
     (\<exists>data stale addrs. de_recvfrom E i = Inr data \<and> length (take DNS_BUFFER_SIZE data @ stale) = DNS_BUFFER_SIZE \<and>
        length addrs = m \<and> dns_scan_response (take DNS_BUFFER_SIZE data @ stale) 1 addrs n = None)"

text \<open>What a round needs of the query, and the rounds that fail.\<close>

definition ready :: "nat \<Rightarrow> dns_query \<Rightarrow> bool" where
  "ready m q \<longleftrightarrow> length (dq_packet q) = DNS_BUFFER_SIZE \<and> length (dq_addrs q) = m"

lemma get_server_ready:
  "nsapi_dns_get_server_addr E q = Some (server, q') \<Longrightarrow> ready m q' = ready m q \<and> dq_received q' = dq_received q"
  by (auto simp: nsapi_dns_get_server_addr_def Let_def ready_def split: if_splits option.splits)

lemma dns_receive_ready:
  assumes "dns_receive E q = (err, q')" "ready m q"
  shows "ready m q'" "de_recvfrom E (dq_received q) = Inl err \<or>
    (\<exists>data stale. de_recvfrom E (dq_received q) = Inr data \<and> dq_packet q' = take DNS_BUFFER_SIZE data @ stale)"
  using assms by (auto simp: dns_receive_def ready_def Let_def split: sum.splits)

lemma dns_send_ready:
  assumes "ready m q" "length host \<le> 255"
  obtains err q' where "dns_send E host version server q = Some (err, q')" "ready m q'" "dq_received q' = dq_received q"
proof -
  let ?d = "dns_append_question 1 host version"
  have "length ?d \<le> DNS_BUFFER_SIZE" by (rule dns_question_fits [OF assms(2)])
  moreover define q' where "q' = q\<lparr>dq_packet := ?d @ drop (length ?d) (dq_packet q), dq_sent := dq_sent q @ [(server, ?d)]\<rparr>"
  ultimately have "dns_send E host version server q = Some (de_sendto E (length (dq_sent q)), q')" "ready m q'"
    using assms(1) by (simp_all add: dns_send_def ready_def Let_def)
  then show ?thesis using that [of _ q'] by (simp add: q'_def)
qed

lemma dns_round_ready:
  assumes "ready m q" "length host \<le> 255" "de_new_host E" "\<And>i e. de_recvfrom E i = Inl e \<Longrightarrow> e < 0"
  shows "case dns_round E host n version q of
      None \<Rightarrow> dq_attempts q \<noteq> 0 \<and> overruns E m n (dq_received q)
    | Some (Continue q') \<Rightarrow> ready m q'
    | Some (Result r q') \<Rightarrow> True"
proof (cases "nsapi_dns_get_server_addr E q")
  case None
  then show ?thesis by (simp add: dns_round_def)
next
  case (Some sq)
  obtain server q1 where sq: "sq = (server, q1)" by (cases sq)
  note Some = Some [unfolded sq]
  have q1: "ready m q1" "dq_received q1 = dq_received q" "dq_attempts q \<noteq> 0"
    using get_server_ready [OF Some] assms(1) get_server_left(2) [OF Some] by auto
  obtain err q2 where q2: "dns_send E host version server q1 = Some (err, q2)" "ready m q2" "dq_received q2 = dq_received q"
    using dns_send_ready [OF q1(1) assms(2)] q1(2) by metis
  show ?thesis
  proof (cases "err < 0")
    case True
    then show ?thesis using Some q2 by (simp add: dns_round_def next_server_def ready_def)
  next
    case False
    let ?q = "q2\<lparr>dq_success := dq_success q2 + 1, dq_attempts := if dq_attempts q2 \<noteq> 0 then dq_attempts q2 - 1 else 0\<rparr>"
    obtain err' q3 where q3: "dns_receive E ?q = (err', q3)" by (cases "dns_receive E ?q")
    have "ready m ?q" using q2(2) by (simp add: ready_def)
    note q3' = dns_receive_ready [OF q3 this]
    have round: "dns_round E host n version q =
        (if err' = NSAPI_ERROR_WOULD_BLOCK then
           Some (Continue (if dq_retries q3 \<noteq> 0 then q3\<lparr>dq_retries := dq_retries q3 - 1\<rparr> else next_server q3))
         else if err' < 0 then Some (Result err' q3) else dns_answer E host n q3)"
      using Some q2(1) False q3 by (simp add: dns_round_def)
    show ?thesis
    proof (cases "err' < 0")
      case True
      then show ?thesis using q3'(1) unfolding round by (simp add: ready_def next_server_def)
    next
      case False
      then have round: "dns_round E host n version q = dns_answer E host n q3"
        unfolding round by (simp add: NSAPI_ERROR_WOULD_BLOCK_def)
      from False assms(4) q3'(2) q2(3) obtain data stale
        where data: "de_recvfrom E (dq_received q) = Inr data" "dq_packet q3 = take DNS_BUFFER_SIZE data @ stale" by auto
      show ?thesis
      proof (cases "dns_answer E host n q3")
        case None
        then have "overruns E m n (dq_received q)"
          using data q3'(1) dns_answer_None [OF None assms(3)] unfolding overruns_def ready_def by metis
        then show ?thesis using None round q1(3) by simp
      next
        case (Some s)
        then show ?thesis using q3'(1) round dns_answer_kept [of E host n q3] by (cases s) (auto simp: ready_def)
      qed
    qed
  qed
qed
lemma dns_loop_None:
  assumes "dns_loop E host n version q = None" "ready m q" "dq_received q + unat (dq_attempts q) \<le> 3"
    and "length host \<le> 255" "de_new_host E" "\<forall>i e. de_recvfrom E i = Inl e \<longrightarrow> e < 0"
  shows "\<exists>i < 3. overruns E m n i"
  using assms
proof (induction E host n version q rule: dns_loop.induct)
  case (1 E host n version q)
  have round: "case dns_round E host n version q of
      None \<Rightarrow> dq_attempts q \<noteq> 0 \<and> overruns E m n (dq_received q)
    | Some (Continue q') \<Rightarrow> ready m q'
    | Some (Result r q') \<Rightarrow> True"
    using 1(3,5-7) by (intro dns_round_ready) auto
  show ?case
  proof (cases "dns_round E host n version q")
    case None
    then have "dq_attempts q \<noteq> 0" "overruns E m n (dq_received q)" using round by simp_all
    moreover from this(1) have "0 < unat (dq_attempts q)" by (simp add: unat_gt_0)
    ultimately show ?thesis using 1(4) by (intro exI [of _ "dq_received q"]) simp
  next
    case s: (Some s)
    show ?thesis
    proof (cases s)
      case (Result r q1)
      then show ?thesis using 1(2) s by (subst (asm) dns_loop.simps) simp
    next
      case (Continue q1)
      have loop: "dns_loop E host n version q1 = None" using 1(2) s Continue by (subst (asm) dns_loop.simps) simp
      have "ready m q1" using round s Continue by simp
      moreover have "dq_received q1 + unat (dq_attempts q1) \<le> 3" using dns_round_sends [OF s] Continue 1(4) by simp
      ultimately show ?thesis using 1(1) [OF s Continue loop] 1(5-7) by blast
    qed
  qed
qed

text \<open>
  C17: The query ends, whatever the network and the servers do, and does not flood them. Either it
  returns, after it has taken in at most 3 datagrams (\<open>DNS_TOTAL_ATTEMPTS\<close>) and sent at most 77,
  counting those that could not be sent, each of them the question for the host; or one of the first
  3 datagrams it received has led it outside its packet, which is undefined behaviour (\<open>endless_question\<close> below is one). The network
  stack's errors are negative, the packet that \<open>malloc\<close> gives has its size, the array holds as many
  addresses as are asked for, at least one, and there is memory for a name in the cache.
\<close>

theorem dns_query_bounded:
  assumes "\<forall>i e. de_recvfrom E i = Inl e \<longrightarrow> e < 0" "\<forall>packet. de_malloc E = Some packet \<longrightarrow> length packet = DNS_BUFFER_SIZE"
    and "0 < n" "n \<le> length addrs" "de_new_host E"
  shows "case nsapi_dns_query_multiple E host addrs n version cache of
      Some (r, q) \<Rightarrow> dq_received q \<le> 3 \<and> length (dq_sent q) \<le> 77 \<and>
        list_all (\<lambda>d. snd d = dns_append_question 1 host version) (dq_sent q)
    | None \<Rightarrow> \<exists>i < 3. overruns E (length addrs) n i"
proof -
  have start: "rounds_left (start_query packet addrs cache') = 77" "asks host version (start_query packet addrs cache')"
    "dq_sent (start_query packet addrs cache') = []" "dq_received (start_query packet addrs cache') = 0"
    "unat (dq_attempts (start_query packet addrs cache')) = 3" for packet cache'
    by (simp_all add: rounds_left_def start_query_def DNS_TOTAL_ATTEMPTS_def asks_def)
  obtain cache' found where find: "nsapi_dns_cache_find (de_find_ms E) host version cache = (cache', found)"
    by (cases "nsapi_dns_cache_find (de_find_ms E) host version cache")
  have addrs: "addrs \<noteq> []" using assms(3,4) by auto
  show ?thesis
  proof (cases "nsapi_dns_query_multiple E host addrs n version cache")
    case None
    then obtain packet where packet: "de_malloc E = Some packet" "dns_loop E host n version (start_query packet addrs cache') = None"
        and host: "length host \<le> 255"
      using find addrs
      by (auto simp: nsapi_dns_query_multiple_def start_query_def Let_def DNS_HOST_NAME_MAX_LEN_def bind_eq_None_conv case_prod_beta
          split: if_splits option.splits)
    have "ready (length addrs) (start_query packet addrs cache')"
      using assms(2) packet(1) by (simp add: ready_def start_query_def)
    from dns_loop_None [OF packet(2) this _ host assms(5,1)] show ?thesis unfolding None by (simp add: start)
  next
    case (Some rq)
    obtain r q where rq: "rq = (r, q)" by (cases rq)
    have "dq_sent q = [] \<and> dq_received q = 0 \<or>
        (\<exists>packet r'. dns_loop E host n version (start_query packet addrs cache') = Some (r', q))"
      using Some find unfolding rq
      by (auto simp: nsapi_dns_query_multiple_def start_query_def Let_def bind_eq_Some_conv split: if_splits option.splits)
    then show ?thesis
    proof (elim disjE exE)
      fix packet r' assume "dns_loop E host n version (start_query packet addrs cache') = Some (r', q)"
      from dns_loop_log [OF this start(2)] show ?thesis unfolding Some rq by (simp add: start asks_def)
    qed (simp add: Some rq)
  qed
qed

text \<open>A network where nothing can be sent.\<close>

definition silent_net :: dns_env where
  "silent_net = \<lparr>de_stack_server = (\<lambda>i. None), de_servers = dns_servers, de_open = 0, de_close = 0,
     de_malloc = Some (replicate 512 0), de_sendto = (\<lambda>i. - 3004), de_recvfrom = (\<lambda>i. Inl (- 3001)),
     de_find_ms = (\<lambda>i. 0), de_check_ms = (\<lambda>i. 0), de_now = 0, de_new_entry = True, de_new_host = True\<rparr>"

definition no_addr :: nsapi_addr where
  "no_addr = \<lparr>na_version = NSAPI_UNSPEC, na_bytes = replicate 16 0\<rparr>"

lemma dns_query_bounded_witness:
  "\<exists>r q. nsapi_dns_query_multiple (silent_net\<lparr>de_sendto := \<lambda>i. 1\<rparr>) ''a'' [no_addr] 1 NSAPI_IPv4 [] = Some (r, q) \<and>
     dq_received q \<le> 3 \<and> length (dq_sent q) \<le> 77 \<and>
     list_all (\<lambda>d. snd d = dns_append_question 1 ''a'' NSAPI_IPv4) (dq_sent q)"
proof -
  let ?E = "silent_net\<lparr>de_sendto := \<lambda>i. 1\<rparr>"
  have "\<forall>i e. de_recvfrom ?E i = Inl e \<longrightarrow> e < 0" "\<forall>packet. de_malloc ?E = Some packet \<longrightarrow> length packet = DNS_BUFFER_SIZE"
    "de_new_host ?E" "(0 :: nat) < 1" "1 \<le> length [no_addr]" by (simp_all add: silent_net_def DNS_BUFFER_SIZE_def)
  note bounded = dns_query_bounded [OF this(1,2,4,5,3), of "''a''" NSAPI_IPv4 "[]"]
  have "nsapi_dns_query_multiple ?E ''a'' [no_addr] 1 NSAPI_IPv4 [] \<noteq> None" by code_simp
  then obtain r q where "nsapi_dns_query_multiple ?E ''a'' [no_addr] 1 NSAPI_IPv4 [] = Some (r, q)" by auto
  then show ?thesis using bounded by simp
qed

section \<open>A server that answers\<close>

definition first_server :: "dns_env \<Rightarrow> nsapi_addr" where
  "first_server E = (case de_stack_server E 0 of Some a \<Rightarrow> a | None \<Rightarrow> de_servers E ! 0)"

text \<open>The network is there, and the first datagram gets an answer.\<close>

definition answers :: "dns_env \<Rightarrow> u8 list \<Rightarrow> bool" where
  "answers E data \<longleftrightarrow> de_open E = 0 \<and> de_close E = 0 \<and> (\<exists>packet. de_malloc E = Some packet \<and> length packet = DNS_BUFFER_SIZE) \<and>
     0 \<le> de_sendto E 0 \<and> de_recvfrom E 0 = Inr data \<and> length data \<le> DNS_BUFFER_SIZE"

lemma dns_loop_first:
  assumes "answers E data" "length host \<le> 255" "length packet = DNS_BUFFER_SIZE"
  shows "\<exists>q stale. dns_loop E host n version (start_query packet addrs cache) =
      (case dns_answer E host n q of None \<Rightarrow> None | Some (Result r q) \<Rightarrow> Some (r, q) | Some (Continue q) \<Rightarrow> dns_loop E host n version q) \<and>
     dq_packet q = data @ stale \<and> length (dq_packet q) = DNS_BUFFER_SIZE \<and> dq_addrs q = addrs \<and> dq_cache q = cache \<and>
     dq_sent q = [(first_server E, dns_append_question 1 host version)] \<and> dq_received q = 1"
proof -
  let ?q = "start_query packet addrs cache" and ?question = "dns_append_question 1 host version"
  define q1 where "q1 = (if de_stack_server E 0 = None then ?q\<lparr>dq_index := of_nat DNS_STACK_SERVERS_NUM\<rparr> else ?q)"
  have q1: "nsapi_dns_get_server_addr E ?q = Some (first_server E, q1)" "dq_packet q1 = packet" "dq_addrs q1 = addrs"
      "dq_cache q1 = cache" "dq_sent q1 = []" "dq_received q1 = 0" "dq_attempts q1 \<noteq> 0"
    by (auto simp: nsapi_dns_get_server_addr_def start_query_def first_server_def q1_def DNS_TOTAL_ATTEMPTS_def
        DNS_SERVERS_SIZE_def DNS_STACK_SERVERS_NUM_def Let_def)
  have fits: "length ?question \<le> DNS_BUFFER_SIZE" by (rule dns_question_fits [OF assms(2)])
  let ?p = "?question @ drop (length ?question) packet"
  let ?q2 = "q1\<lparr>dq_packet := ?p, dq_sent := [(first_server E, ?question)]\<rparr>"
  have send: "dns_send E host version (first_server E) q1 = Some (de_sendto E 0, ?q2)"
    using fits q1 by (simp add: dns_send_def Let_def)
  let ?q3 = "?q2\<lparr>dq_success := dq_success q1 + 1, dq_attempts := dq_attempts q1 - 1\<rparr>"
  let ?q4 = "?q3\<lparr>dq_received := 1, dq_packet := data @ drop (length data) ?p\<rparr>"
  have recv: "dns_receive E ?q3 = (int (length data), ?q4)"
    using assms(1) q1(6) by (simp add: dns_receive_def answers_def Let_def)
  have "dns_round E host n version ?q = dns_answer E host n ?q4"
    using q1 send recv assms(1) by (simp add: dns_round_def answers_def NSAPI_ERROR_WOULD_BLOCK_def)
  moreover have "length (dq_packet ?q4) = DNS_BUFFER_SIZE"
    using assms(1,3) fits by (auto simp: answers_def)
  ultimately show ?thesis
    using q1 by (intro exI [of _ ?q4] exI [of _ "drop (length data) ?p"]) (subst dns_loop.simps, simp)
qed

lemma long_concat: "(\<And>x. x \<in> set xs \<Longrightarrow> 1 \<le> length (f x)) \<Longrightarrow> length xs \<le> length (concat (map f xs))"
proof (induction xs)
  case (Cons x xs)
  have "1 \<le> length (f x)" "length xs \<le> length (concat (map f xs))" using Cons by simp_all
  then show ?case by simp
qed simp

lemma response_small:
  assumes "length (response_bytes ident flags ns ar qs rs) \<le> 512"
  shows "length qs < 2 ^ 16" "length rs < 2 ^ 16"
proof -
  have "length qs \<le> length (concat (map question_bytes qs))"
    by (rule long_concat) (auto simp: name_bytes_def)
  moreover have "length rs \<le> length (concat (map rr_bytes rs))"
    by (rule long_concat) (simp add: rr_bytes_def)
  ultimately show "length qs < 2 ^ 16" "length rs < 2 ^ 16" using assms by (simp_all add: response_bytes_def)
qed

text \<open>
  C16: A server that answers resolves the name. If the name is not in the cache and the first datagram
  is answered with a response without an error, any questions, and records of which at least one has
  an address, in any order and with any names and links: the query returns how many addresses it
  found, at most as many as asked for, writes them in their order to the front of the array, has sent
  one datagram, the question, to the first server, and adds the first address to the cache with the
  time to live of the first record. There is memory for the packet and for the name in the cache.
\<close>

theorem dns_query_resolves:
  assumes "answers E (response_bytes 1 flags ns ar qs rs @ rest)"
    and "answer_flags flags" "list_all question_ok qs" "list_all rr_ok rs" "addrs_of rs \<noteq> []" "0 < n" "n \<le> length addrs"
    and "host \<noteq> []" "length host \<le> DNS_HOST_NAME_MAX_LEN"
    and "snd (nsapi_dns_cache_find (de_find_ms E) host version cache) = None" "de_new_host E"
  shows "\<exists>q. nsapi_dns_query_multiple E host addrs n version cache = Some (int (length (take n (addrs_of rs))), q) \<and>
     dq_addrs q = map2 set_addr (take n (addrs_of rs)) addrs @ drop (length (take n (addrs_of rs))) addrs \<and>
     dq_sent q = [(first_server E, dns_append_question 1 host version)] \<and>
     nsapi_dns_cache_add (de_check_ms E) (de_now E) (de_new_entry E) True host (set_addr (hd (addrs_of rs)) (hd addrs))
       (min (rr_ttl (hd rs)) INT32_MAX) (fst (nsapi_dns_cache_find (de_find_ms E) host version cache)) = Some (dq_cache q)"
proof -
  let ?data = "response_bytes 1 flags ns ar qs rs @ rest" and ?as = "take n (addrs_of rs)"
  let ?addrs = "map2 set_addr ?as addrs @ drop (length ?as) addrs"
  obtain cache' where find: "nsapi_dns_cache_find (de_find_ms E) host version cache = (cache', None)"
    using assms(10) by (cases "nsapi_dns_cache_find (de_find_ms E) host version cache") simp
  obtain packet where packet: "de_malloc E = Some packet" "length packet = DNS_BUFFER_SIZE"
    using assms(1) by (auto simp: answers_def)
  have host: "length host \<le> 255" using assms(9) by (simp add: DNS_HOST_NAME_MAX_LEN_def)
  obtain q stale where loop: "dns_loop E host n version (start_query packet addrs cache') =
      (case dns_answer E host n q of None \<Rightarrow> None | Some (Result r q) \<Rightarrow> Some (r, q) | Some (Continue q) \<Rightarrow> dns_loop E host n version q)"
    and q: "dq_packet q = ?data @ stale" "dq_addrs q = addrs" "dq_cache q = cache'"
      "dq_sent q = [(first_server E, dns_append_question 1 host version)]"
    using dns_loop_first [OF assms(1) host packet(2), of n version addrs cache'] by blast
  have small: "length qs < 2 ^ 16" "length rs < 2 ^ 16"
    using response_small [of 1 flags ns ar qs rs] assms(1) by (simp_all add: answers_def DNS_BUFFER_SIZE_def)
  have "rs \<noteq> []" using assms(5) by auto
  then have scan: "dns_scan_response (?data @ stale) 1 addrs n =
      Some (int (length ?as), Some (min (rr_ttl (hd rs)) INT32_MAX), ?addrs)"
    using scan_response_exact [OF assms(2-4) small assms(7), of 1 ns ar "rest @ stale"] assms(6) by simp
  have "addrs \<noteq> []" using assms(6,7) by auto
  then have first: "?addrs ! 0 = set_addr (hd (addrs_of rs)) (hd addrs)"
    using assms(5,6) by (cases n; cases "addrs_of rs"; cases addrs) simp_all
  have found: "0 < length ?as" using assms(5,6) by simp
  obtain cache'' where add: "nsapi_dns_cache_add (de_check_ms E) (de_now E) (de_new_entry E) True host
      (set_addr (hd (addrs_of rs)) (hd addrs)) (min (rr_ttl (hd rs)) INT32_MAX) cache' = Some cache''"
    using cache_add_Some [of True] by blast
  have "dns_answer E host n q = Some (Result (int (length ?as)) (q\<lparr>dq_addrs := ?addrs, dq_cache := cache''\<rparr>))"
    unfolding dns_answer_def using q(1-3) scan add first found assms(11) by (simp add: Let_def)
  then have "nsapi_dns_query_multiple E host addrs n version cache =
      Some (int (length ?as), q\<lparr>dq_addrs := ?addrs, dq_cache := cache''\<rparr>)"
    using loop find packet host assms(1,8)
    by (simp add: nsapi_dns_query_multiple_def start_query_def answers_def DNS_HOST_NAME_MAX_LEN_def Let_def)
  then show ?thesis using q find add by simp
qed

text \<open>A network where every datagram is answered with the same one.\<close>

definition one_answer :: "u8 list \<Rightarrow> dns_env" where
  "one_answer data = silent_net\<lparr>de_sendto := \<lambda>i. 30, de_recvfrom := \<lambda>i. Inr data\<rparr>"

lemma one_answer_answers: "length data \<le> 512 \<Longrightarrow> answers (one_answer data) data"
  by (simp add: answers_def one_answer_def silent_net_def DNS_BUFFER_SIZE_def)

lemma dns_query_resolves_witness:
  "\<exists>q. nsapi_dns_query_multiple (one_answer (response_bytes 1 0x8180 0 0 [([[97]], 1, 1)]
       [\<lparr>rr_labels = [], rr_link = Some (0xc0, 12), rr_type = 5, rr_class = 1, rr_ttl = 60, rr_data = [1, 98, 0]\<rparr>,
        \<lparr>rr_labels = [[98]], rr_link = None, rr_type = 1, rr_class = 1, rr_ttl = 99, rr_data = [10, 0, 0, 7]\<rparr>] @ [1, 2]))
       ''a'' [\<lparr>na_version = NSAPI_UNSPEC, na_bytes = replicate 16 0\<rparr>] 1 NSAPI_IPv4 [None] = Some (1, q) \<and>
     dq_addrs q = [\<lparr>na_version = NSAPI_IPv4, na_bytes = [10, 0, 0, 7] @ replicate 12 0\<rparr>]"
proof -
  let ?rs = "[\<lparr>rr_labels = [], rr_link = Some (0xc0, 12), rr_type = 5, rr_class = 1, rr_ttl = 60, rr_data = [1, 98, 0]\<rparr>,
        \<lparr>rr_labels = [[98]], rr_link = None, rr_type = 1, rr_class = 1, rr_ttl = 99, rr_data = [10, 0, 0, 7]\<rparr>]"
  let ?data = "response_bytes 1 0x8180 0 0 [([[97]], 1, 1)] ?rs @ [1, 2]"
  have "length ?data \<le> 512" by (simp add: response_bytes_def name_bytes_def label_bytes_def rr_bytes_def answer_name_bytes_def)
  then have E: "answers (one_answer ?data) ?data" by (rule one_answer_answers)
  have ok: "answer_flags 0x8180" "list_all question_ok [([[97]], 1, 1)]" "list_all rr_ok ?rs"
    by (simp_all add: answer_flags_def question_ok_def rr_ok_def label_ok_def link_ok_def bit_numeral_rec)
  have as: "addrs_of ?rs = [(NSAPI_IPv4, [10, 0, 0, 7])]" by (simp add: rr_addr_def RR_A_def RR_AAAA_def CLASS_IN_def)
  have miss: "snd (nsapi_dns_cache_find (de_find_ms (one_answer ?data)) ''a'' NSAPI_IPv4 [None]) = None"
    by (simp add: nsapi_dns_cache_find_def)
  have host: "de_new_host (one_answer ?data)" by (simp add: one_answer_def silent_net_def)
  let ?addr = "\<lparr>na_version = NSAPI_UNSPEC, na_bytes = replicate 16 0\<rparr>"
  have a: "take 1 (addrs_of ?rs) = [(NSAPI_IPv4, [10, 0, 0, 7])]" "addrs_of ?rs \<noteq> []" using as by simp_all
  have z: "0 < (1 :: nat)" "1 \<le> length [?addr]" "''a'' \<noteq> []" "length ''a'' \<le> DNS_HOST_NAME_MAX_LEN"
    by (simp_all add: DNS_HOST_NAME_MAX_LEN_def)
  have "\<exists>q. nsapi_dns_query_multiple (one_answer ?data) ''a'' [?addr] 1 NSAPI_IPv4 [None] = Some (int (length (take 1 (addrs_of ?rs))), q) \<and>
     dq_addrs q = map2 set_addr (take 1 (addrs_of ?rs)) [?addr] @ drop (length (take 1 (addrs_of ?rs))) [?addr]"
    using dns_query_resolves [OF E ok a(2) z miss host] by blast
  then show ?thesis unfolding a(1) by (simp add: set_addr_def)
qed

section \<open>Reading past the packet\<close>

text \<open>A response whose question is one label after another, of 255 bytes each.\<close>

definition endless_question :: "u8 list" where
  "endless_question = word_bytes 1 @ word_bytes 0x8000 @ word_bytes 1 @ word_bytes 0 @ word_bytes 0 @ word_bytes 0 @ replicate 500 255"

lemma scan_endless: "dns_scan_response endless_question 1 addrs n = None"
proof -
  have len: "length endless_question = 512" by (simp add: endless_question_def)
  have nth: "endless_question ! p = 255" if "12 \<le> p" "p < 512" for p
    using that by (simp add: endless_question_def nth_append word_bytes_def nth_Cons split: nat.split)
  have skip: "skip_question_name endless_question 12 = None"
    by (subst skip_question_name.simps, simp add: dns_scan_byte_def len nth)
      (subst skip_question_name.simps, simp add: dns_scan_byte_def len nth, subst skip_question_name.simps, simp add: dns_scan_byte_def len)
  have at0: "drop 0 endless_question = word_bytes 1 @ (word_bytes 0x8000 @ word_bytes 1 @ word_bytes 0 @ word_bytes 0 @ word_bytes 0 @ replicate 500 255)"
    by (simp only: endless_question_def drop_0)
  note at1 = drop_append_add [OF at0]
  note at2 = drop_append_add [OF at1]
  note at3 = drop_append_add [OF at2]
  note at4 = drop_append_add [OF at3]
  note at5 = drop_append_add [OF at4]
  note words = scan_word_at [OF at0] scan_word_at [OF at1] scan_word_at [OF at2] scan_word_at [OF at3]
    scan_word_at [OF at4] scan_word_at [OF at5]
  have bits: "bit (0x8000 :: u16) 15" "0xf AND drop_bit 11 (0x8000 :: u16) = 0" "0xf AND (0x8000 :: u16) = 0" by code_simp+
  show ?thesis
    unfolding dns_scan_response_def using words bits skip by (simp add: Let_def eval_nat_numeral)
qed

text \<open>
  C39: A defect: \<open>dns_scan_response\<close> does not know where its packet ends. A server, or anyone who answers
  in its place, with a datagram of 512 bytes whose question is made of labels of 255 bytes, makes
  every query for a name that is not in the cache read outside the buffer.
\<close>

theorem dns_query_reads_past_packet:
  assumes "answers E endless_question" "host \<noteq> []" "length host \<le> DNS_HOST_NAME_MAX_LEN"
    and "snd (nsapi_dns_cache_find (de_find_ms E) host version cache) = None"
  shows "nsapi_dns_query E host addr version cache = None"
proof -
  obtain cache' where find: "nsapi_dns_cache_find (de_find_ms E) host version cache = (cache', None)"
    using assms(4) by (cases "nsapi_dns_cache_find (de_find_ms E) host version cache") simp
  obtain packet where packet: "de_malloc E = Some packet" "length packet = DNS_BUFFER_SIZE"
    using assms(1) by (auto simp: answers_def)
  have host: "length host \<le> 255" using assms(3) by (simp add: DNS_HOST_NAME_MAX_LEN_def)
  obtain q stale where loop: "dns_loop E host 1 version (start_query packet [addr] cache') =
      (case dns_answer E host 1 q of None \<Rightarrow> None | Some (Result r q) \<Rightarrow> Some (r, q) | Some (Continue q) \<Rightarrow> dns_loop E host 1 version q)"
    and q: "dq_packet q = endless_question @ stale" "length (dq_packet q) = DNS_BUFFER_SIZE"
    using dns_loop_first [OF assms(1) host packet(2), of 1 version "[addr]" cache'] by blast
  have "stale = []" using q by (simp add: endless_question_def DNS_BUFFER_SIZE_def)
  then have "dns_answer E host 1 q = None" using q(1) by (simp add: dns_answer_def scan_endless)
  then show ?thesis
    using loop find packet host assms(1,2)
    by (simp add: nsapi_dns_query_def nsapi_dns_query_multiple_def start_query_def answers_def DNS_HOST_NAME_MAX_LEN_def Let_def)
qed

lemma dns_query_reads_past_packet_witness:
  "nsapi_dns_query (one_answer endless_question) ''a'' \<lparr>na_version = NSAPI_UNSPEC, na_bytes = replicate 16 0\<rparr> NSAPI_IPv4 [None] = None"
proof -
  have "answers (one_answer endless_question) endless_question"
    by (rule one_answer_answers) (simp add: endless_question_def)
  then show ?thesis
    by (rule dns_query_reads_past_packet) (simp_all add: DNS_HOST_NAME_MAX_LEN_def nsapi_dns_cache_find_def)
qed

end
