(* ===== verification/DnsCache.thy ===== *)
theory DnsCache
  imports DnsQuery
begin

text \<open>
  The cache of the DNS resolver as a map from names and versions to addresses at a time
  (\<open>cached\<close>), which its two operations refine.
\<close>

section \<open>The cache\<close>

text \<open>
  What the cache says at time \<open>now\<close>: the address of a name for a version, unless it has expired.
\<close>

definition cached :: "u64 \<Rightarrow> dns_cache \<Rightarrow> string \<Rightarrow> nsapi_version \<Rightarrow> nsapi_addr option" where
  "cached now cache host version =
     (case filter (\<lambda>e. now \<le> dc_expires e \<and> cache_match host version e) (List.map_filter id cache) of
        [] \<Rightarrow> None
      | e # es \<Rightarrow> Some (dc_address e))"

text \<open>No name is there twice for a version.\<close>

definition cache_ok :: "dns_cache \<Rightarrow> bool" where
  "cache_ok cache \<longleftrightarrow> distinct (map (\<lambda>e. (dc_host e, na_version (dc_address e))) (List.map_filter id cache))"

lemma map_filter_id [simp]:
  "List.map_filter id [] = []" "List.map_filter id (None # xs) = List.map_filter id xs"
  "List.map_filter id (Some x # xs) = x # List.map_filter id xs"
  by (simp_all add: List.map_filter_def)

text \<open>What is left of an entry when it is looked at, at one time.\<close>

definition looked_at :: "u64 \<Rightarrow> string \<Rightarrow> nsapi_version \<Rightarrow> dns_entry option \<Rightarrow> dns_entry option" where
  "looked_at now host version e = (case e of None \<Rightarrow> None | Some e \<Rightarrow>
     if now > dc_expires e then None
     else Some (if cache_match host version e then e\<lparr>dc_accessed := now\<rparr> else e))"

lemma cache_find_map:
  "fst (cache_find_loop (\<lambda>i. now) host version i cache r) = map (looked_at now host version) cache"
proof (induction cache arbitrary: i r)
  case (Cons e cache)
  then show ?case by (cases e) (simp_all add: looked_at_def case_prod_beta)
qed simp

lemma cached_Cons:
  "cached now (None # cache) host version = cached now cache host version"
  "cached now (Some e # cache) host version =
     (if now \<le> dc_expires e \<and> cache_match host version e then Some (dc_address e) else cached now cache host version)"
  by (simp_all add: cached_def)

lemma cached_None:
  "cached now cache host version = None \<longleftrightarrow>
     (\<forall>e. Some e \<in> set cache \<longrightarrow> \<not> (now \<le> dc_expires e \<and> cache_match host version e))"
proof (induction cache)
  case (Cons e cache)
  then show ?case by (cases e) (auto simp: cached_Cons)
qed (simp add: cached_def)

lemma cached_Some:
  assumes "cached now cache host version = Some a"
  shows "\<exists>e. Some e \<in> set cache \<and> now \<le> dc_expires e \<and> cache_match host version e \<and> a = dc_address e"
  using assms
proof (induction cache)
  case (Cons e cache)
  then show ?case by (cases e) (auto simp: cached_Cons split: if_splits)
qed (simp add: cached_def)

lemma cache_ok_Cons:
  "cache_ok (None # cache) = cache_ok cache"
  "cache_ok (Some e # cache) \<longleftrightarrow> cache_ok cache \<and>
     (\<forall>e'. Some e' \<in> set cache \<longrightarrow> (dc_host e', na_version (dc_address e')) \<noteq> (dc_host e, na_version (dc_address e)))"
proof -
  have mem: "Some e' \<in> set cache \<longleftrightarrow> e' \<in> set (List.map_filter id cache)" for e'
  proof (induction cache)
    case (Cons x xs)
    then show ?case by (cases x) auto
  qed simp
  show "cache_ok (Some e # cache) \<longleftrightarrow> cache_ok cache \<and>
     (\<forall>e'. Some e' \<in> set cache \<longrightarrow> (dc_host e', na_version (dc_address e')) \<noteq> (dc_host e, na_version (dc_address e)))"
    by (auto simp: cache_ok_def image_iff mem)
qed (simp add: cache_ok_def)

lemma cache_match_key:
  assumes "cache_match host version e" "cache_match host version e'" "version \<noteq> NSAPI_UNSPEC"
  shows "(dc_host e', na_version (dc_address e')) = (dc_host e, na_version (dc_address e))"
  using assms by (auto simp: cache_match_def)

lemma cache_find_cached:
  assumes "cache_ok cache" "version \<noteq> NSAPI_UNSPEC"
  shows "snd (cache_find_loop (\<lambda>i. now) host version i cache r) =
     (case cached now cache host version of None \<Rightarrow> r | Some a \<Rightarrow> Some a)"
  using assms(1)
proof (induction cache arbitrary: i r)
  case Nil
  then show ?case by (simp add: cached_def)
next
  case (Cons x cache)
  show ?case
  proof (cases x)
    case None
    then show ?thesis using Cons by (simp add: cache_ok_Cons cached_Cons case_prod_beta)
  next
    case (Some e)
    have ok: "cache_ok cache" using Cons.prems Some by (simp add: cache_ok_Cons)
    show ?thesis
    proof (cases "now \<le> dc_expires e \<and> cache_match host version e")
      case True
      then have "cached now cache host version = None"
        unfolding cached_None
        using Cons.prems Some cache_match_key [OF _ _ assms(2), of host e] by (metis cache_ok_Cons(2))
      then show ?thesis using True Some Cons.IH [OF ok] by (auto simp: cached_Cons case_prod_beta not_less [symmetric])
    next
      case False
      then show ?thesis using Some Cons.IH [OF ok] by (auto simp: cached_Cons case_prod_beta not_less)
    qed
  qed
qed

lemma looked_at_cached: "cached now (map (looked_at now host version) cache) h v = cached now cache h v"
proof (induction cache)
  case (Cons x cache)
  then show ?case by (cases x) (auto simp: looked_at_def cached_Cons cache_match_def)
qed simp

lemma looked_at_ok: "cache_ok cache \<Longrightarrow> cache_ok (map (looked_at now host version) cache)"
proof (induction cache)
  case (Cons x cache)
  then show ?case by (cases x) (auto simp: looked_at_def cache_ok_Cons split: option.splits if_splits)
qed simp

lemma cached_iff:
  assumes "cache_ok cache" "version \<noteq> NSAPI_UNSPEC"
  shows "cached now cache host version = Some a \<longleftrightarrow>
     (\<exists>e. Some e \<in> set cache \<and> now \<le> dc_expires e \<and> cache_match host version e \<and> a = dc_address e)"
  using assms(1)
proof (induction cache)
  case (Cons x cache)
  show ?case
  proof (cases x)
    case None
    then show ?thesis using Cons by (simp add: cache_ok_Cons cached_Cons)
  next
    case (Some e)
    have "\<not> cache_match host version e'" if "cache_match host version e" "Some e' \<in> set cache" for e'
      using that Cons.prems Some cache_match_key [OF that(1) _ assms(2)] by (metis cache_ok_Cons(2))
    then show ?thesis using Cons Some by (auto simp: cache_ok_Cons cached_Cons)
  qed
qed (simp add: cached_def)

lemma cache_index_Some:
  "idx \<noteq> None \<Longrightarrow> cache_index_loop i cache acc idx \<noteq> None"
  by (induction i cache acc idx rule: cache_index_loop.induct) auto

lemma cache_index_range:
  "cache_index_loop i cache acc idx = Some k \<Longrightarrow> idx = Some k \<or> (i \<le> k \<and> k < i + length cache)"
  by (induction i cache acc idx rule: cache_index_loop.induct) (auto split: if_splits)

lemma cache_index_free:
  "cache_index_loop i cache acc idx = Some k \<Longrightarrow> None \<in> set cache \<Longrightarrow> i \<le> k \<and> cache ! (k - i) = None"
proof (induction i cache acc idx rule: cache_index_loop.induct)
  case (3 i e cache acc idx)
  have free: "None \<in> set cache" using 3 by simp
  have "i + 1 \<le> k \<and> cache ! (k - (i + 1)) = None"
    using 3 free by (auto split: if_splits)
  then show ?case by (auto simp: nth_Cons' Suc_diff_le)
qed auto

lemma cache_index_some:
  assumes "cache \<noteq> []"
  shows "\<exists>k < length cache. cache_index_loop 0 cache (- 1) None = Some k \<and> (None \<in> set cache \<longrightarrow> cache ! k = None)"
proof -
  have "cache_index_loop 0 cache (- 1) None \<noteq> None"
  proof (cases cache)
    case (Cons x xs)
    then show ?thesis
      using cache_index_Some [of "Some 0"] by (cases x) (auto simp: word_order.extremum)
  qed (use assms in simp)
  then obtain k where k: "cache_index_loop 0 cache (- 1) None = Some k" by auto
  then show ?thesis using cache_index_range [OF k] cache_index_free [OF k] by auto
qed

text \<open>A new entry for a name that is not there.\<close>

lemma set_map_filter_id: "e \<in> set (List.map_filter id cache) \<longleftrightarrow> Some e \<in> set cache"
proof (induction cache)
  case (Cons x xs)
  then show ?case by (cases x) auto
qed simp

lemma map_filter_id_append: "List.map_filter id (xs @ ys) = List.map_filter id xs @ List.map_filter id ys"
  by (simp add: List.map_filter_def)

lemma cache_ok_insert:
  assumes "cache_ok (xs @ x # ys)" "\<And>e'. Some e' \<in> set (xs @ ys) \<Longrightarrow> (dc_host e', na_version (dc_address e')) \<noteq> (dc_host e, na_version (dc_address e))"
  shows "cache_ok (xs @ Some e # ys)"
proof -
  have "cache_ok (xs @ ys)" using assms(1) by (cases x) (auto simp: cache_ok_def map_filter_id_append)
  then show ?thesis using assms(2) by (fastforce simp: cache_ok_def map_filter_id_append set_map_filter_id)
qed

text \<open>Finding a name gives what the cache says and changes nothing of it.\<close>

lemma dns_cache_find_refines:
  assumes "cache_ok cache" "version \<noteq> NSAPI_UNSPEC"
  shows "case nsapi_dns_cache_find (\<lambda>i. now) host version cache of (cache', r) \<Rightarrow>
     r = cached now cache host version \<and> cache_ok cache' \<and> length cache' = length cache \<and>
     (\<forall>h v. cached now cache' h v = cached now cache h v)"
proof -
  obtain cache' r where find: "nsapi_dns_cache_find (\<lambda>i. now) host version cache = (cache', r)"
    by (cases "nsapi_dns_cache_find (\<lambda>i. now) host version cache")
  have "cache' = map (looked_at now host version) cache"
    using find cache_find_map [of now host version 0 cache None] by (simp add: nsapi_dns_cache_find_def)
  moreover have "r = cached now cache host version"
    using find cache_find_cached [OF assms, of now host 0 None] by (simp add: nsapi_dns_cache_find_def split: option.splits)
  ultimately show ?thesis
    using looked_at_ok [OF assms(1)] by (simp add: find looked_at_cached)
qed

text \<open>The entry that is filled is free, or all are in use and none was accessed before it.\<close>

lemma cache_index_oldest:
  assumes "cache_index_loop i cache acc idx = Some k" "None \<notin> set cache"
  shows "(idx = Some k \<and> (\<forall>e. Some e \<in> set cache \<longrightarrow> acc < dc_accessed e)) \<or>
     (\<exists>e. i \<le> k \<and> cache ! (k - i) = Some e \<and> dc_accessed e \<le> acc \<and>
        (\<forall>e'. Some e' \<in> set cache \<longrightarrow> dc_accessed e \<le> dc_accessed e'))"
  using assms
proof (induction i cache acc idx rule: cache_index_loop.induct)
  case (3 i e cache acc idx)
  show ?case
  proof (cases "dc_accessed e \<le> acc")
    case True
    then have "(Some i = Some k \<and> (\<forall>e'. Some e' \<in> set cache \<longrightarrow> dc_accessed e < dc_accessed e')) \<or>
      (\<exists>e'. i + 1 \<le> k \<and> cache ! (k - (i + 1)) = Some e' \<and> dc_accessed e' \<le> dc_accessed e \<and>
        (\<forall>e''. Some e'' \<in> set cache \<longrightarrow> dc_accessed e' \<le> dc_accessed e''))"
      using 3 by simp
    then show ?thesis using True by (auto simp: nth_Cons' Suc_diff_le less_imp_le intro: order_trans)
  next
    case False
    then have "(idx = Some k \<and> (\<forall>e'. Some e' \<in> set cache \<longrightarrow> acc < dc_accessed e')) \<or>
      (\<exists>e'. i + 1 \<le> k \<and> cache ! (k - (i + 1)) = Some e' \<and> dc_accessed e' \<le> acc \<and>
        (\<forall>e''. Some e'' \<in> set cache \<longrightarrow> dc_accessed e' \<le> dc_accessed e''))"
      using 3 by simp
    then show ?thesis using False by (auto simp: nth_Cons' Suc_diff_le not_le intro: order_trans less_imp_le)
  qed
qed simp_all

text \<open>Where no entry is free after the search for a name that is not cached, the search changed nothing.\<close>

lemma looked_at_full:
  assumes "None \<notin> set (map (looked_at now host version) cache)" "cached now cache host version = None"
  shows "map (looked_at now host version) cache = cache" "x \<in> set cache \<Longrightarrow> \<exists>e. x = Some e \<and> now \<le> dc_expires e"
proof -
  have x: "\<exists>e. x = Some e \<and> now \<le> dc_expires e \<and> looked_at now host version x = x" if "x \<in> set cache" for x
  proof -
    have "looked_at now host version x \<noteq> None" using assms(1) that by (metis imageI image_set)
    then obtain e where e: "x = Some e" "now \<le> dc_expires e" by (cases x) (auto simp: looked_at_def split: if_splits)
    moreover from this have "\<not> cache_match host version e" using assms(2) that unfolding cached_None by blast
    ultimately show ?thesis by (auto simp: looked_at_def not_less [symmetric])
  qed
  then show "map (looked_at now host version) cache = cache" by (intro map_idI) blast
  show "x \<in> set cache \<Longrightarrow> \<exists>e. x = Some e \<and> now \<le> dc_expires e" using x by blast
qed

text \<open>What a cache says when one entry is replaced.\<close>

lemma cached_skip:
  "(\<And>e. x = Some e \<Longrightarrow> \<not> cache_match h v e) \<Longrightarrow> cached now (xs @ x # ys) h v = cached now (xs @ ys) h v"
  by (cases x) (simp_all add: cached_def map_filter_id_append)

lemma cached_matched:
  assumes "cache_ok (xs @ Some e # ys)" "cache_match h v e" "v \<noteq> NSAPI_UNSPEC"
  shows "cached now (xs @ ys) h v = None"
proof -
  have "(dc_host e', na_version (dc_address e')) \<noteq> (dc_host e, na_version (dc_address e))" if "Some e' \<in> set (xs @ ys)" for e'
  proof -
    have "e' \<in> set (List.map_filter id (xs @ ys))" using that by (simp only: set_map_filter_id)
    then show ?thesis using assms(1) by (auto simp: cache_ok_def map_filter_id_append intro: rev_image_eqI)
  qed
  then show ?thesis using cache_match_key [OF assms(2) _ assms(3)] unfolding cached_None by metis
qed

lemma cached_replace:
  assumes "cache_ok (xs @ x # ys)" "v \<noteq> NSAPI_UNSPEC" "\<not> cache_match h v e"
  shows "cached now (xs @ Some e # ys) h v =
     (if \<exists>e'. x = Some e' \<and> cache_match h v e' then None else cached now (xs @ x # ys) h v)"
proof -
  have "cached now (xs @ Some e # ys) h v = cached now (xs @ ys) h v" using assms(3) by (intro cached_skip) simp
  then show ?thesis using cached_matched [OF _ _ assms(2)] cached_skip assms(1) by (auto simp: cached_skip)
qed

lemma expires_later:
  assumes "unat (now :: u64) + unat (ttl :: u32) * 1000 < 2 ^ 64"
  shows "now \<le> now + ucast ttl * 1000"
proof -
  have "unat (ucast ttl :: u64) = unat ttl" by (simp add: unsigned_ucast_eq take_bit_nat_eq_self_iff less_le_trans [OF unsigned_less])
  then have "unat (ucast ttl * 1000 :: u64) = unat ttl * 1000"
    using assms unat_mult_lem [of "ucast ttl :: u64" 1000] by simp
  then have "unat (now + ucast ttl * 1000) = unat now + unat ttl * 1000"
    using assms unat_add_no_wrap [of now "ucast ttl * 1000"] by simp
  then show ?thesis by (simp add: word_le_nat_alt)
qed

text \<open>A name that is not cached, put into the cache the search has left.\<close>

definition given_up :: "dns_entry option \<Rightarrow> (string \<times> nsapi_version) option" where
  "given_up x = map_option (\<lambda>e. (dc_host e, na_version (dc_address e))) x"

lemma cache_put:
  assumes "cache_ok c" "k < length c" "\<And>e'. Some e' \<in> set c \<Longrightarrow> \<not> cache_match (dc_host e) (na_version (dc_address e)) e'"
    and v: "na_version (dc_address e) \<noteq> NSAPI_UNSPEC" and now: "now \<le> dc_expires e"
  shows "cache_ok (c[k := Some e])"
    and "cached now (c[k := Some e]) (dc_host e) (na_version (dc_address e)) = Some (dc_address e)"
    and "\<And>h u. u \<noteq> NSAPI_UNSPEC \<Longrightarrow> (h, u) \<noteq> (dc_host e, na_version (dc_address e)) \<Longrightarrow>
      cached now (c[k := Some e]) h u = (if given_up (c ! k) = Some (h, u) then None else cached now c h u)"
proof -
  have c: "c = take k c @ c ! k # drop (Suc k) c" and new: "c[k := Some e] = take k c @ Some e # drop (Suc k) c"
    using assms(2) by (simp_all add: id_take_nth_drop upd_conv_take_nth_drop)
  have ok: "cache_ok (take k c @ c ! k # drop (Suc k) c)" using assms(1) c by simp
  have "(dc_host e', na_version (dc_address e')) \<noteq> (dc_host e, na_version (dc_address e))"
    if "Some e' \<in> set (take k c @ drop (Suc k) c)" for e'
    using assms(3) [of e'] that by (auto simp: cache_match_def dest: in_set_takeD in_set_dropD)
  from cache_ok_insert [OF ok this] show put: "cache_ok (c[k := Some e])" unfolding new .
  have "Some e \<in> set (c[k := Some e])" using assms(2) by (rule set_update_memI)
  then show "cached now (c[k := Some e]) (dc_host e) (na_version (dc_address e)) = Some (dc_address e)"
    using cached_iff [OF put v] now by (force simp: cache_match_def)
  fix h u assume u: "u \<noteq> NSAPI_UNSPEC" "(h, u) \<noteq> (dc_host e, na_version (dc_address e))"
  have "\<not> cache_match h u e" using u by (auto simp: cache_match_def)
  moreover have "(\<exists>e'. c ! k = Some e' \<and> cache_match h u e') \<longleftrightarrow> given_up (c ! k) = Some (h, u)"
    using u(1) by (auto simp: given_up_def cache_match_def)
  ultimately show "cached now (c[k := Some e]) h u = (if given_up (c ! k) = Some (h, u) then None else cached now c h u)"
    unfolding new using cached_replace [OF ok u(1)] c by simp
qed

text \<open>
  C18: The cache refines a map from names and versions to addresses that may forget one. Adding an address
  that lives for some time makes it the one that is cached for its name and version, unless one is
  already, which stays. All other names keep what is cached for them, except at most one, \<open>lost\<close>, and
  that only when every entry is in use and alive; then it is one whose last access is longest ago. No
  name is ever there twice. The clock stands still during the operation, the end of the
  address's life does not wrap around, and there is memory for the entry and its name: without memory
  for the name the code copies it to the null pointer.
\<close>

theorem dns_cache_add_refines:
  assumes ok: "cache_ok cache" "cache \<noteq> []" and ttl: "0 < ttl" "unat now + unat ttl * 1000 < 2 ^ 64"
    and v: "na_version address \<noteq> NSAPI_UNSPEC"
  shows "\<exists>cache' lost. nsapi_dns_cache_add (\<lambda>i. now) now True True host address ttl cache = Some cache' \<and>
     cache_ok cache' \<and> length cache' = length cache \<and>
     cached now cache' host (na_version address) =
       (case cached now cache host (na_version address) of Some a \<Rightarrow> Some a | None \<Rightarrow> Some address) \<and>
     (\<forall>h v. v \<noteq> NSAPI_UNSPEC \<and> (h, v) \<noteq> (host, na_version address) \<longrightarrow>
        cached now cache' h v = (if lost = Some (h, v) then None else cached now cache h v)) \<and>
     (\<forall>h v. lost = Some (h, v) \<longrightarrow> (\<exists>e. Some e \<in> set cache \<and> cache_match h v e \<and>
        (\<forall>x \<in> set cache. \<exists>e'. x = Some e' \<and> now \<le> dc_expires e' \<and> dc_accessed e \<le> dc_accessed e')))"
proof -
  let ?v = "na_version address"
  define c where "c = map (looked_at now host ?v) cache"
  note find = dns_cache_find_refines [OF ok(1) v, of now host]
  obtain r where r: "nsapi_dns_cache_find (\<lambda>i. now) host ?v cache = (c, r)"
    using cache_find_map [of now host ?v 0 cache None]
    by (cases "nsapi_dns_cache_find (\<lambda>i. now) host ?v cache") (simp add: nsapi_dns_cache_find_def c_def)
  have c: "r = cached now cache host ?v" "cache_ok c" "length c = length cache" "\<And>h v. cached now c h v = cached now cache h v"
    using find unfolding r by simp_all
  show ?thesis
  proof (cases r)
    case (Some a)
    then have "nsapi_dns_cache_add (\<lambda>i. now) now True True host address ttl cache = Some c"
      using ttl(1) r by (auto simp: nsapi_dns_cache_add_def)
    moreover have "cached now cache host ?v = Some a" using c(1) Some by simp
    ultimately show ?thesis using c(2-4) by (intro exI [of _ c] exI [of _ None]) simp
  next
    case None
    then have none: "cached now cache host ?v = None" using c(1) by simp
    obtain k where k: "k < length c" "cache_index_loop 0 c (- 1) None = Some k" "None \<in> set c \<longrightarrow> c ! k = None"
      using cache_index_some [of c] c(3) ok(2) by (metis length_0_conv)
    let ?e = "\<lparr>dc_address = address, dc_host = host, dc_expires = now + ucast ttl * 1000, dc_accessed = now\<rparr>"
    have add: "nsapi_dns_cache_add (\<lambda>i. now) now True True host address ttl cache = Some (c[k := Some ?e])"
      using ttl(1) r None k(2) by (auto simp: nsapi_dns_cache_add_def)
    have "now \<le> dc_expires e'" if "Some e' \<in> set c" for e'
      using that by (auto simp: c_def looked_at_def split: option.splits if_splits)
    then have free: "\<not> cache_match host ?v e'" if "Some e' \<in> set c" for e'
      using that none unfolding c(4) [symmetric] cached_None by blast
    have "\<exists>e. Some e \<in> set cache \<and> cache_match h u e \<and>
        (\<forall>x \<in> set cache. \<exists>e'. x = Some e' \<and> now \<le> dc_expires e' \<and> dc_accessed e \<le> dc_accessed e')"
      if lost: "given_up (c ! k) = Some (h, u)" for h u
    proof -
      obtain e where e: "c ! k = Some e" "cache_match h u e" using lost by (auto simp: given_up_def cache_match_def)
      then have full: "None \<notin> set c" using k(3) by auto
      note same = looked_at_full [OF full [unfolded c_def] none, folded c_def]
      have "dc_accessed e \<le> dc_accessed e'" if "Some e' \<in> set c" for e'
        using cache_index_oldest [OF k(2) full] e(1) that by auto
      then show ?thesis using e k(1) same by (metis nth_mem)
    qed
    moreover note put = cache_put [of c k ?e now, simplified, OF c(2) k(1) free v expires_later [OF ttl(2)]]
    ultimately show ?thesis
      using add put(1,2) put(3) c(3,4) none
      by (intro exI [of _ "c[k := Some ?e]"] exI [of _ "given_up (c ! k)"]) simp
  qed
qed

lemma dns_cache_add_refines_witness:
  "\<exists>cache'. nsapi_dns_cache_add (\<lambda>i. 5) 5 True True ''b'' \<lparr>na_version = NSAPI_IPv4, na_bytes = [1]\<rparr> 60
       [Some \<lparr>dc_address = \<lparr>na_version = NSAPI_IPv4, na_bytes = [2]\<rparr>, dc_host = ''a'', dc_expires = 9, dc_accessed = 1\<rparr>, None] = Some cache' \<and>
     cache_ok cache' \<and> cached 5 cache' ''b'' NSAPI_IPv4 = Some \<lparr>na_version = NSAPI_IPv4, na_bytes = [1]\<rparr> \<and>
     cached 5 cache' ''a'' NSAPI_IPv4 = Some \<lparr>na_version = NSAPI_IPv4, na_bytes = [2]\<rparr>"
proof -
  let ?c = "[Some \<lparr>dc_address = \<lparr>na_version = NSAPI_IPv4, na_bytes = [2 :: u8]\<rparr>, dc_host = ''a'', dc_expires = 9, dc_accessed = 1\<rparr>, None]"
  have ok: "cache_ok ?c" by (simp add: cache_ok_def)
  have a: "cached 5 ?c ''b'' NSAPI_IPv4 = None" "cached 5 ?c ''a'' NSAPI_IPv4 = Some \<lparr>na_version = NSAPI_IPv4, na_bytes = [2]\<rparr>"
    by (simp_all add: cached_def cache_match_def)
  have "(0 :: u32) < 60" by simp
  from dns_cache_add_refines [OF ok _ this, where now = 5 and address = "\<lparr>na_version = NSAPI_IPv4, na_bytes = [1]\<rparr>" and host = "''b''"]
  obtain cache' where c: "nsapi_dns_cache_add (\<lambda>i. 5) 5 True True ''b'' \<lparr>na_version = NSAPI_IPv4, na_bytes = [1]\<rparr> 60 ?c = Some cache'"
     "cache_ok cache'" "cached 5 cache' ''b'' NSAPI_IPv4 = Some \<lparr>na_version = NSAPI_IPv4, na_bytes = [1]\<rparr>"
     "\<forall>h v. v \<noteq> NSAPI_UNSPEC \<and> (h, v) \<noteq> (''b'', NSAPI_IPv4) \<longrightarrow>
        cached 5 cache' h v = cached 5 ?c h v \<or>
        cached 5 cache' h v = None \<and> list_all (\<lambda>e. e \<noteq> None \<and> 5 \<le> dc_expires (the e)) ?c"
    by (auto simp: a)
  then show ?thesis using c(4) [rule_format, of NSAPI_IPv4 "''a''"] a by auto
qed

end
