(* ===== verification/Rtc.thy ===== *)
theory Rtc
  imports Prelude
begin

text \<open>
  The calendar of the real-time clock, \<open>mbed-os/platform/mbed_mktime.c\<close>: seconds since 1970 from a
  broken-down time, and back, with the leap years of the Gregorian calendar or with one in every four.
\<close>

section \<open>The code\<close>

datatype rtc_leap_year_support_t = RTC_FULL_LEAP_YEAR_SUPPORT | RTC_4_YEAR_LEAP_YEAR_SUPPORT

record tm =
  tm_sec :: int
  tm_min :: int
  tm_hour :: int
  tm_mday :: int
  tm_mon :: int
  tm_year :: int
  tm_wday :: int
  tm_yday :: int

definition SECONDS_BY_MINUTES :: int where "SECONDS_BY_MINUTES = 60"
definition SECONDS_BY_HOUR :: int where "SECONDS_BY_HOUR = 3600"
definition SECONDS_BY_DAY :: int where "SECONDS_BY_DAY = 86400"
definition LAST_VALID_YEAR :: int where "LAST_VALID_YEAR = 206"
definition EDGE_TIMESTAMP_FULL_LEAP_YEAR_SUPPORT :: u32 where "EDGE_TIMESTAMP_FULL_LEAP_YEAR_SUPPORT = 3220095"
definition EDGE_TIMESTAMP_4_YEAR_LEAP_YEAR_SUPPORT :: u32 where "EDGE_TIMESTAMP_4_YEAR_LEAP_YEAR_SUPPORT = 3133695"

definition seconds_before_month :: "bool \<Rightarrow> u32 list" where
  "seconds_before_month leap =
     (if leap
      then [0, 31 * 86400, (31 + 29) * 86400, (31 + 29 + 31) * 86400, (31 + 29 + 31 + 30) * 86400,
        (31 + 29 + 31 + 30 + 31) * 86400, (31 + 29 + 31 + 30 + 31 + 30) * 86400,
        (31 + 29 + 31 + 30 + 31 + 30 + 31) * 86400, (31 + 29 + 31 + 30 + 31 + 30 + 31 + 31) * 86400,
        (31 + 29 + 31 + 30 + 31 + 30 + 31 + 31 + 30) * 86400,
        (31 + 29 + 31 + 30 + 31 + 30 + 31 + 31 + 30 + 31) * 86400,
        (31 + 29 + 31 + 30 + 31 + 30 + 31 + 31 + 30 + 31 + 30) * 86400]
      else [0, 31 * 86400, (31 + 28) * 86400, (31 + 28 + 31) * 86400, (31 + 28 + 31 + 30) * 86400,
        (31 + 28 + 31 + 30 + 31) * 86400, (31 + 28 + 31 + 30 + 31 + 30) * 86400,
        (31 + 28 + 31 + 30 + 31 + 30 + 31) * 86400, (31 + 28 + 31 + 30 + 31 + 30 + 31 + 31) * 86400,
        (31 + 28 + 31 + 30 + 31 + 30 + 31 + 31 + 30) * 86400,
        (31 + 28 + 31 + 30 + 31 + 30 + 31 + 31 + 30 + 31) * 86400,
        (31 + 28 + 31 + 30 + 31 + 30 + 31 + 31 + 30 + 31 + 30) * 86400])"

definition rtc_is_leap_year :: "int \<Rightarrow> rtc_leap_year_support_t \<Rightarrow> bool" where
  "rtc_is_leap_year year support =
     (if support = RTC_FULL_LEAP_YEAR_SUPPORT \<and> year = 200 then False else year mod 4 = 0)"

text \<open>
  \<open>_rtc_maketime\<close>: \<open>No_time\<close> is \<open>false\<close>, \<open>Bad_month\<close> the read of the table outside its twelve entries.
  A null pointer is \<open>None\<close>, and \<open>has_seconds\<close> is whether there is a place for the result. The sums
  are taken in 32 bits, as the compiled code does; in C the products of the fields, which are \<open>int\<close>s,
  may not overflow, and those of valid fields do not.
\<close>

datatype maketime = Seconds u32 | No_time | Bad_month

definition rtc_maketime :: "tm option \<Rightarrow> bool \<Rightarrow> rtc_leap_year_support_t \<Rightarrow> maketime" where
  "rtc_maketime time has_seconds support =
     (case time of
        None \<Rightarrow> No_time
      | Some time \<Rightarrow>
          if \<not> has_seconds then No_time
          else if tm_year time < 70 \<or> tm_year time > LAST_VALID_YEAR then No_time
          else if \<not> (0 \<le> tm_mon time \<and> tm_mon time < 12) then Bad_month
          else
            let result = of_int (tm_sec time);
                result = result + of_int (tm_min time * SECONDS_BY_MINUTES);
                result = result + of_int (tm_hour time * SECONDS_BY_HOUR);
                result = result + of_int ((tm_mday time - 1) * SECONDS_BY_DAY);
                result = result + seconds_before_month (rtc_is_leap_year (tm_year time) support) ! nat (tm_mon time)
            in if tm_year time = LAST_VALID_YEAR \<and>
                  (support = RTC_FULL_LEAP_YEAR_SUPPORT \<and> result > EDGE_TIMESTAMP_FULL_LEAP_YEAR_SUPPORT \<or>
                   support = RTC_4_YEAR_LEAP_YEAR_SUPPORT \<and> result > EDGE_TIMESTAMP_4_YEAR_LEAP_YEAR_SUPPORT)
               then No_time
               else if tm_year time > 70 then
                 let count_of_leap_days = of_int ((tm_year time - 1) div 4 - 70 div 4);
                     count_of_leap_days =
                       (if support = RTC_FULL_LEAP_YEAR_SUPPORT \<and> tm_year time > 200
                        then count_of_leap_days - 1 else count_of_leap_days)
                 in Seconds (result + (of_int ((tm_year time - 70) * 365) + count_of_leap_days) * of_int SECONDS_BY_DAY)
               else Seconds result)"

text \<open>The loop over the years, on the days that are left.\<close>

function year_loop :: "rtc_leap_year_support_t \<Rightarrow> int \<Rightarrow> u32 \<Rightarrow> int \<times> u32" where
  "year_loop support year days =
     (if rtc_is_leap_year year support \<and> days \<ge> 366 then year_loop support (year + 1) (days - 366)
      else if \<not> rtc_is_leap_year year support \<and> days \<ge> 365 then year_loop support (year + 1) (days - 365)
      else (year, days))"
  by pat_completeness auto
termination
proof (relation "measure (\<lambda>(support, year, days). unat days)", goal_cases)
  case (2 support year days)
  then show ?case by (simp add: unat_sub word_le_nat_alt)
next
  case (3 support year days)
  then show ?case by (simp add: unat_sub word_le_nat_alt)
qed simp

declare year_loop.simps [simp del]

text \<open>The loop over the months: the first that begins later, less one.\<close>

fun month_loop :: "nat \<Rightarrow> u32 list \<Rightarrow> u32 \<Rightarrow> int" where
  "month_loop i [] seconds = 11"
| "month_loop i (before # befores) seconds =
     (if seconds < before then int i - 1 else month_loop (i + 1) befores seconds)"

text \<open>
  \<open>_rtc_localtime\<close>: \<open>None\<close> is \<open>false\<close>, for a null pointer (\<open>has_info\<close> does not hold). A \<open>time_t\<close> is
  an integer of either width, cut to 32 bits.
\<close>

definition rtc_localtime :: "int \<Rightarrow> bool \<Rightarrow> rtc_leap_year_support_t \<Rightarrow> tm option" where
  "rtc_localtime timestamp has_info support =
     (if \<not> has_info then None
      else
        let seconds = of_int timestamp :: u32;
            s = uint (seconds mod 60);
            seconds = seconds div 60;
            m = uint (seconds mod 60);
            seconds = seconds div 60;
            h = uint (seconds mod 24);
            seconds = seconds div 24;
            w = uint ((seconds + 4) mod 7);
            (year, seconds) = year_loop support 70 seconds;
            yday = uint seconds;
            seconds = seconds * of_int SECONDS_BY_DAY;
            leap = rtc_is_leap_year year support;
            mon = month_loop 0 (seconds_before_month leap) seconds;
            seconds = seconds - seconds_before_month leap ! nat mon
        in Some \<lparr>tm_sec = s, tm_min = m, tm_hour = h, tm_mday = uint (seconds div of_int SECONDS_BY_DAY) + 1,
             tm_mon = mon, tm_year = year, tm_wday = w, tm_yday = yday\<rparr>)"

section \<open>The calendar\<close>

text \<open>
  What the code computes, from the lengths of the years and months: \<open>tm_seconds\<close> is the time since the
  beginning of 1970, \<open>tm_valid\<close> whether the fields are those of a day that exists.
\<close>

definition leap_length :: "rtc_leap_year_support_t \<Rightarrow> int \<Rightarrow> nat" where
  "leap_length support year = (if rtc_is_leap_year year support then 366 else 365)"

definition month_lengths :: "bool \<Rightarrow> nat list" where
  "month_lengths leap = [31, if leap then 29 else 28, 31, 30, 31, 30, 31, 31, 30, 31, 30, 31]"

definition days_before_year :: "rtc_leap_year_support_t \<Rightarrow> int \<Rightarrow> nat" where
  "days_before_year support year = sum_list (map (leap_length support) [70..year - 1])"

definition days_before_month :: "bool \<Rightarrow> int \<Rightarrow> nat" where
  "days_before_month leap mon = sum_list (take (nat mon) (month_lengths leap))"

definition tm_day_of_year :: "rtc_leap_year_support_t \<Rightarrow> tm \<Rightarrow> nat" where
  "tm_day_of_year support t = days_before_month (rtc_is_leap_year (tm_year t) support) (tm_mon t) + nat (tm_mday t - 1)"

definition tm_days :: "rtc_leap_year_support_t \<Rightarrow> tm \<Rightarrow> nat" where
  "tm_days support t = days_before_year support (tm_year t) + tm_day_of_year support t"

definition tm_seconds :: "rtc_leap_year_support_t \<Rightarrow> tm \<Rightarrow> nat" where
  "tm_seconds support t = ((tm_days support t * 24 + nat (tm_hour t)) * 60 + nat (tm_min t)) * 60 + nat (tm_sec t)"

definition tm_valid :: "rtc_leap_year_support_t \<Rightarrow> tm \<Rightarrow> bool" where
  "tm_valid support t \<longleftrightarrow>
     0 \<le> tm_sec t \<and> tm_sec t < 60 \<and> 0 \<le> tm_min t \<and> tm_min t < 60 \<and> 0 \<le> tm_hour t \<and> tm_hour t < 24 \<and>
     70 \<le> tm_year t \<and> tm_year t \<le> 206 \<and> 0 \<le> tm_mon t \<and> tm_mon t < 12 \<and>
     1 \<le> tm_mday t \<and> tm_mday t \<le> int (month_lengths (rtc_is_leap_year (tm_year t) support) ! nat (tm_mon t))"

text \<open>The days before a year in closed form, and the months before a month.\<close>

lemma days_before_year_step:
  "70 \<le> year \<Longrightarrow> days_before_year support (year + 1) = days_before_year support year + leap_length support year"
  by (simp add: days_before_year_def upto_rec2)

lemma days_before_year_closed:
  assumes "70 \<le> year"
  shows "int (days_before_year support year) = (year - 70) * 365 + ((year - 1) div 4 - 17) -
     (if support = RTC_FULL_LEAP_YEAR_SUPPORT \<and> year > 200 then 1 else 0)"
  using assms
proof (induction rule: int_ge_induct)
  case base
  show ?case by (simp add: days_before_year_def)
next
  case (step year)
  have "year div 4 = (year - 1) div 4 + (if year mod 4 = 0 then 1 else 0)" by presburger
  then show ?case
    using step by (auto simp: days_before_year_step leap_length_def rtc_is_leap_year_def)
qed

lemma seconds_before_month_days:
  assumes "0 \<le> mon" "mon < 12"
  shows "unat (seconds_before_month leap ! nat mon) = days_before_month leap mon * 86400"
    and "days_before_month leap mon + month_lengths leap ! nat mon \<le> (if leap then 366 else 365)"
proof -
  have "nat mon \<in> set [0..<12]" using assms by auto
  moreover have "list_all (\<lambda>n. unat (seconds_before_month leap ! n) = sum_list (take n (month_lengths leap)) * 86400 \<and>
      sum_list (take n (month_lengths leap)) + month_lengths leap ! n \<le> (if leap then 366 else 365)) [0..<12]"
    by (cases leap) (simp_all add: seconds_before_month_def month_lengths_def upt_rec)
  ultimately show "unat (seconds_before_month leap ! nat mon) = days_before_month leap mon * 86400"
    "days_before_month leap mon + month_lengths leap ! nat mon \<le> (if leap then 366 else 365)"
    by (simp_all add: list_all_iff days_before_month_def)
qed

end
