(* ===== verification/RtcTheorems.thy ===== *)
theory RtcTheorems
  imports Rtc
begin

text \<open>
  What the calendar of the real-time clock computes: the seconds of every valid broken-down time, and
  the broken-down time of every number of seconds.
\<close>

section \<open>Seconds\<close>

text \<open>The seconds since the beginning of the year, which the sums of \<open>_rtc_maketime\<close> hold without a wrap-around.\<close>

definition tm_year_seconds :: "rtc_leap_year_support_t \<Rightarrow> tm \<Rightarrow> nat" where
  "tm_year_seconds support t = ((tm_day_of_year support t * 24 + nat (tm_hour t)) * 60 + nat (tm_min t)) * 60 + nat (tm_sec t)"

lemma tm_seconds_year: "tm_seconds support t = days_before_year support (tm_year t) * 86400 + tm_year_seconds support t"
  by (simp add: tm_seconds_def tm_year_seconds_def tm_days_def)

lemma tm_year_seconds_less:
  assumes "tm_valid support t"
  shows "tm_year_seconds support t < 366 * 86400"
proof -
  let ?leap = "rtc_is_leap_year (tm_year t) support"
  have "days_before_month ?leap (tm_mon t) + month_lengths ?leap ! nat (tm_mon t) \<le> 366"
    using seconds_before_month_days(2) [of "tm_mon t" ?leap] assms by (auto simp: tm_valid_def split: if_splits)
  moreover have "nat (tm_mday t - 1) < month_lengths ?leap ! nat (tm_mon t)"
    using assms unfolding tm_valid_def by linarith
  ultimately have "tm_day_of_year support t \<le> 365" by (simp add: tm_day_of_year_def)
  moreover have "nat (tm_hour t) \<le> 23" "nat (tm_min t) \<le> 59" "nat (tm_sec t) \<le> 59"
    using assms unfolding tm_valid_def by linarith+
  ultimately show ?thesis by (simp add: tm_year_seconds_def)
qed

lemma year_result:
  assumes "tm_valid support t"
  shows "(of_int (tm_sec t) + of_int (tm_min t * SECONDS_BY_MINUTES) + of_int (tm_hour t * SECONDS_BY_HOUR) +
      of_int ((tm_mday t - 1) * SECONDS_BY_DAY) + seconds_before_month (rtc_is_leap_year (tm_year t) support) ! nat (tm_mon t) :: u32)
    = of_nat (tm_year_seconds support t)"
proof -
  let ?leap = "rtc_is_leap_year (tm_year t) support"
  have word: "w = of_nat (unat w)" for w :: u32 by simp
  have "seconds_before_month ?leap ! nat (tm_mon t) = of_nat (days_before_month ?leap (tm_mon t) * 86400)"
    using seconds_before_month_days(1) [of "tm_mon t" ?leap] assms word [of "seconds_before_month ?leap ! nat (tm_mon t)"]
    by (simp add: tm_valid_def)
  moreover have "int (tm_year_seconds support t) = tm_sec t + tm_min t * 60 + tm_hour t * 3600 + (tm_mday t - 1) * 86400 +
      int (days_before_month ?leap (tm_mon t) * 86400)"
    using assms by (simp add: tm_year_seconds_def tm_day_of_year_def tm_valid_def)
  then have "(of_int (int (tm_year_seconds support t)) :: u32) = of_int (tm_sec t + tm_min t * 60 + tm_hour t * 3600 + (tm_mday t - 1) * 86400 +
      int (days_before_month ?leap (tm_mon t) * 86400))" by (rule arg_cong)
  ultimately show ?thesis by (simp add: SECONDS_BY_MINUTES_def SECONDS_BY_HOUR_def SECONDS_BY_DAY_def)
qed

lemma year_fits:
  assumes "tm_valid support t"
  shows "tm_seconds support t < 2 ^ 32 \<longleftrightarrow>
     \<not> (tm_year t = 206 \<and> (support = RTC_FULL_LEAP_YEAR_SUPPORT \<and> tm_year_seconds support t > 3220095 \<or>
        support = RTC_4_YEAR_LEAP_YEAR_SUPPORT \<and> tm_year_seconds support t > 3133695))"
proof (cases "tm_year t = 206")
  case True
  then have "int (days_before_year support (tm_year t)) = (if support = RTC_FULL_LEAP_YEAR_SUPPORT then 49673 else 49674)"
    using days_before_year_closed [of 206 support] by simp
  then have "days_before_year support (tm_year t) = (if support = RTC_FULL_LEAP_YEAR_SUPPORT then 49673 else 49674)"
    by (simp split: if_splits)
  then show ?thesis using True by (cases support) (auto simp: tm_seconds_year)
next
  case False
  then have y: "70 \<le> tm_year t" "tm_year t \<le> 205" using assms by (simp_all add: tm_valid_def)
  then have "(tm_year t - 1) div 4 \<le> 51" by simp
  then have "int (days_before_year support (tm_year t)) \<le> 49309"
    using days_before_year_closed [OF y(1), of support] y(2) by (simp split: if_splits)
  then show ?thesis using tm_year_seconds_less [OF assms] False by (simp add: tm_seconds_year)
qed

lemma maketime_valid:
  assumes "tm_valid support t"
  shows "rtc_maketime (Some t) True support =
     (if tm_seconds support t < 2 ^ 32 then Seconds (of_nat (tm_seconds support t)) else No_time)"
proof -
  let ?R = "tm_year_seconds support t"
  have valid: "70 \<le> tm_year t" "tm_year t \<le> 206" "0 \<le> tm_mon t" "tm_mon t < 12" using assms by (simp_all add: tm_valid_def)
  have R: "unat (of_nat ?R :: u32) = ?R" using tm_year_seconds_less [OF assms] by (intro unat_of_nat_small) simp
  have edge: "(of_nat ?R > (3220095 :: u32)) = (?R > 3220095)" "(of_nat ?R > (3133695 :: u32)) = (?R > 3133695)"
    using R by (simp_all add: word_less_nat_alt)
  have years: "(of_int ((tm_year t - 70) * 365) + (if support = RTC_FULL_LEAP_YEAR_SUPPORT \<and> tm_year t > 200
      then of_int ((tm_year t - 1) div 4 - 70 div 4) - 1 else of_int ((tm_year t - 1) div 4 - 70 div 4))) =
      (of_nat (days_before_year support (tm_year t)) :: u32)"
  proof -
    have "(of_nat (days_before_year support (tm_year t)) :: u32) = of_int (int (days_before_year support (tm_year t)))" by simp
    then show ?thesis by (simp add: days_before_year_closed [OF valid(1)])
  qed
  have zero: "days_before_year support 70 = 0" by (simp add: days_before_year_def)
  have "rtc_maketime (Some t) True support =
     (if tm_year t = 206 \<and> (support = RTC_FULL_LEAP_YEAR_SUPPORT \<and> of_nat ?R > (3220095 :: u32) \<or>
         support = RTC_4_YEAR_LEAP_YEAR_SUPPORT \<and> of_nat ?R > (3133695 :: u32)) then No_time
      else if tm_year t > 70 then Seconds (of_nat ?R + of_nat (days_before_year support (tm_year t)) * of_int SECONDS_BY_DAY)
      else Seconds (of_nat ?R))"
    unfolding rtc_maketime_def option.case Let_def year_result [OF assms] years
      LAST_VALID_YEAR_def EDGE_TIMESTAMP_FULL_LEAP_YEAR_SUPPORT_def EDGE_TIMESTAMP_4_YEAR_LEAP_YEAR_SUPPORT_def
    using valid by simp
  also have "\<dots> = (if tm_seconds support t < 2 ^ 32 then Seconds (of_nat (tm_seconds support t)) else No_time)"
    unfolding edge year_fits [OF assms] using valid(1) zero
    by (cases "tm_year t = 70") (auto simp: tm_seconds_year SECONDS_BY_DAY_def add.commute)
  finally show ?thesis .
qed

section \<open>Broken-down times\<close>

lemma leap_length_le: "leap_length support year \<le> 366" by (simp add: leap_length_def)

lemma year_loop_days:
  assumes "70 \<le> year" "year_loop support year days = (year', rest)"
  shows "year \<le> year' \<and> days_before_year support year + unat days = days_before_year support year' + unat rest \<and>
     unat rest < leap_length support year'"
  using assms
proof (induction support year days rule: year_loop.induct)
  case (1 support year days)
  let ?n = "of_nat (leap_length support year) :: u32"
  have n: "unat ?n = leap_length support year" by (simp add: leap_length_def)
  show ?case
  proof (cases "?n \<le> days")
    case True
    have step: "year_loop support (year + 1) (days - ?n) = (year', rest)"
      using 1(4) True by (subst (asm) year_loop.simps) (simp add: leap_length_def split: if_splits)
    have "unat (days - ?n) = unat days - leap_length support year" "leap_length support year \<le> unat days"
      using True n by (simp_all add: unat_sub word_le_nat_alt)
    moreover have "70 \<le> year + 1" using 1(3) by simp
    then have "year + 1 \<le> year' \<and> days_before_year support (year + 1) + unat (days - ?n) =
        days_before_year support year' + unat rest \<and> unat rest < leap_length support year'"
      using 1(1,2) True step by (auto simp: leap_length_def split: if_splits)
    ultimately show ?thesis using days_before_year_step [OF 1(3), of support] by simp
  next
    case False
    then have "(year', rest) = (year, days)"
      using 1(4) by (subst (asm) year_loop.simps) (simp add: leap_length_def split: if_splits)
    then show ?thesis using False n by (simp add: word_le_nat_alt)
  qed
qed

lemma month_loop_between:
  assumes "month_loop i befores s = m"
  shows "(\<exists>k < length befores. m = int (i + k) - 1 \<and> s < befores ! k \<and> (\<forall>j < k. befores ! j \<le> s)) \<or>
     m = 11 \<and> (\<forall>j < length befores. befores ! j \<le> s)"
  using assms
proof (induction i befores s rule: month_loop.induct)
  case (2 i before befores s)
  show ?case
  proof (cases "s < before")
    case True
    then show ?thesis using 2(2) by auto
  next
    case False
    then consider k where "k < length befores" "m = int (i + 1 + k) - 1" "s < befores ! k" "\<forall>j < k. befores ! j \<le> s"
      | "m = 11" "\<forall>j < length befores. befores ! j \<le> s"
      using 2 by auto
    then show ?thesis
    proof cases
      case (1 k)
      then show ?thesis using False by (intro disjI1 exI [of _ "Suc k"]) (auto simp: less_Suc_eq_0_disj)
    next
      case 2
      then show ?thesis using False by (auto simp: less_Suc_eq_0_disj)
    qed
  qed
qed simp

lemma days_before_month_step:
  "k < 12 \<Longrightarrow> days_before_month leap (int (Suc k)) = days_before_month leap (int k) + month_lengths leap ! k"
proof -
  assume "k < 12"
  then have "k < length (month_lengths leap)" by (simp add: month_lengths_def)
  then show ?thesis by (simp add: days_before_month_def take_Suc_conv_app_nth del: of_nat_Suc)
qed

lemma month_found:
  assumes "d < (if leap then 366 else 365)"
  defines "mon \<equiv> month_loop 0 (seconds_before_month leap) (of_nat (d * 86400))"
  shows "0 \<le> mon \<and> mon < 12 \<and> days_before_month leap mon \<le> d \<and>
    d < days_before_month leap mon + month_lengths leap ! nat mon"
proof -
  let ?s = "of_nat (d * 86400) :: u32"
  have "d < 366" using assms(1) by (simp split: if_splits)
  then have s: "unat ?s = d * 86400" by (intro unat_of_nat_small) simp
  have len: "length (seconds_before_month leap) = 12" by (simp add: seconds_before_month_def)
  have before: "seconds_before_month leap ! k \<le> ?s \<longleftrightarrow> days_before_month leap (int k) \<le> d" if "k < 12" for k
    using that seconds_before_month_days(1) [of "int k" leap] by (simp only: word_le_nat_alt s) simp
  have "days_before_month leap 0 = 0" by (simp add: days_before_month_def)
  then have first: "days_before_month leap (int 0) \<le> d" by simp
  consider k where "k < 12" "mon = int k - 1" "\<not> days_before_month leap (int k) \<le> d" "\<forall>j < k. days_before_month leap (int j) \<le> d"
    | "mon = 11" "\<forall>j < 12. days_before_month leap (int j) \<le> d"
    using month_loop_between [of 0 "seconds_before_month leap" ?s mon, folded mon_def] before
    by (auto simp: len mon_def not_le [symmetric])
  then show ?thesis
  proof cases
    case (1 k)
    then obtain k' where "k = Suc k'" using first by (cases k) auto
    then show ?thesis using 1 days_before_month_step [of k' leap] by auto
  next
    case 2
    then show ?thesis
      using assms(1) days_before_month_step [of 11 leap] spec [OF 2(2), of 11]
      by (cases leap) (simp_all add: days_before_month_def month_lengths_def)
  qed
qed

text \<open>The leap years of the Gregorian calendar, by the rule for all years.\<close>

definition gregorian_leap :: "int \<Rightarrow> bool" where
  "gregorian_leap y \<longleftrightarrow> y mod 4 = 0 \<and> (y mod 100 \<noteq> 0 \<or> y mod 400 = 0)"

lemma rtc_is_leap_year_gregorian:
  assumes "70 \<le> year" "year \<le> 206"
  shows "rtc_is_leap_year year RTC_FULL_LEAP_YEAR_SUPPORT = gregorian_leap (1900 + year)"
proof -
  have "list_all (\<lambda>y. rtc_is_leap_year y RTC_FULL_LEAP_YEAR_SUPPORT = gregorian_leap (1900 + y)) [70..206]" by code_simp
  moreover have "year \<in> set [70..206]" unfolding set_upto using assms by simp
  ultimately show ?thesis unfolding list_all_iff by blast
qed

lemma days_before_year_less:
  assumes "70 \<le> year" "days_before_year support year \<le> 49710"
  shows "year \<le> 206"
proof (rule ccontr)
  assume "\<not> year \<le> 206"
  then have "(year - 1) div 4 \<ge> 51" "(year - 70) * 365 \<ge> 137 * 365" by simp_all
  then have "int (days_before_year support year) > 49710"
    using days_before_year_closed [OF assms(1), of support] by (simp split: if_splits)
  then show False using assms(2) by simp
qed

lemma rtc_localtime_fields:
  fixes s :: u32
  defines "days \<equiv> unat s div 86400"
  obtains year rest mon where "year_loop support 70 (s div 60 div 60 div 24) = (year, rest)"
    "days = days_before_year support year + unat rest" "unat rest < leap_length support year" "70 \<le> year" "year \<le> 206"
    "mon = month_loop 0 (seconds_before_month (rtc_is_leap_year year support)) (of_nat (unat rest * 86400))"
    "0 \<le> mon" "mon < 12"
    "rtc_localtime (uint s) True support = Some \<lparr>tm_sec = int (unat s mod 60), tm_min = int (unat s div 60 mod 60), tm_hour = int (unat s div 3600 mod 24),
       tm_mday = int (unat rest - days_before_month (rtc_is_leap_year year support) mon) + 1, tm_mon = mon, tm_year = year,
       tm_wday = int ((days + 4) mod 7), tm_yday = int (unat rest)\<rparr>"
    "days_before_month (rtc_is_leap_year year support) mon \<le> unat rest"
    "unat rest < days_before_month (rtc_is_leap_year year support) mon + month_lengths (rtc_is_leap_year year support) ! nat mon"
proof -
  let ?d = "s div 60 div 60 div 24"
  have d: "unat ?d = days" by (simp add: days_def unat_div div_mult2_eq [symmetric])
  obtain year rest where loop: "year_loop support 70 ?d = (year, rest)" by (cases "year_loop support 70 ?d")
  have "days_before_year support 70 = 0" by (simp add: days_before_year_def)
  then have year: "70 \<le> year" "days = days_before_year support year + unat rest" "unat rest < leap_length support year"
    using year_loop_days [OF _ loop] d by simp_all
  have "unat s < 2 ^ 32" using unsigned_less [of s] by simp
  then have small: "days \<le> 49710" unfolding days_def by simp
  then have "year \<le> 206" using year(1,2) by (intro days_before_year_less [of year support]) simp_all
  let ?leap = "rtc_is_leap_year year support"
  define mon where "mon = month_loop 0 (seconds_before_month ?leap) (of_nat (unat rest * 86400))"
  have mon: "0 \<le> mon" "mon < 12" "days_before_month ?leap mon \<le> unat rest"
    "unat rest < days_before_month ?leap mon + month_lengths ?leap ! nat mon"
    using month_found [of "unat rest" ?leap] year(3) unfolding mon_def leap_length_def by simp_all
  have rest: "unat (of_nat (unat rest * 86400) :: u32) = unat rest * 86400"
    using year(3) leap_length_le [of support year] by (intro unat_of_nat_small) simp
  have times: "rest * of_int SECONDS_BY_DAY = of_nat (unat rest * 86400)" by (simp add: SECONDS_BY_DAY_def)
  have "unat (of_nat (unat rest * 86400) - seconds_before_month ?leap ! nat mon) = (unat rest - days_before_month ?leap mon) * 86400"
    using seconds_before_month_days(1) [OF mon(1,2), of ?leap] mon(3) rest
    by (subst unat_sub) (simp_all add: word_le_nat_alt diff_mult_distrib)
  then have mday: "uint ((of_nat (unat rest * 86400) - seconds_before_month ?leap ! nat mon) div of_int SECONDS_BY_DAY) =
      int (unat rest - days_before_month ?leap mon)"
    by (simp add: SECONDS_BY_DAY_def uint_nat unat_div)
  have "unat (?d + 4) = days + 4" using d small by (subst unat_add_no_wrap) simp_all
  then have wday: "uint ((?d + 4) mod 7) = int ((days + 4) mod 7)" by (simp add: uint_nat unat_mod)
  have fields: "uint (s mod 60) = int (unat s mod 60)" "uint (s div 60 mod 60) = int (unat s div 60 mod 60)"
    "uint (s div 60 div 60 mod 24) = int (unat s div 3600 mod 24)"
    by (simp_all add: uint_nat unat_mod unat_div div_mult2_eq [symmetric])
  have cast: "(of_int (uint s) :: u32) = s" by simp
  have "rtc_localtime (uint s) True support = Some \<lparr>tm_sec = int (unat s mod 60), tm_min = int (unat s div 60 mod 60), tm_hour = int (unat s div 3600 mod 24),
       tm_mday = int (unat rest - days_before_month ?leap mon) + 1, tm_mon = mon, tm_year = year,
       tm_wday = int ((days + 4) mod 7), tm_yday = int (unat rest)\<rparr>"
    by (simp only: rtc_localtime_def Let_def not_True_eq_False if_False cast loop prod.case times mon_def [symmetric]
        mday fields wday uint_nat [of rest])
  then show ?thesis
    using that [OF loop year(2,3,1) \<open>year \<le> 206\<close> mon_def mon(1,2) _ mon(3,4)] by blast
qed

text \<open>
  C37: Every time of the clock is broken down into the fields of the calendar. For every value of
  a \<open>time_t\<close>, cut to 32 bits, and both kinds of leap years \<open>_rtc_localtime\<close> gives a day that exists, between 1970 and
  2106, with the day of the year and the day of the week that belong to it; the days and the time of
  day add up to exactly the seconds, and \<open>_rtc_maketime\<close> makes the same number of them again.
\<close>

theorem rtc_localtime_exact:
  "\<exists>t. rtc_localtime timestamp True support = Some t \<and> tm_valid support t \<and> int (tm_seconds support t) = timestamp mod 2 ^ 32 \<and>
     tm_yday t = int (tm_day_of_year support t) \<and> tm_wday t = int ((tm_days support t + 4) mod 7) \<and>
     rtc_maketime (Some t) True support = Seconds (of_int timestamp)"
proof -
  define s :: u32 where "s = of_int timestamp"
  have cut: "rtc_localtime timestamp True support = rtc_localtime (uint s) True support"
    unfolding rtc_localtime_def by (simp add: s_def)
  have uint_s: "uint s = timestamp mod 2 ^ 32" by (simp add: s_def unsigned_of_int take_bit_eq_mod)
  obtain year mon r t where days: "unat s div 86400 = days_before_year support year + r" and year: "70 \<le> year" "year \<le> 206"
    and mon: "0 \<le> mon" "mon < 12"
    and local: "rtc_localtime (uint s) True support = Some t"
    and t: "t = \<lparr>tm_sec = int (unat s mod 60), tm_min = int (unat s div 60 mod 60), tm_hour = int (unat s div 3600 mod 24),
       tm_mday = int (r - days_before_month (rtc_is_leap_year year support) mon) + 1, tm_mon = mon, tm_year = year,
       tm_wday = int ((unat s div 86400 + 4) mod 7), tm_yday = int (r)\<rparr>"
    and day: "days_before_month (rtc_is_leap_year year support) mon \<le> r"
      "r < days_before_month (rtc_is_leap_year year support) mon + month_lengths (rtc_is_leap_year year support) ! nat mon"
  proof (rule rtc_localtime_fields [of support s])
    fix year mon and rest :: u32
    assume *: "unat s div 86400 = days_before_year support year + unat rest" "70 \<le> year" "year \<le> 206" "0 \<le> mon" "mon < 12"
      "rtc_localtime (uint s) True support = Some \<lparr>tm_sec = int (unat s mod 60), tm_min = int (unat s div 60 mod 60),
         tm_hour = int (unat s div 3600 mod 24), tm_mday = int (unat rest - days_before_month (rtc_is_leap_year year support) mon) + 1,
         tm_mon = mon, tm_year = year, tm_wday = int ((unat s div 86400 + 4) mod 7), tm_yday = int (unat rest)\<rparr>"
      "days_before_month (rtc_is_leap_year year support) mon \<le> unat rest"
      "unat rest < days_before_month (rtc_is_leap_year year support) mon + month_lengths (rtc_is_leap_year year support) ! nat mon"
    show thesis by (rule that [OF *(1-6) refl *(7,8)])
  qed
  have valid: "tm_valid support t" using year mon day by (simp add: tm_valid_def t)
  have yday: "tm_day_of_year support t = r" using day(1) by (simp add: tm_day_of_year_def t)
  then have tdays: "tm_days support t = unat s div 86400" using days by (simp add: tm_days_def t)
  have split: "unat s div 60 div 60 = unat s div 3600" "unat s div 3600 div 24 = unat s div 86400"
    by (simp_all add: div_mult2_eq [symmetric])
  have "tm_seconds support t = ((unat s div 86400 * 24 + unat s div 3600 mod 24) * 60 + unat s div 60 mod 60) * 60 + unat s mod 60"
    by (simp only: tm_seconds_def tdays) (simp add: t)
  also have "unat s div 86400 * 24 + unat s div 3600 mod 24 = unat s div 60 div 60" by (simp only: split flip: split(2)) simp
  also have "\<dots> * 60 + unat s div 60 mod 60 = unat s div 60" by simp
  also have "\<dots> * 60 + unat s mod 60 = unat s" by simp
  finally have secs: "tm_seconds support t = unat s" .
  moreover have "rtc_maketime (Some t) True support = Seconds s"
  proof -
    have "unat s < 2 ^ 32" using unsigned_less [of s] by simp
    then show ?thesis using maketime_valid [OF valid, unfolded secs] by (simp only: if_True) simp
  qed
  moreover have "int (unat s) = timestamp mod 2 ^ 32" using uint_s by (simp only: uint_nat)
  ultimately show ?thesis
    using valid yday tdays local unfolding cut s_def [symmetric] by (intro exI [of _ t]) (simp add: t)
qed

text \<open>
  C38: \<open>_rtc_maketime\<close> gives the seconds of every day that exists, from the lengths of the years and
  months before it, as long as they fit in 32 bits, up to the second; later times are refused. Of the
  years it accepts, those with full support are leap years by the rule of the Gregorian calendar.
\<close>

theorem rtc_maketime_exact:
  assumes "tm_valid support t"
  shows "rtc_maketime (Some t) True support =
     (if tm_seconds support t < 2 ^ 32 then Seconds (of_nat (tm_seconds support t)) else No_time) \<and>
     rtc_is_leap_year (tm_year t) RTC_FULL_LEAP_YEAR_SUPPORT = gregorian_leap (1900 + tm_year t)"
proof (intro conjI)
  show "rtc_is_leap_year (tm_year t) RTC_FULL_LEAP_YEAR_SUPPORT = gregorian_leap (1900 + tm_year t)"
    using assms unfolding tm_valid_def by (intro rtc_is_leap_year_gregorian) blast+
qed (rule maketime_valid [OF assms])

lemma rtc_maketime_exact_witness:
  "rtc_maketime (Some \<lparr>tm_sec = 15, tm_min = 28, tm_hour = 6, tm_mday = 7, tm_mon = 1, tm_year = 206, tm_wday = 0, tm_yday = 0\<rparr>)
     True RTC_FULL_LEAP_YEAR_SUPPORT = Seconds 4294967295 \<and>
   rtc_maketime (Some \<lparr>tm_sec = 16, tm_min = 28, tm_hour = 6, tm_mday = 7, tm_mon = 1, tm_year = 206, tm_wday = 0, tm_yday = 0\<rparr>)
     True RTC_FULL_LEAP_YEAR_SUPPORT = No_time"
proof -
  let ?t = "\<lambda>s. \<lparr>tm_sec = s, tm_min = 28, tm_hour = 6, tm_mday = 7, tm_mon = 1, tm_year = 206, tm_wday = 0, tm_yday = 0\<rparr>"
  have valid: "tm_valid RTC_FULL_LEAP_YEAR_SUPPORT (?t 15)" "tm_valid RTC_FULL_LEAP_YEAR_SUPPORT (?t 16)"
    by (simp_all add: tm_valid_def month_lengths_def)
  have "int (days_before_year RTC_FULL_LEAP_YEAR_SUPPORT 206) = 49673"
    using days_before_year_closed [of 206 RTC_FULL_LEAP_YEAR_SUPPORT] by simp
  then have "days_before_year RTC_FULL_LEAP_YEAR_SUPPORT 206 = 49673" by simp
  then have "tm_seconds RTC_FULL_LEAP_YEAR_SUPPORT (?t 15) = 4294967295" "tm_seconds RTC_FULL_LEAP_YEAR_SUPPORT (?t 16) = 4294967296"
    by (simp_all add: tm_seconds_def tm_days_def tm_day_of_year_def days_before_month_def month_lengths_def)
  then show ?thesis
    using rtc_maketime_exact [OF valid(1)] rtc_maketime_exact [OF valid(2)] by simp
qed

end
