(* ===== verification/Crc.thy ===== *)
theory Crc
  imports CrcTables
begin

text \<open>
  The cyclic redundancy check of mbed OS, \<open>drivers/MbedCRC.h\<close> and \<open>MbedCRC.cpp\<close>, without a hardware
  unit (\<open>DEVICE_CRC\<close> is not set for the board). The template's parameters are the arguments
  \<open>polynomial\<close> and \<open>width\<close>, which is at most 32.
\<close>

definition POLY_8BIT_CCITT :: u32 where "POLY_8BIT_CCITT = 0x07"
definition POLY_7BIT_SD :: u32 where "POLY_7BIT_SD = 0x9"
definition POLY_16BIT_CCITT :: u32 where "POLY_16BIT_CCITT = 0x1021"
definition POLY_16BIT_IBM :: u32 where "POLY_16BIT_IBM = 0x8005"
definition POLY_32BIT_ANSI :: u32 where "POLY_32BIT_ANSI = 0x04C11DB7"
definition POLY_32BIT_REV_ANSI :: u32 where "POLY_32BIT_REV_ANSI = 0xEDB88320"

section \<open>The object\<close>

text \<open>
  \<open>_crc_table\<close> points to a table with entries of 8, 16 or 32 bits and is cast to the type that belongs
  to the width. A read of a table by another type, or past its end, is \<open>None\<close>.
\<close>

datatype crc_table = Table8 "u8 list" | Table16 "u16 list" | Table32 "u32 list"

datatype CrcMode = TABLE | BITWISE

record MbedCRC =
  crc_initial_value :: u32
  crc_final_xor :: u32
  crc_reflect_data :: bool
  crc_reflect_remainder :: bool
  crc_table :: "crc_table option"
  crc_mode :: CrcMode

definition mbed_crc_ctor :: "u32 \<Rightarrow> MbedCRC \<Rightarrow> MbedCRC" where
  "mbed_crc_ctor polynomial c =
     (let table =
        (if polynomial = POLY_32BIT_ANSI then Some (Table32 Table_CRC_32bit_ANSI)
         else if polynomial = POLY_32BIT_REV_ANSI then Some (Table32 Table_CRC_32bit_Rev_ANSI)
         else if polynomial = POLY_8BIT_CCITT then Some (Table8 Table_CRC_8bit_CCITT)
         else if polynomial = POLY_7BIT_SD then Some (Table8 Table_CRC_7Bit_SD)
         else if polynomial = POLY_16BIT_CCITT then Some (Table16 Table_CRC_16bit_CCITT)
         else if polynomial = POLY_16BIT_IBM then Some (Table16 Table_CRC_16bit_IBM)
         else None)
      in c\<lparr>crc_table := table, crc_mode := if table \<noteq> None then TABLE else BITWISE\<rparr>)"

definition new_MbedCRC :: "u32 \<Rightarrow> u32 \<Rightarrow> u32 \<Rightarrow> bool \<Rightarrow> bool \<Rightarrow> MbedCRC" where
  "new_MbedCRC polynomial initial_xor final_xor reflect_data reflect_remainder =
     mbed_crc_ctor polynomial
       \<lparr>crc_initial_value = initial_xor, crc_final_xor = final_xor, crc_reflect_data = reflect_data,
        crc_reflect_remainder = reflect_remainder, crc_table = None, crc_mode = BITWISE\<rparr>"

text \<open>The default constructors, one for each pair of a polynomial and a width; other pairs have none.\<close>

definition default_MbedCRC :: "u32 \<Rightarrow> nat \<Rightarrow> MbedCRC option" where
  "default_MbedCRC polynomial width =
     (if polynomial = POLY_32BIT_ANSI \<and> width = 32 then Some (new_MbedCRC polynomial (NOT 0) (NOT 0) True True)
      else if polynomial = POLY_32BIT_REV_ANSI \<and> width = 32 then Some (new_MbedCRC polynomial (NOT 0) (NOT 0) False False)
      else if polynomial = POLY_16BIT_IBM \<and> width = 16 then Some (new_MbedCRC polynomial 0 0 True True)
      else if polynomial = POLY_16BIT_CCITT \<and> width = 16 then Some (new_MbedCRC polynomial (NOT 0) 0 False False)
      else if polynomial = POLY_7BIT_SD \<and> width = 7 then Some (new_MbedCRC polynomial 0 0 False False)
      else if polynomial = POLY_8BIT_CCITT \<and> width = 8 then Some (new_MbedCRC polynomial 0 0 False False)
      else None)"

section \<open>Bits\<close>

definition get_top_bit :: "nat \<Rightarrow> u32" where
  "get_top_bit width = (if width < 8 then push_bit 7 1 else push_bit (width - 1) 1)"

definition get_crc_mask :: "nat \<Rightarrow> u32" where
  "get_crc_mask width = (if width < 8 then push_bit 8 1 - 1 else ucast (push_bit width (1 :: u64) - 1))"

text \<open>The loops of the reflections: \<open>left\<close> is \<open>nBits - bit\<close>.\<close>

fun reflect_loop :: "nat \<Rightarrow> u32 \<Rightarrow> u32 \<Rightarrow> u32" where
  "reflect_loop 0 data reflection = reflection"
| "reflect_loop (Suc left) data reflection =
     reflect_loop left (drop_bit 1 data)
       (if data AND 0x01 \<noteq> 0 then reflection OR push_bit left 1 else reflection)"

definition reflect_remainder :: "MbedCRC \<Rightarrow> nat \<Rightarrow> u32 \<Rightarrow> u32" where
  "reflect_remainder c width data =
     (if crc_reflect_remainder c then reflect_loop (if width < 8 then 8 else width) data 0 else data)"

definition reflect_bytes :: "MbedCRC \<Rightarrow> u32 \<Rightarrow> u32" where
  "reflect_bytes c data = (if crc_reflect_data c then reflect_loop 8 data 0 else data)"

section \<open>Bit by bit\<close>

definition narrow_bit :: "u32 \<Rightarrow> nat \<Rightarrow> u8 \<times> u32 \<Rightarrow> u8 \<times> u32" where
  "narrow_bit polynomial width = (\<lambda>(data_byte, p_crc).
     let p_crc = push_bit 1 p_crc;
         p_crc = (if (ucast data_byte XOR p_crc) AND get_top_bit width \<noteq> 0 then p_crc XOR polynomial else p_crc)
     in (push_bit 1 data_byte, p_crc))"

definition wide_bit :: "u32 \<Rightarrow> nat \<Rightarrow> u32 \<Rightarrow> u32" where
  "wide_bit polynomial width p_crc =
     (if p_crc AND get_top_bit width \<noteq> 0 then push_bit 1 p_crc XOR polynomial else push_bit 1 p_crc)"

definition bitwise_byte :: "MbedCRC \<Rightarrow> u32 \<Rightarrow> nat \<Rightarrow> u8 \<Rightarrow> u32 \<Rightarrow> u32" where
  "bitwise_byte c polynomial width byte p_crc =
     (if width < 8 then snd ((narrow_bit polynomial width ^^ 8) (ucast (reflect_bytes c (ucast byte)), p_crc))
      else (wide_bit polynomial width ^^ 8) (p_crc XOR push_bit (width - 8) (reflect_bytes c (ucast byte))))"

definition bitwise_compute_partial :: "MbedCRC \<Rightarrow> u32 \<Rightarrow> nat \<Rightarrow> u8 list \<Rightarrow> u32 \<Rightarrow> u32" where
  "bitwise_compute_partial c polynomial width data crc =
     fold (bitwise_byte c polynomial width) data crc AND get_crc_mask width"

section \<open>By tables\<close>

fun table_entry :: "nat \<Rightarrow> crc_table option \<Rightarrow> nat \<Rightarrow> u32 option" where
  "table_entry width (Some (Table8 t)) i = (if width \<le> 8 \<and> i < length t then Some (ucast (t ! i)) else None)"
| "table_entry width (Some (Table16 t)) i =
     (if 8 < width \<and> width \<le> 16 \<and> i < length t then Some (ucast (t ! i)) else None)"
| "table_entry width (Some (Table32 t)) i = (if 16 < width \<and> i < length t then Some (t ! i) else None)"
| "table_entry width None i = None"

definition rev_nibble :: "MbedCRC \<Rightarrow> nat \<Rightarrow> u32 \<Rightarrow> u32 \<Rightarrow> u32 option" where
  "rev_nibble c width data p_crc =
     map_option (\<lambda>e. drop_bit 4 p_crc XOR e) (table_entry width (crc_table c) (unat ((p_crc XOR data) AND 0xf)))"

definition table_byte :: "MbedCRC \<Rightarrow> u32 \<Rightarrow> nat \<Rightarrow> u8 \<Rightarrow> u32 \<Rightarrow> u32 option" where
  "table_byte c polynomial width byte p_crc =
     (if width \<le> 8 then
        let data_byte = ucast (reflect_bytes c (ucast byte) XOR p_crc) :: u8
        in table_entry width (crc_table c) (unat data_byte)
      else if width \<le> 16 \<or> polynomial \<noteq> POLY_32BIT_REV_ANSI then
        let data_byte = ucast (reflect_bytes c (ucast byte) XOR drop_bit (width - 8) p_crc) :: u8
        in map_option (\<lambda>e. e XOR push_bit 8 p_crc) (table_entry width (crc_table c) (unat data_byte))
      else
        case rev_nibble c width (ucast byte) p_crc of
          None \<Rightarrow> None
        | Some p_crc \<Rightarrow> rev_nibble c width (drop_bit 4 (ucast byte)) p_crc)"

fun table_bytes :: "MbedCRC \<Rightarrow> u32 \<Rightarrow> nat \<Rightarrow> u8 list \<Rightarrow> u32 \<Rightarrow> u32 option" where
  "table_bytes c polynomial width [] p_crc = Some p_crc"
| "table_bytes c polynomial width (byte # data) p_crc =
     (case table_byte c polynomial width byte p_crc of
        None \<Rightarrow> None
      | Some p_crc \<Rightarrow> table_bytes c polynomial width data p_crc)"

definition table_compute_partial :: "MbedCRC \<Rightarrow> u32 \<Rightarrow> nat \<Rightarrow> u8 list \<Rightarrow> u32 \<Rightarrow> u32 option" where
  "table_compute_partial c polynomial width data crc =
     map_option (\<lambda>p_crc. p_crc AND get_crc_mask width) (table_bytes c polynomial width data crc)"

section \<open>The interface\<close>

definition compute_partial_start :: "MbedCRC \<Rightarrow> u32" where
  "compute_partial_start c = crc_initial_value c"

definition compute_partial :: "MbedCRC \<Rightarrow> u32 \<Rightarrow> nat \<Rightarrow> u8 list \<Rightarrow> u32 \<Rightarrow> u32 option" where
  "compute_partial c polynomial width data crc =
     (case crc_mode c of
        TABLE \<Rightarrow> table_compute_partial c polynomial width data crc
      | BITWISE \<Rightarrow> Some (bitwise_compute_partial c polynomial width data crc))"

definition compute_partial_stop :: "MbedCRC \<Rightarrow> u32 \<Rightarrow> nat \<Rightarrow> u32 \<Rightarrow> u32" where
  "compute_partial_stop c polynomial width crc =
     (let p_crc = (if width < 8 \<and> crc_table c = None then push_bit (8 - width) crc else crc)
      in if crc_mode c = TABLE \<and> polynomial = POLY_32BIT_REV_ANSI
         then (p_crc XOR crc_final_xor c) AND get_crc_mask width
         else (reflect_remainder c width p_crc XOR crc_final_xor c) AND get_crc_mask width)"

text \<open>\<open>None\<close> is a read outside the table; all other calls return the status 0.\<close>

definition compute :: "MbedCRC \<Rightarrow> u32 \<Rightarrow> nat \<Rightarrow> u8 list \<Rightarrow> u32 option" where
  "compute c polynomial width data =
     map_option (compute_partial_stop c polynomial width)
       (compute_partial c polynomial width data (compute_partial_start c))"

end
