(* ===== verification/CrcRegister.thy ===== *)
theory CrcRegister
  imports Crc
begin

text \<open>
  The checksums as a shift register of 32 bits, with the polynomial and the register of the code at its
  upper end. The tables hold what the register makes of one byte, the bitwise algorithm moves it.
\<close>

section \<open>The register\<close>

definition crc_shift :: "u32 \<Rightarrow> u32 \<Rightarrow> u32" where
  "crc_shift P r = (if bit r 31 then push_bit 1 r XOR P else push_bit 1 r)"

definition crc_byte :: "u32 \<Rightarrow> u8 \<Rightarrow> u32 \<Rightarrow> u32" where
  "crc_byte P b r = (crc_shift P ^^ 8) (r XOR push_bit 24 (ucast b))"

definition crc_register :: "u32 \<Rightarrow> u8 list \<Rightarrow> u32 \<Rightarrow> u32" where
  "crc_register P = fold (crc_byte P)"

lemma bit_double: "bit (r * 2) k \<longleftrightarrow> 0 < k \<and> k < LENGTH('a) \<and> bit r (k - 1)" for r :: "'a::len word"
  using bit_double_iff [of r k] by (auto simp: mult.commute)

lemma bit_crc_shift: "bit (crc_shift P r) k \<longleftrightarrow> (k < 32 \<and> 0 < k \<and> bit r (k - 1)) \<noteq> (bit r 31 \<and> bit P k)"
  by (auto simp: crc_shift_def bit_simps bit_double dest: bit_imp_le_length)

lemma crc_shift_xor: "crc_shift P (a XOR b) = crc_shift P a XOR crc_shift P b"
  by (rule bit_word_eqI) (auto simp: bit_crc_shift bit_simps)

lemma crc_shift_0 [simp]: "crc_shift P 0 = 0" by (simp add: crc_shift_def)

lemma crc_shifts_xor: "(crc_shift P ^^ n) (a XOR b) = (crc_shift P ^^ n) a XOR (crc_shift P ^^ n) b"
  by (induction n) (simp_all add: crc_shift_xor)

lemma crc_shifts_0 [simp]: "(crc_shift P ^^ n) 0 = 0" by (induction n) simp_all

lemma crc_shifts_push:
  assumes "\<And>k. 32 - n \<le> k \<Longrightarrow> \<not> bit r k" "n \<le> 32"
  shows "(crc_shift P ^^ n) r = push_bit n r"
  using assms
proof (induction n)
  case (Suc n)
  have r: "\<not> bit r k" if "32 - Suc n \<le> k" for k using Suc.prems(1) that by blast
  then have shifts: "(crc_shift P ^^ n) r = push_bit n r" using Suc.prems by (intro Suc.IH) auto
  show ?case
    unfolding funpow.simps o_apply shifts
    using r [of "31 - n"] Suc.prems(2) by (simp add: crc_shift_def bit_simps push_bit_double)
qed simp

text \<open>A byte by its table: the entry of the first byte of the register, and the rest moved up.\<close>

lemma crc_byte_first:
  "crc_byte P b r = (crc_shift P ^^ 8) (push_bit 24 (ucast (ucast (drop_bit 24 r) XOR b :: u8))) XOR push_bit 8 r"
proof -
  let ?low = "take_bit 24 r"
  have "r XOR push_bit 24 (ucast b) = push_bit 24 (ucast (ucast (drop_bit 24 r) XOR b :: u8)) XOR ?low"
    by (rule bit_word_eqI) (auto simp: bit_simps dest: bit_imp_le_length)
  moreover have "(crc_shift P ^^ 8) ?low = push_bit 8 ?low" by (rule crc_shifts_push) (auto simp: bit_simps)
  moreover have "push_bit 8 ?low = push_bit 8 r" by (rule bit_word_eqI) (auto simp: bit_simps)
  ultimately show ?thesis by (simp add: crc_byte_def crc_shifts_xor)
qed

text \<open>A table from its first half: an even entry is one more step of the entry of half its index.\<close>

fun pairs_ok :: "u32 \<Rightarrow> u32 list \<Rightarrow> u32 list \<Rightarrow> bool" where
  "pairs_ok P (a # as) (e # e' # rest) = (e = crc_shift P a \<and> e' = e XOR P \<and> pairs_ok P as rest)"
| "pairs_ok P as [] = True"
| "pairs_ok P _ _ = False"

lemma pairs_ok_nth:
  assumes "pairs_ok P as bs" "2 * i < length bs"
  shows "bs ! (2 * i) = crc_shift P (as ! i)" "bs ! (2 * i + 1) = bs ! (2 * i) XOR P" "2 * i + 1 < length bs"
proof -
  have "bs ! (2 * i) = crc_shift P (as ! i) \<and> bs ! (2 * i + 1) = bs ! (2 * i) XOR P \<and> 2 * i + 1 < length bs"
    using assms
  proof (induction P as bs arbitrary: i rule: pairs_ok.induct)
    case (1 P a as e e' rest)
    then show ?case by (cases i) auto
  qed simp_all
  then show "bs ! (2 * i) = crc_shift P (as ! i)" "bs ! (2 * i + 1) = bs ! (2 * i) XOR P" "2 * i + 1 < length bs" by blast+
qed

definition table_ok :: "u32 \<Rightarrow> u32 list \<Rightarrow> bool" where
  "table_ok P t \<longleftrightarrow> length t = 256 \<and> t ! 0 = 0 \<and> pairs_ok P t t"

lemma table_ok_nth:
  assumes "table_ok P t" "i < 256"
  shows "t ! i = (crc_shift P ^^ 8) (push_bit 24 (of_nat i))"
  using assms(2)
proof (induction i rule: less_induct)
  case (less i)
  have t: "length t = 256" "t ! 0 = 0" "pairs_ok P t t" using assms(1) by (simp_all add: table_ok_def)
  have "(crc_shift P ^^ 7) (push_bit 24 1) = push_bit 7 (push_bit 24 1)"
    by (rule crc_shifts_push) (auto simp: bit_simps simp del: push_bit_of_1)
  moreover have "crc_shift P (push_bit 7 (push_bit 24 1)) = P"
    by (rule bit_word_eqI) (auto simp: bit_crc_shift bit_simps simp del: push_bit_of_1)
  moreover have "(crc_shift P ^^ 8) x = crc_shift P ((crc_shift P ^^ 7) x)" for x by (simp add: eval_nat_numeral)
  ultimately have one: "(crc_shift P ^^ 8) (push_bit 24 1) = P" by simp
  show ?case
  proof (cases "i = 0")
    case False
    define j where "j = i div 2"
    have j: "j < i" "j < 128" "2 * j < length t" using False less.prems t(1) by (auto simp: j_def)
    have small: "unat (of_nat j :: u32) = j" using j(2) by (intro unat_of_nat_small) simp
    have "bit (of_nat j :: u32) 7 \<longleftrightarrow> bit (unat (of_nat j :: u32)) 7" by (simp only: bit_unsigned_iff) simp
    then have "\<not> bit (of_nat j :: u32) 7" using j(2) unfolding small by (simp add: bit_iff_odd)
    then have "crc_shift P (push_bit 24 (of_nat j)) = push_bit 1 (push_bit 24 (of_nat j))"
      by (simp add: crc_shift_def bit_simps)
    then have even: "push_bit 24 (of_nat (2 * j)) = crc_shift P (push_bit 24 (of_nat j))"
      by (simp add: push_bit_eq_mult)
    have "t ! (2 * j) = crc_shift P (t ! j)" "t ! (2 * j + 1) = t ! (2 * j) XOR P" using pairs_ok_nth [OF t(3) j(3)] by simp_all
    moreover have "t ! j = (crc_shift P ^^ 8) (push_bit 24 (of_nat j))" using less.IH [OF j(1)] j(2) by simp
    ultimately have entry: "t ! (2 * j) = (crc_shift P ^^ 8) (push_bit 24 (of_nat (2 * j)))" "t ! (2 * j + 1) = t ! (2 * j) XOR P"
      unfolding even by (simp_all add: funpow_swap1)
    have "(of_nat (2 * j + 1) :: u32) = of_nat (2 * j) XOR 1" by (simp add: xor_one_eq)
    then have odd: "push_bit 24 (of_nat (2 * j + 1)) = push_bit 24 (of_nat (2 * j)) XOR (push_bit 24 1 :: u32)"
      by (simp only: push_bit_xor)
    show ?thesis
    proof (cases "even i")
      case True
      then show ?thesis using entry(1) by (simp add: j_def)
    next
      case False
      then have "i = 2 * j + 1" by (simp add: j_def)
      then show ?thesis using entry odd one by (simp only: crc_shifts_xor)
    qed
  qed (simp add: t)
qed

section \<open>The tables\<close>

lemma Table_7Bit_SD_ok: "table_ok 0x12000000 (map (\<lambda>e. push_bit 24 (ucast e)) Table_CRC_7Bit_SD)"
  by (simp add: table_ok_def Table_CRC_7Bit_SD_def) (simp add: crc_shift_def)

lemma Table_8bit_CCITT_ok: "table_ok 0x07000000 (map (\<lambda>e. push_bit 24 (ucast e)) Table_CRC_8bit_CCITT)"
  by (simp add: table_ok_def Table_CRC_8bit_CCITT_def) (simp add: crc_shift_def)

lemma Table_16bit_CCITT_ok: "table_ok 0x10210000 (map (\<lambda>e. push_bit 16 (ucast e)) Table_CRC_16bit_CCITT)"
  by (simp add: table_ok_def Table_CRC_16bit_CCITT_def) (simp add: crc_shift_def)

lemma Table_32bit_ANSI_ok: "table_ok 0x04C11DB7 Table_CRC_32bit_ANSI"
  by (simp add: table_ok_def Table_CRC_32bit_ANSI_def) (simp add: crc_shift_def)

text \<open>The reflected algorithm shifts the other way.\<close>

definition crc_rshift :: "u32 \<Rightarrow> u32 \<Rightarrow> u32" where
  "crc_rshift Q r = (if bit r 0 then drop_bit 1 r XOR Q else drop_bit 1 r)"

lemma bit_crc_rshift: "bit (crc_rshift Q r) k \<longleftrightarrow> bit r (k + 1) \<noteq> (bit r 0 \<and> bit Q k)"
  by (auto simp: crc_rshift_def bit_simps simp flip: drop_bit_Suc)

lemma crc_rshift_xor: "crc_rshift Q (a XOR b) = crc_rshift Q a XOR crc_rshift Q b"
  by (rule bit_word_eqI) (auto simp: bit_crc_rshift bit_simps)

lemma crc_rshifts_xor: "(crc_rshift Q ^^ n) (a XOR b) = (crc_rshift Q ^^ n) a XOR (crc_rshift Q ^^ n) b"
  by (induction n) (simp_all add: crc_rshift_xor)

lemma crc_rshifts_drop:
  assumes "\<And>k. k < n \<Longrightarrow> \<not> bit r k"
  shows "(crc_rshift Q ^^ n) r = drop_bit n r"
  using assms
proof (induction n)
  case (Suc n)
  then have shifts: "(crc_rshift Q ^^ n) r = drop_bit n r" by simp
  show ?case
    unfolding funpow.simps o_apply shifts by (rule bit_word_eqI) (simp add: bit_crc_rshift bit_drop_bit_eq Suc.prems)
qed simp

lemma word_reverse_crc_shift: "word_reverse (crc_shift P r) = crc_rshift (word_reverse P) (word_reverse r)"
  by (rule bit_word_eqI) (auto simp: bit_crc_shift bit_crc_rshift bit_word_reverse_iff Suc_diff_Suc)

lemma word_reverse_crc_shifts: "word_reverse ((crc_shift P ^^ n) r) = (crc_rshift (word_reverse P) ^^ n) (word_reverse r)"
  by (induction n) (simp_all add: word_reverse_crc_shift)

lemma word_reverse_xor: "word_reverse (a XOR b) = word_reverse a XOR word_reverse b"
  by (rule bit_word_eqI) (auto simp: bit_word_reverse_iff bit_simps)

lemma word_reverse_byte: "word_reverse (push_bit 24 (ucast b) :: u32) = ucast (word_reverse b)" for b :: u8
  by (rule bit_word_eqI) (auto simp: bit_word_reverse_iff bit_simps)

lemma word_reverse_POLY_32BIT_ANSI: "word_reverse POLY_32BIT_ANSI = POLY_32BIT_REV_ANSI"
  by (simp add: word_reverse_def POLY_32BIT_ANSI_def POLY_32BIT_REV_ANSI_def upt_rec)

lemma Table_32bit_Rev_ANSI_nth:
  assumes "i < 16"
  shows "Table_CRC_32bit_Rev_ANSI ! i = (crc_rshift POLY_32BIT_REV_ANSI ^^ 4) (of_nat i)"
proof -
  have four: "(f ^^ 4) x = f (f (f (f x)))" for f :: "u32 \<Rightarrow> u32" and x by (simp add: eval_nat_numeral)
  have "list_all (\<lambda>i. Table_CRC_32bit_Rev_ANSI ! i = (crc_rshift POLY_32BIT_REV_ANSI ^^ 4) (of_nat i)) [0..<16]"
    unfolding four by (simp add: upt_rec) (simp add: Table_CRC_32bit_Rev_ANSI_def POLY_32BIT_REV_ANSI_def crc_rshift_def)
  then show ?thesis using assms by (simp add: list_all_iff)
qed

section \<open>The bitwise algorithm\<close>

text \<open>The byte that enters the register.\<close>

definition reflected :: "MbedCRC \<Rightarrow> u8 \<Rightarrow> u8" where
  "reflected c b = (if crc_reflect_data c then word_reverse b else b)"

lemma bit_reflect_loop:
  assumes "n \<le> 32"
  shows "bit (reflect_loop n d r) k \<longleftrightarrow> bit r k \<or> (k < n \<and> bit d (n - Suc k))"
  using assms
proof (induction n arbitrary: d r)
  case (Suc n)
  have low: "d AND 1 \<noteq> 0 \<longleftrightarrow> bit d 0" using and_exp_test [of d 0] by simp
  have "bit (reflect_loop (Suc n) d r) k \<longleftrightarrow> bit r k \<or> (bit d 0 \<and> k = n) \<or> (k < n \<and> bit d (n - k))"
    using Suc low by (auto simp: bit_simps Suc_diff_Suc simp flip: drop_bit_Suc)
  then show ?case by (auto simp: less_Suc_eq Suc_diff_le)
qed simp

lemma reflect_bytes_eq: "reflect_bytes c (ucast b) = ucast (reflected c b)"
proof (rule bit_word_eqI)
  fix k
  show "bit (reflect_bytes c (ucast b)) k = bit (ucast (reflected c b) :: u32) k"
    by (cases "k < 8") (auto simp: reflect_bytes_def reflected_def bit_reflect_loop bit_unsigned_iff bit_word_reverse_iff
      dest: bit_imp_le_length)
qed

text \<open>The registers of the code are moved to the upper end of the word.\<close>

lemma get_top_bit_test: "x AND get_top_bit width \<noteq> 0 \<longleftrightarrow> bit x (if width < 8 then 7 else width - 1)"
  by (simp only: get_top_bit_def push_bit_of_1 and_exp_test split: if_split) simp

lemma wide_bit_shift:
  assumes "8 \<le> width" "width \<le> 32"
  shows "push_bit (32 - width) (wide_bit polynomial width x) =
     crc_shift (push_bit (32 - width) polynomial) (push_bit (32 - width) x)"
proof -
  have "bit (push_bit (32 - width) x) 31 \<longleftrightarrow> bit x (width - 1)"
    using assms diff_le_mono2 [OF assms(1), of 32] by (simp add: bit_push_bit_iff)
  then show ?thesis
    using assms unfolding wide_bit_def crc_shift_def get_top_bit_test
    by (auto simp: push_bit_xor push_bit_push_bit ac_simps simp del: push_bit_of_1)
qed

lemma bitwise_byte_wide:
  assumes "8 \<le> width" "width \<le> 32"
  shows "push_bit (32 - width) (bitwise_byte c polynomial width b x) =
     crc_byte (push_bit (32 - width) polynomial) (reflected c b) (push_bit (32 - width) x)"
proof -
  have "push_bit (32 - width) ((wide_bit polynomial width ^^ n) y) =
      (crc_shift (push_bit (32 - width) polynomial) ^^ n) (push_bit (32 - width) y)" for n y
    by (induction n) (simp_all add: wide_bit_shift assms)
  then show ?thesis
    using assms by (simp add: bitwise_byte_def crc_byte_def reflect_bytes_eq push_bit_xor push_bit_push_bit)
qed

lemma narrow_bit_shift:
  assumes "width < 8" "narrow_bit polynomial width (d, x) = (d', x')"
  shows "push_bit 25 x' XOR push_bit 24 (ucast d') = crc_shift (push_bit 25 polynomial) (push_bit 25 x XOR push_bit 24 (ucast d))"
    and "d' = push_bit 1 d"
proof -
  have x': "x' = (if bit (ucast d XOR push_bit 1 x) 7 then push_bit 1 x XOR polynomial else push_bit 1 x)" and d': "d' = push_bit 1 d"
    using assms unfolding narrow_bit_def get_top_bit_test by (simp_all only: prod.case Let_def prod.inject if_True)
  have top: "bit (ucast d XOR push_bit 1 x) 7 \<longleftrightarrow> bit (push_bit 25 x XOR push_bit 24 (ucast d)) 31"
    by (auto simp: bit_simps bit_double)
  have up: "push_bit 1 (push_bit 25 x XOR push_bit 24 (ucast d)) = push_bit 25 (push_bit 1 x) XOR push_bit 24 (ucast (push_bit 1 d))"
    by (rule bit_word_eqI) (auto simp: bit_simps bit_double)
  show "push_bit 25 x' XOR push_bit 24 (ucast d') = crc_shift (push_bit 25 polynomial) (push_bit 25 x XOR push_bit 24 (ucast d))"
    unfolding x' d' top crc_shift_def up by (simp add: push_bit_xor xor.assoc xor.left_commute xor.commute del: push_bit_of_1)
  show "d' = push_bit 1 d" by (rule d')
qed

lemma bitwise_byte_narrow:
  assumes "width < 8"
  shows "push_bit 25 (bitwise_byte c polynomial width b x) = crc_byte (push_bit 25 polynomial) (reflected c b) (push_bit 25 x)"
proof -
  have run: "push_bit 25 (snd ((narrow_bit polynomial width ^^ n) (d, y))) XOR push_bit 24 (ucast (push_bit n d)) =
      (crc_shift (push_bit 25 polynomial) ^^ n) (push_bit 25 y XOR push_bit 24 (ucast d)) \<and>
      fst ((narrow_bit polynomial width ^^ n) (d, y)) = push_bit n d" for n d y
  proof (induction n)
    case (Suc n)
    obtain d' x' where at: "(narrow_bit polynomial width ^^ n) (d, y) = (d', x')" by fastforce
    obtain d'' x'' where step: "narrow_bit polynomial width (d', x') = (d'', x'')" by fastforce
    have d': "d' = push_bit n d" and x': "push_bit 25 x' XOR push_bit 24 (ucast d') =
        (crc_shift (push_bit 25 polynomial) ^^ n) (push_bit 25 y XOR push_bit 24 (ucast d))" using Suc at by simp_all
    have d'': "d'' = push_bit (Suc n) d"
      using narrow_bit_shift(2) [OF assms step] unfolding d' by (simp only: push_bit_push_bit) simp
    show ?case
      using narrow_bit_shift(1) [OF assms step] unfolding funpow.simps o_apply at step x' d'' by simp
  qed simp
  have zero: "push_bit 8 d = 0" for d :: u8 by (rule bit_word_eqI) (simp add: bit_simps)
  have same: "ucast (ucast d :: u32) = d" for d :: u8 by (rule bit_word_eqI) (simp add: bit_simps)
  show ?thesis
    using run [of 8 "reflected c b" x] assms
    by (simp add: bitwise_byte_def crc_byte_def reflect_bytes_eq same zero)
qed

lemma bitwise_register:
  assumes "width \<le> 32"
  defines "a \<equiv> if width < 8 then 25 else 32 - width"
  shows "push_bit a (fold (bitwise_byte c polynomial width) data x) =
     crc_register (push_bit a polynomial) (map (reflected c) data) (push_bit a x)"
proof -
  have "push_bit a (bitwise_byte c polynomial width b y) = crc_byte (push_bit a polynomial) (reflected c b) (push_bit a y)" for b y
    using assms bitwise_byte_wide bitwise_byte_narrow by (simp add: a_def)
  then show ?thesis by (induction data arbitrary: x) (simp_all add: crc_register_def)
qed

end
