(* ===== verification/CrcTheorems.thy ===== *)
theory CrcTheorems
  imports CrcRegister
begin

text \<open>
  The checksums of \<open>MbedCRC\<close>: the tables agree with the division bit by bit, the reversed algorithm
  with the other, parts with the whole; bursts are detected; and one table is too short.
\<close>

section \<open>By tables\<close>

text \<open>The polynomials with a complete table for this algorithm, and how far their registers are moved up.\<close>

definition crc_known :: "u32 \<Rightarrow> nat \<Rightarrow> bool" where
  "crc_known polynomial width \<longleftrightarrow>
     (polynomial, width) \<in> {(POLY_7BIT_SD, 7), (POLY_8BIT_CCITT, 8), (POLY_16BIT_CCITT, 16), (POLY_32BIT_ANSI, 32)}"

definition crc_up :: "nat \<Rightarrow> nat" where
  "crc_up width = (if width \<le> 8 then 24 else 32 - width)"

lemma crc_known_cases [consumes 1, case_names sd ccitt8 ccitt16 ansi]:
  assumes "crc_known polynomial width"
  obtains "polynomial = POLY_7BIT_SD" "width = 7" | "polynomial = POLY_8BIT_CCITT" "width = 8"
    | "polynomial = POLY_16BIT_CCITT" "width = 16" | "polynomial = POLY_32BIT_ANSI" "width = 32"
  using assms by (auto simp: crc_known_def)

lemmas poly_defs = POLY_7BIT_SD_def POLY_8BIT_CCITT_def POLY_16BIT_CCITT_def POLY_16BIT_IBM_def POLY_32BIT_ANSI_def POLY_32BIT_REV_ANSI_def

lemma get_crc_mask_eq:
  assumes "width \<le> 32"
  shows "get_crc_mask width = mask (32 - crc_up width)"
proof -
  have "ucast (mask n :: u64) = (mask n :: u32)" if "n \<le> 32" for n
    using that by (intro bit_word_eqI) (auto simp: bit_simps)
  then show ?thesis
    using assms by (auto simp: get_crc_mask_def crc_up_def mask_eq_exp_minus_1 le_less)
qed

lemma mask_up:
  assumes "width \<le> 32"
  shows "x AND get_crc_mask width = drop_bit (crc_up width) (push_bit (crc_up width) x)"
  unfolding get_crc_mask_eq [OF assms] by (rule bit_word_eqI) (auto simp: bit_simps crc_up_def)

lemma push_mask:
  assumes "width \<le> 32"
  shows "push_bit (crc_up width) (x AND get_crc_mask width) = push_bit (crc_up width) x"
  unfolding get_crc_mask_eq [OF assms] by (rule bit_word_eqI) (auto simp: bit_simps crc_up_def)

lemma table_entry_shift:
  assumes "crc_known polynomial width" "i < 256"
  shows "\<exists>e. table_entry width (crc_table (new_MbedCRC polynomial init final rd rr)) i = Some e \<and>
     push_bit (crc_up width) e = (crc_shift (push_bit (32 - width) polynomial) ^^ 8) (push_bit 24 (of_nat i))"
  using assms(1)
proof (cases rule: crc_known_cases)
  case sd
  then show ?thesis using table_ok_nth [OF Table_7Bit_SD_ok assms(2)] Table_7Bit_SD_ok assms(2)
    by (simp add: new_MbedCRC_def mbed_crc_ctor_def poly_defs crc_up_def table_ok_def)
next
  case ccitt8
  then show ?thesis using table_ok_nth [OF Table_8bit_CCITT_ok assms(2)] Table_8bit_CCITT_ok assms(2)
    by (simp add: new_MbedCRC_def mbed_crc_ctor_def poly_defs crc_up_def table_ok_def)
next
  case ccitt16
  then show ?thesis using table_ok_nth [OF Table_16bit_CCITT_ok assms(2)] Table_16bit_CCITT_ok assms(2)
    by (simp add: new_MbedCRC_def mbed_crc_ctor_def poly_defs crc_up_def table_ok_def)
next
  case ansi
  then show ?thesis using table_ok_nth [OF Table_32bit_ANSI_ok assms(2)] Table_32bit_ANSI_ok assms(2)
    by (simp add: new_MbedCRC_def mbed_crc_ctor_def poly_defs crc_up_def table_ok_def)
qed

lemma first_byte:
  assumes "8 \<le> width" "width \<le> 32"
  shows "ucast (drop_bit 24 (push_bit (32 - width) (x :: u32))) = (ucast (drop_bit (width - 8) x) :: u8)"
  using assms by (intro bit_word_eqI) (auto simp: bit_simps ac_simps)

lemma table_byte_register:
  fixes init final :: u32 and rd rr :: bool
  assumes "crc_known polynomial width"
  defines "c \<equiv> new_MbedCRC polynomial init final rd rr"
  shows "\<exists>x'. table_byte c polynomial width b x = Some x' \<and>
     push_bit (crc_up width) x' = crc_byte (push_bit (32 - width) polynomial) (reflected c b) (push_bit (crc_up width) x)"
proof (cases "width \<le> 8")
  case True
  let ?d = "ucast (ucast (reflected c b) XOR x) :: u8"
  have d: "ucast x XOR reflected c b = ?d" by (rule bit_word_eqI) (auto simp: bit_simps)
  obtain e where e: "table_entry width (crc_table c) (unat ?d) = Some e"
    "push_bit (crc_up width) e = (crc_shift (push_bit (32 - width) polynomial) ^^ 8) (push_bit 24 (of_nat (unat ?d)))"
    using table_entry_shift [OF assms(1) unat_u8 [of ?d], of init final rd rr] unfolding c_def by blast
  have up: "crc_up width = 24" using True by (simp add: crc_up_def)
  have "ucast (drop_bit 24 (push_bit 24 x)) = (ucast x :: u8)" "push_bit 8 (push_bit 24 x) = 0"
    by (rule bit_word_eqI; auto simp: bit_simps)+
  then have "crc_byte P (reflected c b) (push_bit 24 x) = (crc_shift P ^^ 8) (push_bit 24 (ucast ?d))" for P
    unfolding crc_byte_first by (simp only: d) simp
  then show ?thesis
    using e True by (simp add: table_byte_def Let_def reflect_bytes_eq up)
next
  case False
  let ?d = "ucast (ucast (reflected c b) XOR drop_bit (width - 8) x) :: u8"
  have d: "ucast (drop_bit (width - 8) x) XOR reflected c b = ?d" by (rule bit_word_eqI) (auto simp: bit_simps)
  obtain e where e: "table_entry width (crc_table c) (unat ?d) = Some e"
    "push_bit (crc_up width) e = (crc_shift (push_bit (32 - width) polynomial) ^^ 8) (push_bit 24 (of_nat (unat ?d)))"
    using table_entry_shift [OF assms(1) unat_u8 [of ?d], of init final rd rr] unfolding c_def by blast
  have width: "8 \<le> width" "width \<le> 32" "polynomial \<noteq> POLY_32BIT_REV_ANSI" and up: "crc_up width = 32 - width"
    using False assms(1) by (auto simp: crc_known_def poly_defs crc_up_def)
  have "crc_byte P (reflected c b) (push_bit (32 - width) x) =
      (crc_shift P ^^ 8) (push_bit 24 (ucast ?d)) XOR push_bit 8 (push_bit (32 - width) x)" for P
    unfolding crc_byte_first first_byte [OF width(1,2)] d ..
  then show ?thesis
    using e False width(3)
    by (simp add: table_byte_def Let_def reflect_bytes_eq up push_bit_xor push_bit_push_bit add.commute)
qed

lemma table_bytes_register:
  fixes init final :: u32 and rd rr :: bool
  assumes "crc_known polynomial width"
  defines "c \<equiv> new_MbedCRC polynomial init final rd rr"
  shows "\<exists>x'. table_bytes c polynomial width data x = Some x' \<and>
     push_bit (crc_up width) x' =
       crc_register (push_bit (32 - width) polynomial) (map (reflected c) data) (push_bit (crc_up width) x)"
proof (induction data arbitrary: x)
  case (Cons b data)
  obtain y where y: "table_byte c polynomial width b x = Some y"
    "push_bit (crc_up width) y = crc_byte (push_bit (32 - width) polynomial) (reflected c b) (push_bit (crc_up width) x)"
    using table_byte_register [OF assms(1), of init final rd rr b x] unfolding c_def by blast
  then show ?case using Cons.IH [of y] by (simp add: crc_register_def)
qed (simp add: crc_register_def)

lemma crc_known_width: "crc_known polynomial width \<Longrightarrow> 0 < width \<and> width \<le> 32" by (auto simp: crc_known_def)

lemma compute_partial_register:
  fixes init final :: u32 and rd rr :: bool
  assumes "crc_known polynomial width"
  defines "c \<equiv> new_MbedCRC polynomial init final rd rr"
  shows "compute_partial c polynomial width data x = Some (drop_bit (crc_up width)
     (crc_register (push_bit (32 - width) polynomial) (map (reflected c) data) (push_bit (crc_up width) x)))"
proof -
  have "crc_mode c = TABLE"
    using assms by (auto simp: crc_known_def new_MbedCRC_def mbed_crc_ctor_def poly_defs)
  moreover obtain x' where "table_bytes c polynomial width data x = Some x'" "push_bit (crc_up width) x' =
       crc_register (push_bit (32 - width) polynomial) (map (reflected c) data) (push_bit (crc_up width) x)"
    using table_bytes_register [OF assms(1), of init final rd rr data x] unfolding c_def by blast
  ultimately show ?thesis
    using crc_known_width [OF assms(1)] by (simp add: compute_partial_def table_compute_partial_def mask_up)
qed

section \<open>Unused bits\<close>

lemma crc_register_append: "crc_register P (xs @ ys) r = crc_register P ys (crc_register P xs r)"
  by (simp add: crc_register_def)

lemma crc_register_Cons: "crc_register P (b # bs) r = crc_register P bs (crc_byte P b r)"
  by (simp add: crc_register_def)

text \<open>The unused bits below the register stay clear.\<close>

definition clear_below :: "nat \<Rightarrow> u32 \<Rightarrow> bool" where
  "clear_below n r \<longleftrightarrow> (\<forall>k < n. \<not> bit r k)"

lemma clear_below_push: "m \<le> n \<Longrightarrow> clear_below m (push_bit n r)"
  by (auto simp: clear_below_def bit_simps)

lemma clear_below_xor: "clear_below n a \<Longrightarrow> clear_below n b \<Longrightarrow> clear_below n (a XOR b)"
  by (auto simp: clear_below_def bit_simps)

lemma clear_below_mono: "clear_below n r \<Longrightarrow> m \<le> n \<Longrightarrow> clear_below m r"
  by (auto simp: clear_below_def)

lemma clear_below_shift: "clear_below n P \<Longrightarrow> clear_below n r \<Longrightarrow> clear_below n (crc_shift P r)"
  by (auto simp: clear_below_def bit_crc_shift)

lemma clear_below_shifts: "clear_below n P \<Longrightarrow> clear_below n r \<Longrightarrow> clear_below n ((crc_shift P ^^ m) r)"
  by (induction m) (simp_all add: clear_below_shift)

lemma clear_below_register:
  assumes "clear_below n P" "clear_below n r" "n \<le> 24"
  shows "clear_below n (crc_register P bs r)"
  using assms(2)
proof (induction bs arbitrary: r)
  case (Cons b bs)
  have "clear_below n (crc_byte P b r)"
    unfolding crc_byte_def using assms Cons.prems by (intro clear_below_shifts clear_below_xor clear_below_push) simp_all
  then show ?case using Cons.IH by (simp add: crc_register_Cons)
qed (simp add: crc_register_def)

lemma push_drop: "clear_below n r \<Longrightarrow> push_bit n (drop_bit n r) = r"
  by (rule bit_word_eqI) (metis bit_drop_bit_eq bit_push_bit_iff clear_below_def comp_apply le_add_diff_inverse not_le possible_bit_word)

lemma crc_up_le: "crc_up width \<le> 24" "0 < width \<Longrightarrow> crc_up width \<le> 32 - width"
  by (auto simp: crc_up_def)

section \<open>The reflected algorithm\<close>

lemma rev_nibble_shift:
  assumes "crc_table c = Some (Table32 Table_CRC_32bit_Rev_ANSI)"
  shows "rev_nibble c 32 d x = Some ((crc_rshift POLY_32BIT_REV_ANSI ^^ 4) (x XOR (d AND 0xf)))"
proof -
  let ?i = "(x XOR d) AND 0xf"
  have nibble: "y AND 0xf = take_bit 4 y" for y :: u32 by (simp add: take_bit_eq_mask mask_eq_exp_minus_1)
  then have "?i = take_bit 4 (x XOR d)" by blast
  then have i: "unat ?i < 16" using take_bit_nat_less_exp [of 4 "unat (x XOR d)"] by (simp del: take_bit_xor add: unsigned_take_bit_eq)
  have "x XOR (d AND 0xf) = ?i XOR push_bit 4 (drop_bit 4 x)"
    unfolding nibble by (rule bit_word_eqI) (auto simp: bit_simps)
  moreover have "(crc_rshift POLY_32BIT_REV_ANSI ^^ 4) (push_bit 4 (drop_bit 4 x)) = drop_bit 4 (push_bit 4 (drop_bit 4 x))"
    by (rule crc_rshifts_drop) (simp add: bit_simps)
  moreover have "drop_bit 4 (push_bit 4 (drop_bit 4 x)) = drop_bit 4 x" by (rule bit_word_eqI) (auto simp: bit_simps dest: bit_imp_le_length)
  moreover have "length Table_CRC_32bit_Rev_ANSI = 16" by (simp add: Table_CRC_32bit_Rev_ANSI_def)
  ultimately show ?thesis
    using i Table_32bit_Rev_ANSI_nth [OF i] assms by (simp add: rev_nibble_def crc_rshifts_xor xor.commute)
qed

lemma table_byte_rev:
  assumes "crc_table c = Some (Table32 Table_CRC_32bit_Rev_ANSI)"
  shows "table_byte c POLY_32BIT_REV_ANSI 32 b x =
     Some (word_reverse (crc_byte POLY_32BIT_ANSI (word_reverse b) (word_reverse x)))"
proof -
  let ?f = "crc_rshift POLY_32BIT_REV_ANSI" and ?d = "ucast b :: u32"
  have nibbles: "?d AND 0xf = take_bit 4 ?d" "drop_bit 4 ?d AND 0xf = take_bit 4 (drop_bit 4 ?d)"
    by (simp_all add: take_bit_eq_mask mask_eq_exp_minus_1)
  have high: "?d = take_bit 4 ?d XOR push_bit 4 (take_bit 4 (drop_bit 4 ?d))"
    by (rule bit_word_eqI) (auto simp: bit_simps dest: bit_imp_le_length)
  have "(?f ^^ 4) (push_bit 4 (take_bit 4 (drop_bit 4 ?d))) = drop_bit 4 (push_bit 4 (take_bit 4 (drop_bit 4 ?d)))"
    by (rule crc_rshifts_drop) (simp add: bit_simps)
  also have "\<dots> = take_bit 4 (drop_bit 4 ?d)" by (rule bit_word_eqI) (auto simp: bit_simps)
  finally have "(?f ^^ 4) (x XOR ?d) = (?f ^^ 4) (x XOR take_bit 4 ?d) XOR take_bit 4 (drop_bit 4 ?d)"
    by (subst high) (simp only: crc_rshifts_xor xor.assoc)
  moreover have "(?f ^^ 8) y = (?f ^^ 4) ((?f ^^ 4) y)" for y by (simp flip: funpow_add comp_apply [of "?f ^^ 4"])
  ultimately have "(?f ^^ 4) ((?f ^^ 4) (x XOR take_bit 4 ?d) XOR take_bit 4 (drop_bit 4 ?d)) = (?f ^^ 8) (x XOR ?d)" by simp
  also have "\<dots> = word_reverse (crc_byte POLY_32BIT_ANSI (word_reverse b) (word_reverse x))"
    by (simp add: crc_byte_def word_reverse_crc_shifts word_reverse_POLY_32BIT_ANSI word_reverse_xor word_reverse_byte)
  finally show ?thesis
    by (simp add: table_byte_def rev_nibble_shift [OF assms] nibbles del: funpow.simps)
qed

lemma table_bytes_rev:
  assumes "crc_table c = Some (Table32 Table_CRC_32bit_Rev_ANSI)"
  shows "table_bytes c POLY_32BIT_REV_ANSI 32 data x =
     Some (word_reverse (crc_register POLY_32BIT_ANSI (map word_reverse data) (word_reverse x)))"
  by (induction data arbitrary: x) (simp_all add: table_byte_rev [OF assms] crc_register_def)

section \<open>The algorithms agree\<close>

lemma register_bits: "width \<le> 32 \<Longrightarrow> 32 - crc_up width = (if width < 8 then 8 else width)"
  by (auto simp: crc_up_def)

lemma bit_stop:
  assumes "width \<le> 32" "crc_mode c = BITWISE \<or> polynomial \<noteq> POLY_32BIT_REV_ANSI"
  defines "n \<equiv> if width < 8 then 8 else width"
  shows "bit (compute_partial_stop c polynomial width x) k \<longleftrightarrow> k < n \<and>
     (bit (if width < 8 \<and> crc_table c = None then push_bit (8 - width) x else x)
        (if crc_reflect_remainder c then n - Suc k else k) \<noteq> bit (crc_final_xor c) k)"
proof -
  have "n \<le> 32" using assms(1) by (simp add: n_def)
  then show ?thesis
    using assms(2) unfolding compute_partial_stop_def Let_def get_crc_mask_eq [OF assms(1)] register_bits [OF assms(1)]
    by (auto simp: reflect_remainder_def bit_reflect_loop bit_simps simp flip: n_def)
qed

lemma stop_cong:
  assumes "width \<le> 32" "crc_mode c = BITWISE \<or> polynomial \<noteq> POLY_32BIT_REV_ANSI"
    "crc_mode c' = BITWISE \<or> polynomial \<noteq> POLY_32BIT_REV_ANSI"
    and "crc_reflect_remainder c = crc_reflect_remainder c'" "crc_final_xor c = crc_final_xor c'"
    and bits: "\<And>k. k < (if width < 8 then 8 else width) \<Longrightarrow>
      bit (if width < 8 \<and> crc_table c = None then push_bit (8 - width) x else x) k =
      bit (if width < 8 \<and> crc_table c' = None then push_bit (8 - width) y else y) k"
  shows "compute_partial_stop c polynomial width x = compute_partial_stop c' polynomial width y"
proof (rule bit_word_eqI)
  fix k
  let ?n = "if width < 8 then 8 else width"
  have "(if crc_reflect_remainder c then ?n - Suc k else k) < ?n" if "k < ?n" using that by (auto split: if_splits)
  then show "bit (compute_partial_stop c polynomial width x) k = bit (compute_partial_stop c' polynomial width y) k"
    unfolding bit_stop [OF assms(1,2)] bit_stop [OF assms(1,3)] assms(4) assms(5) using bits by blast
qed

lemma known_object:
  assumes "crc_known polynomial width" "c = new_MbedCRC polynomial init final rd rr"
  shows "crc_mode c = TABLE" "crc_table c \<noteq> None" "crc_reflect_remainder c = rr" "crc_final_xor c = final"
    "crc_reflect_data c = rd" "crc_initial_value c = init" "polynomial \<noteq> POLY_32BIT_REV_ANSI"
  using assms by (auto simp: crc_known_def new_MbedCRC_def mbed_crc_ctor_def Let_def poly_defs)

text \<open>
  C32: The tables of the checksum agree with the division bit by bit. For the SD, CCITT and ANSI
  polynomials of mbed OS, any initial and final value, with or without reflection, and any data,
  \<open>MbedCRC::compute\<close> by its table never reads outside it and gives the checksum that the bitwise
  algorithm gives. (For 7 bits the two algorithms keep the register in other places, so the initial
  value is 0, as in the default object.)
\<close>

theorem crc_tables_are_bitwise:
  fixes init final :: u32 and rd rr :: bool
  assumes "crc_known polynomial width" "width = 7 \<longrightarrow> init = 0"
  defines "c \<equiv> new_MbedCRC polynomial init final rd rr"
  shows "compute c polynomial width data \<noteq> None \<and>
     compute c polynomial width data = compute (c\<lparr>crc_table := None, crc_mode := BITWISE\<rparr>) polynomial width data"
proof -
  let ?b = "c\<lparr>crc_table := None, crc_mode := BITWISE\<rparr>" and ?up = "crc_up width"
  let ?R = "crc_register (push_bit (32 - width) polynomial) (map (reflected c) data)"
  let ?x = "fold (bitwise_byte ?b polynomial width) data init"
  have w: "0 < width" "width \<le> 32" and known: "crc_mode c = TABLE" "crc_table c \<noteq> None" "crc_reflect_remainder c = rr"
    "crc_final_xor c = final" "crc_initial_value c = init" "polynomial \<noteq> POLY_32BIT_REV_ANSI"
    using crc_known_width [OF assms(1)] known_object [OF assms(1) meta_eq_to_obj_eq [OF c_def]] by auto
  have table: "compute c polynomial width data =
      Some (compute_partial_stop c polynomial width (drop_bit ?up (?R (push_bit ?up init))))"
    using compute_partial_register [OF assms(1), of init final rd rr data init, folded c_def] known(5)
    by (simp add: compute_def compute_partial_start_def)
  have bitwise: "compute ?b polynomial width data = Some (compute_partial_stop ?b polynomial width (?x AND get_crc_mask width))"
    using known(5) by (simp add: compute_def compute_partial_start_def compute_partial_def bitwise_compute_partial_def)
  have "reflected ?b = reflected c" by (simp add: reflected_def fun_eq_iff)
  then have register: "push_bit (if width < 8 then 25 else 32 - width) ?x =
      crc_register (push_bit (if width < 8 then 25 else 32 - width) polynomial) (map (reflected c) data)
        (push_bit (if width < 8 then 25 else 32 - width) init)"
    using bitwise_register [OF w(2), of ?b polynomial data init] by simp
  have "compute_partial_stop c polynomial width (drop_bit ?up (?R (push_bit ?up init))) =
      compute_partial_stop ?b polynomial width (?x AND get_crc_mask width)"
  proof (cases "width < 8")
    case True
    then have seven: "width = 7" using assms(1) by (auto simp: crc_known_def)
    then have run: "?R (push_bit ?up init) = push_bit 25 ?x" and up: "?up = 24" using register assms(2) by (simp_all add: crc_up_def)
    have mask: "get_crc_mask width = mask 8" using w by (simp add: get_crc_mask_eq up)
    have bits: "bit (drop_bit 24 (push_bit 25 y)) k = bit (push_bit 1 (y AND mask 8)) k" if "k < 8" for k and y :: u32
      using that by (auto simp: bit_simps bit_double)
    obtain t where "crc_table c = Some t" using known(2) by blast
    then show ?thesis
      unfolding run unfolding up mask by - (rule stop_cong, use known w bits [of _ ?x] in \<open>simp_all add: seven del: push_bit_of_1\<close>)
  next
    case False
    then have "?up = 32 - width" using w by (simp add: crc_up_def)
    then have "drop_bit ?up (?R (push_bit ?up init)) = ?x AND get_crc_mask width"
      using register False by (simp add: mask_up [OF w(2)])
    then show ?thesis using known False w by (intro stop_cong) simp_all
  qed
  then show ?thesis unfolding table bitwise by simp
qed

lemma crc_tables_are_bitwise_witness:
  "compute (new_MbedCRC POLY_8BIT_CCITT 0 0 False False) POLY_8BIT_CCITT 8 [0x31, 0x32] =
     compute ((new_MbedCRC POLY_8BIT_CCITT 0 0 False False)\<lparr>crc_table := None, crc_mode := BITWISE\<rparr>) POLY_8BIT_CCITT 8 [0x31, 0x32]"
  using crc_tables_are_bitwise [of POLY_8BIT_CCITT 8 0 0 False False "[0x31, 0x32]"] by (simp add: crc_known_def)

text \<open>
  C33: The two 32-bit checksums of mbed OS are the same. The default object of the reversed polynomial,
  which shifts the other way and takes half a byte at a time from a table of 16 entries, gives for
  all data the checksum of the default object of the ANSI polynomial, which reflects every byte and the
  result and has a table of 256 entries.
\<close>

theorem crc_rev_ansi_same:
  "\<exists>c d. default_MbedCRC POLY_32BIT_ANSI 32 = Some c \<and> default_MbedCRC POLY_32BIT_REV_ANSI 32 = Some d \<and>
     (\<forall>data. compute c POLY_32BIT_ANSI 32 data \<noteq> None \<and>
        compute d POLY_32BIT_REV_ANSI 32 data = compute c POLY_32BIT_ANSI 32 data)"
proof -
  define c where "c = new_MbedCRC POLY_32BIT_ANSI (NOT 0) (NOT 0) True True"
  define d where "d = new_MbedCRC POLY_32BIT_REV_ANSI (NOT 0) (NOT 0) False False"
  have known: "crc_known POLY_32BIT_ANSI 32" by (simp add: crc_known_def)
  note object = known_object [OF known c_def]
  have default: "default_MbedCRC POLY_32BIT_ANSI 32 = Some c" "default_MbedCRC POLY_32BIT_REV_ANSI 32 = Some d"
    by (simp_all add: default_MbedCRC_def c_def d_def poly_defs)
  have d: "crc_table d = Some (Table32 Table_CRC_32bit_Rev_ANSI)" "crc_mode d = TABLE" "crc_initial_value d = NOT 0" "crc_final_xor d = NOT 0"
    by (simp_all add: d_def new_MbedCRC_def mbed_crc_ctor_def poly_defs)
  have full: "x AND get_crc_mask 32 = x" for x
    unfolding get_crc_mask_eq [of 32, simplified] by (rule bit_word_eqI) (simp add: bit_simps crc_up_def)
  have same: "compute c POLY_32BIT_ANSI 32 data \<noteq> None \<and> compute d POLY_32BIT_REV_ANSI 32 data = compute c POLY_32BIT_ANSI 32 data" for data
  proof -
    let ?r = "crc_register POLY_32BIT_ANSI (map word_reverse data) (NOT 0)"
    have "reflected c = word_reverse" using object by (simp add: reflected_def fun_eq_iff)
    then have c: "compute c POLY_32BIT_ANSI 32 data = Some (compute_partial_stop c POLY_32BIT_ANSI 32 ?r)"
      using compute_partial_register [OF known, of "NOT 0" "NOT 0" True True data "NOT 0", folded c_def] object
      by (simp add: compute_def compute_partial_start_def crc_up_def)
    have ones: "word_reverse (NOT 0 :: u32) = NOT 0" by (rule bit_word_eqI) (simp add: bit_word_reverse_iff bit_simps)
    have "compute d POLY_32BIT_REV_ANSI 32 data = Some (word_reverse ?r XOR NOT 0)"
      using table_bytes_rev [OF d(1), of data "NOT 0"] d ones
      by (simp add: compute_def compute_partial_start_def compute_partial_def table_compute_partial_def compute_partial_stop_def full)
    moreover have "compute_partial_stop c POLY_32BIT_ANSI 32 ?r = word_reverse ?r XOR NOT 0"
      using object by (intro bit_word_eqI) (auto simp: bit_stop bit_simps bit_word_reverse_iff)
    ultimately show ?thesis by (simp only: c) simp
  qed
  then show ?thesis using default by blast
qed

text \<open>
  A checksum can be computed in parts, as \<open>MbedCRC.h\<close> promises. Handing the result of
  \<open>compute_partial\<close> for the first part of the data to the call for the rest gives what one call for all
  the data gives, although the register is cut to its width in between.
\<close>

theorem crc_parts:
  assumes "crc_known polynomial width"
  shows "compute_partial (new_MbedCRC polynomial init final rd rr) polynomial width (xs @ ys) crc =
     Option.bind (compute_partial (new_MbedCRC polynomial init final rd rr) polynomial width xs crc)
       (compute_partial (new_MbedCRC polynomial init final rd rr) polynomial width ys)"
proof -
  let ?P = "push_bit (32 - width) polynomial" and ?up = "crc_up width"
  have "?up \<le> 32 - width" "?up \<le> 24" using crc_known_width [OF assms] by (auto simp: crc_up_def)
  then have "clear_below ?up (crc_register ?P bs (push_bit ?up crc))" for bs
    by (intro clear_below_register clear_below_push) simp_all
  then show ?thesis
    unfolding compute_partial_register [OF assms] by (simp add: crc_register_append push_drop)
qed

lemma crc_parts_witness:
  "compute_partial (new_MbedCRC POLY_16BIT_CCITT 0 0 False False) POLY_16BIT_CCITT 16 ([0x31] @ [0x32]) 0 =
     Option.bind (compute_partial (new_MbedCRC POLY_16BIT_CCITT 0 0 False False) POLY_16BIT_CCITT 16 [0x31] 0)
       (compute_partial (new_MbedCRC POLY_16BIT_CCITT 0 0 False False) POLY_16BIT_CCITT 16 [0x32])"
  by (rule crc_parts) (simp add: crc_known_def)

section \<open>What the checksum detects\<close>

text \<open>The bytes of a burst, put into the register at once; a burst has at most the bytes of the register.\<close>

fun packed :: "u8 list \<Rightarrow> u32" where
  "packed [] = 0"
| "packed (b # bs) = push_bit 24 (ucast b) XOR drop_bit 8 (packed bs)"

lemma xor_cancel: "c XOR a = c XOR b \<longleftrightarrow> a = b" for a b c :: u32
proof
  assume "c XOR a = c XOR b"
  then have "c XOR (c XOR a) = c XOR (c XOR b)" by (rule arg_cong)
  then show "a = b" by (simp only: xor.assoc [symmetric] xor_self_eq xor.left_neutral)
qed simp

lemma xor_cancel_right: "a XOR c = b XOR c \<longleftrightarrow> a = b" for a b c :: u32
  using xor_cancel [of c a b] by (simp only: xor.commute [of c])

lemma packed_clear: "length bs \<le> 4 \<Longrightarrow> clear_below (32 - 8 * length bs) (packed bs)"
proof (induction bs)
  case (Cons b bs)
  then have "clear_below (32 - 8 * length (b # bs)) (drop_bit 8 (packed bs))"
    by (auto simp: clear_below_def bit_simps)
  then show ?case using Cons.prems by (auto intro!: clear_below_xor clear_below_push)
qed (simp add: clear_below_def)

lemma crc_register_packed:
  assumes "length bs \<le> 4"
  shows "crc_register P bs r = (crc_shift P ^^ (8 * length bs)) (r XOR packed bs)"
  using assms
proof (induction bs arbitrary: r)
  case (Cons b bs)
  have "clear_below (32 - 8 * length bs) (packed bs)" using packed_clear Cons.prems by simp
  then have clear: "clear_below 8 (packed bs)" by (rule clear_below_mono) (use Cons.prems in simp)
  have "(crc_shift P ^^ 8) (drop_bit 8 (packed bs)) = push_bit 8 (drop_bit 8 (packed bs))"
    by (rule crc_shifts_push) (auto simp: bit_simps dest: bit_imp_le_length)
  then have "(crc_shift P ^^ 8) (drop_bit 8 (packed bs)) = packed bs" using push_drop [OF clear] by simp
  then have "crc_byte P b r XOR packed bs = (crc_shift P ^^ 8) (r XOR packed (b # bs))"
    by (simp add: crc_byte_def crc_shifts_xor xor.assoc)
  moreover have "8 * length (b # bs) = 8 * length bs + 8" by simp
  ultimately show ?case using Cons by (simp only: crc_register_Cons funpow_add o_apply)
qed (simp add: crc_register_def)

lemma packed_inj:
  assumes "length xs = length ys" "length xs \<le> 4" "packed xs = packed ys"
  shows "xs = ys"
  using assms
proof (induction xs ys rule: list_induct2)
  case (Cons x xs y ys)
  have bits: "bit (packed (b # bs)) (24 + k) \<longleftrightarrow> bit b k" if "k < 8" for b bs k
    using that by (auto simp: bit_simps dest: bit_imp_le_length)
  have "x = y"
  proof (rule bit_word_eqI)
    show "bit x k = bit y k" if "k < LENGTH(8)" for k
      using bits [of k x xs] bits [of k y ys] that Cons.prems by simp
  qed
  moreover have "drop_bit 8 (packed xs) = drop_bit 8 (packed ys)"
    using Cons.prems(2) \<open>x = y\<close> by (simp add: xor_cancel)
  moreover have "clear_below 8 (packed xs)" "clear_below 8 (packed ys)"
    using packed_clear [of xs] packed_clear [of ys] Cons.prems(1) Cons.hyps by (auto elim: clear_below_mono)
  ultimately show ?case using Cons push_drop by (metis Suc_leD length_Cons)
qed simp

text \<open>A polynomial with a lowest bit makes the step of the register injective.\<close>

lemma crc_shift_zero:
  assumes "clear_below n P" "bit P n" "clear_below n r" "crc_shift P r = 0"
  shows "r = 0"
proof (rule bit_word_eqI)
  have n: "n < 32" using assms(2) by (auto dest: bit_imp_le_length)
  have zero: "\<not> bit (crc_shift P r) k" for k using assms(4) by simp
  have "\<not> bit r (n - 1)" if "0 < n" using assms(3) that by (simp add: clear_below_def)
  then have top: "\<not> bit r 31" using zero [of n] assms(2) n by (auto simp: bit_crc_shift)
  show "bit r k = bit 0 k" if "k < LENGTH(32)" for k
    using zero [of "k + 1"] top that by (cases "k = 31") (auto simp: bit_crc_shift)
qed

lemma crc_shifts_inj:
  assumes P: "clear_below n P" "bit P n" and "clear_below n a" "clear_below n b" "(crc_shift P ^^ m) a = (crc_shift P ^^ m) b"
  shows "a = b"
proof -
  have zero: "(crc_shift P ^^ m) r = 0 \<Longrightarrow> clear_below n r \<Longrightarrow> r = 0" for m r
  proof (induction m)
    case (Suc m)
    then have "(crc_shift P ^^ m) r = 0"
      using crc_shift_zero [OF P clear_below_shifts [OF P(1) Suc.prems(2)]] by simp
    then show ?case using Suc by blast
  qed simp
  have "(crc_shift P ^^ m) (a XOR b) = 0" using assms(5) by (simp add: crc_shifts_xor)
  then have "a XOR b = 0" using clear_below_xor [OF assms(3,4)] by (rule zero)
  then have "b XOR a = b XOR b" by (simp add: xor.commute)
  then show ?thesis by (simp only: xor_cancel)
qed

lemma crc_register_inj:
  assumes P: "clear_below n P" "bit P n" "n \<le> 24" and "clear_below n a" "clear_below n b"
    "crc_register P bs a = crc_register P bs b"
  shows "a = b"
  using assms(4-6)
proof (induction bs arbitrary: a b)
  case (Cons x bs)
  have clear: "clear_below n (r XOR push_bit 24 (ucast x))" if "clear_below n r" for r
    using that P(3) by (intro clear_below_xor clear_below_push)
  have clear_byte: "clear_below n (crc_byte P x r)" if "clear_below n r" for r
    unfolding crc_byte_def using clear [OF that] by (rule clear_below_shifts [OF P(1)])
  have "crc_byte P x a = crc_byte P x b"
    by (rule Cons.IH [OF clear_byte [OF Cons.prems(1)] clear_byte [OF Cons.prems(2)] Cons.prems(3) [unfolded crc_register_Cons]])
  then have "a XOR push_bit 24 (ucast x) = b XOR push_bit 24 (ucast x)"
    unfolding crc_byte_def by (rule crc_shifts_inj [OF P(1,2) clear [OF Cons.prems(1)] clear [OF Cons.prems(2)]])
  then show ?case by (simp only: xor_cancel_right)
qed (simp add: crc_register_def)

lemma stop_inj:
  assumes "width \<le> 32" "8 \<le> width" "crc_mode c = BITWISE \<or> polynomial \<noteq> POLY_32BIT_REV_ANSI"
    and "compute_partial_stop c polynomial width x = compute_partial_stop c polynomial width y"
  shows "x AND get_crc_mask width = y AND get_crc_mask width"
proof -
  have "bit x k = bit y k" if "k < width" for k
  proof -
    let ?j = "if crc_reflect_remainder c then width - Suc k else k"
    have "(if crc_reflect_remainder c then width - Suc ?j else ?j) = k" "?j < width" using that by auto
    then show ?thesis
      using bit_stop [OF assms(1,3), of x ?j] bit_stop [OF assms(1,3), of y ?j] assms(2,4) by (auto split: if_splits)
  qed
  then show ?thesis
    using assms(2) unfolding get_crc_mask_eq [OF assms(1)] register_bits [OF assms(1)]
    by (intro bit_word_eqI) (auto simp: bit_simps)
qed

text \<open>
  C34: Errors are detected. For the CCITT and ANSI polynomials of mbed OS, two messages that differ in
  some bytes next to each other, at most as many as the checksum has, and agree before and after them,
  have different checksums, whatever the initial and final values and the reflections are.
\<close>

theorem crc_detects_bursts:
  assumes "crc_known polynomial width" "length xs = length ys" "8 * length xs \<le> width" "xs \<noteq> ys"
  shows "compute (new_MbedCRC polynomial init final rd rr) polynomial width (before @ xs @ after) \<noteq>
     compute (new_MbedCRC polynomial init final rd rr) polynomial width (before @ ys @ after)"
proof
  let ?c = "new_MbedCRC polynomial init final rd rr" and ?P = "push_bit (32 - width) polynomial"
  let ?m = "map (reflected ?c)"
  let ?R = "\<lambda>data. crc_register ?P (?m data) (push_bit (crc_up width) init)"
  assume same: "compute ?c polynomial width (before @ xs @ after) = compute ?c polynomial width (before @ ys @ after)"
  have "xs \<noteq> []" using assms(2,4) by auto
  then have width: "8 \<le> width" "width \<le> 32" using assms(3) crc_known_width [OF assms(1)] by (cases xs; simp)+
  then have up: "crc_up width = 32 - width" "32 - width \<le> 24" by (auto simp: crc_up_def)
  have P: "clear_below (32 - width) ?P" "bit ?P (32 - width)"
    using assms(1) by (auto simp: crc_known_def clear_below_def bit_simps poly_defs)
  have clear: "clear_below (32 - width) (crc_register ?P bs (push_bit (crc_up width) init))" for bs
    using P up by (intro clear_below_register clear_below_push) simp_all
  have "compute_partial_stop ?c polynomial width (drop_bit (32 - width) (?R (before @ xs @ after))) =
      compute_partial_stop ?c polynomial width (drop_bit (32 - width) (?R (before @ ys @ after)))"
    using same unfolding compute_def compute_partial_start_def compute_partial_register [OF assms(1)] known_object [OF assms(1) refl] up(1) by simp
  from stop_inj [OF width(2,1) _ this] have "push_bit (32 - width) (drop_bit (32 - width) (?R (before @ xs @ after))) =
      push_bit (32 - width) (drop_bit (32 - width) (?R (before @ ys @ after)))"
    using known_object(7) [OF assms(1) refl] push_mask [OF width(2)] unfolding up(1) by metis
  then have "?R (before @ xs @ after) = ?R (before @ ys @ after)" by (simp only: push_drop clear)
  then have bursts: "crc_register ?P (?m xs) (?R before) = crc_register ?P (?m ys) (?R before)"
    unfolding map_append crc_register_append
    by (rule crc_register_inj [OF P up(2), rotated -1]) (simp_all add: clear flip: crc_register_append)
  have len: "length (?m xs) \<le> 4" "length (?m ys) \<le> 4" using assms(2,3) width by simp_all
  have packed: "clear_below (32 - width) (?R before XOR packed (?m bs))" if "length bs = length xs" for bs
  proof (rule clear_below_xor [OF clear])
    have "clear_below (32 - 8 * length bs) (packed (?m bs))" using packed_clear [of "?m bs"] that len by simp
    then show "clear_below (32 - width) (packed (?m bs))" by (rule clear_below_mono) (use that assms(3) in simp)
  qed
  have "?R before XOR packed (?m xs) = ?R before XOR packed (?m ys)"
    by (rule crc_shifts_inj [OF P packed [OF refl] packed [OF assms(2) [symmetric]]
          bursts [unfolded crc_register_packed [OF len(1)] crc_register_packed [OF len(2)] length_map assms(2)]])
  then have "?m xs = ?m ys" unfolding xor_cancel using assms(2) len by (intro packed_inj) simp_all
  moreover have "inj (reflected ?c)"
    by (cases "crc_reflect_data ?c") (simp_all add: reflected_def inj_def, metis word_rev_rev)
  ultimately show False using assms(4) by simp
qed

lemma crc_detects_bursts_witness:
  "compute (new_MbedCRC POLY_16BIT_CCITT 0 0 False False) POLY_16BIT_CCITT 16 ([0x30] @ [0x31, 0x32] @ [0x33]) \<noteq>
     compute (new_MbedCRC POLY_16BIT_CCITT 0 0 False False) POLY_16BIT_CCITT 16 ([0x30] @ [0x32, 0x31] @ [0x33])"
  by (rule crc_detects_bursts) (simp_all add: crc_known_def)

section \<open>The short table\<close>

text \<open>What the last four entries of the table of the IBM polynomial should be.\<close>

definition ibm_poly :: u32 where "ibm_poly = 0x80050000"

lemma ibm_table_ok:
  "table_ok ibm_poly (map (\<lambda>e. push_bit 16 (ucast e)) (take 252 Table_CRC_16bit_IBM) @ [0x02080000, 0x820d0000, 0x82070000, 0x02020000])"
  by (simp add: table_ok_def Table_CRC_16bit_IBM_def) (simp add: crc_shift_def ibm_poly_def)

lemma ibm_entry:
  assumes "i < 256"
  obtains e where "table_entry 16 (Some (Table16 Table_CRC_16bit_IBM)) i = Some e"
    "push_bit 16 e = (crc_shift ibm_poly ^^ 8) (push_bit 24 (of_nat i)) \<longleftrightarrow> i < 252"
proof -
  let ?t = "map (\<lambda>e. push_bit 16 (ucast e)) (take 252 Table_CRC_16bit_IBM) @ [0x02080000, 0x820d0000, 0x82070000, 0x02020000 :: u32]"
  have len: "length Table_CRC_16bit_IBM = 256" by (simp add: Table_CRC_16bit_IBM_def)
  have t: "?t ! i = (crc_shift ibm_poly ^^ 8) (push_bit 24 (of_nat i))" by (rule table_ok_nth [OF ibm_table_ok assms])
  show ?thesis
  proof (cases "i < 252")
    case True
    then have "?t ! i = push_bit 16 (ucast (Table_CRC_16bit_IBM ! i))" using len by (simp add: nth_append)
    then show ?thesis using t True len assms by (intro that) simp_all
  next
    case False
    then have i: "i = 252 \<or> i = 253 \<or> i = 254 \<or> i = 255" using assms by auto
    have "?t ! i \<noteq> 0" using i len by (auto simp: nth_append)
    moreover have "Table_CRC_16bit_IBM ! i = 0" using i unfolding Table_CRC_16bit_IBM_def by (auto simp: nth_append)
    ultimately have "table_entry 16 (Some (Table16 Table_CRC_16bit_IBM)) i = Some 0"
        "push_bit 16 0 \<noteq> (crc_shift ibm_poly ^^ 8) (push_bit 24 (of_nat i))"
      using t len assms by (simp_all only: table_entry.simps) auto
    then show ?thesis using that False by blast
  qed
qed


text \<open>The row of the table that the next byte \<open>b\<close> needs, after the data before it, by the bitwise algorithm.\<close>

definition ibm_row :: "MbedCRC \<Rightarrow> u8 list \<Rightarrow> u8 \<Rightarrow> nat" where
  "ibm_row c data b = unat (ucast (drop_bit 8
     (bitwise_compute_partial c POLY_16BIT_IBM 16 data (crc_initial_value c))) XOR reflected c b :: u8)"

lemma ibm_row_register:
  "ibm_row c data b = unat (ucast (drop_bit 24
     (crc_register ibm_poly (map (reflected c) data) (push_bit 16 (crc_initial_value c)))) XOR reflected c b :: u8)"
proof -
  let ?x = "fold (bitwise_byte c POLY_16BIT_IBM 16) data (crc_initial_value c)"
  have "push_bit 16 ?x = crc_register ibm_poly (map (reflected c) data) (push_bit 16 (crc_initial_value c))"
    using bitwise_register [of 16 c POLY_16BIT_IBM data] by (simp add: poly_defs ibm_poly_def)
  moreover have "ucast (drop_bit 8 (?x AND get_crc_mask 16)) = (ucast (drop_bit 24 (push_bit 16 ?x)) :: u8)"
    by (rule bit_word_eqI) (auto simp: get_crc_mask_eq crc_up_def bit_simps)
  ultimately show ?thesis by (simp only: ibm_row_def bitwise_compute_partial_def)
qed

lemma ibm_byte:
  assumes "crc_table c = Some (Table16 Table_CRC_16bit_IBM)"
  obtains x' where "table_byte c POLY_16BIT_IBM 16 b x = Some x'"
    "push_bit 16 x' = crc_byte ibm_poly (reflected c b) (push_bit 16 x) \<longleftrightarrow>
       unat (ucast (drop_bit 24 (push_bit 16 x)) XOR reflected c b :: u8) < 252"
proof -
  let ?d = "ucast (ucast (reflected c b) XOR drop_bit 8 x) :: u8"
  have d: "ucast (drop_bit 24 (push_bit 16 x)) XOR reflected c b = ?d" by (rule bit_word_eqI) (auto simp: bit_simps)
  obtain e where e: "table_entry 16 (crc_table c) (unat ?d) = Some e"
    "push_bit 16 e = (crc_shift ibm_poly ^^ 8) (push_bit 24 (of_nat (unat ?d))) \<longleftrightarrow> unat ?d < 252"
    using ibm_entry [OF unat_u8 [of ?d]] assms by metis
  have byte: "crc_byte ibm_poly (reflected c b) (push_bit 16 x) =
      (crc_shift ibm_poly ^^ 8) (push_bit 24 (of_nat (unat ?d))) XOR push_bit 8 (push_bit 16 x)"
    unfolding crc_byte_first d by simp
  have "table_byte c POLY_16BIT_IBM 16 b x = Some (e XOR push_bit 8 x)"
    using e(1) by (simp add: table_byte_def Let_def reflect_bytes_eq)
  moreover have up: "push_bit 16 (e XOR push_bit 8 x) = push_bit 16 e XOR push_bit 8 (push_bit 16 x)"
    by (simp add: push_bit_xor push_bit_push_bit)
  have "push_bit 16 (e XOR push_bit 8 x) = crc_byte ibm_poly (reflected c b) (push_bit 16 x) \<longleftrightarrow>
      unat (ucast (drop_bit 24 (push_bit 16 x)) XOR reflected c b :: u8) < 252"
    unfolding d byte up xor_cancel_right by (rule e(2))
  ultimately show ?thesis using that by blast
qed

lemma table_bytes_snoc:
  "table_bytes c polynomial width (data @ [b]) x =
     Option.bind (table_bytes c polynomial width data x) (table_byte c polynomial width b)"
  by (induction data arbitrary: x) (simp_all split: option.split)

lemma ibm_last:
  assumes "crc_table c = Some (Table16 Table_CRC_16bit_IBM)"
    and "table_bytes c POLY_16BIT_IBM 16 data (crc_initial_value c) = Some x"
      "push_bit 16 x = crc_register ibm_poly (map (reflected c) data) (push_bit 16 (crc_initial_value c))"
  obtains x' where "table_bytes c POLY_16BIT_IBM 16 (data @ [b]) (crc_initial_value c) = Some x'"
    "push_bit 16 x' = crc_register ibm_poly (map (reflected c) (data @ [b])) (push_bit 16 (crc_initial_value c)) \<longleftrightarrow>
       ibm_row c data b < 252"
proof -
  obtain x' where "table_byte c POLY_16BIT_IBM 16 b x = Some x'"
    "push_bit 16 x' = crc_byte ibm_poly (reflected c b) (push_bit 16 x) \<longleftrightarrow>
       unat (ucast (drop_bit 24 (push_bit 16 x)) XOR reflected c b :: u8) < 252"
    by (rule ibm_byte [OF assms(1)])
  then show ?thesis
    using assms(2) unfolding assms(3) ibm_row_register [symmetric]
    by (intro that) (simp_all add: table_bytes_snoc crc_register_append crc_register_Cons crc_register_def)
qed

lemma ibm_bytes:
  assumes "crc_table c = Some (Table16 Table_CRC_16bit_IBM)" "\<forall>k < length data. ibm_row c (take k data) (data ! k) < 252"
  shows "\<exists>x. table_bytes c POLY_16BIT_IBM 16 data (crc_initial_value c) = Some x \<and>
     push_bit 16 x = crc_register ibm_poly (map (reflected c) data) (push_bit 16 (crc_initial_value c))"
  using assms(2)
proof (induction data rule: rev_induct)
  case (snoc b data)
  have "ibm_row c (take k data) (data ! k) < 252" if "k < length data" for k
    using snoc.prems [rule_format, of k] that by (simp add: nth_append)
  moreover have last: "ibm_row c data b < 252" using snoc.prems [rule_format, of "length data"] by simp
  ultimately obtain x where "table_bytes c POLY_16BIT_IBM 16 data (crc_initial_value c) = Some x"
      "push_bit 16 x = crc_register ibm_poly (map (reflected c) data) (push_bit 16 (crc_initial_value c))"
    using snoc.IH by blast
  from ibm_last [OF assms(1) this, of b] show ?case using last by metis
qed (simp add: crc_register_def)

lemma ibm_compute:
  assumes c: "c = new_MbedCRC POLY_16BIT_IBM init final rd rr"
    and "table_bytes c POLY_16BIT_IBM 16 data (crc_initial_value c) = Some x"
  shows "compute c POLY_16BIT_IBM 16 data = compute (c\<lparr>crc_table := None, crc_mode := BITWISE\<rparr>) POLY_16BIT_IBM 16 data \<longleftrightarrow>
     push_bit 16 x = crc_register ibm_poly (map (reflected c) data) (push_bit 16 (crc_initial_value c))"
proof -
  let ?b = "c\<lparr>crc_table := None, crc_mode := BITWISE\<rparr>"
  let ?y = "fold (bitwise_byte ?b POLY_16BIT_IBM 16) data (crc_initial_value c)"
  have obj: "crc_mode c = TABLE" "POLY_16BIT_IBM \<noteq> POLY_32BIT_REV_ANSI" by (simp_all add: c new_MbedCRC_def mbed_crc_ctor_def poly_defs)
  have mask: "push_bit 16 (y AND get_crc_mask 16) = push_bit 16 y" "(y AND get_crc_mask 16) AND get_crc_mask 16 = y AND get_crc_mask 16" for y
    using push_mask [of 16 y] by (simp_all add: crc_up_def)
  have cut: "y AND get_crc_mask 16 = drop_bit 16 (push_bit 16 y)" for y
    using mask_up [of 16 y] by (simp add: crc_up_def)
  have inj: "push_bit 16 y = push_bit 16 z \<longleftrightarrow> y AND get_crc_mask 16 = z AND get_crc_mask 16" for y z
    using mask(1) cut by metis
  have same: "reflected ?b = reflected c" by (simp add: reflected_def fun_eq_iff)
  have y: "push_bit 16 ?y = crc_register ibm_poly (map (reflected c) data) (push_bit 16 (crc_initial_value c))"
    using bitwise_register [of 16 ?b POLY_16BIT_IBM data] same by (simp add: poly_defs ibm_poly_def)
  let ?s = "compute_partial_stop c POLY_16BIT_IBM 16"
  have "compute_partial_stop ?b POLY_16BIT_IBM 16 z = ?s z" for z using obj by (intro stop_cong) simp_all
  then have "compute ?b POLY_16BIT_IBM 16 data = Some (?s (?y AND get_crc_mask 16))"
    by (simp add: compute_def compute_partial_def bitwise_compute_partial_def compute_partial_start_def)
  moreover have "compute c POLY_16BIT_IBM 16 data = Some (?s (x AND get_crc_mask 16))"
    using assms(2) obj(1) by (simp add: compute_def compute_partial_def table_compute_partial_def compute_partial_start_def)
  moreover have "?s (x AND get_crc_mask 16) = ?s (?y AND get_crc_mask 16) \<longleftrightarrow> x AND get_crc_mask 16 = ?y AND get_crc_mask 16"
  proof
    assume "?s (x AND get_crc_mask 16) = ?s (?y AND get_crc_mask 16)"
    from stop_inj [OF _ _ _ this] show "x AND get_crc_mask 16 = ?y AND get_crc_mask 16" unfolding mask(2) using obj(2) by simp
  qed simp
  ultimately show ?thesis unfolding y [symmetric] inj by (simp only: option.inject)
qed

lemma ibm_rows: "card {b. 252 \<le> ibm_row c data b} = 4"
proof -
  define k :: u8 where "k = ucast (drop_bit 8 (bitwise_compute_partial c POLY_16BIT_IBM 16 data (crc_initial_value c)))"
  let ?f = "\<lambda>b. reflected c (k XOR b)"
  have refl: "reflected c (reflected c b) = b" for b by (simp add: reflected_def word_rev_rev)
  have cancel: "k XOR (k XOR b) = b" for b by (simp flip: xor.assoc)
  have rows: "{b. 252 \<le> ibm_row c data b} = ?f ` {d. 252 \<le> unat d}"
  proof (intro set_eqI iffI)
    fix b assume "b \<in> {b. 252 \<le> ibm_row c data b}"
    then have "252 \<le> unat (k XOR reflected c b)" by (simp add: ibm_row_def k_def)
    moreover have "b = ?f (k XOR reflected c b)" by (simp add: refl cancel)
    ultimately show "b \<in> ?f ` {d. 252 \<le> unat d}" by blast
  next
    fix b assume "b \<in> ?f ` {d. 252 \<le> unat d}"
    then show "b \<in> {b. 252 \<le> ibm_row c data b}" by (auto simp: ibm_row_def refl cancel simp flip: k_def)
  qed
  moreover have "inj ?f" by (rule inj_on_inverseI [where g = "\<lambda>b. k XOR reflected c b"]) (simp add: refl cancel)
  moreover have "{d :: u8. 252 \<le> unat d} = {252, 253, 254, 255}"
  proof (intro set_eqI iffI)
    fix d :: u8 assume "d \<in> {d. 252 \<le> unat d}"
    then have "unat d = 252 \<or> unat d = 253 \<or> unat d = 254 \<or> unat d = 255" using unat_u8 [of d] by auto
    then show "d \<in> {252, 253, 254, 255}" by (auto simp: word_unat_eq_iff)
  qed auto
  moreover have "card (?f ` {d. 252 \<le> unat d}) = card {d :: u8. 252 \<le> unat d}" if "inj ?f"
    by (rule card_image) (rule inj_on_subset [OF that subset_UNIV])
  ultimately show ?thesis unfolding rows by simp
qed

text \<open>
  C35: The table of the 16-bit IBM polynomial has 252 entries instead of 256, and C sets the others to
  zero. So the checksum is right as long as these are not needed: for any data that
  needed none of them, it is right, and with one more byte it is right if and only if that
  byte's row (\<open>ibm_row\<close>) is below 252. For each such data there are exactly four next bytes for
  which \<open>MbedCRC::compute\<close> gives another checksum than the bitwise algorithm, whatever the
  initial and final values and the reflections are.
\<close>

theorem crc_ibm_table_short:
  assumes "c = new_MbedCRC POLY_16BIT_IBM init final rd rr"
    and "\<forall>k < length data. ibm_row c (take k data) (data ! k) < 252"
  defines "bits \<equiv> c\<lparr>crc_table := None, crc_mode := BITWISE\<rparr>"
  shows "compute c POLY_16BIT_IBM 16 data = compute bits POLY_16BIT_IBM 16 data \<and>
     (\<forall>b. compute c POLY_16BIT_IBM 16 (data @ [b]) = compute bits POLY_16BIT_IBM 16 (data @ [b]) \<longleftrightarrow> ibm_row c data b < 252) \<and>
     card {b. compute c POLY_16BIT_IBM 16 (data @ [b]) \<noteq> compute bits POLY_16BIT_IBM 16 (data @ [b])} = 4"
proof -
  have table: "crc_table c = Some (Table16 Table_CRC_16bit_IBM)" by (simp add: assms(1) new_MbedCRC_def mbed_crc_ctor_def poly_defs)
  obtain x where x: "table_bytes c POLY_16BIT_IBM 16 data (crc_initial_value c) = Some x"
      "push_bit 16 x = crc_register ibm_poly (map (reflected c) data) (push_bit 16 (crc_initial_value c))"
    using ibm_bytes [OF table assms(2)] by blast
  have last: "compute c POLY_16BIT_IBM 16 (data @ [b]) = compute bits POLY_16BIT_IBM 16 (data @ [b]) \<longleftrightarrow> ibm_row c data b < 252" for b
    using ibm_last [OF table x, of b] ibm_compute [OF assms(1), of "data @ [b]"] unfolding bits_def by metis
  show ?thesis
    using ibm_compute [OF assms(1) x(1)] x(2) last ibm_rows [of c data] unfolding bits_def by (simp add: not_less)
qed

lemma crc_ibm_table_short_witness:
  "\<exists>c. default_MbedCRC POLY_16BIT_IBM 16 = Some c \<and> ibm_row c [0x31] 0x32 < 252 \<and> \<not> ibm_row c [] 0x3f < 252 \<and>
     compute c POLY_16BIT_IBM 16 [0x3f] \<noteq> compute (c\<lparr>crc_table := None, crc_mode := BITWISE\<rparr>) POLY_16BIT_IBM 16 [0x3f]"
proof -
  define c where "c = new_MbedCRC POLY_16BIT_IBM 0 0 True True"
  have "default_MbedCRC POLY_16BIT_IBM 16 = Some c" by (simp add: default_MbedCRC_def poly_defs c_def)
  moreover have "ibm_row c [0x31] 0x32 < 252" "\<not> ibm_row c [] 0x3f < 252" unfolding c_def by code_simp+
  ultimately show ?thesis using crc_ibm_table_short [OF c_def, of "[]"] by auto
qed

section \<open>Other widths\<close>

text \<open>
  The constructor that \<open>MbedCRC.h\<close> recommends for other widths chooses the table by the polynomial
  alone: with the 16-bit CCITT polynomial and a width of 32, the example of its documentation, the
  first byte is looked up in a table of another type.
\<close>

theorem crc_width_ignored:
  "compute (new_MbedCRC POLY_16BIT_CCITT init final rd rr) POLY_16BIT_CCITT 32 (b # data) = None"
  by (simp add: compute_def compute_partial_def table_compute_partial_def table_byte_def new_MbedCRC_def mbed_crc_ctor_def poly_defs)

end
