(* ===== verification/CircularBuffer.thy ===== *)
theory CircularBuffer
  imports Prelude
begin

text \<open>
  The ring buffer of mbed OS, \<open>platform/CircularBuffer.h\<close>, with the default counter type: the class
  over its \<open>BufferSize\<close>, a bounded queue as a locale, and that the class is one. Each operation is a
  critical section, so it is one step.
\<close>

section \<open>The class\<close>

record 'a circular_buffer =
  cb_pool :: "'a list"
  cb_head :: u32
  cb_tail :: u32
  cb_is_full :: bool

definition cb_new :: "'a list \<Rightarrow> 'a circular_buffer" where
  "cb_new pool = \<lparr>cb_pool = pool, cb_head = 0, cb_tail = 0, cb_is_full = False\<rparr>"

definition cb_full :: "'a circular_buffer \<Rightarrow> bool" where
  "cb_full b = cb_is_full b"

definition cb_empty :: "'a circular_buffer \<Rightarrow> bool" where
  "cb_empty b \<longleftrightarrow> cb_head b = cb_tail b \<and> \<not> cb_is_full b"

definition cb_push :: "u32 \<Rightarrow> 'a \<Rightarrow> 'a circular_buffer \<Rightarrow> 'a circular_buffer" where
  "cb_push BufferSize data b =
     (let b = (if cb_full b then
                 let b = b\<lparr>cb_tail := cb_tail b + 1\<rparr>
                 in if cb_tail b = BufferSize then b\<lparr>cb_tail := 0\<rparr> else b
               else b);
          b = b\<lparr>cb_pool := (cb_pool b)[unat (cb_head b) := data], cb_head := cb_head b + 1\<rparr>;
          b = (if cb_head b = BufferSize then b\<lparr>cb_head := 0\<rparr> else b)
      in if cb_head b = cb_tail b then b\<lparr>cb_is_full := True\<rparr> else b)"

text \<open>\<open>pop\<close> and \<open>peek\<close> give the element, if there is one.\<close>

definition cb_pop :: "u32 \<Rightarrow> 'a circular_buffer \<Rightarrow> ('a \<times> 'a circular_buffer) option" where
  "cb_pop BufferSize b =
     (if \<not> cb_empty b then
        let data = cb_pool b ! unat (cb_tail b);
            b = b\<lparr>cb_tail := cb_tail b + 1\<rparr>;
            b = (if cb_tail b = BufferSize then b\<lparr>cb_tail := 0\<rparr> else b)
        in Some (data, b\<lparr>cb_is_full := False\<rparr>)
      else None)"

definition cb_reset :: "'a circular_buffer \<Rightarrow> 'a circular_buffer" where
  "cb_reset b = b\<lparr>cb_head := 0, cb_tail := 0, cb_is_full := False\<rparr>"

definition cb_size :: "u32 \<Rightarrow> 'a circular_buffer \<Rightarrow> u32" where
  "cb_size BufferSize b =
     (if \<not> cb_is_full b
      then if cb_head b < cb_tail b then BufferSize + cb_head b - cb_tail b else cb_head b - cb_tail b
      else BufferSize)"

definition cb_peek :: "'a circular_buffer \<Rightarrow> 'a option" where
  "cb_peek b = (if \<not> cb_empty b then Some (cb_pool b ! unat (cb_tail b)) else None)"

section \<open>Bounded queues\<close>

text \<open>
  What the users of the class rely on: a list of at most \<open>capacity\<close> elements. A push into a full queue
  loses the oldest element.
\<close>

locale bounded_queue =
  fixes capacity :: nat
    and ok :: "'q \<Rightarrow> bool"
    and content :: "'q \<Rightarrow> 'a list"
    and push :: "'a \<Rightarrow> 'q \<Rightarrow> 'q"
    and pop :: "'q \<Rightarrow> ('a \<times> 'q) option"
    and is_empty :: "'q \<Rightarrow> bool"
    and is_full :: "'q \<Rightarrow> bool"
  assumes content_le: "ok q \<Longrightarrow> length (content q) \<le> capacity"
    and empty_iff: "ok q \<Longrightarrow> is_empty q \<longleftrightarrow> content q = []"
    and full_iff: "ok q \<Longrightarrow> is_full q \<longleftrightarrow> length (content q) = capacity"
    and push_ok: "ok q \<Longrightarrow> ok (push x q)"
    and push_content: "ok q \<Longrightarrow> content (push x q) = (if is_full q then tl (content q) else content q) @ [x]"
    and pop_None: "ok q \<Longrightarrow> pop q = None \<longleftrightarrow> content q = []"
    and pop_Some: "ok q \<Longrightarrow> pop q = Some (x, q') \<Longrightarrow> ok q' \<and> content q = x # content q'"
begin

text \<open>The two loops of the users: elements are taken while there is room, and added while they fit.\<close>

lemma pop_Cons: "ok q \<Longrightarrow> content q = x # xs \<Longrightarrow> \<exists>q'. pop q = Some (x, q') \<and> ok q' \<and> content q' = xs"
  using pop_None pop_Some by (cases "pop q") fastforce+

end

text \<open>The loops themselves, over any queue.\<close>

fun drain :: "('q \<Rightarrow> ('a \<times> 'q) option) \<Rightarrow> nat \<Rightarrow> 'q \<Rightarrow> 'a list \<times> 'q" where
  "drain pop 0 q = ([], q)"
| "drain pop (Suc room) q =
     (case pop q of
        None \<Rightarrow> ([], q)
      | Some (x, q) \<Rightarrow> let (out, q) = drain pop room q in (x # out, q))"

fun refill :: "('a \<Rightarrow> 'q \<Rightarrow> 'q) \<Rightarrow> ('q \<Rightarrow> bool) \<Rightarrow> 'a list \<Rightarrow> 'q \<Rightarrow> 'a list \<times> 'q" where
  "refill push is_full [] q = ([], q)"
| "refill push is_full (x # xs) q = (if is_full q then (x # xs, q) else refill push is_full xs (push x q))"

context bounded_queue
begin

lemma drain_content:
  assumes "ok q" "drain pop room q = (out, q')"
  shows "ok q'" "content q = out @ content q'" "out = take room (content q)"
proof -
  have "ok q' \<and> content q = out @ content q' \<and> out = take room (content q)"
    using assms
  proof (induction room arbitrary: q out)
    case (Suc room)
    then show ?case
    proof (cases "pop q")
      case (Some r)
      obtain x r' where r: "r = (x, r')" by fastforce
      with pop_Some Some Suc.prems(1) have q: "ok r'" "content q = x # content r'" by auto
      obtain out' where "drain pop room r' = (out', q')" "out = x # out'"
        using Suc.prems(2) Some r by (auto split: prod.splits)
      then have "ok q' \<and> content r' = out' @ content q' \<and> out' = take room (content r')" using Suc.IH q(1) by blast
      then show ?thesis unfolding q(2) \<open>out = x # out'\<close> append_Cons take_Suc_Cons list.inject by blast
    qed (use pop_None in auto)
  qed simp
  then show "ok q'" "content q = out @ content q'" "out = take room (content q)" by blast+
qed

lemma refill_content:
  assumes "ok q" "refill push is_full xs q = (rest, q')"
  shows "ok q'" "content q @ xs = content q' @ rest" "rest = [] \<or> is_full q'" "length (content q) \<le> length (content q')"
proof -
  have "ok q' \<and> content q @ xs = content q' @ rest \<and> (rest = [] \<or> is_full q') \<and> length (content q) \<le> length (content q')"
    using assms
  proof (induction xs arbitrary: q)
    case (Cons x xs q)
    show ?case
    proof (cases "is_full q")
      case True
      then show ?thesis using Cons.prems by auto
    next
      case False
      then have pushed: "content (push x q) = content q @ [x]" and run: "refill push is_full xs (push x q) = (rest, q')"
        using Cons.prems push_content by simp_all
      then have "ok q' \<and> content (push x q) @ xs = content q' @ rest \<and> (rest = [] \<or> is_full q') \<and>
          length (content (push x q)) \<le> length (content q')"
        using Cons.IH [OF push_ok [OF Cons.prems(1)]] by blast
      then show ?thesis unfolding pushed by simp
    qed
  qed simp
  then show "ok q'" "content q @ xs = content q' @ rest" "rest = [] \<or> is_full q'" "length (content q) \<le> length (content q')" by blast+
qed

end

section \<open>The class is a bounded queue\<close>

definition cb_ok :: "u32 \<Rightarrow> 'a circular_buffer \<Rightarrow> bool" where
  "cb_ok BufferSize b \<longleftrightarrow>
     length (cb_pool b) = unat BufferSize \<and> cb_head b < BufferSize \<and> cb_tail b < BufferSize \<and>
     (cb_is_full b \<longrightarrow> cb_head b = cb_tail b)"

definition cb_content :: "u32 \<Rightarrow> 'a circular_buffer \<Rightarrow> 'a list" where
  "cb_content BufferSize b =
     map (\<lambda>i. cb_pool b ! ((unat (cb_tail b) + i) mod unat BufferSize)) [0..<unat (cb_size BufferSize b)]"

text \<open>The same as a relation: where the elements are, from the oldest.\<close>

definition cb_holds :: "u32 \<Rightarrow> 'a circular_buffer \<Rightarrow> 'a list \<Rightarrow> bool" where
  "cb_holds BufferSize b xs \<longleftrightarrow>
     length (cb_pool b) = unat BufferSize \<and> cb_tail b < BufferSize \<and> length xs \<le> unat BufferSize \<and>
     unat (cb_head b) = (unat (cb_tail b) + length xs) mod unat BufferSize \<and> cb_is_full b = (length xs = unat BufferSize) \<and>
     (\<forall>i < length xs. cb_pool b ! ((unat (cb_tail b) + i) mod unat BufferSize) = xs ! i)"

lemma unat_u32: "unat w < 4294967296" for w :: u32
  using unsigned_less [of w] by simp

lemma ring_inj:
  fixes t i j n :: nat
  assumes "(t + i) mod n = (t + j) mod n" "i < n" "j < n"
  shows "i = j"
proof -
  have le: "i = j" if "i \<le> j" "(t + j) mod n = (t + i) mod n" "j < n" for i j
    using that mod_eq_dvd_iff_nat [of "t + i" "t + j" n] dvd_imp_le [of n "j - i"] by (cases "i = j") auto
  show ?thesis using le [of i j] le [of j i] assms by (cases "i \<le> j") simp_all
qed

lemma ring_full:
  fixes t k n :: nat
  assumes "t < n" "0 < k" "k \<le> n"
  shows "(t + k) mod n = t \<longleftrightarrow> k = n"
  using ring_inj [of t k n 0] assms by (cases "k = n") auto

lemma bump:
  fixes t BufferSize :: u32
  assumes "t < BufferSize"
  shows "unat (if t + 1 = BufferSize then 0 else t + 1) = (unat t + 1) mod unat BufferSize"
    "(if t + 1 = BufferSize then 0 else t + 1) < BufferSize"
proof -
  have t: "unat t < unat BufferSize" using assms by (simp add: word_less_nat_alt)
  then have "unat (t + 1) = unat t + 1" using unat_u32 [of BufferSize] by (subst unat_add_no_wrap) simp_all
  then have n: "unat (t + 1) = unat t + 1" "t + 1 = BufferSize \<longleftrightarrow> unat t + 1 = unat BufferSize"
    using word_unat_eq_iff [of "t + 1" BufferSize] by simp_all
  then show "unat (if t + 1 = BufferSize then 0 else t + 1) = (unat t + 1) mod unat BufferSize"
    "(if t + 1 = BufferSize then 0 else t + 1) < BufferSize"
    using t by (auto simp: word_less_nat_alt)
qed

lemma size_count:
  assumes "cb_ok BufferSize b"
  defines "n \<equiv> unat BufferSize" and "k \<equiv> unat (cb_size BufferSize b)"
  shows "k \<le> n" "unat (cb_head b) = (unat (cb_tail b) + k) mod n" "cb_is_full b = (k = n)"
proof -
  have less: "unat (cb_head b) < n" "unat (cb_tail b) < n" using assms(1) by (simp_all add: cb_ok_def n_def word_less_nat_alt)
  consider "cb_is_full b" | "\<not> cb_is_full b" "cb_head b < cb_tail b" | "\<not> cb_is_full b" "cb_tail b \<le> cb_head b" by fastforce
  then have "k \<le> n \<and> unat (cb_head b) = (unat (cb_tail b) + k) mod n \<and> cb_is_full b = (k = n)"
  proof cases
    case 1
    then show ?thesis using assms(1) less by (auto simp: cb_size_def k_def n_def cb_ok_def)
  next
    case 2
    have "unat (BufferSize - cb_tail b) = n - unat (cb_tail b)" "unat (cb_head b) < unat (cb_tail b)"
      using less 2 by (simp_all add: n_def unat_sub word_le_nat_alt word_less_nat_alt)
    then have "unat (BufferSize - cb_tail b + cb_head b) = n - unat (cb_tail b) + unat (cb_head b)"
      using less unat_u32 [of BufferSize] by (subst unat_add_no_wrap) (simp_all add: n_def)
    then have "k = n - unat (cb_tail b) + unat (cb_head b)" using 2 by (simp add: k_def cb_size_def algebra_simps)
    then have k: "unat (cb_tail b) + k = n + unat (cb_head b)" using less by simp
    moreover from this have "k < n" using \<open>unat (cb_head b) < unat (cb_tail b)\<close> by linarith
    ultimately show ?thesis using less 2 by simp
  next
    case 3
    then have "k = unat (cb_head b) - unat (cb_tail b)" "unat (cb_tail b) \<le> unat (cb_head b)"
      by (simp_all add: k_def cb_size_def unat_sub word_le_nat_alt word_less_nat_alt)
    then show ?thesis using less 3 by auto
  qed
  then show "k \<le> n" "unat (cb_head b) = (unat (cb_tail b) + k) mod n" "cb_is_full b = (k = n)" by blast+
qed

lemma holds_content:
  assumes "cb_ok BufferSize b"
  shows "cb_holds BufferSize b (cb_content BufferSize b)"
  using size_count [OF assms] assms by (simp add: cb_holds_def cb_content_def cb_ok_def)

lemma content_holds:
  assumes "cb_holds BufferSize b xs"
  shows "cb_ok BufferSize b" "cb_content BufferSize b = xs"
proof -
  let ?n = "unat BufferSize"
  have n: "0 < ?n" using assms by (simp add: cb_holds_def word_less_nat_alt)
  have "(unat (cb_tail b) + ?n) mod ?n = unat (cb_tail b)" if "length xs = ?n" using assms by (simp add: cb_holds_def word_less_nat_alt)
  then show ok: "cb_ok BufferSize b"
    using assms n by (auto simp: cb_holds_def cb_ok_def word_less_nat_alt word_unat_eq_iff)
  have "length xs = unat (cb_size BufferSize b)"
  proof (cases "cb_is_full b")
    case True
    then show ?thesis using size_count(3) [OF ok] assms by (simp add: cb_holds_def)
  next
    case False
    have "unat (cb_size BufferSize b) < ?n" "length xs < ?n"
      using size_count(1,3) [OF ok] False assms by (auto simp: cb_holds_def le_less)
    then show ?thesis using size_count(2) [OF ok] assms by (intro ring_inj [of "unat (cb_tail b)" "length xs" ?n]) (simp_all add: cb_holds_def)
  qed
  then show "cb_content BufferSize b = xs" using assms by (intro nth_equalityI) (simp_all add: cb_content_def cb_holds_def)
qed

lemma push_holds:
  assumes "cb_holds BufferSize b xs"
  shows "cb_holds BufferSize (cb_push BufferSize x b) ((if cb_full b then tl xs else xs) @ [x])"
proof -
  let ?n = "unat BufferSize" and ?t = "unat (cb_tail b)"
  have t: "cb_tail b < BufferSize" "?t < ?n" and len: "length xs \<le> ?n" and pool: "length (cb_pool b) = ?n"
    and head: "unat (cb_head b) = (?t + length xs) mod ?n" and full: "cb_is_full b = (length xs = ?n)"
    and elems: "\<And>i. i < length xs \<Longrightarrow> cb_pool b ! ((?t + i) mod ?n) = xs ! i"
    using assms by (simp_all add: cb_holds_def word_less_nat_alt)
  have h: "cb_head b < BufferSize" using head t(2) by (simp add: word_less_nat_alt)
  define t' where "t' = (if cb_tail b + 1 = BufferSize then 0 else cb_tail b + 1)"
  define h' where "h' = (if cb_head b + 1 = BufferSize then 0 else cb_head b + 1)"
  have t': "unat t' = (?t + 1) mod ?n" "t' < BufferSize" and h': "unat h' = (?t + length xs + 1) mod ?n" "h' < BufferSize"
    using bump [OF t(1)] bump [OF h] head by (simp_all add: t'_def h'_def mod_Suc_eq)
  have push: "cb_push BufferSize x b = \<lparr>cb_pool = (cb_pool b)[unat (cb_head b) := x], cb_head = h',
      cb_tail = if cb_full b then t' else cb_tail b, cb_is_full = cb_is_full b \<or> h' = (if cb_full b then t' else cb_tail b)\<rparr>"
    by (cases b) (simp add: cb_push_def Let_def t'_def h'_def cb_full_def)
  show ?thesis
  proof (cases "cb_full b")
    case True
    then have n: "length xs = ?n" using full by (simp add: cb_full_def)
    have "Suc (?t + ?n) mod ?n = Suc ?t mod ?n" using mod_add_self2 [of "Suc ?t" ?n] by simp
    with n have same: "h' = t'" "unat (cb_head b) = ?t" using h' t' head t(2) by (simp_all add: word_unat_eq_iff mod_Suc_eq)
    have "(cb_pool b)[?t := x] ! ((unat t' + i) mod ?n) = (tl xs @ [x]) ! i" if "i < ?n" for i
    proof (cases "i = ?n - 1")
      case True
      moreover have "?t + 1 + (?n - 1) = ?t + ?n" using t(2) by simp
      ultimately have "(unat t' + i) mod ?n = ?t" using t' t(2) mod_add_left_eq [of "?t + 1" ?n "?n - 1"] by simp
      then show ?thesis using True n t(2) pool by (simp add: nth_append)
    next
      case False
      then have "(unat t' + i) mod ?n = (?t + Suc i) mod ?n" using t' by (simp add: mod_add_left_eq)
      moreover have i: "Suc i < ?n" using that False by linarith
      then have "(?t + Suc i) mod ?n \<noteq> ?t" using ring_inj [of ?t "Suc i" ?n 0] t(2) by auto
      ultimately show ?thesis using elems [of "Suc i"] n i by (auto simp: nth_append nth_tl)
    qed
    then show ?thesis using True n same t' t(2) pool unfolding push by (simp add: cb_holds_def)
  next
    case False
    then have n: "length xs < ?n" using full len by (simp add: cb_full_def)
    have "(cb_pool b)[unat (cb_head b) := x] ! ((?t + i) mod ?n) = (xs @ [x]) ! i" if "i < length xs + 1" for i
    proof (cases "i = length xs")
      case True
      then show ?thesis using head pool t(2) by simp
    next
      case False
      then have "(?t + i) mod ?n \<noteq> unat (cb_head b)" using ring_inj [of ?t i ?n "length xs"] that n head by auto
      then show ?thesis using elems [of i] that False by (simp add: nth_append)
    qed
    moreover have "h' = cb_tail b \<longleftrightarrow> length xs + 1 = ?n"
      using h'(1) n ring_full [OF t(2), of "length xs + 1"] by (simp add: word_unat_eq_iff)
    ultimately show ?thesis using False n h' t pool full unfolding push by (simp add: cb_holds_def cb_full_def)
  qed
qed

lemma empty_holds: "cb_holds BufferSize b xs \<Longrightarrow> cb_empty b \<longleftrightarrow> xs = []"
  using size_count(2,3) content_holds [of BufferSize b xs] ring_inj [of "unat (cb_tail b)" "length xs" "unat BufferSize" 0]
  by (auto simp: cb_empty_def cb_holds_def word_less_nat_alt word_unat_eq_iff)

lemma pop_holds:
  assumes "cb_holds BufferSize b (x # xs)"
  shows "\<exists>b'. cb_pop BufferSize b = Some (x, b') \<and> cb_holds BufferSize b' xs"
proof -
  let ?n = "unat BufferSize" and ?t = "unat (cb_tail b)"
  have t: "cb_tail b < BufferSize" "?t < ?n" and head: "unat (cb_head b) = (?t + length (x # xs)) mod ?n"
    and elems: "\<And>i. i < length (x # xs) \<Longrightarrow> cb_pool b ! ((?t + i) mod ?n) = (x # xs) ! i"
    using assms by (simp_all add: cb_holds_def word_less_nat_alt)
  define t' where "t' = (if cb_tail b + 1 = BufferSize then 0 else cb_tail b + 1)"
  have t': "unat t' = (?t + 1) mod ?n" "t' < BufferSize" using bump [OF t(1)] by (simp_all add: t'_def)
  have "cb_pop BufferSize b = Some (x, b\<lparr>cb_tail := t', cb_is_full := False\<rparr>)"
    using empty_holds [OF assms] elems [of 0] t(2) by (simp add: cb_pop_def Let_def t'_def)
  moreover have "cb_pool b ! ((unat t' + i) mod ?n) = xs ! i" if "i < length xs" for i
    using elems [of "Suc i"] that by (simp add: t' mod_add_left_eq)
  then have "cb_holds BufferSize (b\<lparr>cb_tail := t', cb_is_full := False\<rparr>) xs"
    using assms t' by (simp add: cb_holds_def mod_add_left_eq)
  ultimately show ?thesis by blast
qed

interpretation ring: bounded_queue "unat BufferSize" "cb_ok BufferSize" "cb_content BufferSize" "cb_push BufferSize"
  "cb_pop BufferSize" cb_empty cb_full for BufferSize
proof
  fix q q' :: "'a circular_buffer" and x
  assume ok: "cb_ok BufferSize q"
  note holds = holds_content [OF ok]
  show "length (cb_content BufferSize q) \<le> unat BufferSize" using holds by (simp add: cb_holds_def)
  show "cb_empty q \<longleftrightarrow> cb_content BufferSize q = []" using empty_holds [OF holds] .
  show "cb_full q \<longleftrightarrow> length (cb_content BufferSize q) = unat BufferSize" using holds by (simp add: cb_holds_def cb_full_def)
  show "cb_ok BufferSize (cb_push BufferSize x q)"
    "cb_content BufferSize (cb_push BufferSize x q) =
       (if cb_full q then tl (cb_content BufferSize q) else cb_content BufferSize q) @ [x]"
    using content_holds [OF push_holds [OF holds]] by simp_all
  have popped: "\<exists>b'. cb_pop BufferSize q = Some (y, b') \<and> cb_ok BufferSize b' \<and> cb_content BufferSize b' = ys"
    if "cb_content BufferSize q = y # ys" for y ys
    using pop_holds [of BufferSize q y ys] holds that content_holds by fastforce
  have none: "cb_pop BufferSize q = None" if "cb_content BufferSize q = []"
    using empty_holds [OF holds] that by (simp add: cb_pop_def)
  show "cb_pop BufferSize q = None \<longleftrightarrow> cb_content BufferSize q = []"
    using popped none by (cases "cb_content BufferSize q") fastforce+
  show "cb_ok BufferSize q' \<and> cb_content BufferSize q = x # cb_content BufferSize q'" if "cb_pop BufferSize q = Some (x, q')"
    using popped none that by (cases "cb_content BufferSize q") fastforce+
qed

text \<open>
  C21: The ring buffer is a bounded queue. From a well-formed buffer of any size every operation of
  \<open>CircularBuffer\<close> does what it does to the list of the elements, the oldest first: \<open>push\<close> adds one at
  the end, losing the first only if the buffer is full; \<open>pop\<close> takes the first, \<open>peek\<close> shows it; \<open>size\<close>,
  \<open>empty\<close> and \<open>full\<close> tell the length. The buffer stays well-formed, so no index leaves the pool.
\<close>

theorem circular_buffer_refines:
  assumes "cb_ok BufferSize b"
  defines "xs \<equiv> cb_content BufferSize b"
  shows "cb_ok BufferSize (cb_push BufferSize x b) \<and>
     cb_content BufferSize (cb_push BufferSize x b) = (if length xs = unat BufferSize then tl xs else xs) @ [x] \<and>
     (case xs of
        [] \<Rightarrow> cb_pop BufferSize b = None \<and> cb_peek b = None
      | y # ys \<Rightarrow> cb_peek b = Some y \<and>
          (\<exists>b'. cb_pop BufferSize b = Some (y, b') \<and> cb_ok BufferSize b' \<and> cb_content BufferSize b' = ys)) \<and>
     unat (cb_size BufferSize b) = length xs \<and> (cb_empty b \<longleftrightarrow> xs = []) \<and> (cb_full b \<longleftrightarrow> length xs = unat BufferSize) \<and>
     cb_ok BufferSize (cb_reset b) \<and> cb_content BufferSize (cb_reset b) = []"
proof -
  have "cb_peek b = Some y" if "xs = y # ys" for y ys
  proof -
    have "cb_pool b ! (unat (cb_tail b) mod unat BufferSize) = y" "cb_tail b < BufferSize"
      using holds_content [OF assms(1)] that unfolding cb_holds_def xs_def [symmetric] by auto
    then show ?thesis
      using ring.empty_iff [OF assms(1)] that by (simp add: cb_peek_def xs_def word_less_nat_alt)
  qed
  moreover have "cb_peek b = None" if "xs = []" using ring.empty_iff [OF assms(1)] that by (simp add: cb_peek_def xs_def)
  moreover have "cb_ok BufferSize (cb_reset b) \<and> cb_content BufferSize (cb_reset b) = []"
    using assms(1) by (auto simp: cb_ok_def cb_reset_def cb_content_def cb_size_def word_gt_0 word_less_nat_alt)
  moreover have "length xs = unat (cb_size BufferSize b)" by (simp add: xs_def cb_content_def)
  moreover have "cb_pop BufferSize b = None" if "xs = []" using ring.pop_None [OF assms(1)] that by (simp add: xs_def)
  ultimately show ?thesis
    using ring.push_ok [OF assms(1), of x] ring.push_content [OF assms(1), of x] ring.full_iff [OF assms(1)]
      ring.empty_iff [OF assms(1)] ring.pop_Cons [OF assms(1)]
    by (cases xs) (simp_all add: xs_def)
qed

lemma circular_buffer_refines_witness:
  "cb_content 2 (cb_push 2 ''c'' (cb_push 2 ''b'' (cb_push 2 ''a'' (cb_new [''x'', ''y''])))) = [''b'', ''c'']"
proof -
  define b where "b = cb_push 2 ''b'' (cb_push 2 ''a'' (cb_new [''x'', ''y'']))"
  have b: "b = \<lparr>cb_pool = [''a'', ''b''], cb_head = 0, cb_tail = 0, cb_is_full = True\<rparr>"
    by (simp add: b_def cb_push_def cb_new_def cb_full_def)
  then have "cb_ok 2 b" "cb_content 2 b = [''a'', ''b'']"
    by (simp_all add: cb_ok_def cb_content_def cb_size_def upt_rec)
  then show ?thesis using circular_buffer_refines [of 2 b "''c''"] unfolding b_def by simp
qed

end
