(* ===== verification/UartSerial.thy ===== *)
theory UartSerial
  imports CircularBuffer
begin

text \<open>
  The buffered serial port of mbed OS, \<open>drivers/UARTSerial.cpp\<close>: the interrupt handlers, the calls, and
  the step relation of any number of threads that make calls, with the interrupts between their steps.
\<close>

section \<open>The port\<close>

definition RXBUF_SIZE :: u32 where "RXBUF_SIZE = 256"
definition TXBUF_SIZE :: u32 where "TXBUF_SIZE = 256"

text \<open>
  The members of the class, and the peripheral: the bytes it has sent (\<open>wire\<close>) and those it has received
  and not handed over (\<open>line\<close>), the handlers that are attached to its interrupts, the level of the
  carrier pin if it is set up, and the number of calls of the \<open>sigio\<close> callback.
\<close>

record uart =
  rxbuf :: "char circular_buffer"
  txbuf :: "char circular_buffer"
  blocking :: bool
  tx_irq_enabled :: bool
  rx_irq_enabled :: bool
  sigio_cb :: bool
  dcd_level :: "bool option"
  tx_attached :: bool
  rx_attached :: bool
  wire :: "char list"
  line :: "char list"
  wakes :: nat

definition UARTSerial :: "char list \<Rightarrow> char list \<Rightarrow> uart" where
  "UARTSerial rxpool txpool =
     \<lparr>rxbuf = cb_new rxpool, txbuf = cb_new txpool, blocking = True, tx_irq_enabled = False, rx_irq_enabled = True,
      sigio_cb = False, dcd_level = None, tx_attached = False, rx_attached = True, wire = [], line = [], wakes = 0\<rparr>"

definition hup :: "uart \<Rightarrow> bool" where
  "hup u \<longleftrightarrow> dcd_level u = Some True"

definition wake :: "uart \<Rightarrow> uart" where
  "wake u = (if sigio_cb u then u\<lparr>wakes := wakes u + 1\<rparr> else u)"

definition uart_poll :: "uart \<Rightarrow> u16" where
  "uart_poll u =
     (let revents = 0;
          revents = (if \<not> cb_empty (rxbuf u) then revents OR 0x0001 else revents)
      in if hup u then revents OR 0x2000 else if \<not> cb_full (txbuf u) then revents OR 0x0010 else revents)"

definition sigio :: "bool \<Rightarrow> uart \<Rightarrow> uart" where
  "sigio func u = (let u = u\<lparr>sigio_cb := func\<rparr> in if func \<and> uart_poll u \<noteq> 0 then wake u else u)"

definition dcd_irq :: "uart \<Rightarrow> uart" where
  "dcd_irq u = wake u"

section \<open>Interrupts\<close>

text \<open>
  The peripheral says that it is readable while bytes wait on the line; it is writeable \<open>room\<close> times
  before it says for the first time that it is not.
\<close>

definition rx_irq :: "uart \<Rightarrow> uart" where
  "rx_irq u =
     (let was_empty = cb_empty (rxbuf u);
          (rest, buffer) = refill (cb_push RXBUF_SIZE) cb_full (line u) (rxbuf u);
          u = u\<lparr>line := rest, rxbuf := buffer\<rparr>;
          u = (if rx_irq_enabled u \<and> cb_full (rxbuf u) then u\<lparr>rx_attached := False, rx_irq_enabled := False\<rparr> else u)
      in if was_empty \<and> \<not> cb_empty (rxbuf u) then wake u else u)"

definition tx_irq :: "nat \<Rightarrow> uart \<Rightarrow> uart" where
  "tx_irq room u =
     (let was_full = cb_full (txbuf u);
          (out, buffer) = drain (cb_pop TXBUF_SIZE) room (txbuf u);
          u = u\<lparr>wire := wire u @ out, txbuf := buffer\<rparr>;
          u = (if tx_irq_enabled u \<and> cb_empty (txbuf u) then u\<lparr>tx_attached := False, tx_irq_enabled := False\<rparr> else u)
      in if was_full \<and> \<not> cb_full (txbuf u) \<and> \<not> hup u then wake u else u)"

text \<open>The critical sections at the end of a round of \<open>write\<close> and of \<open>read\<close>.\<close>

definition tx_start :: "nat \<Rightarrow> uart \<Rightarrow> uart" where
  "tx_start room u =
     (if \<not> tx_irq_enabled u then
        let u = tx_irq room u
        in if \<not> cb_empty (txbuf u) then u\<lparr>tx_attached := True, tx_irq_enabled := True\<rparr> else u
      else u)"

definition rx_start :: "uart \<Rightarrow> uart" where
  "rx_start u =
     (if \<not> rx_irq_enabled u then
        let u = rx_irq u
        in if \<not> cb_full (rxbuf u) then u\<lparr>rx_attached := True, rx_irq_enabled := True\<rparr> else u
      else u)"

section \<open>Writing in a critical section\<close>

text \<open>
  \<open>write_unbuffered\<close>: \<open>rooms\<close> is the room of the peripheral at each call of \<open>tx_irq\<close>; \<open>None\<close> is a loop that
  has not ended after them. The second loop counts each byte twice. \<open>_base_putc\<close> waits until the
  peripheral takes the byte.
\<close>

fun flush_buffer :: "nat list \<Rightarrow> uart \<Rightarrow> uart option" where
  "flush_buffer rooms u =
     (if cb_empty (txbuf u) then Some u
      else case rooms of
          [] \<Rightarrow> None
        | room # rooms \<Rightarrow> flush_buffer rooms (tx_irq room u))"

function put_loop :: "char list \<Rightarrow> nat \<Rightarrow> nat \<Rightarrow> nat \<Rightarrow> uart \<Rightarrow> uart" where
  "put_loop buf buf_ptr data_written len u =
     (if data_written < len then
        let u = u\<lparr>wire := wire u @ [buf ! buf_ptr]\<rparr>;
            buf_ptr = buf_ptr + 1;
            data_written = data_written + 1;
            data_written = data_written + 1
        in put_loop buf buf_ptr data_written len u
      else u)"
  by pat_completeness auto
termination by (relation "measure (\<lambda>(buf, buf_ptr, data_written, len, u). len - data_written)") simp_all

declare flush_buffer.simps [simp del] put_loop.simps [simp del]

definition write_unbuffered :: "nat list \<Rightarrow> char list \<Rightarrow> uart \<Rightarrow> (int \<times> uart) option" where
  "write_unbuffered rooms buf u =
     (case flush_buffer rooms u of
        None \<Rightarrow> None
      | Some u \<Rightarrow> Some (int (length buf), put_loop buf 0 0 (length buf) u))"

section \<open>Threads\<close>

text \<open>
  A thread is in no call, or in \<open>write\<close> with its buffer and \<open>data_written\<close>, in \<open>read\<close> with its length and
  the bytes read so far, or in \<open>sync\<close>. The constructors \<open>W_lock\<close> and \<open>W_relock\<close> wait for the mutex,
  \<open>W_push\<close> and \<open>R_pop\<close> come after the test of the loop. Calls with length 0 do nothing and are left out.
\<close>

datatype write_pc = W_lock | W_test | W_relock | W_again | W_fill | W_push | W_irq | W_end
datatype read_pc = R_lock | R_check | R_copy | R_pop | R_irq | R_end
datatype sync_pc = S_lock | S_check

datatype call = No_call | Write write_pc "char list" nat | Read read_pc nat "char list" | Sync sync_pc

text \<open>
  Beside the port the system has what happened: the bytes that threads pushed and popped, in order;
  the bytes that reached the line; and for each thread what its calls that returned have reported.
\<close>

record 't system =
  port :: uart
  api_mutex :: "'t option"
  calls :: "'t \<Rightarrow> call"
  pushed :: "('t \<times> char) list"
  popped :: "('t \<times> char) list"
  arrived :: "char list"
  written :: "'t \<Rightarrow> char list"
  delivered :: "'t \<Rightarrow> char list"

definition uart_system_start :: "uart \<Rightarrow> 't system" where
  "uart_system_start u =
     \<lparr>port = u, api_mutex = None, calls = (\<lambda>t. No_call), pushed = [], popped = [], arrived = [],
      written = (\<lambda>t. []), delivered = (\<lambda>t. [])\<rparr>"

definition at_call :: "'t \<Rightarrow> call \<Rightarrow> 't system \<Rightarrow> 't system" where
  "at_call t c y = y\<lparr>calls := (calls y)(t := c)\<rparr>"

definition EAGAIN :: int where "EAGAIN = 11"

definition write_result :: "nat \<Rightarrow> int" where
  "write_result data_written = (if data_written \<noteq> 0 then int data_written else - EAGAIN)"

text \<open>What a call reports as written, by its result.\<close>

definition reported :: "char list \<Rightarrow> int \<Rightarrow> char list" where
  "reported data r = (if r < 0 then [] else take (nat r) data)"

inductive uart_step :: "'t system \<Rightarrow> 't system \<Rightarrow> bool" where
  write_call: "calls y t = No_call \<Longrightarrow> data \<noteq> [] \<Longrightarrow> uart_step y (at_call t (Write W_lock data 0) y)"
| write_lock: "calls y t = Write W_lock data k \<Longrightarrow> api_mutex y = None \<Longrightarrow>
    uart_step y (at_call t (Write W_test data k) (y\<lparr>api_mutex := Some t\<rparr>))"
| write_more: "calls y t = Write W_test data k \<Longrightarrow> k < length data \<Longrightarrow> \<not> cb_full (txbuf (port y)) \<Longrightarrow>
    uart_step y (at_call t (Write W_fill data k) y)"
| write_break: "calls y t = Write W_test data k \<Longrightarrow> k < length data \<Longrightarrow> cb_full (txbuf (port y)) \<Longrightarrow> \<not> blocking (port y) \<Longrightarrow>
    uart_step y (at_call t (Write W_end data k) y)"
| write_sleep: "calls y t = Write W_test data k \<Longrightarrow> k < length data \<Longrightarrow> cb_full (txbuf (port y)) \<Longrightarrow> blocking (port y) \<Longrightarrow>
    uart_step y (at_call t (Write W_relock data k) (y\<lparr>api_mutex := None\<rparr>))"
| write_relock: "calls y t = Write W_relock data k \<Longrightarrow> api_mutex y = None \<Longrightarrow>
    uart_step y (at_call t (Write W_again data k) (y\<lparr>api_mutex := Some t\<rparr>))"
| write_again: "calls y t = Write W_again data k \<Longrightarrow> cb_full (txbuf (port y)) \<Longrightarrow>
    uart_step y (at_call t (Write W_relock data k) (y\<lparr>api_mutex := None\<rparr>))"
| write_room: "calls y t = Write W_again data k \<Longrightarrow> \<not> cb_full (txbuf (port y)) \<Longrightarrow> uart_step y (at_call t (Write W_fill data k) y)"
| write_fill: "calls y t = Write W_fill data k \<Longrightarrow> k < length data \<Longrightarrow> \<not> cb_full (txbuf (port y)) \<Longrightarrow>
    uart_step y (at_call t (Write W_push data k) y)"
| write_filled: "calls y t = Write W_fill data k \<Longrightarrow> \<not> (k < length data \<and> \<not> cb_full (txbuf (port y))) \<Longrightarrow>
    uart_step y (at_call t (Write W_irq data k) y)"
| write_push: "calls y t = Write W_push data k \<Longrightarrow>
    uart_step y (at_call t (Write W_fill data (k + 1))
      (y\<lparr>port := (port y)\<lparr>txbuf := cb_push TXBUF_SIZE (data ! k) (txbuf (port y))\<rparr>, pushed := pushed y @ [(t, data ! k)]\<rparr>))"
| write_irq: "calls y t = Write W_irq data k \<Longrightarrow> uart_step y (at_call t (Write W_test data k) (y\<lparr>port := tx_start room (port y)\<rparr>))"
| write_done: "calls y t = Write W_test data k \<Longrightarrow> \<not> k < length data \<Longrightarrow> uart_step y (at_call t (Write W_end data k) y)"
| write_return: "calls y t = Write W_end data k \<Longrightarrow>
    uart_step y (at_call t No_call
      (y\<lparr>api_mutex := None, written := (written y)(t := written y t @ reported data (write_result k))\<rparr>))"
| read_call: "calls y t = No_call \<Longrightarrow> 0 < n \<Longrightarrow> uart_step y (at_call t (Read R_lock n []) y)"
| read_lock: "calls y t = Read R_lock n cs \<Longrightarrow> api_mutex y = None \<Longrightarrow>
    uart_step y (at_call t (Read R_check n cs) (y\<lparr>api_mutex := Some t\<rparr>))"
| read_again: "calls y t = Read R_check n cs \<Longrightarrow> cb_empty (rxbuf (port y)) \<Longrightarrow> \<not> blocking (port y) \<Longrightarrow>
    uart_step y (at_call t No_call (y\<lparr>api_mutex := None\<rparr>))"
| read_sleep: "calls y t = Read R_check n cs \<Longrightarrow> cb_empty (rxbuf (port y)) \<Longrightarrow> blocking (port y) \<Longrightarrow>
    uart_step y (at_call t (Read R_lock n cs) (y\<lparr>api_mutex := None\<rparr>))"
| read_some: "calls y t = Read R_check n cs \<Longrightarrow> \<not> cb_empty (rxbuf (port y)) \<Longrightarrow> uart_step y (at_call t (Read R_copy n cs) y)"
| read_copy: "calls y t = Read R_copy n cs \<Longrightarrow> length cs < n \<Longrightarrow> \<not> cb_empty (rxbuf (port y)) \<Longrightarrow>
    uart_step y (at_call t (Read R_pop n cs) y)"
| read_copied: "calls y t = Read R_copy n cs \<Longrightarrow> \<not> (length cs < n \<and> \<not> cb_empty (rxbuf (port y))) \<Longrightarrow>
    uart_step y (at_call t (Read R_irq n cs) y)"
| read_pop: "calls y t = Read R_pop n cs \<Longrightarrow> cb_pop RXBUF_SIZE (rxbuf (port y)) = Some (c, buffer) \<Longrightarrow>
    uart_step y (at_call t (Read R_copy n (cs @ [c])) (y\<lparr>port := (port y)\<lparr>rxbuf := buffer\<rparr>, popped := popped y @ [(t, c)]\<rparr>))"
| read_irq: "calls y t = Read R_irq n cs \<Longrightarrow> uart_step y (at_call t (Read R_end n cs) (y\<lparr>port := rx_start (port y)\<rparr>))"
| read_return: "calls y t = Read R_end n cs \<Longrightarrow>
    uart_step y (at_call t No_call (y\<lparr>api_mutex := None, delivered := (delivered y)(t := delivered y t @ cs)\<rparr>))"
| sync_call: "calls y t = No_call \<Longrightarrow> uart_step y (at_call t (Sync S_lock) y)"
| sync_lock: "calls y t = Sync S_lock \<Longrightarrow> api_mutex y = None \<Longrightarrow>
    uart_step y (at_call t (Sync S_check) (y\<lparr>api_mutex := Some t\<rparr>))"
| sync_wait: "calls y t = Sync S_check \<Longrightarrow> \<not> cb_empty (txbuf (port y)) \<Longrightarrow>
    uart_step y (at_call t (Sync S_lock) (y\<lparr>api_mutex := None\<rparr>))"
| sync_return: "calls y t = Sync S_check \<Longrightarrow> cb_empty (txbuf (port y)) \<Longrightarrow>
    uart_step y (at_call t No_call (y\<lparr>api_mutex := None\<rparr>))"
| set_blocking: "uart_step y (y\<lparr>port := (port y)\<lparr>blocking := b\<rparr>\<rparr>)"
| set_sigio: "uart_step y (y\<lparr>port := sigio func (port y)\<rparr>)"
| tx_interrupt: "tx_attached (port y) \<Longrightarrow> uart_step y (y\<lparr>port := tx_irq room (port y)\<rparr>)"
| rx_interrupt: "rx_attached (port y) \<Longrightarrow> uart_step y (y\<lparr>port := rx_irq (port y)\<rparr>)"
| carrier: "uart_step y (y\<lparr>port := (port y)\<lparr>dcd_level := level\<rparr>\<rparr>)"
| dcd_interrupt: "uart_step y (y\<lparr>port := dcd_irq (port y)\<rparr>)"
| arrive: "uart_step y (y\<lparr>port := (port y)\<lparr>line := line (port y) @ [c]\<rparr>, arrived := arrived y @ [c]\<rparr>)"

end
