(* ===== verification/UartTheorems.thy ===== *)
theory UartTheorems
  imports UartSerial
begin

text \<open>
  The serial port in every run: the handlers and critical sections over the ring buffers' contract, the
  invariants of the mutex, the calls, the streams of bytes and the interrupts, and what follows.
\<close>

section \<open>The handlers\<close>

abbreviation rxc :: "uart \<Rightarrow> char list" where "rxc u \<equiv> cb_content RXBUF_SIZE (rxbuf u)"
abbreviation txc :: "uart \<Rightarrow> char list" where "txc u \<equiv> cb_content TXBUF_SIZE (txbuf u)"

text \<open>A well-formed port: its buffers, and flags that say which handlers are attached.\<close>

definition uart_ok :: "uart \<Rightarrow> bool" where
  "uart_ok u \<longleftrightarrow> cb_ok RXBUF_SIZE (rxbuf u) \<and> cb_ok TXBUF_SIZE (txbuf u) \<and>
     tx_irq_enabled u = tx_attached u \<and> rx_irq_enabled u = rx_attached u"

lemma wake_frame [simp]:
  "rxbuf (wake u) = rxbuf u" "txbuf (wake u) = txbuf u" "tx_irq_enabled (wake u) = tx_irq_enabled u"
  "rx_irq_enabled (wake u) = rx_irq_enabled u" "tx_attached (wake u) = tx_attached u" "rx_attached (wake u) = rx_attached u"
  "wire (wake u) = wire u" "line (wake u) = line u" "blocking (wake u) = blocking u"
  by (simp_all add: wake_def)

lemma sigio_frame [simp]:
  "rxbuf (sigio f u) = rxbuf u" "txbuf (sigio f u) = txbuf u" "tx_irq_enabled (sigio f u) = tx_irq_enabled u"
  "rx_irq_enabled (sigio f u) = rx_irq_enabled u" "tx_attached (sigio f u) = tx_attached u" "rx_attached (sigio f u) = rx_attached u"
  "wire (sigio f u) = wire u" "line (sigio f u) = line u" "blocking (sigio f u) = blocking u"
  by (simp_all add: sigio_def Let_def)

lemma uart_ok_same:
  "uart_ok u \<Longrightarrow> rxbuf v = rxbuf u \<Longrightarrow> txbuf v = txbuf u \<Longrightarrow> tx_irq_enabled v = tx_irq_enabled u \<Longrightarrow>
     rx_irq_enabled v = rx_irq_enabled u \<Longrightarrow> tx_attached v = tx_attached u \<Longrightarrow> rx_attached v = rx_attached u \<Longrightarrow> uart_ok v"
  by (simp add: uart_ok_def)

lemma tx_irq_ok:
  fixes room :: nat
  assumes "uart_ok u"
  defines "v \<equiv> tx_irq room u"
  shows "uart_ok v" "wire v @ txc v = wire u @ txc u" "length (txc v) \<le> length (txc u)"
    "tx_attached v \<longleftrightarrow> tx_attached u \<and> txc v \<noteq> []" "rxbuf v = rxbuf u" "line v = line u" "rx_attached v = rx_attached u"
    "blocking v = blocking u" "wire v = wire u @ take room (txc u)"
proof -
  have ok: "cb_ok TXBUF_SIZE (txbuf u)" using assms(1) by (simp add: uart_ok_def)
  obtain out b where drain: "drain (cb_pop TXBUF_SIZE) room (txbuf u) = (out, b)" by fastforce
  note d = ring.drain_content [OF ok drain]
  have fields: "txbuf v = b" "wire v = wire u @ out" "rxbuf v = rxbuf u" "line v = line u" "rx_attached v = rx_attached u"
    "rx_irq_enabled v = rx_irq_enabled u" "blocking v = blocking u"
    "tx_irq_enabled v = (tx_irq_enabled u \<and> \<not> cb_empty b)"
    "tx_attached v = (if tx_irq_enabled u \<and> cb_empty b then False else tx_attached u)"
    by (auto simp: v_def tx_irq_def drain Let_def)
  have "cb_empty b \<longleftrightarrow> txc v = []" using ring.empty_iff [OF d(1)] fields(1) by simp
  then show "uart_ok v" "tx_attached v \<longleftrightarrow> tx_attached u \<and> txc v \<noteq> []"
    using assms(1) d(1) fields by (auto simp: uart_ok_def)
  show "wire v @ txc v = wire u @ txc u" unfolding fields using d(2) by simp
  show "length (txc v) \<le> length (txc u)" unfolding fields by (subst d(2)) simp
  show "wire v = wire u @ take room (txc u)" unfolding fields using d(3) by (rule arg_cong)
  show "rxbuf v = rxbuf u" "line v = line u" "rx_attached v = rx_attached u" "blocking v = blocking u" by (rule fields)+
qed

lemma rx_irq_ok:
  assumes "uart_ok u"
  defines "v \<equiv> rx_irq u"
  shows "uart_ok v" "rxc v @ line v = rxc u @ line u" "length (rxc u) \<le> length (rxc v)"
    "rx_attached v \<longleftrightarrow> rx_attached u \<and> \<not> cb_full (rxbuf v)" "txbuf v = txbuf u" "wire v = wire u" "tx_attached v = tx_attached u"
    "blocking v = blocking u" "line v = [] \<or> cb_full (rxbuf v)"
proof -
  have ok: "cb_ok RXBUF_SIZE (rxbuf u)" using assms(1) by (simp add: uart_ok_def)
  obtain rest b where refill: "refill (cb_push RXBUF_SIZE) cb_full (line u) (rxbuf u) = (rest, b)" by fastforce
  note d = ring.refill_content [OF ok refill]
  have fields: "rxbuf v = b" "line v = rest" "txbuf v = txbuf u" "wire v = wire u" "tx_attached v = tx_attached u"
    "tx_irq_enabled v = tx_irq_enabled u" "blocking v = blocking u"
    "rx_irq_enabled v = (rx_irq_enabled u \<and> \<not> cb_full b)"
    "rx_attached v = (if rx_irq_enabled u \<and> cb_full b then False else rx_attached u)"
    by (auto simp: v_def rx_irq_def refill Let_def)
  show "uart_ok v" "rx_attached v \<longleftrightarrow> rx_attached u \<and> \<not> cb_full (rxbuf v)"
    using assms(1) d(1) fields by (auto simp: uart_ok_def)
  show "rxc v @ line v = rxc u @ line u" unfolding fields by (rule d(2) [symmetric])
  show "length (rxc u) \<le> length (rxc v)" unfolding fields using d(4) .
  show "line v = [] \<or> cb_full (rxbuf v)" unfolding fields by (rule d(3))
  show "txbuf v = txbuf u" "wire v = wire u" "tx_attached v = tx_attached u" "blocking v = blocking u" by (rule fields)+
qed

lemma tx_start_ok:
  fixes room :: nat
  assumes "uart_ok u"
  defines "v \<equiv> tx_start room u"
  shows "uart_ok v" "wire v @ txc v = wire u @ txc u" "length (txc v) \<le> length (txc u)"
    "txc v = [] \<or> tx_attached v" "rxbuf v = rxbuf u" "line v = line u" "rx_attached v = rx_attached u" "blocking v = blocking u"
proof -
  note t = tx_irq_ok [OF assms(1), of room]
  have "uart_ok v \<and> wire v @ txc v = wire u @ txc u \<and> length (txc v) \<le> length (txc u) \<and> (txc v = [] \<or> tx_attached v) \<and>
      rxbuf v = rxbuf u \<and> line v = line u \<and> rx_attached v = rx_attached u \<and> blocking v = blocking u"
  proof (cases "tx_irq_enabled u")
    case True
    then show ?thesis using assms(1) by (simp add: v_def tx_start_def uart_ok_def)
  next
    case False
    have "cb_empty (txbuf (tx_irq room u)) \<longleftrightarrow> txc (tx_irq room u) = []"
      using ring.empty_iff t(1) by (auto simp: uart_ok_def)
    then show ?thesis using False t by (auto simp: v_def tx_start_def Let_def uart_ok_def)
  qed
  then show "uart_ok v" "wire v @ txc v = wire u @ txc u" "length (txc v) \<le> length (txc u)"
    "txc v = [] \<or> tx_attached v" "rxbuf v = rxbuf u" "line v = line u" "rx_attached v = rx_attached u" "blocking v = blocking u" by blast+
qed

lemma rx_start_ok:
  assumes "uart_ok u"
  defines "v \<equiv> rx_start u"
  shows "uart_ok v" "rxc v @ line v = rxc u @ line u" "length (rxc u) \<le> length (rxc v)"
    "rx_attached v \<or> cb_full (rxbuf v)" "txbuf v = txbuf u" "wire v = wire u" "tx_attached v = tx_attached u" "blocking v = blocking u"
proof -
  note t = rx_irq_ok [OF assms(1)]
  have "uart_ok v \<and> rxc v @ line v = rxc u @ line u \<and> length (rxc u) \<le> length (rxc v) \<and> (rx_attached v \<or> cb_full (rxbuf v)) \<and>
      txbuf v = txbuf u \<and> wire v = wire u \<and> tx_attached v = tx_attached u \<and> blocking v = blocking u"
    using assms(1) t by (cases "rx_irq_enabled u") (auto simp: v_def rx_start_def Let_def uart_ok_def)
  then show "uart_ok v" "rxc v @ line v = rxc u @ line u" "length (rxc u) \<le> length (rxc v)"
    "rx_attached v \<or> cb_full (rxbuf v)" "txbuf v = txbuf u" "wire v = wire u" "tx_attached v = tx_attached u" "blocking v = blocking u" by blast+
qed

lemma at_call_frame [simp]:
  "port (at_call t c y) = port y" "api_mutex (at_call t c y) = api_mutex y" "calls (at_call t c y) = (calls y)(t := c)"
  "pushed (at_call t c y) = pushed y" "popped (at_call t c y) = popped y" "arrived (at_call t c y) = arrived y"
  "written (at_call t c y) = written y" "delivered (at_call t c y) = delivered y"
  by (simp_all add: at_call_def)

section \<open>The mutex\<close>

fun holds_mutex :: "call \<Rightarrow> bool" where
  "holds_mutex No_call = False"
| "holds_mutex (Write p d k) = (p \<notin> {W_lock, W_relock})"
| "holds_mutex (Read p n cs) = (p \<noteq> R_lock)"
| "holds_mutex (Sync p) = (p = S_check)"

definition mutex_inv :: "'t option \<Rightarrow> ('t \<Rightarrow> call) \<Rightarrow> bool" where
  "mutex_inv m cs \<longleftrightarrow> (\<forall>t. holds_mutex (cs t) \<longleftrightarrow> m = Some t)"

lemma mutex_keep: "mutex_inv m cs \<Longrightarrow> holds_mutex c = holds_mutex (cs t) \<Longrightarrow> mutex_inv m (cs(t := c))"
  by (simp add: mutex_inv_def)

lemma mutex_take: "mutex_inv m cs \<Longrightarrow> m = None \<Longrightarrow> holds_mutex c \<Longrightarrow> mutex_inv (Some t) (cs(t := c))"
  by (auto simp: mutex_inv_def)

lemma mutex_give: "mutex_inv m cs \<Longrightarrow> holds_mutex (cs t) \<Longrightarrow> \<not> holds_mutex c \<Longrightarrow> mutex_inv None (cs(t := c))"
  by (auto simp: mutex_inv_def)

lemma mutex_step:
  assumes "uart_step y z" "mutex_inv (api_mutex y) (calls y)"
  shows "mutex_inv (api_mutex z) (calls z)"
  using assms
  by (induction rule: uart_step.induct)
    (simp_all, (rule mutex_keep, assumption, simp; fail | rule mutex_take, assumption, simp, simp; fail
      | rule mutex_give, assumption, simp, simp; fail)+)

lemma mutex_other:
  assumes "mutex_inv m cs" "holds_mutex (cs t)" "u \<noteq> t"
  shows "\<not> holds_mutex (cs u)"
  using assms by (auto simp: mutex_inv_def)

section \<open>The calls\<close>

text \<open>What a call knows of the buffers after its test, and its count.\<close>

fun call_ok :: "uart \<Rightarrow> call \<Rightarrow> bool" where
  "call_ok u (Write p d k) = (k \<le> length d \<and> (p = W_push \<longrightarrow> k < length d \<and> \<not> cb_full (txbuf u)))"
| "call_ok u (Read p n cs) = ((p = R_pop \<longrightarrow> \<not> cb_empty (rxbuf u)) \<and> (p \<in> {R_lock, R_check} \<longrightarrow> cs = []))"
| "call_ok u _ = True"

definition calls_inv :: "uart \<Rightarrow> ('t \<Rightarrow> call) \<Rightarrow> bool" where
  "calls_inv u cs \<longleftrightarrow> uart_ok u \<and> (\<forall>t. call_ok u (cs t))"

lemma calls_keep: "calls_inv u cs \<Longrightarrow> call_ok u c \<Longrightarrow> calls_inv u (cs(t := c))"
  by (simp add: calls_inv_def)

lemma call_ok_mono:
  assumes "call_ok u c" "\<not> cb_full (txbuf u) \<Longrightarrow> \<not> cb_full (txbuf v)" "\<not> cb_empty (rxbuf u) \<Longrightarrow> \<not> cb_empty (rxbuf v)"
  shows "call_ok v c"
  using assms by (cases c) auto

lemma calls_port:
  assumes "calls_inv u cs" "uart_ok v" "length (txc v) \<le> length (txc u)" "length (rxc u) \<le> length (rxc v)"
  shows "calls_inv v cs"
proof -
  have ok: "cb_ok TXBUF_SIZE (txbuf u)" "cb_ok RXBUF_SIZE (rxbuf u)" "cb_ok TXBUF_SIZE (txbuf v)" "cb_ok RXBUF_SIZE (rxbuf v)"
    using assms(1,2) by (simp_all add: calls_inv_def uart_ok_def)
  have "\<not> cb_full (txbuf v)" if "\<not> cb_full (txbuf u)"
    using ring.full_iff [OF ok(1)] ring.full_iff [OF ok(3)] ring.content_le [OF ok(1)] assms(3) that by auto
  moreover have "\<not> cb_empty (rxbuf v)" if "\<not> cb_empty (rxbuf u)"
    using ring.empty_iff [OF ok(2)] ring.empty_iff [OF ok(4)] assms(4) that by auto
  ultimately show ?thesis using assms(1,2) call_ok_mono [of u _ v] by (auto simp: calls_inv_def)
qed

lemma calls_same:
  assumes "calls_inv u cs" "uart_ok v" "txbuf v = txbuf u" "rxbuf v = rxbuf u"
  shows "calls_inv v cs"
  using assms by (intro calls_port [OF assms(1)]) simp_all

lemma calls_step:
  assumes "uart_step y z" "mutex_inv (api_mutex y) (calls y)" "calls_inv (port y) (calls y)"
  shows "calls_inv (port z) (calls z)"
proof -
  have ok: "uart_ok (port y)" and call: "\<And>t. call_ok (port y) (calls y t)" using assms(3) by (simp_all add: calls_inv_def)
  have k: "k \<le> length d" if "calls y t = Write p d k" for t p d k using call [of t] that by simp
  have cs: "cs = []" if "calls y t = Read p n cs" "p \<in> {R_lock, R_check}" for t p n cs using call [of t] that by auto
  show ?thesis
    using assms(1)
  proof cases
    case (write_push t d k)
    have "call_ok v (calls y u)" if "u \<noteq> t" "rxbuf v = rxbuf (port y)" for u v
      using mutex_other [OF assms(2), of t u] call [of u] write_push(2) that by (cases "calls y u") auto
    moreover have "k < length d" using call [of t] write_push(2) by simp
    ultimately show ?thesis
      using write_push(1) ok ring.push_ok [of TXBUF_SIZE "txbuf (port y)"] by (auto simp: calls_inv_def uart_ok_def)
  next
    case (read_pop t n cs c b)
    have "call_ok v (calls y u)" if "u \<noteq> t" "txbuf v = txbuf (port y)" for u v
      using mutex_other [OF assms(2), of t u] call [of u] read_pop(2) that by (cases "calls y u") auto
    then show ?thesis
      using read_pop ok ring.pop_Some [of RXBUF_SIZE "rxbuf (port y)" c b] by (auto simp: calls_inv_def uart_ok_def)
  next
    case (write_irq t d k room)
    have "calls_inv (tx_start room (port y)) (calls y)"
      using tx_start_ok [OF ok, of room] by (intro calls_port [OF assms(3)]) simp_all
    then show ?thesis using write_irq call [of t] by (auto intro: calls_keep)
  next
    case (read_irq t n cs)
    have "calls_inv (rx_start (port y)) (calls y)"
      using rx_start_ok [OF ok] by (intro calls_port [OF assms(3)]) simp_all
    then show ?thesis using read_irq call [of t] by (auto intro: calls_keep)
  next
    case (tx_interrupt room)
    then show ?thesis using tx_irq_ok [OF ok, of room] by (auto intro: calls_port [OF assms(3)])
  next
    case rx_interrupt
    then show ?thesis using rx_irq_ok [OF ok] by (auto intro: calls_port [OF assms(3)])
  next
    case (set_blocking b)
    then show ?thesis using ok by (auto intro!: calls_same [OF assms(3)] uart_ok_same [OF ok])
  next
    case (set_sigio f)
    then show ?thesis using ok by (auto intro!: calls_same [OF assms(3)] uart_ok_same [OF ok])
  next
    case (carrier l)
    then show ?thesis using ok by (auto intro!: calls_same [OF assms(3)] uart_ok_same [OF ok])
  next
    case dcd_interrupt
    then show ?thesis using ok by (auto simp: dcd_irq_def intro!: calls_same [OF assms(3)] uart_ok_same [OF ok])
  next
    case (arrive c)
    then show ?thesis using ok by (auto intro!: calls_same [OF assms(3)] uart_ok_same [OF ok])
  qed (auto intro!: calls_keep [OF assms(3)] dest: k cs)
qed

section \<open>The streams\<close>

definition bytes_of :: "'t \<Rightarrow> ('t \<times> char) list \<Rightarrow> char list" where
  "bytes_of t xs = map snd (filter (\<lambda>x. fst x = t) xs)"

lemma bytes_of_snoc: "bytes_of u (xs @ [(t, c)]) = bytes_of u xs @ (if u = t then [c] else [])"
  by (simp add: bytes_of_def)

fun in_write :: "call \<Rightarrow> char list" where
  "in_write (Write p d k) = take k d"
| "in_write _ = []"

fun in_read :: "call \<Rightarrow> char list" where
  "in_read (Read p n cs) = cs"
| "in_read _ = []"

definition streams_inv :: "'t system \<Rightarrow> bool" where
  "streams_inv y \<longleftrightarrow>
     map snd (pushed y) = wire (port y) @ txc (port y) \<and>
     map snd (popped y) @ rxc (port y) @ line (port y) = arrived y \<and>
     (\<forall>t. bytes_of t (pushed y) = written y t @ in_write (calls y t)) \<and>
     (\<forall>t. bytes_of t (popped y) = delivered y t @ in_read (calls y t))"

lemma reported_result: "reported d (write_result k) = take k d"
  by (simp add: reported_def write_result_def EAGAIN_def)

lemma streams_step:
  assumes "uart_step y z" "calls_inv (port y) (calls y)" "streams_inv y"
  shows "streams_inv z"
proof -
  have ok: "uart_ok (port y)" and call: "\<And>t. call_ok (port y) (calls y t)" using assms(2) by (simp_all add: calls_inv_def)
  have bufs: "cb_ok TXBUF_SIZE (txbuf (port y))" "cb_ok RXBUF_SIZE (rxbuf (port y))" using ok by (simp_all add: uart_ok_def)
  have streams: "map snd (pushed y) = wire (port y) @ txc (port y)" "map snd (popped y) @ rxc (port y) @ line (port y) = arrived y"
    and threads: "\<And>t. bytes_of t (pushed y) = written y t @ in_write (calls y t)"
      "\<And>t. bytes_of t (popped y) = delivered y t @ in_read (calls y t)"
    using assms(3) by (simp_all add: streams_inv_def)
  show ?thesis
    using assms(1)
  proof cases
    case (write_push t d k)
    have k: "k < length d" "\<not> cb_full (txbuf (port y))" using call [of t] write_push(2) by simp_all
    then have "txc (port z) = txc (port y) @ [d ! k]"
      using ring.push_content [OF bufs(1)] write_push(1) by simp
    moreover have "bytes_of u (pushed z) = written y u @ in_write (calls z u)" for u
      using threads(1) [of u] write_push k(1) by (simp add: bytes_of_snoc take_Suc_conv_app_nth)
    moreover have "bytes_of u (popped y) = delivered y u @ in_read (calls z u)" for u
      using threads(2) [of u] write_push by simp
    ultimately show ?thesis using write_push(1) streams by (simp add: streams_inv_def)
  next
    case (read_pop t n cs c b)
    have "rxc (port y) = c # cb_content RXBUF_SIZE b" using ring.pop_Some [OF bufs(2) read_pop(3)] by blast
    moreover have "bytes_of u (popped z) = delivered y u @ in_read (calls z u)" for u
      using threads(2) [of u] read_pop by (simp add: bytes_of_snoc)
    moreover have "bytes_of u (pushed y) = written y u @ in_write (calls z u)" for u
      using threads(1) [of u] read_pop by simp
    ultimately show ?thesis using read_pop(1) streams by (simp add: streams_inv_def)
  next
    case (write_irq t d k room)
    have "bytes_of u (pushed y) = written y u @ in_write (calls z u)" "bytes_of u (popped y) = delivered y u @ in_read (calls z u)" for u
      using threads [of u] write_irq by simp_all
    then show ?thesis using tx_start_ok [OF ok, of room] streams write_irq(1) by (simp add: streams_inv_def)
  next
    case (read_irq t n cs)
    have "bytes_of u (pushed y) = written y u @ in_write (calls z u)" "bytes_of u (popped y) = delivered y u @ in_read (calls z u)" for u
      using threads [of u] read_irq by simp_all
    then show ?thesis using rx_start_ok [OF ok] streams read_irq(1) by (simp add: streams_inv_def)
  next
    case (tx_interrupt room)
    then show ?thesis using tx_irq_ok [OF ok, of room] streams threads by (simp add: streams_inv_def)
  next
    case rx_interrupt
    then show ?thesis using rx_irq_ok [OF ok] streams threads by (simp add: streams_inv_def)
  next
    case (arrive c)
    have "map snd (popped y) @ rxc (port y) @ line (port y) @ [c] = arrived y @ [c]" using streams(2) by (simp flip: append_assoc)
    then show ?thesis using arrive streams(1) threads by (simp add: streams_inv_def)
  next
    case dcd_interrupt
    then show ?thesis using streams threads by (simp add: streams_inv_def dcd_irq_def)
  next
    case (write_return t d k)
    have "bytes_of u (pushed y) = (if u = t then written y t @ take k d else written y u) @ in_write (calls z u)"
      "bytes_of u (popped y) = delivered y u @ in_read (calls z u)" for u
      using threads [of u] write_return by simp_all
    then show ?thesis using streams write_return(1) by (simp add: streams_inv_def reported_result)
  next
    case (read_return t n cs)
    have "bytes_of u (pushed y) = written y u @ in_write (calls z u)"
      "bytes_of u (popped y) = (if u = t then delivered y t @ cs else delivered y u) @ in_read (calls z u)" for u
      using threads [of u] read_return by simp_all
    then show ?thesis using streams read_return(1) by (simp add: streams_inv_def)
  next
    case (read_again t n cs)
    have "bytes_of u (pushed y) = written y u @ in_write (calls z u)" "bytes_of u (popped y) = delivered y u @ in_read (calls z u)" for u
      using threads [of u] call [of u] read_again by (auto split: if_splits)
    then show ?thesis using streams read_again(1) by (simp add: streams_inv_def)
  qed (use streams threads in \<open>auto simp: streams_inv_def dest!: sym [of "calls y _"]\<close>)
qed

section \<open>Interrupts that are needed are on\<close>

fun in_fill :: "call \<Rightarrow> bool" where
  "in_fill (Write p d k) = (p \<in> {W_fill, W_push, W_irq})"
| "in_fill _ = False"

fun in_copy :: "call \<Rightarrow> bool" where
  "in_copy (Read p n cs) = (p \<in> {R_copy, R_pop, R_irq})"
| "in_copy _ = False"

definition irq_inv :: "uart \<Rightarrow> ('t \<Rightarrow> call) \<Rightarrow> bool" where
  "irq_inv u cs \<longleftrightarrow>
     (txc u = [] \<or> tx_attached u \<or> (\<exists>t. in_fill (cs t))) \<and> (rx_attached u \<or> cb_full (rxbuf u) \<or> (\<exists>t. in_copy (cs t)))"

lemma ex_upd: "\<exists>u. P (cs u) \<Longrightarrow> (P (cs t) \<Longrightarrow> P c) \<Longrightarrow> \<exists>u. P ((cs(t := c)) u)"
  by (metis fun_upd_apply)

lemma irq_keep:
  assumes "irq_inv u cs" "in_fill (cs t) \<Longrightarrow> in_fill c" "in_copy (cs t) \<Longrightarrow> in_copy c"
  shows "irq_inv u (cs(t := c))"
  using assms(1) ex_upd [of in_fill cs t c] ex_upd [of in_copy cs t c] assms(2,3) unfolding irq_inv_def by blast

lemma irq_same:
  assumes "irq_inv u cs" "txbuf v = txbuf u" "rxbuf v = rxbuf u" "tx_attached v = tx_attached u" "rx_attached v = rx_attached u"
  shows "irq_inv v cs"
  using assms by (simp add: irq_inv_def)

lemma irq_step:
  assumes "uart_step y z" "calls_inv (port y) (calls y)" "irq_inv (port y) (calls y)"
  shows "irq_inv (port z) (calls z)"
proof -
  have ok: "uart_ok (port y)" using assms(2) by (simp add: calls_inv_def)
  show ?thesis
    using assms(1)
  proof cases
    case (write_push t d k)
    have "\<exists>u. in_fill (calls z u)" using write_push(1) by (intro exI [of _ t]) simp
    moreover have "\<exists>u. in_copy (calls z u)" if "\<exists>u. in_copy (calls y u)"
      using ex_upd [of in_copy "calls y" t, OF that] write_push by simp
    moreover have "rxbuf (port z) = rxbuf (port y)" "rx_attached (port z) = rx_attached (port y)" using write_push(1) by simp_all
    ultimately show ?thesis using assms(3) unfolding irq_inv_def by metis
  next
    case (read_pop t n cs c b)
    have "\<exists>u. in_copy (calls z u)" using read_pop(1) by (intro exI [of _ t]) simp
    moreover have "\<exists>u. in_fill (calls z u)" if "\<exists>u. in_fill (calls y u)"
      using ex_upd [of in_fill "calls y" t, OF that] read_pop by simp
    moreover have "txbuf (port z) = txbuf (port y)" "tx_attached (port z) = tx_attached (port y)" using read_pop(1) by simp_all
    ultimately show ?thesis using assms(3) unfolding irq_inv_def by metis
  next
    case (write_irq t d k room)
    have "\<exists>u. in_copy (calls z u)" if "\<exists>u. in_copy (calls y u)"
      using ex_upd [of in_copy "calls y" t, OF that] write_irq by simp
    moreover have "txc (port z) = [] \<or> tx_attached (port z)" "rxbuf (port z) = rxbuf (port y)" "rx_attached (port z) = rx_attached (port y)"
      using write_irq(1) tx_start_ok [OF ok, of room] by simp_all
    ultimately show ?thesis using assms(3) unfolding irq_inv_def by metis
  next
    case (read_irq t n cs)
    have "\<exists>u. in_fill (calls z u)" if "\<exists>u. in_fill (calls y u)"
      using ex_upd [of in_fill "calls y" t, OF that] read_irq by simp
    moreover have "rx_attached (port z) \<or> cb_full (rxbuf (port z))" "txbuf (port z) = txbuf (port y)" "tx_attached (port z) = tx_attached (port y)"
      using read_irq(1) rx_start_ok [OF ok] by simp_all
    ultimately show ?thesis using assms(3) unfolding irq_inv_def by metis
  next
    case (tx_interrupt room)
    then show ?thesis using assms(3) tx_irq_ok [OF ok, of room] by (auto simp: irq_inv_def)
  next
    case rx_interrupt
    then show ?thesis using assms(3) rx_irq_ok [OF ok] by (auto simp: irq_inv_def)
  next
    case dcd_interrupt
    then show ?thesis using assms(3) by (simp add: irq_inv_def dcd_irq_def)
  qed (auto intro!: irq_keep [OF assms(3)] irq_same [OF assms(3)])
qed

section \<open>All runs\<close>

definition uart_inv :: "'t system \<Rightarrow> bool" where
  "uart_inv y \<longleftrightarrow> mutex_inv (api_mutex y) (calls y) \<and> calls_inv (port y) (calls y) \<and> streams_inv y \<and> irq_inv (port y) (calls y)"

lemma new_buffer:
  assumes "length pool = 256"
  shows "cb_ok 256 (cb_new pool)" "cb_content 256 (cb_new pool) = []"
  using assms by (simp_all add: cb_ok_def cb_new_def cb_content_def cb_size_def)

lemma uart_inv_start:
  assumes "length rxpool = 256" "length txpool = 256"
  shows "uart_inv (uart_system_start (UARTSerial rxpool txpool))"
  using new_buffer [OF assms(1)] new_buffer [OF assms(2)]
  by (simp add: uart_inv_def uart_system_start_def UARTSerial_def mutex_inv_def calls_inv_def uart_ok_def streams_inv_def irq_inv_def
      bytes_of_def RXBUF_SIZE_def TXBUF_SIZE_def)

lemma uart_inv_reachable:
  assumes "length rxpool = 256" "length txpool = 256" "uart_step\<^sup>*\<^sup>* (uart_system_start (UARTSerial rxpool txpool)) y"
  shows "uart_inv y"
  using assms(3)
proof (induction rule: rtranclp_induct)
  case base
  show ?case using uart_inv_start [OF assms(1,2)] .
next
  case (step y z)
  then show ?case
    using mutex_step [of y z] calls_step [of y z] streams_step [of y z] irq_step [of y z] by (simp add: uart_inv_def)
qed

text \<open>
  C19: The serial port loses, doubles and reorders nothing. In every run of any number of threads that
  write, read and wait, with the interrupts at any points between their steps: the bytes that \<open>write\<close>
  put into the buffer are on the wire or still in the buffer, in their order; the bytes that arrived
  have been read, or are in the buffer or in the peripheral, in their order; and outside a call, what a
  thread has put in and taken out is what its calls reported as written and returned as read.
\<close>

theorem uart_streams:
  assumes "length rxpool = 256" "length txpool = 256" "uart_step\<^sup>*\<^sup>* (uart_system_start (UARTSerial rxpool txpool)) y"
  shows "map snd (pushed y) = wire (port y) @ cb_content TXBUF_SIZE (txbuf (port y)) \<and>
     arrived y = map snd (popped y) @ cb_content RXBUF_SIZE (rxbuf (port y)) @ line (port y) \<and>
     (\<forall>t. calls y t = No_call \<longrightarrow> bytes_of t (pushed y) = written y t \<and> bytes_of t (popped y) = delivered y t)"
  using uart_inv_reachable [OF assms] by (simp add: uart_inv_def streams_inv_def)

lemma uart_streams_witness:
  "\<exists>y :: nat system. uart_step\<^sup>*\<^sup>* (uart_system_start (UARTSerial (replicate 256 NUL) (replicate 256 NUL))) y \<and>
     cb_content RXBUF_SIZE (rxbuf (port y)) @ line (port y) = ''a''"
proof -
  let ?x = "uart_system_start (UARTSerial (replicate 256 NUL) (replicate 256 NUL)) :: nat system"
  let ?y = "?x\<lparr>port := (port ?x)\<lparr>line := line (port ?x) @ ''a''\<rparr>, arrived := arrived ?x @ ''a''\<rparr>"
  let ?z = "?y\<lparr>port := rx_irq (port ?y)\<rparr>"
  have "uart_step ?x ?y" by (rule uart_step.arrive)
  moreover have "uart_step ?y ?z" by (rule uart_step.rx_interrupt) (simp add: uart_system_start_def UARTSerial_def)
  ultimately have run: "uart_step\<^sup>*\<^sup>* ?x ?z" by (meson converse_rtranclp_into_rtranclp r_into_rtranclp)
  have "arrived ?z = map snd (popped ?z) @ cb_content RXBUF_SIZE (rxbuf (port ?z)) @ line (port ?z)"
    using uart_streams [OF _ _ run] by (simp del: select_convs update_convs)
  moreover have "popped ?z = []" "arrived ?z = ''a''" by (simp_all add: uart_system_start_def)
  ultimately show ?thesis using run by (intro exI [of _ ?z]) simp
qed

text \<open>
  C20: No byte is stuck. In every run, as long as no \<open>write\<close> is between its test for room and its critical
  section, a byte that waits in the transmit buffer has its interrupt on, and the interrupt sends the
  oldest one; as long as no \<open>read\<close> is copying, a byte that waits in the peripheral is taken into the
  receive buffer by the interrupt, unless the buffer is full.
\<close>

theorem uart_no_byte_stuck:
  assumes "length rxpool = 256" "length txpool = 256" "uart_step\<^sup>*\<^sup>* (uart_system_start (UARTSerial rxpool txpool)) y"
  shows "((\<forall>t. \<not> in_fill (calls y t)) \<and> cb_content TXBUF_SIZE (txbuf (port y)) = c # cs \<longrightarrow>
       (\<exists>z. uart_step y z \<and> wire (port z) = wire (port y) @ [c])) \<and>
     ((\<forall>t. \<not> in_copy (calls y t)) \<and> line (port y) \<noteq> [] \<and> \<not> cb_full (rxbuf (port y)) \<longrightarrow>
       (\<exists>z. uart_step y z \<and> (line (port z) = [] \<or> cb_full (rxbuf (port z)))))"
proof (intro conjI impI)
  have inv: "irq_inv (port y) (calls y)" "uart_ok (port y)"
    using uart_inv_reachable [OF assms] by (simp_all add: uart_inv_def calls_inv_def)
  show "\<exists>z. uart_step y z \<and> wire (port z) = wire (port y) @ [c]"
    if wait: "(\<forall>t. \<not> in_fill (calls y t)) \<and> txc (port y) = c # cs"
  proof -
    have "tx_attached (port y)" using inv(1) wait by (auto simp: irq_inv_def)
    then have "uart_step y (y\<lparr>port := tx_irq 1 (port y)\<rparr>)" by (rule uart_step.tx_interrupt)
    moreover have "wire (tx_irq 1 (port y)) = wire (port y) @ [c]" using tx_irq_ok(9) [OF inv(2), of 1] wait by simp
    ultimately show ?thesis by (intro exI [of _ "y\<lparr>port := tx_irq 1 (port y)\<rparr>"]) simp
  qed
  show "\<exists>z. uart_step y z \<and> (line (port z) = [] \<or> cb_full (rxbuf (port z)))"
    if wait: "(\<forall>t. \<not> in_copy (calls y t)) \<and> line (port y) \<noteq> [] \<and> \<not> cb_full (rxbuf (port y))"
  proof -
    have "rx_attached (port y)" using inv(1) wait by (auto simp: irq_inv_def)
    then have "uart_step y (y\<lparr>port := rx_irq (port y)\<rparr>)" by (rule uart_step.rx_interrupt)
    then show ?thesis using rx_irq_ok(9) [OF inv(2)] by (intro exI [of _ "y\<lparr>port := rx_irq (port y)\<rparr>"]) simp
  qed
qed

lemma uart_no_byte_stuck_witness:
  "\<exists>y z :: nat system. uart_step y z \<and> line (port y) = ''a'' \<and> (line (port z) = [] \<or> cb_full (rxbuf (port z)))"
proof -
  let ?x = "uart_system_start (UARTSerial (replicate 256 NUL) (replicate 256 NUL)) :: nat system"
  let ?y = "?x\<lparr>port := (port ?x)\<lparr>line := line (port ?x) @ ''a''\<rparr>, arrived := arrived ?x @ ''a''\<rparr>"
  have "uart_step ?x ?y" by (rule uart_step.arrive)
  then have run: "uart_step\<^sup>*\<^sup>* ?x ?y" by blast
  have line: "line (port ?y) = ''a''" "\<not> cb_full (rxbuf (port ?y))" "\<forall>t. \<not> in_copy (calls ?y t)"
    by (simp_all add: uart_system_start_def UARTSerial_def cb_full_def cb_new_def)
  then have "\<exists>z. uart_step ?y z \<and> (line (port z) = [] \<or> cb_full (rxbuf (port z)))"
    using uart_no_byte_stuck [OF _ _ run] by (simp del: select_convs update_convs)
  then show ?thesis using line(1) by blast
qed

section \<open>Writing in a critical section\<close>

lemma flush_wire:
  assumes "uart_ok u" "length (txc u) \<le> sum_list rooms"
  shows "\<exists>v. flush_buffer rooms u = Some v \<and> wire v = wire u @ txc u"
  using assms
proof (induction rooms u rule: flush_buffer.induct)
  case (1 rooms u)
  have empty: "cb_empty (txbuf u) \<longleftrightarrow> txc u = []" using 1(2) ring.empty_iff by (auto simp: uart_ok_def)
  show ?case
  proof (cases "txc u = []")
    case True
    then show ?thesis using empty by (subst flush_buffer.simps) simp
  next
    case False
    then obtain room rest where rooms: "rooms = room # rest" using 1(3) by (cases rooms) auto
    note t = tx_irq_ok [OF 1(2), of room]
    have streams: "wire (tx_irq room u) @ txc (tx_irq room u) = wire u @ txc u" by (rule t(2))
    then have "txc (tx_irq room u) = drop room (txc u)"
      unfolding t(9) by (metis append_assoc append_take_drop_id same_append_eq)
    then have "length (txc (tx_irq room u)) \<le> sum_list rest" using 1(3) rooms by simp
    then obtain v where "flush_buffer rest (tx_irq room u) = Some v" "wire v = wire (tx_irq room u) @ txc (tx_irq room u)"
      using 1(1) [OF _ rooms t(1)] empty False by blast
    then show ?thesis using streams empty False rooms by (subst flush_buffer.simps) simp
  qed
qed

lemma put_loop_wire:
  "wire (put_loop buf p w n u) = wire u @ map (\<lambda>i. buf ! i) [p..<p + (n - w + 1) div 2]"
proof (induction buf p w n u rule: put_loop.induct)
  case (1 buf p w n u)
  show ?case
  proof (cases "w < n")
    case True
    have "(n - w + 1) div 2 = Suc ((n - (w + 1 + 1) + 1) div 2)" using True by (cases "n - w = 1") auto
    then have "[p..<p + (n - w + 1) div 2] = p # [p + 1..<p + 1 + (n - (w + 1 + 1) + 1) div 2]" by (simp add: upt_rec)
    then show ?thesis using 1 [OF True refl refl refl refl] True by (subst put_loop.simps) (simp add: Let_def)
  next
    case False
    then show ?thesis by (subst put_loop.simps) simp
  qed
qed

text \<open>
  C36: A write in a critical section loses half of its bytes. \<open>write_unbuffered\<close>, which reports fatal
  errors, first sends what waits in the buffer, as long as the peripheral takes it; then it counts
  every byte twice: the second half of the text is not sent, and yet its whole length is reported.
\<close>

theorem write_unbuffered_half:
  assumes "uart_ok u" "length (cb_content TXBUF_SIZE (txbuf u)) \<le> sum_list rooms"
  shows "\<exists>v. write_unbuffered rooms buf u = Some (int (length buf), v) \<and>
     wire v = wire u @ cb_content TXBUF_SIZE (txbuf u) @ take ((length buf + 1) div 2) buf"
proof -
  obtain v where "flush_buffer rooms u = Some v" "wire v = wire u @ txc u" using flush_wire [OF assms] by blast
  moreover have "map (\<lambda>i. buf ! i) [0..<(length buf + 1) div 2] = take ((length buf + 1) div 2) buf"
    by (rule nth_equalityI) auto
  ultimately show ?thesis by (simp add: write_unbuffered_def put_loop_wire)
qed

lemma write_unbuffered_half_witness:
  "\<exists>v. write_unbuffered [] ''fault'' (UARTSerial (replicate 256 NUL) (replicate 256 NUL)) = Some (5, v) \<and> wire v = ''fau''"
proof -
  let ?u = "UARTSerial (replicate 256 NUL) (replicate 256 NUL)"
  have "uart_ok ?u" "txc ?u = []" "wire ?u = []"
    using new_buffer [of "replicate 256 NUL"] by (simp_all add: UARTSerial_def uart_ok_def RXBUF_SIZE_def TXBUF_SIZE_def)
  then show ?thesis using write_unbuffered_half [of ?u "[]" "''fault''"] by simp
qed

end
