(* ===== verification/Spec2Isabelle.thy ===== *)
theory Spec2Isabelle
  imports HttpSafety HttpResponseTheorems HttpUrlSafety HttpRequestTheorems IpStringTheorems NsBitsTheorems
    DhtTheorems SensorsTheorems Container AppTheorems EqueueTheorems DnsTheorems DnsCache RtcTheorems
    CrcTheorems UartTheorems
begin

text \<open>
  A verification development for the firmware of a weather station, an mbed OS application under
  \<open>src/mbed\<close> that reads sensors and posts what it reads to a web server over HTTP.

  The program. Threads sample a microphone, a light and a temperature sensor and a DHT22
  (\<open>Sicet7/SoundSensor.cpp\<close>, \<open>LightSensor.cpp\<close>, \<open>TempSensor.cpp\<close>, \<open>DhtThread.cpp\<close>, \<open>DHT/DHT.cpp\<close>) into
  sums under a lock. The objects are made on first use by \<open>Sicet7/Container.cpp\<close>. Every five seconds
  the main loop (\<open>main.cpp\<close>) takes the averages out of the sensors, writes them as JSON and sends a
  POST with the HTTP client (\<open>mbed-http/source\<close>), which parses the URL and the response with
  \<open>mbed-http/http_parser\<close>. The operating system below brings an event queue for work that is
  put off (\<open>mbed-os/events/equeue/equeue.c\<close>) and the calendar of the real-time clock
  (\<open>platform/mbed_mktime.c\<close>), its drivers cyclic redundancy checks (\<open>drivers/MbedCRC.h\<close>)
  and a buffered serial port (\<open>drivers/UARTSerial.cpp\<close>); the network stack resolves the name of the server
  (\<open>features/netsocket/nsapi_dns.cpp\<close>) and uses the byte, address and checksum functions of
  \<open>nanostack-libservice\<close>.

  The theories, each with the definitions in the order of the code:
  \<^item> \<open>Prelude\<close>: words, characters, options, the \<open>result\<close> of \<open>memcpy\<close>-like reads, and the lemmas
    that all share. \<open>Format\<close>: numbers printed by \<open>sprintf\<close>.
  \<^item> \<open>HttpTables\<close>, \<open>HttpState\<close>, \<open>HttpStartLine\<close>, \<open>HttpHeaders\<close>, \<open>HttpBody\<close>, \<open>HttpExecute\<close>: the state
    machine \<open>http_parser_execute\<close>, one definition \<open>case_s_...\<close> for each group of \<open>case\<close> labels, with the
    parser as a record (\<open>http_parser\<close>), the locals of the call as another (\<open>exec\<close>), the callbacks as
    functions on an environment, and every \<open>return\<close>, \<open>goto error\<close>, \<open>goto reexecute\<close> and failed
    assertion as an \<open>outcome\<close>. \<open>HttpUrlChar\<close>, \<open>HttpUrl\<close>: \<open>http_parser_parse_url\<close>.
  \<^item> \<open>HttpClient\<close>: \<open>HttpResponse\<close>, \<open>HttpParser\<close> and the receive loop of \<open>create_http_response\<close>.
    \<open>HttpRequest\<close>: \<open>ParsedUrl\<close>, \<open>HttpRequestBuilder\<close>, \<open>send\<close>.
  \<^item> \<open>Dht\<close>: \<open>DHT::readData\<close> on a line that is a function of time. \<open>Sensors\<close>: the four sensor classes and
    the step relation \<open>sensor_step\<close> of a sensor thread beside the main loop. \<open>Container\<close>: the step
    relation \<open>getter_step\<close> of any number of threads in a getter. \<open>App\<close>: an iteration of the main loop.
  \<^item> \<open>NsBits\<close>, \<open>IpString\<close>: \<open>libservice\<close>.
  \<^item> \<open>Equeue\<close>: the event queue, with its events in a store from addresses to records, and the places the
    code reaches by a pointer to a pointer as a datatype (\<open>ptr\<close>), so that aliasing is what it is in C.
  \<^item> \<open>Dns\<close>, \<open>DnsQuery\<close>: the packets of the DNS resolver, its cache, and the blocking query, with the
    network, the clock and the heap as a record of functions (\<open>dns_env\<close>).
  \<^item> \<open>Rtc\<close>: \<open>_rtc_maketime\<close> and \<open>_rtc_localtime\<close> in 32-bit words, and the calendar as sums of the
    lengths of years and months (\<open>tm_seconds\<close>).
  \<^item> \<open>CrcTables\<close>, \<open>Crc\<close>: the checksum object with its six tables, bit by bit and by table; a read of a table
    by the wrong type or past its end is \<open>None\<close>.
  \<^item> \<open>CircularBuffer\<close>, \<open>UartSerial\<close>: the ring buffer, and the serial port with its interrupt handlers and the
    step relation \<open>uart_step\<close> of any number of threads in its calls.

  What the lemmas show:
  \<^item> \<open>HttpInvariant\<close> states \<open>parser_inv\<close>, what holds of a parser between calls, and the invariant of the
    loop; \<open>HttpSafetyLine\<close>, \<open>HttpSafetyHeaders\<close>, \<open>HttpSafetyBody\<close> prove it for each case, \<open>HttpSafety\<close>
    for the loop: no assertion fails, no read leaves the buffer, the fuel does not run out. The
    callbacks are a locale of laws, interpreted on the empty settings and on those of the client.
    \<open>HttpUrlSafety\<close> does the same for URLs.
  \<^item> \<open>HttpTheorems\<close>: method names, the tables, Content-Length without wrap-around, bodies of known length
    in any pieces (locale \<open>body_sink\<close> with its two interpretations), the safety of the receive loop and
    a defect of the response object.
  \<^item> \<open>HttpNames\<close> shows that the comparison of field names on the fly is exact (\<open>name_state\<close>).
    \<open>HttpSteps\<close> has runs of the parser's loop without its fuel (\<open>steps\<close>) and what is left to read
    (\<open>at_rest\<close>); \<open>HttpResponseLine\<close> and \<open>HttpResponseHeaders\<close> follow the loop through a status line and
    header lines, and \<open>HttpResponseTheorems\<close> through a whole response, with \<open>body_sink\<close> for the rest of
    the body: what the server sends is what the client has.
  \<^item> \<open>HttpRequestTheorems\<close>: the headers refine a finite map, \<open>build\<close> is exact, \<open>send_buffer\<close> reports what
    the socket took. \<open>AppTheorems\<close>: numbers as text, the payload is read back, the request of the
    application, and when an iteration is defined.
  \<^item> \<open>DhtTheorems\<close>: the duration of a transfer, the protocol is decoded, the readings.
    \<open>SensorsTheorems\<close>: an invariant of the two threads (locale \<open>averaging\<close>, interpreted for each sensor):
    all samples ever added are those of the values read, in order, and those that still wait in the sum;
    no division by zero; and when the average of the sound level is exact.
    \<open>Container\<close>: one instance, no deadlock.
  \<^item> \<open>NsBitsTheorems\<close>, \<open>IpStringTheorems\<close>: round trips, bit strings, the checksum.
  \<^item> \<open>EqueueSlots\<close> relates the linked structure of the event queue to a list of events (\<open>queue_holds\<close>);
    \<open>EqueueEnqueue\<close>, \<open>EqueueUnqueue\<close>, \<open>EqueueDequeue\<close> show that the three operations insert into it in
    order, remove from it and split it; \<open>EqueueMemory\<close> does the same for the free blocks, which with those in
    use are all of the buffer below the slab (\<open>blocks\<close>). The theorems on dispatching are for one-shot events
    and callbacks that only let time pass; the model has periodic events and destructors too.
    \<open>EqueueInvariant\<close> puts the two together (\<open>equeue_ok\<close>), \<open>EqueueOperations\<close> lifts this to the
    operations of the interface, \<open>EqueueTheorems\<close> to every sequence of them (\<open>equeue_runs\<close>).
  \<^item> \<open>DnsPackets\<close> shows that well-formed responses are read as they were written, \<open>DnsTheorems\<close> that the
    question is the standard's, that the query resolves a name, that it ends with few datagrams unless one
    of the first three leads it past its packet (\<open>overruns\<close>), and such a datagram; \<open>DnsCache\<close> that the cache,
    while the clock stands still, refines a map that forgets at most one name, the one accessed first.
  \<^item> \<open>RtcTheorems\<close>: the two conversions agree with the calendar, without a wrap-around, and with each other.
  \<^item> \<open>CrcRegister\<close> has one shift register for all widths and checks the tables against it by a recurrence;
    \<open>CrcTheorems\<close>: tables and bits agree, both 32-bit algorithms agree, bursts are detected, one table is
    too short, and exactly which data get a wrong checksum by it (\<open>ibm_row\<close>).
  \<^item> \<open>CircularBuffer\<close> also states bounded queues as a locale (\<open>bounded_queue\<close>), with the two loops of its
    users, and interprets it on the class; \<open>UartTheorems\<close> uses it for the invariants of the port: no byte
    is lost, doubled or stuck, except in writes from critical sections.

  Bounds and fuel. \<open>execute_fuel\<close> is \<open>8 * length data + 8\<close>: a byte causes at most five \<open>goto reexecute\<close>,
  and the safety theorem shows that it suffices. Buffers are smaller than \<open>2^64\<close> bytes, URLs than 64K,
  where the theorems say so. The loops of the event queue follow pointers and may not end on a damaged
  queue; they are partial functions, and the theorems show that they return. Times of the queue that are
  compared lie less than \<open>2^31\<close> apart, and its buffer has less than \<open>2^23\<close> bytes, so that an identifier
  fits in an \<open>int\<close>. All other functions are total without fuel.

  Numbers. Fixed-width integers are words. A \<open>float\<close> is a rational number, and \<open>fl\<close> rounds the result of
  an operation; infinities and the sign of zero are not modelled, a division of 0 by 0 is \<open>None\<close>.

  Not modelled: the sockets, the RTOS and the hardware below the calls above (parameters: lists of
  answers, functions of time); the HTTPS and WebSocket variants of the client; the dew point
  functions of the DHT driver; a failing \<open>malloc\<close> of the client's receive buffer; the asynchronous DNS queries; the text tables of the HTTP parser; the chaining of two event queues and
  their C++ wrapper; the hardware mode of the checksums; the server application (PHP, under
  \<open>src/src\<close>); the rest of mbed OS under \<open>src/mbed/mbed-os\<close>.
\<close>

end
